(* ===== verification/Prelude.thy ===== *)
theory Prelude
  imports Main "HOL-Library.Word" "HOL-Library.Char_ord" "HOL-Library.List_Lexorder"
begin

text \<open>
  Shared vocabulary of the development: the Go types every component uses (byte strings,
  64-bit counters, error results), the functions of the Go standard library that several
  components call (\<^verbatim>\<open>strconv\<close>, \<^verbatim>\<open>strings\<close>,
  \<^verbatim>\<open>unicode/utf8\<close>), and the generic lemmas about them.

  A Go string or byte slice is a sequence of bytes; HOL's \<open>string\<close> is a list of 8-bit
  characters, so the two agree on length, indexing and on the bytewise order that
  \<^verbatim>\<open>sort.Strings\<close> and \<open><\<close> use (the library's lexicographic list order over
  the character order). A Go \<^verbatim>\<open>uint64\<close> is a \<open>64 word\<close>; a Go
  \<^verbatim>\<open>int\<close> that holds a length or a configured limit is an \<open>int\<close>, since none
  of the modelled values comes near the 64-bit range.
\<close>

section \<open>Types\<close>

type_synonym bytes = string
type_synonym uint64 = "64 word"

definition max_uint64 :: uint64 where
  "max_uint64 = - 1"

lemma unat_inc: "(w :: uint64) \<noteq> max_uint64 \<Longrightarrow> unat (w + 1) = Suc (unat w)"
proof -
  assume "w \<noteq> max_uint64"
  then have "1 + w \<noteq> 0" by (simp add: max_uint64_def add_eq_0_iff)
  then show ?thesis using unatSuc [of w] by (simp add: add.commute)
qed

lemma word_inc_mono: "(c :: uint64) \<le> d \<Longrightarrow> d \<noteq> max_uint64 \<Longrightarrow> c + 1 \<le> d + 1"
proof -
  assume cd: "c \<le> d" "d \<noteq> max_uint64"
  then have "c \<noteq> max_uint64" unfolding max_uint64_def by (metis word_order.extremum_uniqueI)
  with cd show ?thesis by (simp add: word_le_nat_alt unat_inc)
qed

lemma unat_max_uint64: "unat max_uint64 = 2 ^ 64 - 1"
  by (simp add: max_uint64_def unsigned_minus_1_eq_mask mask_eq_exp_minus_1)

lemma word_add_no_wrap: "\<not> max_uint64 - c < d \<Longrightarrow> c \<le> c + (d :: uint64)"
proof -
  assume "\<not> max_uint64 - c < d"
  then have "unat d \<le> unat (max_uint64 - c)" by (simp add: word_le_nat_alt word_less_nat_alt)
  also have "unat (max_uint64 - c) = unat max_uint64 - unat c" by (rule unat_sub) (simp add: max_uint64_def)
  finally have "unat d \<le> 2 ^ 64 - 1 - unat c" by (simp add: unat_max_uint64)
  moreover have "unat c < 2 ^ 64" using unsigned_less [of c] by simp
  ultimately have "unat c + unat d < 2 ^ 64" by simp
  then have "unat (c + d) = unat c + unat d" by (intro unat_add_lem [THEN iffD1]) simp
  then show ?thesis by (simp add: word_le_nat_alt)
qed

lemma word_inc_ge: "(d :: uint64) \<noteq> max_uint64 \<Longrightarrow> d \<le> d + 1"
  by (simp add: word_le_nat_alt unat_inc)

text \<open>The length Go's \<^verbatim>\<open>len\<close> returns, as a signed integer.\<close>

abbreviation go_len :: "'a list \<Rightarrow> int" where
  "go_len xs \<equiv> int (length xs)"

section \<open>Fact collections\<close>

named_theorems go_str "facts about the string functions of the Go library"
named_theorems go_num "facts about decimal printing and parsing"

section \<open>Results\<close>

text \<open>
  A Go function that returns \<^verbatim>\<open>(value, error)\<close> returns a sum: \<open>Inl\<close> the error,
  \<open>Inr\<close> the value. \<open>and_then\<close> is the early return on an error.
\<close>

fun and_then :: "'e + 'a \<Rightarrow> ('a \<Rightarrow> 'e + 'b) \<Rightarrow> 'e + 'b" where
  "and_then (Inl e) f = Inl e"
| "and_then (Inr a) f = f a"

lemma and_then_Inr_iff: "and_then r f = Inr b \<longleftrightarrow> (\<exists>a. r = Inr a \<and> f a = Inr b)"
  by (cases r) auto

lemma and_then_Inl_iff:
  "and_then r f = Inl e \<longleftrightarrow> r = Inl e \<or> (\<exists>a. r = Inr a \<and> f a = Inl e)"
  by (cases r) auto

lemma and_then_cong [fundef_cong]:
  "r = r' \<Longrightarrow> (\<And>a. r' = Inr a \<Longrightarrow> f a = g a) \<Longrightarrow> and_then r f = and_then r' g"
  by (cases r') auto

text \<open>A loop that builds a slice element by element and returns on the first error.\<close>

fun map_result :: "('a \<Rightarrow> 'e + 'b) \<Rightarrow> 'a list \<Rightarrow> 'e + 'b list" where
  "map_result f [] = Inr []"
| "map_result f (x # xs) =
     and_then (f x) (\<lambda>y. and_then (map_result f xs) (\<lambda>ys. Inr (y # ys)))"

lemma map_result_Inr_iff:
  "map_result f xs = Inr ys \<longleftrightarrow> list_all2 (\<lambda>x y. f x = Inr y) xs ys"
proof (induction xs arbitrary: ys)
  case Nil
  then show ?case by auto
next
  case (Cons x xs)
  then show ?case by (cases ys) (auto simp: and_then_Inr_iff)
qed

lemma map_result_total: "\<forall>x\<in>set xs. \<exists>y. f x = Inr y \<Longrightarrow> \<exists>ys. map_result f xs = Inr ys"
  by (induction xs) auto

lemma map_result_map: "\<forall>x\<in>set xs. f x = Inr (g x) \<Longrightarrow> map_result f xs = Inr (map g xs)"
  by (induction xs) auto

lemma map_result_cong [fundef_cong]:
  "xs = ys \<Longrightarrow> (\<And>x. x \<in> set ys \<Longrightarrow> f x = g x) \<Longrightarrow> map_result f xs = map_result g ys"
proof (induction ys arbitrary: xs)
  case (Cons y ys)
  then have "map_result f ys = map_result g ys" by simp
  with Cons.prems show ?case by simp
qed simp

section \<open>strconv: decimal integers\<close>

definition digit_char :: "nat \<Rightarrow> char" where
  "digit_char d = char_of (48 + d)"

definition digit_val :: "char \<Rightarrow> nat" where
  "digit_val c = of_char c - 48"

definition is_digit :: "char \<Rightarrow> bool" where
  "is_digit c \<longleftrightarrow> 48 \<le> (of_char c :: nat) \<and> (of_char c :: nat) \<le> 57"

text \<open>\<^verbatim>\<open>strconv.Itoa\<close> and \<^verbatim>\<open>strconv.FormatUint(_, 10)\<close> on a value that is not negative.\<close>

fun itoa :: "nat \<Rightarrow> string" where
  "itoa n = (if n < 10 then [digit_char n] else itoa (n div 10) @ [digit_char (n mod 10)])"

declare itoa.simps [simp del]

definition format_uint :: "uint64 \<Rightarrow> string" where
  "format_uint w = itoa (unat w)"

text \<open>
  \<^verbatim>\<open>strconv.ParseUint(s, 10, bits)\<close>: a non-empty run of decimal digits whose value fits;
  anything else is an error.
\<close>

definition digits_val :: "string \<Rightarrow> nat" where
  "digits_val s = foldl (\<lambda>n c. 10 * n + digit_val c) 0 s"

definition parse_uint :: "nat \<Rightarrow> string \<Rightarrow> nat option" where
  "parse_uint bits s =
     (if s \<noteq> [] \<and> list_all is_digit s \<and> digits_val s < 2 ^ bits then Some (digits_val s) else None)"

lemma of_char_digit_char [go_num]: "d < 10 \<Longrightarrow> (of_char (digit_char d) :: nat) = 48 + d"
  by (simp add: digit_char_def)

lemma digit_val_digit_char [go_num]: "d < 10 \<Longrightarrow> digit_val (digit_char d) = d"
  by (simp add: digit_val_def go_num)

lemma is_digit_digit_char [go_num]: "d < 10 \<Longrightarrow> is_digit (digit_char d)"
  by (simp add: is_digit_def go_num)

lemma digit_char_digit_val [go_num]: "is_digit c \<Longrightarrow> digit_char (digit_val c) = c"
  by (auto simp: digit_char_def digit_val_def is_digit_def)

lemma digit_val_less: "is_digit c \<Longrightarrow> digit_val c < 10"
  by (auto simp: digit_val_def is_digit_def)

lemma itoa_nonempty [simp]: "itoa n \<noteq> []"
  by (subst itoa.simps) simp

lemma itoa_digits [go_num]: "list_all is_digit (itoa n)"
proof (induction n rule: itoa.induct)
  case (1 n)
  then show ?case by (subst itoa.simps) (auto simp: go_num)
qed

lemma digits_val_snoc: "digits_val (s @ [c]) = 10 * digits_val s + digit_val c"
  by (simp add: digits_val_def)

lemma digits_val_itoa [go_num]: "digits_val (itoa n) = n"
proof (induction n rule: itoa.induct)
  case (1 n)
  show ?case
  proof (cases "n < 10")
    case True
    then show ?thesis by (subst itoa.simps) (simp add: digits_val_def go_num)
  next
    case False
    with 1 have "digits_val (itoa n) = 10 * (n div 10) + n mod 10"
      by (subst itoa.simps) (simp add: digits_val_snoc go_num)
    then show ?thesis by simp
  qed
qed

lemma itoa_inject [simp]: "itoa m = itoa n \<longleftrightarrow> m = n"
  by (metis digits_val_itoa)

lemma parse_uint_itoa [go_num]: "n < 2 ^ bits \<Longrightarrow> parse_uint bits (itoa n) = Some n"
  by (simp add: parse_uint_def go_num)

lemma parse_uint_Some_less: "parse_uint bits s = Some n \<Longrightarrow> n < 2 ^ bits"
  by (auto simp: parse_uint_def split: if_splits)

lemma parse_format_uint [go_num]: "parse_uint 64 (format_uint w) = Some (unat w)"
proof -
  have "unat w < 2 ^ 64" using unsigned_less [of w] by simp
  then show ?thesis by (simp add: format_uint_def go_num)
qed

text \<open>A canonical decimal starts with \<open>0\<close> only when it is the single digit \<open>0\<close>.\<close>

lemma itoa_hd_nonzero: "0 < n \<Longrightarrow> hd (itoa n) \<noteq> CHR ''0''"
proof (induction n rule: itoa.induct)
  case (1 n)
  show ?case
  proof (cases "n < 10")
    case True
    have "(of_char (digit_char n) :: nat) \<noteq> of_char (CHR ''0'')"
      using True 1(2) by (simp add: go_num)
    then have "digit_char n \<noteq> CHR ''0''" by metis
    with True show ?thesis by (subst itoa.simps) simp
  next
    case False
    with 1 have "hd (itoa (n div 10)) \<noteq> CHR ''0''" by simp
    with False show ?thesis by (subst itoa.simps) (simp add: hd_append)
  qed
qed

lemma length_itoa_mono: "m \<le> n \<Longrightarrow> length (itoa m) \<le> length (itoa n)"
proof (induction n arbitrary: m rule: itoa.induct)
  case (1 n)
  show ?case
  proof (cases "m < 10")
    case True
    then have "length (itoa m) = 1" by (simp add: itoa.simps)
    then show ?thesis by (cases "itoa n") auto
  next
    case False
    with 1(2) have n: "\<not> n < 10" by simp
    have "length (itoa (m div 10)) \<le> length (itoa (n div 10))"
      using 1(1) [OF n, of "m div 10"] 1(2) by (simp add: div_le_mono)
    with False n show ?thesis
      by (subst itoa.simps, subst (2) itoa.simps) simp
  qed
qed

section \<open>strings\<close>

definition has_prefix :: "string \<Rightarrow> string \<Rightarrow> bool" where
  "has_prefix s p \<longleftrightarrow> take (length p) s = p"

definition has_suffix :: "string \<Rightarrow> string \<Rightarrow> bool" where
  "has_suffix s p \<longleftrightarrow> length p \<le> length s \<and> drop (length s - length p) s = p"

definition trim_suffix :: "string \<Rightarrow> string \<Rightarrow> string" where
  "trim_suffix s p = (if has_suffix s p then take (length s - length p) s else s)"

text \<open>\<^verbatim>\<open>strings.Split(s, sep)\<close> for a separator of one byte: never the empty list.\<close>

fun split_on :: "char \<Rightarrow> string \<Rightarrow> string list" where
  "split_on c [] = [[]]"
| "split_on c (x # xs) =
     (if x = c then [] # split_on c xs
      else (case split_on c xs of [] \<Rightarrow> [[x]] | y # ys \<Rightarrow> (x # y) # ys))"

text \<open>\<^verbatim>\<open>strings.Cut(s, sep)\<close>: before, after, found.\<close>

definition cut_at :: "char \<Rightarrow> string \<Rightarrow> string \<times> string \<times> bool" where
  "cut_at c s =
     (if c \<in> set s then (takeWhile (\<lambda>x. x \<noteq> c) s, tl (dropWhile (\<lambda>x. x \<noteq> c) s), True)
      else (s, [], False))"

lemma has_prefix_iff: "has_prefix s p \<longleftrightarrow> (\<exists>r. s = p @ r)"
  unfolding has_prefix_def by (metis append_eq_conv_conj append_take_drop_id)

lemma has_suffix_iff: "has_suffix s p \<longleftrightarrow> (\<exists>r. s = r @ p)"
proof
  assume "has_suffix s p"
  then have "s = take (length s - length p) s @ p"
    unfolding has_suffix_def by (metis append_take_drop_id)
  then show "\<exists>r. s = r @ p" by blast
qed (auto simp: has_suffix_def)

lemma trim_suffix_append [simp]: "trim_suffix (s @ p) p = s"
  by (simp add: trim_suffix_def has_suffix_def)

lemma split_on_nonempty [simp]: "split_on c s \<noteq> []"
  by (cases s) (auto split: list.splits)

lemma split_on_no_sep [go_str]: "c \<notin> set s \<Longrightarrow> split_on c s = [s]"
  by (induction s) auto

lemma split_on_append_sep [go_str]: "c \<notin> set s \<Longrightarrow> split_on c (s @ c # t) = s # split_on c t"
  by (induction s) auto

lemma cut_at_append_sep [go_str]: "c \<notin> set s \<Longrightarrow> cut_at c (s @ c # t) = (s, t, True)"
  unfolding cut_at_def by (induction s) auto

text \<open>A line feed has no literal in HOL's strings.\<close>

abbreviation newline :: char where
  "newline \<equiv> CHR 0x0A"

definition with_newline :: "string \<Rightarrow> string" where
  "with_newline s = s @ [newline]"

section \<open>Length-prefixed strings\<close>

text \<open>
  Several components build a key by writing, for every string, its decimal length, a colon
  and the string itself. Such a block can be read back from the front of any text, so
  concatenations of blocks are injective.
\<close>

definition netstr :: "string \<Rightarrow> string" where
  "netstr s = itoa (length s) @ CHR '':'' # s"

lemma colon_not_digit: "\<not> is_digit (CHR '':'')"
  by (simp add: is_digit_def)

lemma takeWhile_digits_colon:
  assumes "list_all is_digit ds"
  shows "takeWhile is_digit (ds @ CHR '':'' # r) = ds"
  using assms by (induction ds) (auto simp: colon_not_digit)

lemma netstr_append_eq:
  assumes "netstr a @ x = netstr b @ y"
  shows "a = b \<and> x = y"
proof -
  let ?w = "itoa (length a) @ CHR '':'' # (a @ x)"
  have eq: "?w = itoa (length b) @ CHR '':'' # (b @ y)"
    using assms by (simp add: netstr_def)
  have "takeWhile is_digit ?w = itoa (length a)"
    by (rule takeWhile_digits_colon) (rule itoa_digits)
  moreover have "takeWhile is_digit ?w = itoa (length b)"
    unfolding eq by (rule takeWhile_digits_colon) (rule itoa_digits)
  ultimately have len: "length a = length b" by simp
  with eq have "a @ x = b @ y" by simp
  with len show ?thesis by simp
qed

lemma netstr_nonempty [simp]: "netstr s \<noteq> []"
  by (simp add: netstr_def)

section \<open>unicode/utf8\<close>

text \<open>
  \<^verbatim>\<open>utf8.Valid\<close>: every encoding is the shortest one, no surrogate halves, nothing above
  \<^verbatim>\<open>U+10FFFF\<close>.
\<close>

definition byte_in :: "nat \<Rightarrow> nat \<Rightarrow> char \<Rightarrow> bool" where
  "byte_in lo hi c \<longleftrightarrow> lo \<le> (of_char c :: nat) \<and> (of_char c :: nat) \<le> hi"

text \<open>The number of continuation bytes and the range of the first one, by the leading byte.\<close>

definition utf8_lead :: "char \<Rightarrow> (nat \<times> nat \<times> nat) option" where
  "utf8_lead c =
     (if byte_in 0 127 c then Some (0, 0, 0)
      else if byte_in 194 223 c then Some (1, 128, 191)
      else if byte_in 224 224 c then Some (2, 160, 191)
      else if byte_in 225 236 c \<or> byte_in 238 239 c then Some (2, 128, 191)
      else if byte_in 237 237 c then Some (2, 128, 159)
      else if byte_in 240 240 c then Some (3, 144, 191)
      else if byte_in 241 243 c then Some (3, 128, 191)
      else if byte_in 244 244 c then Some (3, 128, 143)
      else None)"

fun utf8_valid :: "string \<Rightarrow> bool" where
  "utf8_valid [] = True"
| "utf8_valid (c # cs) =
     (case utf8_lead c of
        None \<Rightarrow> False
      | Some (n, lo, hi) \<Rightarrow>
          if n = 0 then utf8_valid cs
          else length cs \<ge> n \<and> byte_in lo hi (hd cs) \<and>
               list_all (byte_in 128 191) (take (n - 1) (tl cs)) \<and> utf8_valid (drop n cs))"

definition is_ascii :: "char \<Rightarrow> bool" where
  "is_ascii c \<longleftrightarrow> (of_char c :: nat) < 128"

lemma utf8_valid_ascii: "list_all is_ascii s \<Longrightarrow> utf8_valid s"
  by (induction s) (auto simp: is_ascii_def utf8_lead_def byte_in_def)

end
