(* ===== verification/Lifecycle.thy ===== *)
theory Lifecycle
  imports Prelude
begin

text \<open>
  The runtime state machine (\<^verbatim>\<open>internal/lifecycle/machine.go\<close>) and the probe endpoints
  that read it (\<^verbatim>\<open>internal/probe/handler.go\<close>).

  The transition table is the source's array, in its order; an event is accepted when exactly one
  row matches. The observer is a Go callback that may change state of its own: it is a function
  from the change and the observer's state to the new state and an optional error. The state is
  updated \<^emph>\<open>before\<close> the observer runs, so an observer that fails leaves the new state in place.
\<close>

section \<open>Data\<close>

datatype state =
    Initializing | StartingWorkload | Running | Stopping | Finalizing | FinalWait | Failed | Terminated

datatype event =
    ConfigurationValidated | InitializationFailed | WorkloadStarted | WorkloadStartFailed
  | WorkloadExited | TerminationBeforeSpawn | TerminationAfterSpawn | RuntimeFailed
  | FinalizationImmediate | FinalizationWait | FinalWaitCompleted | CleanupCompleted

fun state_string :: "state \<Rightarrow> string" where
  "state_string Initializing = ''initializing''"
| "state_string StartingWorkload = ''starting_workload''"
| "state_string Running = ''running''"
| "state_string Stopping = ''stopping''"
| "state_string Finalizing = ''finalizing''"
| "state_string FinalWait = ''final_wait''"
| "state_string Failed = ''failed''"
| "state_string Terminated = ''terminated''"

definition States :: "state list" where
  "States = [Initializing, StartingWorkload, Running, Stopping, Finalizing, FinalWait, Failed, Terminated]"

definition Events :: "event list" where
  "Events = [ConfigurationValidated, InitializationFailed, WorkloadStarted, WorkloadStartFailed,
     WorkloadExited, TerminationBeforeSpawn, TerminationAfterSpawn, RuntimeFailed,
     FinalizationImmediate, FinalizationWait, FinalWaitCompleted, CleanupCompleted]"

text \<open>\<^verbatim>\<open>Change\<close>: the zero value of the previous state, the empty string, is \<open>None\<close>.\<close>

record change =
  Previous :: "state option"
  Current :: state

definition transitions :: "(state \<times> event \<times> state) list" where
  "transitions =
    [(Initializing, ConfigurationValidated, StartingWorkload),
     (Initializing, InitializationFailed, Failed),
     (Initializing, TerminationBeforeSpawn, Terminated),
     (Initializing, RuntimeFailed, Failed),
     (StartingWorkload, WorkloadStarted, Running),
     (StartingWorkload, WorkloadStartFailed, Failed),
     (StartingWorkload, TerminationBeforeSpawn, Terminated),
     (StartingWorkload, TerminationAfterSpawn, Stopping),
     (StartingWorkload, RuntimeFailed, Failed),
     (Running, WorkloadExited, Finalizing),
     (Running, TerminationAfterSpawn, Stopping),
     (Running, RuntimeFailed, Failed),
     (Stopping, WorkloadExited, Finalizing),
     (Stopping, RuntimeFailed, Failed),
     (Finalizing, FinalizationWait, FinalWait),
     (Finalizing, FinalizationImmediate, Terminated),
     (Finalizing, TerminationAfterSpawn, Terminated),
     (Finalizing, RuntimeFailed, Failed),
     (FinalWait, FinalWaitCompleted, Terminated),
     (FinalWait, TerminationAfterSpawn, Terminated),
     (FinalWait, RuntimeFailed, Failed),
     (Failed, CleanupCompleted, Terminated)]"

datatype 'e lifecycle_error =
    Wrong_Targets event nat state
  | Observer_Failed 'e

type_synonym ('o, 'e) observer = "change \<Rightarrow> 'o \<Rightarrow> 'o \<times> 'e option"

record ('o, 'e) machine =
  machine_state :: state
  machine_observer :: "('o, 'e) observer option"

section \<open>Operations\<close>

definition notify :: "('o, 'e) observer option \<Rightarrow> change \<Rightarrow> 'o \<Rightarrow> 'o \<times> 'e option" where
  "notify obs c o0 = (case obs of None \<Rightarrow> (o0, None) | Some f \<Rightarrow> f c o0)"

definition New :: "('o, 'e) observer option \<Rightarrow> 'o \<Rightarrow> 'o \<times> ('e + ('o, 'e) machine)" where
  "New obs o0 =
     (case notify obs \<lparr>Previous = None, Current = Initializing\<rparr> o0 of
        (o1, Some e) \<Rightarrow> (o1, Inl e)
      | (o1, None) \<Rightarrow> (o1, Inr \<lparr>machine_state = Initializing, machine_observer = obs\<rparr>))"

definition transitionLocked ::
  "('o, 'e) machine \<Rightarrow> state \<Rightarrow> 'o \<Rightarrow> ('o, 'e) machine \<times> 'o \<times> 'e lifecycle_error option" where
  "transitionLocked m target o0 =
     (let previous = machine_state m;
          m' = m\<lparr>machine_state := target\<rparr>;
          (o1, err) = notify (machine_observer m') \<lparr>Previous = Some previous, Current = target\<rparr> o0
      in (m', o1, map_option Observer_Failed err))"

definition targets :: "state \<Rightarrow> event \<Rightarrow> state list" where
  "targets s ev = [to. (from, e, to) \<leftarrow> transitions, from = s \<and> e = ev]"

definition TransitionEvent ::
  "('o, 'e) machine \<Rightarrow> event \<Rightarrow> 'o \<Rightarrow> ('o, 'e) machine \<times> 'o \<times> 'e lifecycle_error option" where
  "TransitionEvent m ev o0 =
     (let ts = targets (machine_state m) ev in
      if length ts \<noteq> 1 then (m, o0, Some (Wrong_Targets ev (length ts) (machine_state m)))
      else transitionLocked m (hd ts) o0)"

definition OneHot :: "('o, 'e) machine \<Rightarrow> state \<rightharpoonup> int" where
  "OneHot m = (map_of (map (\<lambda>s. (s, 0)) States))(machine_state m \<mapsto> 1)"

text \<open>Health and readiness; the default branch is the terminated state.\<close>

fun ProbeStatuses :: "state \<Rightarrow> int \<times> int" where
  "ProbeStatuses Running = (200, 200)"
| "ProbeStatuses Failed = (500, 503)"
| "ProbeStatuses Terminated = (0, 0)"
| "ProbeStatuses _ = (200, 503)"

section \<open>Probe handler\<close>

record probe_response =
  probe_status :: int
  probe_headers :: "(string \<times> string) list"
  probe_body :: string

definition HealthPath :: string where "HealthPath = ''/healthz''"
definition ReadinessPath :: string where "ReadinessPath = ''/readyz''"

definition probe_write :: "(string \<times> string) list \<Rightarrow> int \<Rightarrow> string \<Rightarrow> probe_response" where
  "probe_write hs status body =
     \<lparr>probe_status = status,
      probe_headers = hs @ [(''Cache-Control'', ''no-store''),
        (''Content-Type'', ''text/plain; charset=utf-8''),
        (''X-Content-Type-Options'', ''nosniff'')],
      probe_body = body\<rparr>"

definition probe_serve :: "state \<Rightarrow> string \<Rightarrow> string \<Rightarrow> probe_response" where
  "probe_serve s meth path =
     (if path \<noteq> HealthPath \<and> path \<noteq> ReadinessPath then probe_write [] 404 (with_newline ''not found'')
      else if meth \<noteq> ''GET'' then
        probe_write [(''Allow'', ''GET'')] 405 (with_newline ''method not allowed'')
      else let (health, readiness) = ProbeStatuses s in
        if path = HealthPath then
          (if health = 200 then probe_write [] health (with_newline ''ok'')
           else if health = 500 then probe_write [] health (with_newline ''failed'')
           else probe_write [] 503 (with_newline ''unavailable''))
        else if readiness = 200 then probe_write [] readiness (with_newline ''ready'')
        else if readiness = 0 then probe_write [] 503 (with_newline ''unavailable'')
        else probe_write [] readiness (with_newline ''not ready''))"

section \<open>Runs\<close>

text \<open>A run applies a sequence of events; the trace lists the states entered after each accepted event.\<close>

fun run_events :: "('o, 'e) machine \<Rightarrow> 'o \<Rightarrow> event list \<Rightarrow> ('o, 'e) machine \<times> 'o \<times> state list" where
  "run_events m o0 [] = (m, o0, [])"
| "run_events m o0 (ev # evs) =
     (case TransitionEvent m ev o0 of
        (m', o1, Some (Wrong_Targets _ _ _)) \<Rightarrow> run_events m' o1 evs
      | (m', o1, _) \<Rightarrow>
          (case run_events m' o1 evs of (m'', o2, tr) \<Rightarrow> (m'', o2, machine_state m' # tr)))"

text \<open>The order in which the states can be visited.\<close>

fun rank :: "state \<Rightarrow> nat" where
  "rank Initializing = 0"
| "rank StartingWorkload = 1"
| "rank Running = 2"
| "rank Stopping = 3"
| "rank Finalizing = 4"
| "rank FinalWait = 5"
| "rank Failed = 6"
| "rank Terminated = 7"

text \<open>
  The table of the specification (\<^verbatim>\<open>docs/04-specification/runtime-state-machine.md\<close>,
  section Events), event by event; \<^verbatim>\<open>runtime_failed\<close> is listed there for any non-terminal
  state.
\<close>

fun spec_target :: "event \<Rightarrow> state \<Rightarrow> state option" where
  "spec_target ConfigurationValidated s = (if s = Initializing then Some StartingWorkload else None)"
| "spec_target InitializationFailed s = (if s = Initializing then Some Failed else None)"
| "spec_target WorkloadStarted s = (if s = StartingWorkload then Some Running else None)"
| "spec_target WorkloadStartFailed s = (if s = StartingWorkload then Some Failed else None)"
| "spec_target WorkloadExited s = (if s \<in> {Running, Stopping} then Some Finalizing else None)"
| "spec_target TerminationBeforeSpawn s =
     (if s \<in> {Initializing, StartingWorkload} then Some Terminated else None)"
| "spec_target TerminationAfterSpawn s =
     (if s \<in> {StartingWorkload, Running} then Some Stopping
      else if s \<in> {Finalizing, FinalWait} then Some Terminated else None)"
| "spec_target RuntimeFailed s = (if s \<noteq> Terminated then Some Failed else None)"
| "spec_target FinalizationImmediate s = (if s = Finalizing then Some Terminated else None)"
| "spec_target FinalizationWait s = (if s = Finalizing then Some FinalWait else None)"
| "spec_target FinalWaitCompleted s = (if s = FinalWait then Some Terminated else None)"
| "spec_target CleanupCompleted s = (if s = Failed then Some Terminated else None)"

section \<open>The table\<close>

lemma targets_eval:
  "targets s ev = (if s = Failed \<and> ev = RuntimeFailed then []
     else case spec_target ev s of None \<Rightarrow> [] | Some t \<Rightarrow> [t])"
  by (cases s; cases ev) (simp_all add: targets_def transitions_def)

lemma targets_at_most_one: "length (targets s ev) \<le> 1"
  by (simp add: targets_eval split: option.splits)

lemma targets_rank: "t \<in> set (targets s ev) \<Longrightarrow> rank s < rank t"
  by (cases s; cases ev) (auto simp: targets_eval split: if_splits)

lemma targets_terminated [simp]: "targets Terminated ev = []"
  by (cases ev) (simp_all add: targets_eval)

lemma TransitionEvent_cases:
  obtains (rejected) "targets (machine_state m) ev = []"
      "TransitionEvent m ev o0 = (m, o0, Some (Wrong_Targets ev 0 (machine_state m)))"
  | (accepted) t o1 err where "targets (machine_state m) ev = [t]"
      "notify (machine_observer m) \<lparr>Previous = Some (machine_state m), Current = t\<rparr> o0 = (o1, err)"
      "TransitionEvent m ev o0 = (m\<lparr>machine_state := t\<rparr>, o1, map_option Observer_Failed err)"
proof -
  have "targets (machine_state m) ev = [] \<or> (\<exists>t. targets (machine_state m) ev = [t])"
    by (auto simp: targets_eval split: option.splits)
  then show thesis
  proof
    assume "targets (machine_state m) ev = []"
    then show thesis by (intro rejected) (auto simp: TransitionEvent_def)
  next
    assume "\<exists>t. targets (machine_state m) ev = [t]"
    then obtain t where t: "targets (machine_state m) ev = [t]" by blast
    obtain o1 err where n: "notify (machine_observer m)
        \<lparr>Previous = Some (machine_state m), Current = t\<rparr> o0 = (o1, err)" by fastforce
    show thesis
      by (rule accepted [OF t n]) (use t n in \<open>simp add: TransitionEvent_def transitionLocked_def\<close>)
  qed
qed

lemma run_events_trace:
  "run_events m o0 evs = (m', o1, tr) \<Longrightarrow>
     sorted_wrt (\<lambda>s t. rank s < rank t) (machine_state m # tr) \<and>
     last (machine_state m # tr) = machine_state m' \<and>
     machine_observer m' = machine_observer m"
proof (induction evs arbitrary: m o0 m' o1 tr)
  case Nil
  then show ?case by simp
next
  case (Cons ev evs)
  show ?case
  proof (rule TransitionEvent_cases [of m ev o0])
    assume "TransitionEvent m ev o0 = (m, o0, Some (Wrong_Targets ev 0 (machine_state m)))"
    with Cons.prems Cons.IH show ?case by simp
  next
    fix t o2 err
    assume t: "targets (machine_state m) ev = [t]"
      and te: "TransitionEvent m ev o0 = (m\<lparr>machine_state := t\<rparr>, o2, map_option Observer_Failed err)"
    obtain m'' o3 tr' where r: "run_events (m\<lparr>machine_state := t\<rparr>) o2 evs = (m'', o3, tr')"
      by (rule prod_cases3)
    have "run_events m o0 (ev # evs) = (m'', o3, t # tr')"
      using te r by (cases err) simp_all
    with Cons.prems have eq: "m' = m''" "tr = t # tr'" by simp_all
    have "rank (machine_state m) < rank t" by (rule targets_rank [of _ _ ev]) (simp add: t)
    with Cons.IH [OF r] show ?case by (auto simp: eq intro: less_trans)
  qed
qed

lemma sorted_rank_length:
  "sorted_wrt (\<lambda>s t. rank s < rank t) (s # tr) \<Longrightarrow> rank s + length tr \<le> rank (last (s # tr))"
proof (induction tr arbitrary: s)
  case (Cons t tr)
  then have "rank t + length tr \<le> rank (last (t # tr))" by auto
  moreover from Cons.prems have "rank s < rank t" by simp
  ultimately show ?case by simp
qed simp

lemma rank_le_7: "rank s \<le> 7"
  by (cases s) simp_all

section \<open>Properties\<close>

text \<open>
  C1: the machine implements the event table of the specification. From every state and for every
  event, with every observer, the event is accepted exactly when the specification gives a target,
  with one exception (the specification lists \<^verbatim>\<open>runtime_failed\<close> for every non-terminal
  state, the table has no row for it in \<^verbatim>\<open>failed\<close>). An accepted event moves to that target
  and notifies the observer once with the previous and the new state, keeping the new state even
  when the observer fails; any other event changes nothing and is reported with zero targets.
\<close>

theorem TransitionEvent_implements_table:
  "TransitionEvent m ev o0 =
     (case (if machine_state m = Failed \<and> ev = RuntimeFailed then None else spec_target ev (machine_state m)) of
        None \<Rightarrow> (m, o0, Some (Wrong_Targets ev 0 (machine_state m)))
      | Some t \<Rightarrow>
          (case notify (machine_observer m) \<lparr>Previous = Some (machine_state m), Current = t\<rparr> o0 of
             (o1, err) \<Rightarrow> (m\<lparr>machine_state := t\<rparr>, o1, map_option Observer_Failed err)))"
  by (rule TransitionEvent_cases [of m ev o0])
     (auto simp: targets_eval split: option.splits if_splits)

text \<open>
  C2: whatever events arrive, in whatever order, and whatever the observer answers, the states the
  machine enters strictly climb the order initializing, starting, running, stopping, finalizing,
  final wait, failed, terminated. So no state is entered twice, the machine never returns to running
  once it has left it, nothing follows terminated, and a run makes at most seven moves.
\<close>

theorem lifecycle_run_climbs:
  "case run_events m o0 evs of (m', o1, tr) \<Rightarrow>
     sorted_wrt (\<lambda>s t. rank s < rank t) (machine_state m # tr) \<and>
     distinct (machine_state m # tr) \<and> Terminated \<notin> set (butlast (machine_state m # tr)) \<and>
     last (machine_state m # tr) = machine_state m' \<and> length tr \<le> 7"
proof -
  obtain m' o1 tr where r: "run_events m o0 evs = (m', o1, tr)" by (rule prod_cases3)
  let ?tr = "machine_state m # tr"
  have tr: "sorted_wrt (\<lambda>s t. rank s < rank t) ?tr" "last ?tr = machine_state m'"
    using run_events_trace [OF r] by blast+
  have "sorted_wrt (<) (map rank ?tr)" using tr(1) by (simp add: sorted_wrt_map)
  then have "distinct (map rank ?tr)" by (metis strict_sorted_iff)
  then have "distinct ?tr" by (metis distinct_map)
  moreover have "rank s < rank (last ?tr)" if "s \<in> set (butlast ?tr)" for s
  proof -
    have "?tr = butlast ?tr @ [last ?tr]" by simp
    with tr(1) have "sorted_wrt (\<lambda>s t. rank s < rank t) (butlast ?tr @ [last ?tr])" by metis
    with that show ?thesis by (auto simp: sorted_wrt_append)
  qed
  then have "Terminated \<notin> set (butlast ?tr)" using rank_le_7 [of "last ?tr"] by fastforce
  moreover have "length tr \<le> 7"
    using sorted_rank_length [OF tr(1)] rank_le_7 [of "last ?tr"] by linarith
  ultimately show ?thesis using tr r by auto
qed

text \<open>
  A probe answers 200 exactly for a GET of the health path while the runtime has neither failed
  nor terminated, and for a GET of the readiness path while the workload is running; every answer
  forbids caching.
\<close>

theorem probe_ok_iff:
  "(probe_status (probe_serve s meth path) = 200 \<longleftrightarrow>
      meth = ''GET'' \<and> (path = HealthPath \<and> s \<notin> {Failed, Terminated} \<or> path = ReadinessPath \<and> s = Running)) \<and>
   (''Cache-Control'', ''no-store'') \<in> set (probe_headers (probe_serve s meth path))"
  by (cases s) (auto simp: probe_serve_def probe_write_def HealthPath_def ReadinessPath_def)

end
