(* ===== verification/Float64.thy ===== *)
theory Float64
  imports Prelude
begin

text \<open>
  The Go type \<^verbatim>\<open>float64\<close> (IEEE 754 binary64) and the operations of the Go language and
  library that the program applies to it: comparison, addition,
  \<^verbatim>\<open>strconv.ParseFloat(_, 64)\<close> and \<^verbatim>\<open>strconv.FormatFloat(_, 'g', -1, 64)\<close>.

  \<open>Fin neg m e\<close> is the number \<open>m * 2 ^ e\<close>, negated when \<open>neg\<close>; \<open>f64_wf\<close>
  says that a value is one of the binary64 values in its unique form. All arithmetic is exact
  integer arithmetic followed by one rounding to nearest, ties to even.
\<close>

section \<open>Values\<close>

datatype float64 = NaN | Inf bool | Fin bool nat int

definition f64_wf :: "float64 \<Rightarrow> bool" where
  "f64_wf x =
     (case x of
        NaN \<Rightarrow> True
      | Inf _ \<Rightarrow> True
      | Fin _ m e \<Rightarrow> m < 2 ^ 53 \<and> - 1074 \<le> e \<and> e \<le> 971 \<and> (2 ^ 52 \<le> m \<or> e = - 1074))"

definition f64_zero :: float64 where
  "f64_zero = Fin False 0 (- 1074)"

definition f64_one :: float64 where
  "f64_one = Fin False (2 ^ 52) (- 52)"

definition is_nan :: "float64 \<Rightarrow> bool" where
  "is_nan x \<longleftrightarrow> x = NaN"

definition is_inf_pos :: "float64 \<Rightarrow> bool" where
  "is_inf_pos x \<longleftrightarrow> x = Inf False"

definition is_inf_neg :: "float64 \<Rightarrow> bool" where
  "is_inf_neg x \<longleftrightarrow> x = Inf True"

definition is_inf :: "float64 \<Rightarrow> bool" where
  "is_inf x \<longleftrightarrow> is_inf_pos x \<or> is_inf_neg x"

section \<open>Comparison\<close>

text \<open>The integer \<open>v * 2 ^ - k\<close> for a finite value \<open>v\<close> and any \<open>k\<close> up to its exponent.\<close>

definition fin_int :: "int \<Rightarrow> bool \<Rightarrow> nat \<Rightarrow> int \<Rightarrow> int" where
  "fin_int k neg m e = (if neg then - 1 else 1) * int m * 2 ^ nat (e - k)"

fun f64_le :: "float64 \<Rightarrow> float64 \<Rightarrow> bool" where
  "f64_le NaN y = False"
| "f64_le x NaN = False"
| "f64_le (Inf True) y = True"
| "f64_le (Inf False) y = (y = Inf False)"
| "f64_le x (Inf neg) = (\<not> neg)"
| "f64_le (Fin s m e) (Fin t n f) = (fin_int (min e f) s m e \<le> fin_int (min e f) t n f)"

definition f64_less :: "float64 \<Rightarrow> float64 \<Rightarrow> bool" where
  "f64_less x y \<longleftrightarrow> f64_le x y \<and> \<not> f64_le y x"

definition f64_eq :: "float64 \<Rightarrow> float64 \<Rightarrow> bool" where
  "f64_eq x y \<longleftrightarrow> f64_le x y \<and> f64_le y x"

section \<open>Rounding a positive rational\<close>

fun bitlen :: "nat \<Rightarrow> nat" where
  "bitlen n = (if n = 0 then 0 else Suc (bitlen (n div 2)))"

declare bitlen.simps [simp del]

text \<open>
  The exponent of the last place: the \<open>e\<close> with \<open>2 ^ 52 \<le> num / den / 2 ^ e < 2 ^ 53\<close>, but
  no less than the exponent of the subnormals. The estimate from the bit lengths is at most one
  too small.
\<close>

definition lsb_exp :: "nat \<Rightarrow> nat \<Rightarrow> int" where
  "lsb_exp num den =
     (let e0 = int (bitlen num) - int (bitlen den) - 53;
          e1 = (if num * 2 ^ nat (- e0) \<ge> den * 2 ^ nat e0 * 2 ^ 53 then e0 + 1 else e0)
      in max e1 (- 1074))"

definition round_even :: "nat \<Rightarrow> nat \<Rightarrow> nat" where
  "round_even n d =
     (let q = n div d; r = n mod d
      in if 2 * r > d \<or> (2 * r = d \<and> odd q) then q + 1 else q)"

definition f64_round :: "bool \<Rightarrow> nat \<Rightarrow> nat \<Rightarrow> float64" where
  "f64_round neg num0 den0 =
     (if num0 = 0 then Fin neg 0 (- 1074)
      else
        let g = gcd num0 den0; num = num0 div g; den = den0 div g;
            e = lsb_exp num den;
            q = round_even (num * 2 ^ nat (- e)) (den * 2 ^ nat e);
            (m, e') = (if q = 2 ^ 53 then (2 ^ 52, e + 1) else (q, e))
        in if e' > 971 then Inf neg else Fin neg m e')"

section \<open>Addition\<close>

definition fin_add :: "bool \<Rightarrow> nat \<Rightarrow> int \<Rightarrow> bool \<Rightarrow> nat \<Rightarrow> int \<Rightarrow> float64" where
  "fin_add s m e t n f =
     (let k = min e f; sum = fin_int k s m e + fin_int k t n f
      in if sum = 0 then Fin (s \<and> t) 0 (- 1074)
         else f64_round (sum < 0) (nat \<bar>sum\<bar> * 2 ^ nat k) (2 ^ nat (- k)))"

fun f64_add :: "float64 \<Rightarrow> float64 \<Rightarrow> float64" where
  "f64_add NaN y = NaN"
| "f64_add x NaN = NaN"
| "f64_add (Inf s) (Inf t) = (if s = t then Inf s else NaN)"
| "f64_add (Inf s) y = Inf s"
| "f64_add x (Inf t) = Inf t"
| "f64_add (Fin s m e) (Fin t n f) = fin_add s m e t n f"

section \<open>strconv.ParseFloat\<close>

definition lower :: "char \<Rightarrow> char" where
  "lower c = (if 65 \<le> (of_char c :: nat) \<and> (of_char c :: nat) \<le> 90 then char_of (of_char c + 32 :: nat) else c)"

definition split_sign :: "string \<Rightarrow> bool \<times> string" where
  "split_sign s =
     (case s of
        [] \<Rightarrow> (False, [])
      | c # r \<Rightarrow> if c = CHR ''+'' then (False, r) else if c = CHR ''-'' then (True, r) else (False, s))"

text \<open>The spellings of infinity and of NaN; only infinity may carry a sign.\<close>

definition special_float :: "string \<Rightarrow> float64 option" where
  "special_float s =
     (let (neg, r) = split_sign s
      in if map lower r = ''inf'' \<or> map lower r = ''infinity'' then Some (Inf neg)
         else if map lower s = ''nan'' then Some NaN
         else None)"

definition is_hex_digit :: "char \<Rightarrow> bool" where
  "is_hex_digit c \<longleftrightarrow> is_digit c \<or> 97 \<le> (of_char (lower c) :: nat) \<and> (of_char (lower c) :: nat) \<le> 102"

definition hex_val :: "char \<Rightarrow> nat" where
  "hex_val c = (if is_digit c then digit_val c else of_char (lower c) - 87)"

text \<open>
  The mantissa scan: digits of the base, underscores (skipped), at most one point. The result
  is the value of the digits without the point, how many digits stand after the point, whether
  a digit was seen, and the rest of the text.
\<close>

fun scan_mantissa :: "nat \<Rightarrow> nat \<Rightarrow> nat \<Rightarrow> bool \<Rightarrow> bool \<Rightarrow> string \<Rightarrow> nat \<times> nat \<times> bool \<times> string" where
  "scan_mantissa base v fr dot saw [] = (v, fr, saw, [])"
| "scan_mantissa base v fr dot saw (c # cs) =
     (if c = CHR ''_'' then scan_mantissa base v fr dot saw cs
      else if c = CHR ''.'' then
        (if dot then (v, fr, saw, c # cs) else scan_mantissa base v fr True saw cs)
      else if (if base = 16 then is_hex_digit c else is_digit c) then
        scan_mantissa base (base * v + hex_val c) (if dot then Suc fr else fr) dot True cs
      else (v, fr, saw, c # cs))"

text \<open>
  The exponent digits; the accumulator stops growing at \<open>10000\<close>, as in
  \<^verbatim>\<open>readFloat\<close>. The scan ends at the first other character.
\<close>

fun scan_exp :: "nat \<Rightarrow> string \<Rightarrow> nat \<times> string" where
  "scan_exp e [] = (e, [])"
| "scan_exp e (c # cs) =
     (if c = CHR ''_'' then scan_exp e cs
      else if is_digit c then scan_exp (if e < 10000 then 10 * e + digit_val c else e) cs
      else (e, c # cs))"

text \<open>
  Underscores separate digits only: \<open>saw\<close> is the kind of the last character
  (\<open>0\<close> start, \<open>1\<close> digit or base prefix, \<open>2\<close> underscore, \<open>3\<close> other).
\<close>

fun underscores_sep :: "bool \<Rightarrow> nat \<Rightarrow> string \<Rightarrow> bool" where
  "underscores_sep hex saw [] = (saw \<noteq> 2)"
| "underscores_sep hex saw (c # cs) =
     (if is_digit c \<or> hex \<and> is_hex_digit c then underscores_sep hex 1 cs
      else if c = CHR ''_'' then saw = 1 \<and> underscores_sep hex 2 cs
      else saw \<noteq> 2 \<and> underscores_sep hex 3 cs)"

definition underscore_ok :: "string \<Rightarrow> bool" where
  "underscore_ok s =
     (let r = snd (split_sign s)
      in case r of
           CHR ''0'' # p # rest \<Rightarrow>
             if lower p \<in> {CHR ''b'', CHR ''o'', CHR ''x''}
             then underscores_sep (lower p = CHR ''x'') 1 rest
             else underscores_sep False 0 r
         | _ \<Rightarrow> underscores_sep False 0 r)"

text \<open>
  \<open>float_text s\<close> reads \<open>s\<close> as a numeral: sign, mantissa digits, and the exponents of
  ten and of two it is scaled by; \<open>None\<close> is a syntax error.
\<close>

definition float_text :: "string \<Rightarrow> (bool \<times> nat \<times> int \<times> int) option" where
  "float_text s =
     (let (neg, r) = split_sign s;
          (hex, body) = (case r of CHR ''0'' # p # rest \<Rightarrow> if lower p = CHR ''x'' then (True, rest) else (False, r)
                                 | _ \<Rightarrow> (False, r));
          (v, fr, saw, rest) = scan_mantissa (if hex then 16 else 10) 0 0 False False body
      in if \<not> saw then None
         else
           (case rest of
              [] \<Rightarrow> if hex then None else Some (neg, v, - int fr, 0)
            | c # tail \<Rightarrow>
                if lower c \<noteq> (if hex then CHR ''p'' else CHR ''e'') then None
                else
                  let (eneg, ds) = split_sign tail; (e, left) = scan_exp 0 ds;
                      x = (if eneg then - int e else int e)
                  in if ds = [] \<or> \<not> is_digit (hd ds) \<or> left \<noteq> [] then None
                     else if hex then Some (neg, v, 0, x - 4 * int fr)
                     else Some (neg, v, x - int fr, 0)))"

text \<open>
  \<^verbatim>\<open>strconv.ParseFloat(s, 64)\<close>: the value, or \<open>None\<close> for a syntax error and for a
  numeral whose value rounds beyond the largest finite number.
\<close>

definition parse_float :: "string \<Rightarrow> float64 option" where
  "parse_float s =
     (case special_float s of
        Some x \<Rightarrow> Some x
      | None \<Rightarrow>
          (case float_text s of
             None \<Rightarrow> None
           | Some (neg, v, e10, e2) \<Rightarrow>
               if CHR ''_'' \<in> set s \<and> \<not> underscore_ok s then None
               else
                 (case f64_round neg (v * 10 ^ nat e10 * 2 ^ nat e2) (10 ^ nat (- e10) * 2 ^ nat (- e2)) of
                    Inf _ \<Rightarrow> None
                  | x \<Rightarrow> Some x)))"

section \<open>strconv.FormatFloat\<close>

text \<open>
  The decimal point position of a positive rational: the \<open>k\<close> with
  \<open>10 ^ (k - 1) \<le> num / den < 10 ^ k\<close>.
\<close>

definition dec_point :: "nat \<Rightarrow> nat \<Rightarrow> int" where
  "dec_point num den =
     (let k0 = int (length (itoa num)) - int (length (itoa den))
      in if num * 10 ^ nat (- k0) \<ge> den * 10 ^ nat k0 then k0 + 1 else k0)"

text \<open>
  A decimal \<open>d * 10 ^ s\<close> stands for the value \<open>m * 2 ^ e\<close> when it rounds to it.
\<close>

definition dec_round :: "nat \<Rightarrow> int \<Rightarrow> float64" where
  "dec_round d s = f64_round False (d * 10 ^ nat s) (10 ^ nat (- s))"

text \<open>
  Of the two \<open>n\<close>-digit decimals around the value, the one that reads back as the value; if
  both do, the nearer one, and the even one half-way.
\<close>

definition pick_digits :: "nat \<Rightarrow> int \<Rightarrow> nat \<Rightarrow> int \<Rightarrow> nat option" where
  "pick_digits m e n k =
     (let s = k - int n;
          a = m * 2 ^ nat e * 10 ^ nat (- s); b = 2 ^ nat (- e) * 10 ^ nat s;
          lo = a div b; hi = (if a mod b = 0 then lo else lo + 1);
          x = Fin False m e
      in if dec_round lo s = x \<and> dec_round hi s = x then Some (round_even a b)
         else if dec_round lo s = x then Some lo
         else if dec_round hi s = x then Some hi
         else None)"

text \<open>The least number of digits that works; \<open>fuel\<close> bounds the search.\<close>

fun shortest_from :: "nat \<Rightarrow> nat \<Rightarrow> nat \<Rightarrow> int \<Rightarrow> int \<Rightarrow> (nat \<times> nat) option" where
  "shortest_from 0 n m e k = None"
| "shortest_from (Suc fuel) n m e k =
     (case pick_digits m e n k of
        Some d \<Rightarrow> Some (d, n)
      | None \<Rightarrow> shortest_from fuel (Suc n) m e k)"

definition strip_zeros :: "string \<Rightarrow> string" where
  "strip_zeros s = rev (dropWhile (\<lambda>c. c = CHR ''0'') (rev s))"

text \<open>The shortest digits and the position of the decimal point after their first \<open>dp\<close>.\<close>

definition shortest_digits :: "nat \<Rightarrow> int \<Rightarrow> string \<times> int" where
  "shortest_digits m e =
     (let k = dec_point (m * 2 ^ nat e) (2 ^ nat (- e))
      in case shortest_from 2100 1 m e k of
           None \<Rightarrow> ([], 0)
         | Some (d, n) \<Rightarrow> (strip_zeros (itoa d), k + int (length (itoa d)) - int n))"

definition format_exp :: "int \<Rightarrow> string" where
  "format_exp x =
     (let a = nat \<bar>x\<bar>
      in (if x < 0 then CHR ''-'' else CHR ''+'') # (if a < 10 then CHR ''0'' # itoa a else itoa a))"

definition format_e :: "string \<Rightarrow> int \<Rightarrow> string" where
  "format_e ds dp =
     take 1 ds @ (if length ds > 1 then CHR ''.'' # drop 1 ds else []) @ CHR ''e'' # format_exp (dp - 1)"

definition format_f :: "string \<Rightarrow> int \<Rightarrow> string" where
  "format_f ds dp =
     (if dp > 0
      then take (nat dp) ds @ replicate (nat dp - length ds) (CHR ''0'') @
           (if length ds > nat dp then CHR ''.'' # drop (nat dp) ds else [])
      else CHR ''0'' # (if ds = [] then [] else CHR ''.'' # replicate (nat (- dp)) (CHR ''0'') @ ds))"

definition format_float :: "float64 \<Rightarrow> string" where
  "format_float x =
     (case x of
        NaN \<Rightarrow> ''NaN''
      | Inf neg \<Rightarrow> if neg then ''-Inf'' else ''+Inf''
      | Fin neg m e \<Rightarrow>
          (let (ds, dp) = (if m = 0 then ([], 0) else shortest_digits m e)
           in (if neg then ''-'' else []) @
              (if m \<noteq> 0 \<and> (dp - 1 < - 4 \<or> dp - 1 \<ge> 6) then format_e ds dp else format_f ds dp)))"

end
