(* ===== verification/Json_Text.thy ===== *)
theory Json_Text
  imports Prelude
begin

text \<open>
  The string encoding of Go's \<^verbatim>\<open>encoding/json\<close> as \<^verbatim>\<open>json.Marshal\<close> writes it:
  quotes, backslashes and control bytes are escaped, and so are the characters that are unsafe in
  HTML and the two Unicode line separators; a byte that starts no valid UTF-8 sequence is written
  as an escaped replacement character.
\<close>

definition backslash :: char where "backslash = CHR 0x5C"
definition dquote :: char where "dquote = CHR 0x22"

definition hex_digit :: "nat \<Rightarrow> char" where
  "hex_digit n = (if n < 10 then char_of (48 + n) else char_of (87 + n))"

definition json_escape_ascii :: "char \<Rightarrow> string" where
  "json_escape_ascii c =
     (let n = of_char c :: nat in
      if c = dquote \<or> c = backslash then [backslash, c]
      else if n = 8 then [backslash, CHR ''b'']
      else if n = 12 then [backslash, CHR ''f'']
      else if n = 10 then [backslash, CHR ''n'']
      else if n = 13 then [backslash, CHR ''r'']
      else if n = 9 then [backslash, CHR ''t'']
      else if n < 32 \<or> c \<in> {CHR ''<'', CHR ''>'', CHR 0x26}
        then [backslash, CHR ''u'', CHR ''0'', CHR ''0'', hex_digit (n div 16), hex_digit (n mod 16)]
      else [c])"

text \<open>
  The number of continuation bytes of the sequence at the front of a text, when that sequence
  is valid.
\<close>

definition utf8_seq :: "char \<Rightarrow> string \<Rightarrow> nat option" where
  "utf8_seq c cs =
     (case utf8_lead c of
        None \<Rightarrow> None
      | Some (n, lo, hi) \<Rightarrow>
          if n = 0 then Some 0
          else if length cs \<ge> n \<and> byte_in lo hi (hd cs) \<and> list_all (byte_in 128 191) (take (n - 1) (tl cs))
          then Some n else None)"

lemma utf8_seq_length: "utf8_seq c cs = Some n \<Longrightarrow> n \<le> length cs"
  by (auto simp: utf8_seq_def split: option.splits prod.splits if_splits)

lemma utf8_valid_Cons:
  "utf8_valid (c # cs) \<longleftrightarrow> (case utf8_seq c cs of None \<Rightarrow> False | Some n \<Rightarrow> utf8_valid (drop n cs))"
  by (auto simp: utf8_seq_def split: option.splits prod.splits)

definition line_separator :: "string \<Rightarrow> string option" where
  "line_separator r =
     (if r = [CHR 0xE2, CHR 0x80, CHR 0xA8] then Some (backslash # ''u2028'')
      else if r = [CHR 0xE2, CHR 0x80, CHR 0xA9] then Some (backslash # ''u2029'')
      else None)"

function json_escape :: "string \<Rightarrow> string" where
  "json_escape [] = []"
| "json_escape (c # cs) =
     (if is_ascii c then json_escape_ascii c @ json_escape cs
      else case utf8_seq c cs of
             None \<Rightarrow> (backslash # ''ufffd'') @ json_escape cs
           | Some n \<Rightarrow>
               (case line_separator (c # take n cs) of Some e \<Rightarrow> e | None \<Rightarrow> c # take n cs)
               @ json_escape (drop n cs))"
  by pat_completeness auto
termination by (relation "measure length") auto

definition json_string :: "string \<Rightarrow> string" where
  "json_string s = dquote # json_escape s @ [dquote]"

text \<open>Elements with commas between them.\<close>

fun commas :: "string list \<Rightarrow> string" where
  "commas [] = []"
| "commas [x] = x"
| "commas (x # y # ys) = x @ CHR '','' # commas (y # ys)"

definition json_array :: "string list \<Rightarrow> string" where
  "json_array xs = CHR ''['' # commas xs @ '']''"

definition json_object :: "(string \<times> string) list \<Rightarrow> string" where
  "json_object fs = CHR ''{'' # commas (map (\<lambda>(k, v). json_string k @ CHR '':'' # v) fs) @ ''}''"

end
