(* ===== verification/Snapshot_Model.thy ===== *)
theory Snapshot_Model
  imports Float64 Json_Text "HOL-Library.AList"
begin

text \<open>
  The snapshot model (\<^verbatim>\<open>internal/snapshot/model.go\<close>): the input tree a candidate
  carries, the validated tree, the canonical number forms, the validation of a candidate against
  the limits, and its canonical JSON text. Definitions only; what they guarantee is in
  \<open>Snapshot_Facts\<close>.

  The metric type stays the string it is in the source, since the default branches of the
  switches on it are reachable. \<^verbatim>\<open>sort.Slice\<close> runs on lists whose keys are
  distinct, where every sorting algorithm gives the same list; it is the library's
  \<open>sort_key\<close>. The clone functions return equal values and are the identity here.
\<close>

section \<open>Data\<close>

datatype Reason =
    ReasonMalformed | ReasonNumericInvalid | ReasonSchemaVersion | ReasonEmptyPayload
  | ReasonPayloadLimit | ReasonSeriesLimit | ReasonLabelLimit | ReasonNameLimit | ReasonPolicy
  | ReasonDuplicateSeries | ReasonTypeConflict | ReasonMetadataConflict | ReasonHistogramInvalid
  | ReasonReservedName | ReasonFrozen | ReasonInternal

fun reason_string :: "Reason \<Rightarrow> string" where
  "reason_string ReasonMalformed = ''malformed''"
| "reason_string ReasonNumericInvalid = ''numeric_invalid''"
| "reason_string ReasonSchemaVersion = ''schema_version''"
| "reason_string ReasonEmptyPayload = ''empty_payload''"
| "reason_string ReasonPayloadLimit = ''payload_limit''"
| "reason_string ReasonSeriesLimit = ''series_limit''"
| "reason_string ReasonLabelLimit = ''label_limit''"
| "reason_string ReasonNameLimit = ''name_limit''"
| "reason_string ReasonPolicy = ''policy''"
| "reason_string ReasonDuplicateSeries = ''duplicate_series''"
| "reason_string ReasonTypeConflict = ''type_conflict''"
| "reason_string ReasonMetadataConflict = ''metadata_conflict''"
| "reason_string ReasonHistogramInvalid = ''histogram_invalid''"
| "reason_string ReasonReservedName = ''reserved_name''"
| "reason_string ReasonFrozen = ''frozen''"
| "reason_string ReasonInternal = ''internal''"

record Limits =
  SnapshotBytes :: int
  DecodedBytes :: int
  SeriesLimit :: int
  LabelsPerSeries :: int
  MetricNameBytes :: int
  LabelNameBytes :: int
  LabelValueBytes :: int
  HelpBytes :: int

definition DefaultLimits :: Limits where
  "DefaultLimits =
     \<lparr>SnapshotBytes = 2 ^ 20, DecodedBytes = 2 * 2 ^ 20, SeriesLimit = 10000, LabelsPerSeries = 8,
      MetricNameBytes = 256, LabelNameBytes = 128, LabelValueBytes = 2 ^ 10, HelpBytes = 4 * 2 ^ 10\<rparr>"

type_synonym MetricType = string

definition Counter :: MetricType where "Counter = ''counter''"
definition Gauge :: MetricType where "Gauge = ''gauge''"
definition Histogram :: MetricType where "Histogram = ''histogram''"

record InputLabel =
  il_name :: string
  il_value :: string

record InputBucket =
  ib_upper_bound :: string
  ib_count :: string

record InputHistogram =
  ih_count :: string
  ih_sum :: string
  ih_buckets :: "InputBucket list"

record InputSeries =
  is_labels :: "InputLabel list"
  is_value :: string
  is_histogram :: "InputHistogram option"

record InputFamily =
  if_name :: string
  if_help :: string
  if_type :: MetricType
  if_series :: "InputSeries list"

record CandidateSnapshot =
  cs_schema_version :: int
  cs_families :: "InputFamily list"
  cs_decoded_bytes :: int

definition NewCandidate :: "int \<Rightarrow> InputFamily list \<Rightarrow> int \<Rightarrow> CandidateSnapshot" where
  "NewCandidate version families n =
     \<lparr>cs_schema_version = version, cs_families = families, cs_decoded_bytes = n\<rparr>"

record Label =
  l_name :: string
  l_value :: string

record Bucket =
  b_upper_bound :: string
  b_count :: uint64

record HistogramValue =
  hv_count :: uint64
  hv_sum :: string
  hv_buckets :: "Bucket list"

record Series =
  s_labels :: "Label list"
  s_value :: string
  s_histogram :: "HistogramValue option"

record Family =
  f_name :: string
  f_help :: string
  f_type :: MetricType
  f_series :: "Series list"

record ValidatedSnapshot =
  v_families :: "Family list"
  v_canonical :: bytes
  v_series :: int

record ActiveSnapshot =
  a_validated :: ValidatedSnapshot
  a_generation :: uint64

definition NewActive :: "ValidatedSnapshot \<Rightarrow> uint64 \<Rightarrow> ActiveSnapshot" where
  "NewActive v g = \<lparr>a_validated = v, a_generation = g\<rparr>"

definition SchemaVersion :: int where "SchemaVersion = 1"

section \<open>Patterns\<close>

definition is_alpha :: "char \<Rightarrow> bool" where
  "is_alpha c \<longleftrightarrow> byte_in 97 122 c \<or> byte_in 65 90 c"

fun metricNamePattern :: "string \<Rightarrow> bool" where
  "metricNamePattern [] = False"
| "metricNamePattern (c # cs) =
     ((is_alpha c \<or> c = CHR ''_'' \<or> c = CHR '':'') \<and>
      list_all (\<lambda>d. is_alpha d \<or> is_digit d \<or> d = CHR ''_'' \<or> d = CHR '':'') cs)"

fun labelNamePattern :: "string \<Rightarrow> bool" where
  "labelNamePattern [] = False"
| "labelNamePattern (c # cs) =
     ((is_alpha c \<or> c = CHR ''_'') \<and> list_all (\<lambda>d. is_alpha d \<or> is_digit d \<or> d = CHR ''_'') cs)"

text \<open>\<^verbatim>\<open>0|[1-9][0-9]*\<close>\<close>

definition canonical_digits :: "string \<Rightarrow> bool" where
  "canonical_digits s \<longleftrightarrow> s \<noteq> [] \<and> list_all is_digit s \<and> (s = ''0'' \<or> hd s \<noteq> CHR ''0'')"

definition countPattern :: "string \<Rightarrow> bool" where
  "countPattern s = canonical_digits s"

text \<open>
  The number pattern: an optional minus, canonical integer digits, an optional fraction, an
  optional exponent. After each run of digits comes a character that is none, so the runs are
  maximal.
\<close>

definition exponent_pattern :: "string \<Rightarrow> bool" where
  "exponent_pattern s =
     (case s of
        [] \<Rightarrow> True
      | c # r \<Rightarrow>
          (c = CHR ''e'' \<or> c = CHR ''E'') \<and>
          (let ds = (case r of [] \<Rightarrow> [] | d # t \<Rightarrow> if d = CHR ''+'' \<or> d = CHR ''-'' then t else r)
           in ds \<noteq> [] \<and> list_all is_digit ds))"

definition fraction_pattern :: "string \<Rightarrow> bool" where
  "fraction_pattern s =
     (case s of
        [] \<Rightarrow> True
      | c # r \<Rightarrow>
          if c = CHR ''.'' then takeWhile is_digit r \<noteq> [] \<and> exponent_pattern (dropWhile is_digit r)
          else exponent_pattern s)"

definition finitePattern :: "string \<Rightarrow> bool" where
  "finitePattern s =
     (let r = (case s of [] \<Rightarrow> [] | c # t \<Rightarrow> if c = CHR ''-'' then t else s)
      in canonical_digits (takeWhile is_digit r) \<and> fraction_pattern (dropWhile is_digit r))"

section \<open>Canonical numbers\<close>

definition tokenRepresentsNonZero :: "string \<Rightarrow> bool" where
  "tokenRepresentsNonZero token =
     (let mantissa = takeWhile (\<lambda>c. c \<noteq> CHR ''e'' \<and> c \<noteq> CHR ''E'') token;
          mantissa = (if has_prefix mantissa ''-'' then tl mantissa else mantissa);
          mantissa = filter (\<lambda>c. c \<noteq> CHR ''.'') mantissa
      in strip_zeros (dropWhile (\<lambda>c. c = CHR ''0'') mantissa) \<noteq> [])"

definition canonicalFinite :: "string \<Rightarrow> Reason + string \<times> float64" where
  "canonicalFinite token =
     (if \<not> finitePattern token then Inl ReasonNumericInvalid
      else case parse_float token of
             None \<Rightarrow> Inl ReasonNumericInvalid
           | Some x \<Rightarrow>
               if is_inf x \<or> (f64_eq x f64_zero \<and> tokenRepresentsNonZero token) then Inl ReasonNumericInvalid
               else Inr (format_float x, x))"

definition canonicalCounter :: "string \<Rightarrow> Reason + string \<times> float64" where
  "canonicalCounter token = (if token = ''+Inf'' then Inr (token, Inf False) else canonicalFinite token)"

definition canonicalPrometheusFloat :: "string \<Rightarrow> Reason + string" where
  "canonicalPrometheusFloat token =
     (if token = ''NaN'' \<or> token = ''+Inf'' \<or> token = ''-Inf'' then Inr token
      else and_then (canonicalFinite token) (\<lambda>(canonical, _). Inr canonical))"

definition canonicalGauge :: "string \<Rightarrow> Reason + string" where
  "canonicalGauge token = canonicalPrometheusFloat token"

definition canonicalHistogramBoundary :: "string \<Rightarrow> Reason + string \<times> float64" where
  "canonicalHistogramBoundary token =
     (if token = ''+Inf'' then Inr (token, Inf False)
      else if token = ''-Inf'' then Inr (token, Inf True)
      else case canonicalFinite token of
             Inl _ \<Rightarrow> Inl ReasonHistogramInvalid
           | Inr r \<Rightarrow> Inr r)"

definition parseCount :: "string \<Rightarrow> uint64 option" where
  "parseCount token =
     (if \<not> countPattern token then None else map_option of_nat (parse_uint 64 token))"

section \<open>Names and identities\<close>

definition encodedSampleNames :: "string \<Rightarrow> MetricType \<Rightarrow> string list" where
  "encodedSampleNames base t =
     (if t = Counter then [base, base @ ''_total'']
      else if t = Histogram then [base, base @ ''_bucket'', base @ ''_sum'', base @ ''_count'']
      else [base])"

definition seriesIdentity :: "Label list \<Rightarrow> string" where
  "seriesIdentity labels =
     concat (map (\<lambda>l. itoa (length (l_name l)) @ '':'' @ l_name l @
                      itoa (length (l_value l)) @ '':'' @ l_value l) labels)"

section \<open>Validation\<close>

definition validateFamilyMetadata :: "InputFamily \<Rightarrow> Limits \<Rightarrow> Reason option" where
  "validateFamilyMetadata family lm =
     (if \<not> utf8_valid (if_name family) \<or> \<not> metricNamePattern (if_name family) then Some ReasonPolicy
      else if go_len (if_name family) > MetricNameBytes lm \<or> go_len (if_help family) > HelpBytes lm
        then Some ReasonNameLimit
      else if \<not> utf8_valid (if_help family) then Some ReasonPolicy
      else if has_prefix (if_name family) ''metricshell_'' then Some ReasonReservedName
      else if if_type family = Counter then
        (if has_suffix (if_name family) ''_total'' then Some ReasonMetadataConflict else None)
      else if if_type family = Gauge then None
      else if if_type family = Histogram then
        (if has_suffix (if_name family) ''_bucket'' \<or> has_suffix (if_name family) ''_sum'' \<or>
            has_suffix (if_name family) ''_count''
         then Some ReasonMetadataConflict else None)
      else Some ReasonPolicy)"

text \<open>The label loop of \<^verbatim>\<open>validateSeries\<close>, with the set of names seen so far.\<close>

fun validate_labels :: "Limits \<Rightarrow> string set \<Rightarrow> InputLabel list \<Rightarrow> Reason + Label list" where
  "validate_labels lm seen [] = Inr []"
| "validate_labels lm seen (l # ls) =
     (if \<not> utf8_valid (il_name l) \<or> \<not> labelNamePattern (il_name l) \<or> il_name l = ''__name__''
        then Inl ReasonPolicy
      else if go_len (il_name l) > LabelNameBytes lm \<or> go_len (il_value l) > LabelValueBytes lm
        then Inl ReasonNameLimit
      else if \<not> utf8_valid (il_value l) then Inl ReasonPolicy
      else if il_name l \<in> seen then Inl ReasonDuplicateSeries
      else and_then (validate_labels lm (insert (il_name l) seen) ls)
             (\<lambda>rest. Inr (\<lparr>l_name = il_name l, l_value = il_value l\<rparr> # rest)))"

text \<open>
  The bucket loop of \<^verbatim>\<open>validateHistogram\<close>; the previous bound and count are absent for
  the first bucket. The result carries the last count, which the source keeps in
  \<^verbatim>\<open>previousCount\<close> (zero without buckets).
\<close>

fun validate_buckets :: "(float64 \<times> uint64) option \<Rightarrow> InputBucket list \<Rightarrow> Reason + Bucket list \<times> uint64" where
  "validate_buckets prev [] = Inr ([], case prev of None \<Rightarrow> 0 | Some (_, c) \<Rightarrow> c)"
| "validate_buckets prev (b # bs) =
     (case (canonicalHistogramBoundary (ib_upper_bound b), parseCount (ib_count b)) of
        (Inr (bound, parsed), Some count) \<Rightarrow>
          if (case prev of None \<Rightarrow> False | Some (pb, pc) \<Rightarrow> f64_le parsed pb \<or> count < pc)
          then Inl ReasonHistogramInvalid
          else and_then (validate_buckets (Some (parsed, count)) bs)
                 (\<lambda>(rest, last_count). Inr (\<lparr>b_upper_bound = bound, b_count = count\<rparr> # rest, last_count))
      | _ \<Rightarrow> Inl ReasonHistogramInvalid)"

definition validateHistogram :: "InputHistogram \<Rightarrow> Reason + HistogramValue" where
  "validateHistogram input =
     (case parseCount (ih_count input) of
        None \<Rightarrow> Inl ReasonHistogramInvalid
      | Some count \<Rightarrow>
          (case canonicalPrometheusFloat (ih_sum input) of
             Inl _ \<Rightarrow> Inl ReasonHistogramInvalid
           | Inr sum_text \<Rightarrow>
               and_then (validate_buckets None (ih_buckets input))
                 (\<lambda>(buckets, previous_count).
                    if buckets = [] \<or> b_upper_bound (last buckets) \<noteq> ''+Inf'' \<or> previous_count \<noteq> count
                    then Inl ReasonHistogramInvalid
                    else Inr \<lparr>hv_count = count, hv_sum = sum_text, hv_buckets = buckets\<rparr>)))"

definition validate_value :: "MetricType \<Rightarrow> InputSeries \<Rightarrow> Label list \<Rightarrow> Reason + Series" where
  "validate_value t input labels =
     (let series = \<lparr>s_labels = labels, s_value = [], s_histogram = None\<rparr> in
      if t = Counter then
        (if is_histogram input \<noteq> None then Inl ReasonTypeConflict
         else case canonicalCounter (is_value input) of
                Inl _ \<Rightarrow> Inl ReasonNumericInvalid
              | Inr (v, parsed) \<Rightarrow>
                  if f64_less parsed f64_zero then Inl ReasonNumericInvalid
                  else Inr (series\<lparr>s_value := v\<rparr>))
      else if t = Gauge then
        (if is_histogram input \<noteq> None then Inl ReasonTypeConflict
         else and_then (canonicalGauge (is_value input)) (\<lambda>v. Inr (series\<lparr>s_value := v\<rparr>)))
      else if t = Histogram then
        (if ''le'' \<in> l_name ` set labels then Inl ReasonHistogramInvalid
         else case is_histogram input of
                None \<Rightarrow> Inl ReasonHistogramInvalid
              | Some h \<Rightarrow>
                  if is_value input \<noteq> [] then Inl ReasonHistogramInvalid
                  else and_then (validateHistogram h) (\<lambda>v. Inr (series\<lparr>s_histogram := Some v\<rparr>)))
      else Inr series)"

definition validateSeries :: "MetricType \<Rightarrow> InputSeries \<Rightarrow> Limits \<Rightarrow> Reason + Series \<times> string" where
  "validateSeries t input lm =
     (if go_len (is_labels input) > LabelsPerSeries lm then Inl ReasonLabelLimit
      else and_then (validate_labels lm {} (is_labels input)) (\<lambda>unsorted.
        let labels = sort_key l_name unsorted; identity = seriesIdentity labels
        in and_then (validate_value t input labels) (\<lambda>series. Inr (series, identity))))"

section \<open>Canonical text\<close>

text \<open>The label map of a series, in the key order of \<^verbatim>\<open>json.Marshal\<close>.\<close>

definition label_fields :: "Label list \<Rightarrow> (string \<times> string) list" where
  "label_fields labels =
     sort_key fst (map (\<lambda>(k, v). (k, json_string v))
       (fold (\<lambda>l m. AList.update (l_name l) (l_value l) m) labels []))"

definition json_bucket :: "Bucket \<Rightarrow> string" where
  "json_bucket b =
     json_object [(''le'', json_string (b_upper_bound b)), (''count'', json_string (format_uint (b_count b)))]"

definition json_histogram :: "HistogramValue \<Rightarrow> string" where
  "json_histogram h =
     json_object [(''count'', json_string (format_uint (hv_count h))), (''sum'', json_string (hv_sum h)),
       (''buckets'', json_array (map json_bucket (hv_buckets h)))]"

definition json_series :: "Series \<Rightarrow> string" where
  "json_series s =
     json_object ([(''labels'', json_object (label_fields (s_labels s)))] @
       (if s_value s = [] then [] else [(''value'', json_string (s_value s))]) @
       (case s_histogram s of None \<Rightarrow> [] | Some h \<Rightarrow> [(''histogram'', json_histogram h)]))"

definition json_family :: "Family \<Rightarrow> string" where
  "json_family f =
     json_object [(''name'', json_string (f_name f)), (''help'', json_string (f_help f)),
       (''type'', json_string (f_type f)), (''series'', json_array (map json_series (f_series f)))]"

definition marshalCanonical :: "Family list \<Rightarrow> bytes" where
  "marshalCanonical families =
     json_object [(''schema_version'', itoa (nat SchemaVersion)),
       (''families'', json_array (map json_family families))] @ [CHR 0x0A]"

section \<open>Validate\<close>

fun validate_series_list ::
  "MetricType \<Rightarrow> Limits \<Rightarrow> string set \<Rightarrow> int \<Rightarrow> InputSeries list \<Rightarrow> Reason + Series list \<times> int" where
  "validate_series_list t lm identities count [] = Inr ([], count)"
| "validate_series_list t lm identities count (x # xs) =
     and_then (validateSeries t x lm) (\<lambda>(series, identity).
       if identity \<in> identities then Inl ReasonDuplicateSeries
       else if count + 1 > SeriesLimit lm then Inl ReasonSeriesLimit
       else and_then (validate_series_list t lm (insert identity identities) (count + 1) xs)
              (\<lambda>(rest, n). Inr (series # rest, n)))"

fun validate_names :: "Limits \<Rightarrow> string \<Rightarrow> (string \<rightharpoonup> string) \<Rightarrow> string list \<Rightarrow> Reason + (string \<rightharpoonup> string)" where
  "validate_names lm base owners [] = Inr owners"
| "validate_names lm base owners (n # ns) =
     (if go_len n > MetricNameBytes lm then Inl ReasonNameLimit
      else if (case owners n of None \<Rightarrow> False | Some owner \<Rightarrow> owner \<noteq> base) then Inl ReasonMetadataConflict
      else validate_names lm base (owners(n \<mapsto> base)) ns)"

text \<open>
  The family loop: the types of the base names and the owners of the encoded names so far, and
  the number of series so far. A family without series is checked but not kept.
\<close>

fun validate_families ::
  "Limits \<Rightarrow> (string \<rightharpoonup> MetricType) \<Rightarrow> (string \<rightharpoonup> string) \<Rightarrow> int \<Rightarrow> InputFamily list \<Rightarrow> Reason + Family list \<times> int" where
  "validate_families lm base_types owners count [] = Inr ([], count)"
| "validate_families lm base_types owners count (f # fs) =
     (case validateFamilyMetadata f lm of
        Some r \<Rightarrow> Inl r
      | None \<Rightarrow>
          (case base_types (if_name f) of
             Some previous \<Rightarrow> Inl (if previous \<noteq> if_type f then ReasonTypeConflict else ReasonMetadataConflict)
           | None \<Rightarrow>
               and_then (validate_names lm (if_name f) owners (encodedSampleNames (if_name f) (if_type f))) (\<lambda>owners'.
               and_then (validate_series_list (if_type f) lm {} count (if_series f)) (\<lambda>(series, count').
               and_then (validate_families lm (base_types(if_name f \<mapsto> if_type f)) owners' count' fs) (\<lambda>(rest, n).
                 Inr (if series = [] then rest
                      else \<lparr>f_name = if_name f, f_help = if_help f, f_type = if_type f,
                            f_series = sort_key (\<lambda>s. seriesIdentity (s_labels s)) series\<rparr> # rest, n))))))"

definition Validate :: "CandidateSnapshot \<Rightarrow> Limits \<Rightarrow> Reason + ValidatedSnapshot" where
  "Validate candidate lm =
     (if cs_schema_version candidate \<noteq> SchemaVersion then Inl ReasonSchemaVersion
      else if cs_decoded_bytes candidate > DecodedBytes lm then Inl ReasonPayloadLimit
      else and_then (validate_families lm Map.empty Map.empty 0 (cs_families candidate)) (\<lambda>(unsorted, count).
        let families = sort_key f_name unsorted; canonical = marshalCanonical families
        in if go_len canonical > SnapshotBytes lm then Inl ReasonPayloadLimit
           else Inr \<lparr>v_families = families, v_canonical = canonical, v_series = count\<rparr>))"

definition zeroCanonical :: bytes where
  "zeroCanonical =
     CHR ''{'' # json_string ''schema_version'' @ '':1,'' @ json_string ''families'' @ '':[]}'' @ [CHR 0x0A]"

definition Zero :: ValidatedSnapshot where
  "Zero = \<lparr>v_families = [], v_canonical = zeroCanonical, v_series = 0\<rparr>"

end
