(* ===== verification/Json_Parse.thy ===== *)
theory Json_Parse
  imports Snapshot_Model
begin

text \<open>
  Reading JSON the way \<^verbatim>\<open>encoding/json\<close> does it: the token scan that the parsers of the
  repository run over a text to reject duplicate members, and the values that
  \<^verbatim>\<open>json.Unmarshal\<close> then finds in it.

  A scan goes from left to right and stops at its first error, so that a duplicate member is reported
  as such when it comes before a syntax error. The tree keeps the members in the order of the text; a
  number keeps its text. The strict scan
  refuses an object with two members of one name, the other keeps them all. The scan runs on fuel; more than twice the length of the text is enough.
\<close>

section \<open>Trees\<close>

datatype json =
    JNull
  | JBool bool
  | JNum string
  | JStr string
  | JArr "json list"
  | JObj "(string \<times> json) list"

datatype scan_error = ScanSyntax | ScanDuplicate bool | ScanFuel

text \<open>The nesting depth, which \<^verbatim>\<open>json.Unmarshal\<close> limits to ten thousand.\<close>

fun json_depth :: "json \<Rightarrow> nat" where
  "json_depth (JArr xs) = Suc (fold max (map json_depth xs) 0)"
| "json_depth (JObj ms) = Suc (fold max (map (\<lambda>(k, v). json_depth v) ms) 0)"
| "json_depth _ = 0"

definition max_depth :: nat where "max_depth = 10000"

section \<open>Strings\<close>

definition hex_value :: "char \<Rightarrow> nat option" where
  "hex_value c =
     (let n = of_char c :: nat in
      if byte_in 48 57 c then Some (n - 48)
      else if byte_in 97 102 c then Some (n - 87)
      else if byte_in 65 70 c then Some (n - 55)
      else None)"

definition getu4 :: "string \<Rightarrow> nat option" where
  "getu4 s =
     (if length s < 4 then None
      else case (hex_value (s ! 0), hex_value (s ! 1), hex_value (s ! 2), hex_value (s ! 3)) of
             (Some a, Some b, Some c, Some d) \<Rightarrow> Some (((a * 16 + b) * 16 + c) * 16 + d)
           | _ \<Rightarrow> None)"

definition utf8_encode :: "nat \<Rightarrow> string" where
  "utf8_encode r =
     (if r < 128 then [char_of r]
      else if r < 2048 then [char_of (192 + r div 64), char_of (128 + r mod 64)]
      else if r < 65536 then [char_of (224 + r div 4096), char_of (128 + r div 64 mod 64), char_of (128 + r mod 64)]
      else [char_of (240 + r div 262144), char_of (128 + r div 4096 mod 64), char_of (128 + r div 64 mod 64), char_of (128 + r mod 64)])"

definition replacement :: string where
  "replacement = [CHR 0xEF, CHR 0xBF, CHR 0xBD]"

text \<open>
  An escape after its backslash: what it stands for and how many bytes it takes. A surrogate pair is
  one character; a half without its other half is a replacement character.
\<close>

definition unicode_escape :: "string \<Rightarrow> (string \<times> nat) option" where
  "unicode_escape s =
     (case getu4 s of
        None \<Rightarrow> None
      | Some r \<Rightarrow>
          if 0xD800 \<le> r \<and> r < 0xE000 then
            (case (if take 2 (drop 4 s) = [backslash, CHR ''u''] then getu4 (drop 6 s) else None) of
               None \<Rightarrow> Some (replacement, 4)
             | Some r1 \<Rightarrow>
                 if r < 0xDC00 \<and> 0xDC00 \<le> r1 \<and> r1 < 0xE000
                 then Some (utf8_encode ((r - 0xD800) * 1024 + (r1 - 0xDC00) + 0x10000), 10)
                 else Some (replacement, 4))
          else Some (utf8_encode r, 4))"

definition read_escape :: "string \<Rightarrow> (string \<times> nat) option" where
  "read_escape s =
     (if s = [] then None
      else
        let c = hd s in
        if c = dquote \<or> c = backslash \<or> c = CHR ''/'' then Some ([c], 1)
        else if c = CHR ''b'' then Some ([CHR 0x08], 1)
        else if c = CHR ''f'' then Some ([CHR 0x0C], 1)
        else if c = CHR ''n'' then Some ([CHR 0x0A], 1)
        else if c = CHR ''r'' then Some ([CHR 0x0D], 1)
        else if c = CHR ''t'' then Some ([CHR 0x09], 1)
        else if c = CHR ''u'' then map_option (\<lambda>(w, n). (w, Suc n)) (unicode_escape (tl s))
        else None)"

definition prepend :: "string \<Rightarrow> (string \<times> string) option \<Rightarrow> (string \<times> string) option" where
  "prepend w r = map_option (\<lambda>(v, rest). (w @ v, rest)) r"

text \<open>A string after its opening quote: what it stands for and the text after the closing quote.\<close>

function read_string :: "string \<Rightarrow> (string \<times> string) option" where
  "read_string [] = None"
| "read_string (c # cs) =
     (if c = dquote then Some ([], cs)
      else if c = backslash then
        (case read_escape cs of
           None \<Rightarrow> None
         | Some (w, n) \<Rightarrow> prepend w (read_string (drop n cs)))
      else if (of_char c :: nat) < 32 then None
      else if is_ascii c then prepend [c] (read_string cs)
      else (case utf8_seq c cs of
              None \<Rightarrow> prepend replacement (read_string cs)
            | Some n \<Rightarrow> prepend (c # take n cs) (read_string (drop n cs))))"
  by pat_completeness auto
termination by (relation "measure length") auto

section \<open>The scan\<close>

definition skip_ws :: "string \<Rightarrow> string" where
  "skip_ws = dropWhile (\<lambda>c. c \<in> {CHR '' '', CHR 0x09, CHR 0x0A, CHR 0x0D})"

definition number_char :: "char \<Rightarrow> bool" where
  "number_char c \<longleftrightarrow> is_digit c \<or> c \<in> {CHR ''+'', CHR ''-'', CHR ''.'', CHR ''e'', CHR ''E''}"

definition read_scalar :: "string \<Rightarrow> scan_error + json \<times> string" where
  "read_scalar s =
     (if has_prefix s ''null'' then Inr (JNull, drop 4 s)
      else if has_prefix s ''true'' then Inr (JBool True, drop 4 s)
      else if has_prefix s ''false'' then Inr (JBool False, drop 5 s)
      else if s \<noteq> [] \<and> hd s = dquote then
        (case read_string (tl s) of None \<Rightarrow> Inl ScanSyntax | Some (v, r) \<Rightarrow> Inr (JStr v, r))
      else if finitePattern (takeWhile number_char s) then Inr (JNum (takeWhile number_char s), dropWhile number_char s)
      else Inl ScanSyntax)"

fun scan_value :: "bool \<Rightarrow> nat \<Rightarrow> string \<Rightarrow> string \<Rightarrow> scan_error + json \<times> string"
and scan_members :: "bool \<Rightarrow> nat \<Rightarrow> string \<Rightarrow> string list \<Rightarrow> string \<Rightarrow> scan_error + (string \<times> json) list \<times> string"
and scan_elements :: "bool \<Rightarrow> nat \<Rightarrow> string \<Rightarrow> string \<Rightarrow> scan_error + json list \<times> string" where
  "scan_value strict 0 parent s = Inl ScanFuel"
| "scan_value strict (Suc n) parent s =
     (let t = skip_ws s; u = skip_ws (tl t) in
      if t = [] then Inl ScanSyntax
      else if hd t = CHR ''{'' then
        (if u \<noteq> [] \<and> hd u = CHR ''}'' then Inr (JObj [], tl u)
         else and_then (scan_members strict n parent [] u) (\<lambda>(ms, r). Inr (JObj ms, r)))
      else if hd t = CHR ''['' then
        (if u \<noteq> [] \<and> hd u = CHR '']'' then Inr (JArr [], tl u)
         else and_then (scan_elements strict n parent u) (\<lambda>(xs, r). Inr (JArr xs, r)))
      else read_scalar t)"
| "scan_members strict 0 parent seen s = Inl ScanFuel"
| "scan_members strict (Suc n) parent seen s =
     (if s = [] \<or> hd s \<noteq> dquote then Inl ScanSyntax
      else case read_string (tl s) of
             None \<Rightarrow> Inl ScanSyntax
           | Some (key, r) \<Rightarrow>
               if key \<in> set seen then Inl (ScanDuplicate (parent = ''labels''))
               else
                 let t = skip_ws r in
                 if t = [] \<or> hd t \<noteq> CHR '':'' then Inl ScanSyntax
                 else and_then (scan_value strict n key (tl t)) (\<lambda>(v, r).
                   let u = skip_ws r in
                   if u = [] then Inl ScanSyntax
                   else if hd u = CHR ''}'' then Inr ([(key, v)], tl u)
                   else if hd u = CHR '','' then
                     and_then (scan_members strict n parent (if strict then key # seen else []) (skip_ws (tl u))) (\<lambda>(ms, r). Inr ((key, v) # ms, r))
                   else Inl ScanSyntax))"
| "scan_elements strict 0 parent s = Inl ScanFuel"
| "scan_elements strict (Suc n) parent s =
     and_then (scan_value strict n parent s) (\<lambda>(v, r).
       let u = skip_ws r in
       if u = [] then Inl ScanSyntax
       else if hd u = CHR '']'' then Inr ([v], tl u)
       else if hd u = CHR '','' then and_then (scan_elements strict n parent (tl u)) (\<lambda>(vs, r). Inr (v # vs, r))
       else Inl ScanSyntax)"

text \<open>One value and nothing but white space after it.\<close>

definition scan_document :: "string \<Rightarrow> scan_error + json" where
  "scan_document s =
     and_then (scan_value True (Suc (2 * length s)) [] s) (\<lambda>(v, r). if skip_ws r = [] then Inr v else Inl ScanSyntax)"

section \<open>Unmarshalling\<close>

text \<open>
  A null leaves the target as it was: the empty string, the zero number, and for a slice or a map the
  nil value, which the callers refuse.
\<close>

definition unmarshal_string :: "json \<Rightarrow> string option" where
  "unmarshal_string j = (case j of JStr s \<Rightarrow> Some s | JNull \<Rightarrow> Some [] | _ \<Rightarrow> None)"

definition unmarshal_array :: "json \<Rightarrow> json list option" where
  "unmarshal_array j = (case j of JArr xs \<Rightarrow> Some xs | _ \<Rightarrow> None)"

definition unmarshal_object :: "json \<Rightarrow> (string \<times> json) list option" where
  "unmarshal_object j = (case j of JObj ms \<Rightarrow> Some ms | _ \<Rightarrow> None)"

text \<open>An \<^verbatim>\<open>int\<close>: an optional minus and digits, within 64 bits.\<close>

definition unmarshal_int :: "json \<Rightarrow> int option" where
  "unmarshal_int j =
     (case j of
        JNull \<Rightarrow> Some 0
      | JNum s \<Rightarrow>
          (let neg = has_prefix s ''-''; ds = (if neg then tl s else s) in
           if ds = [] \<or> \<not> list_all is_digit ds then None
           else let v = (if neg then - int (digits_val ds) else int (digits_val ds)) in
             if - (2 ^ 63) \<le> v \<and> v < 2 ^ 63 then Some v else None)
      | _ \<Rightarrow> None)"

end
