(* ===== verification/Json_Parse_Facts.thy ===== *)
theory Json_Parse_Facts
  imports Json_Parse
begin

text \<open>
  The scan never runs out of fuel, and it reads back the text that \<^verbatim>\<open>json.Marshal\<close> writes for
  a tree.
\<close>

section \<open>Fuel\<close>

lemma skip_ws_length: "length (skip_ws s) \<le> length s"
  by (simp add: skip_ws_def length_dropWhile_le)

lemma prepend_Some: "prepend w r = Some (v, rest) \<Longrightarrow> \<exists>v'. r = Some (v', rest)"
  by (auto simp: prepend_def)

lemma read_string_length: "read_string s = Some (v, r) \<Longrightarrow> length r < length s"
proof (induction s arbitrary: v r rule: read_string.induct)
  case (2 c cs)
  from "2.prems" consider "r = cs" | w n v' where "read_escape cs = Some (w, n)" "c = backslash" "c \<noteq> dquote"
      "read_string (drop n cs) = Some (v', r)"
    | v' where "read_string cs = Some (v', r)" "c \<noteq> dquote" "c \<noteq> backslash" "\<not> (of_char c :: nat) < 32" "is_ascii c"
    | v' where "read_string cs = Some (v', r)" "c \<noteq> dquote" "c \<noteq> backslash" "\<not> (of_char c :: nat) < 32" "\<not> is_ascii c"
        "utf8_seq c cs = None"
    | n v' where "utf8_seq c cs = Some n" "read_string (drop n cs) = Some (v', r)" "c \<noteq> dquote" "c \<noteq> backslash"
        "\<not> (of_char c :: nat) < 32" "\<not> is_ascii c"
    by (auto split: if_splits option.splits dest!: prepend_Some)
  then show ?case
  proof cases
    case (2 w n v')
    from "2.IH"(1) [OF 2(3,2,1) refl 2(4)] show ?thesis by simp
  next
    case (3 v')
    from "2.IH"(2) [OF 3(2-5) 3(1)] show ?thesis by simp
  next
    case (4 v')
    from "2.IH"(3) [OF 4(2-6) 4(1)] show ?thesis by simp
  next
    case (5 n v')
    from "2.IH"(4) [OF 5(3-6) 5(1,2)] show ?thesis by simp
  qed simp
qed simp

lemma read_scalar_length: "read_scalar s = Inr (v, r) \<Longrightarrow> length r < length s"
proof -
  assume a: "read_scalar s = Inr (v, r)"
  have n: "finitePattern (takeWhile number_char s) \<Longrightarrow> takeWhile number_char s \<noteq> []"
    by (auto simp: finitePattern_def canonical_digits_def)
  have "length (dropWhile number_char s) < length s" if "takeWhile number_char s \<noteq> []"
  proof -
    have "length s = length (takeWhile number_char s) + length (dropWhile number_char s)"
      by (metis length_append takeWhile_dropWhile_id)
    with that show ?thesis by (cases "takeWhile number_char s") auto
  qed
  moreover have "length (tl s) < length s" if "s \<noteq> []" using that by (cases s) auto
  ultimately show ?thesis
    using a n read_string_length [of "tl s"]
    by (auto simp: read_scalar_def has_prefix_def split: if_splits option.splits) (fastforce dest: less_trans)+
qed

lemma skip_tl_less: "skip_ws s \<noteq> [] \<Longrightarrow> length (tl (skip_ws s)) < length s"
proof -
  assume "skip_ws s \<noteq> []"
  then have "length (tl (skip_ws s)) < length (skip_ws s)" by (cases "skip_ws s") auto
  with skip_ws_length [of s] show ?thesis by simp
qed

lemma scan_length:
  shows "scan_value d n p s = Inr (v, r) \<Longrightarrow> length r < length s"
    and "scan_members d n p seen s = Inr (ms, r) \<Longrightarrow> length r < length s"
    and "scan_elements d n p s = Inr (xs, r) \<Longrightarrow> length r < length s"
proof (induction d n p s and d n p seen s and d n p s arbitrary: v r and ms r and xs r rule: scan_value_scan_members_scan_elements.induct)
  case (2 d n p s)
  let ?t = "skip_ws s" and ?u = "skip_ws (tl (skip_ws s))"
  from "2.prems" have t: "?t \<noteq> []" by (auto simp: Let_def)
  have u: "length ?u < length s" using skip_tl_less [OF t] skip_ws_length [of "tl ?t"] by simp
  have tu: "length (tl ?u) < length s" using u by simp
  consider "hd ?t = CHR ''{''" | "hd ?t = CHR ''[''" | "hd ?t \<noteq> CHR ''{''" "hd ?t \<noteq> CHR ''[''" by blast
  then show ?case
  proof cases
    case 1
    then have "r = tl ?u \<or> (\<exists>ms. scan_members d n p [] ?u = Inr (ms, r) \<and> \<not> (?u \<noteq> [] \<and> hd ?u = CHR ''}''))"
      using "2.prems" t by (auto simp: Let_def and_then_Inr_iff split: if_splits)
    with "2.IH"(1) [OF refl refl t 1] u tu show ?thesis by fastforce
  next
    case 2
    then have "r = tl ?u \<or> (\<exists>xs. scan_elements d n p ?u = Inr (xs, r) \<and> \<not> (?u \<noteq> [] \<and> hd ?u = CHR '']''))"
      using "2.prems" t by (auto simp: Let_def and_then_Inr_iff split: if_splits)
    with "2.IH"(2) [OF refl refl t _ 2] 2 u tu show ?thesis by fastforce
  next
    case 3
    then have "read_scalar ?t = Inr (v, r)" using "2.prems" t by (simp add: Let_def)
    from read_scalar_length [OF this] skip_ws_length [of s] show ?thesis by simp
  qed
next
  case (4 d n p seen s)
  from "4.prems" obtain key q where k: "s \<noteq> []" "hd s = dquote" "read_string (tl s) = Some (key, q)" "key \<notin> set seen"
    by (auto split: if_splits option.splits)
  let ?t = "skip_ws q"
  from "4.prems" k obtain w q' where t: "?t \<noteq> []" "hd ?t = CHR '':''" "scan_value d n key (tl ?t) = Inr (w, q')"
    by (auto simp: Let_def and_then_Inr_iff split: if_splits)
  let ?u = "skip_ws q'"
  have a: "length q < length s" using read_string_length [OF k(3)] by simp
  have b: "length q' < length (tl ?t)" using "4.IH"(1) [of "(key, q)" key q ?t] k t by simp
  have c: "length (tl ?t) < length q" using skip_tl_less [OF t(1)] .
  from "4.prems" k t have un: "?u \<noteq> []" by (auto simp: Let_def)
  have d: "length (tl ?u) < length q'" using skip_tl_less [OF un] .
  have "r = tl ?u \<or> (\<exists>ms. hd ?u = CHR '','' \<and> scan_members d n p (if d then key # seen else []) (skip_ws (tl ?u)) = Inr (ms, r) \<and> hd ?u \<noteq> CHR ''}'')"
    using "4.prems" k t un by (auto simp: Let_def and_then_Inr_iff split: if_splits)
  then show ?case
  proof
    assume "\<exists>ms. hd ?u = CHR '','' \<and> scan_members d n p (if d then key # seen else []) (skip_ws (tl ?u)) = Inr (ms, r) \<and> hd ?u \<noteq> CHR ''}''"
    then obtain ms' where m: "hd ?u = CHR '',''" "scan_members d n p (if d then key # seen else []) (skip_ws (tl ?u)) = Inr (ms', r)" by blast
    have "length r < length (skip_ws (tl ?u))"
      using "4.IH"(2) [of "(key, q)" key q ?t "(w, q')" w q' ?u] k t un m by simp
    with a b c d skip_ws_length [of "tl ?u"] show ?thesis by linarith
  next
    assume "r = tl ?u"
    then have "length r = length (tl ?u)" by (rule arg_cong)
    with a b c d show ?thesis by linarith
  qed
next
  case (6 d n p s)
  from "6.prems" obtain w q where w: "scan_value d n p s = Inr (w, q)" by (auto simp: and_then_Inr_iff)
  let ?u = "skip_ws q"
  have a: "length q < length s" using "6.IH"(1) [OF w] .
  from "6.prems" w have un: "?u \<noteq> []" by (auto simp: Let_def)
  have d: "length (tl ?u) < length q" using skip_tl_less [OF un] .
  have "r = tl ?u \<or> (\<exists>xs. hd ?u = CHR '','' \<and> scan_elements d n p (tl ?u) = Inr (xs, r))"
    using "6.prems" w un by (auto simp: Let_def and_then_Inr_iff split: if_splits)
  then show ?case
  proof
    assume "\<exists>xs. hd ?u = CHR '','' \<and> scan_elements d n p (tl ?u) = Inr (xs, r)"
    then obtain ys where m: "hd ?u = CHR '',''" "scan_elements d n p (tl ?u) = Inr (ys, r)" by blast
    have "length r < length (tl ?u)" using "6.IH"(2) [of "(w, q)" w q ?u] w un m by simp
    with a d show ?thesis by linarith
  next
    assume "r = tl ?u"
    then have "length r = length (tl ?u)" by (rule arg_cong)
    with a d show ?thesis by linarith
  qed
qed simp_all

lemma read_scalar_fuel: "read_scalar s \<noteq> Inl ScanFuel"
  by (auto simp: read_scalar_def split: option.splits)

lemma scan_fuel:
  shows "2 * length s < n \<Longrightarrow> scan_value d n p s \<noteq> Inl ScanFuel"
    and "2 * length s < n \<Longrightarrow> scan_members d n p seen s \<noteq> Inl ScanFuel"
    and "Suc (2 * length s) < n \<Longrightarrow> scan_elements d n p s \<noteq> Inl ScanFuel"
proof (induction d n p s and d n p seen s and d n p s rule: scan_value_scan_members_scan_elements.induct)
  case (2 d n p s)
  let ?t = "skip_ws s" and ?u = "skip_ws (tl (skip_ws s))"
  show ?case
  proof (cases "?t = []")
    case False
    have u: "length ?u < length s" using skip_tl_less [OF False] skip_ws_length [of "tl ?t"] by simp
    then have "Suc (2 * length ?u) < n" "2 * length ?u < n" using "2.prems" by linarith+
    then have "hd ?t = CHR ''{'' \<Longrightarrow> \<not> (?u \<noteq> [] \<and> hd ?u = CHR ''}'') \<Longrightarrow> scan_members d n p [] ?u \<noteq> Inl ScanFuel"
      "hd ?t = CHR ''['' \<Longrightarrow> \<not> (?u \<noteq> [] \<and> hd ?u = CHR '']'') \<Longrightarrow> scan_elements d n p ?u \<noteq> Inl ScanFuel"
      using "2.IH"(1) [OF refl refl False] "2.IH"(2) [OF refl refl False] by simp_all
    with False show ?thesis by (auto simp: Let_def and_then_Inl_iff read_scalar_fuel)
  qed simp
next
  case (4 d n p seen s)
  show ?case
  proof (cases "s = [] \<or> hd s \<noteq> dquote \<or> read_string (tl s) = None")
    case False
    then obtain key q where k: "s \<noteq> []" "hd s = dquote" "read_string (tl s) = Some (key, q)" by auto
    let ?t = "skip_ws q"
    have a: "length q < length s" using read_string_length [OF k(3)] by simp
    show ?thesis
    proof (cases "key \<in> set seen \<or> ?t = [] \<or> hd ?t \<noteq> CHR '':''")
      case False
      then have t: "key \<notin> set seen" "?t \<noteq> []" "hd ?t = CHR '':''" by auto
      have c: "length (tl ?t) < length q" using skip_tl_less [OF t(2)] .
      have "2 * length (tl ?t) < n" using a c "4.prems" by linarith
      then have v: "scan_value d n key (tl ?t) \<noteq> Inl ScanFuel" using "4.IH"(1) [of "(key, q)" key q ?t] k t by simp
      have "scan_members d n p (if d then key # seen else []) (skip_ws (tl (skip_ws q'))) \<noteq> Inl ScanFuel"
        if "scan_value d n key (tl ?t) = Inr (w, q')" "skip_ws q' \<noteq> []" "hd (skip_ws q') = CHR '',''" for w q'
      proof -
        have "length q' < length (tl ?t)" using scan_length(1) [OF that(1)] .
        moreover have "length (skip_ws (tl (skip_ws q'))) < length q'"
          using skip_tl_less [OF that(2)] skip_ws_length [of "tl (skip_ws q')"] by simp
        ultimately have "2 * length (skip_ws (tl (skip_ws q'))) < n" using a c "4.prems" by linarith
        then show ?thesis using "4.IH"(2) [of "(key, q)" key q ?t "(w, q')" w q' "skip_ws q'"] k t that by simp
      qed
      with k t v show ?thesis by (auto simp: Let_def and_then_Inl_iff)
    qed (use k in \<open>auto simp: Let_def\<close>)
  qed (auto simp: Let_def split: option.splits)
next
  case (6 d n p s)
  have v: "scan_value d n p s \<noteq> Inl ScanFuel" using "6.IH"(1) "6.prems" by simp
  have "scan_elements d n p (tl (skip_ws q)) \<noteq> Inl ScanFuel"
    if "scan_value d n p s = Inr (w, q)" "skip_ws q \<noteq> []" "hd (skip_ws q) = CHR '',''" for w q
  proof -
    have "length q < length s" using scan_length(1) [OF that(1)] .
    moreover have "length (tl (skip_ws q)) < length q" using skip_tl_less [OF that(2)] .
    ultimately have "Suc (2 * length (tl (skip_ws q))) < n" using "6.prems" by linarith
    then show ?thesis using "6.IH"(2) [of "(w, q)" w q "skip_ws q"] that by simp
  qed
  with v show ?case by (auto simp: Let_def and_then_Inl_iff)
qed simp_all

lemma scan_document_fuel: "scan_document s \<noteq> Inl ScanFuel"
  using scan_fuel(1) [of s "Suc (2 * length s)" True "[]"] by (auto simp: scan_document_def and_then_Inl_iff simp del: scan_value.simps)

section \<open>Strings are read back\<close>

lemma hex_value_digit: "n < 16 \<Longrightarrow> hex_value (hex_digit n) = Some n"
  by (auto simp: hex_value_def hex_digit_def byte_in_def Let_def)

lemma getu4_ascii:
  assumes "n < 128"
  shows "getu4 (CHR ''0'' # CHR ''0'' # hex_digit (n div 16) # hex_digit (n mod 16) # t) = Some n"
proof -
  have "n div 16 < 16" "n mod 16 < 16" using assms by auto
  then have h: "hex_value (hex_digit (n div 16)) = Some (n div 16)" "hex_value (hex_digit (n mod 16)) = Some (n mod 16)"
    by (simp_all add: hex_value_digit)
  have z: "hex_value (CHR ''0'') = Some 0" by (simp add: hex_value_def byte_in_def)
  show ?thesis unfolding getu4_def by (simp add: h z)
qed

lemma read_escape_ascii:
  "n < 128 \<Longrightarrow> read_escape (CHR ''u'' # CHR ''0'' # CHR ''0'' # hex_digit (n div 16) # hex_digit (n mod 16) # t) = Some ([char_of n], 5)"
  by (simp add: read_escape_def unicode_escape_def getu4_ascii utf8_encode_def backslash_def dquote_def)

lemma of_char_eq_iff: "(of_char c :: nat) = n \<Longrightarrow> c = char_of n"
  by auto

lemma char_literals:
  "char_of (8 :: nat) = CHR 0x08" "char_of (9 :: nat) = CHR 0x09" "char_of (10 :: nat) = newline" "char_of (12 :: nat) = CHR 0x0C"
  "char_of (13 :: nat) = CHR 0x0D" "char_of (226 :: nat) = CHR 0xE2" "char_of (128 :: nat) = CHR 0x80"
  "char_of (168 :: nat) = CHR 0xA8" "char_of (169 :: nat) = CHR 0xA9"
  by code_simp+

lemma read_string_ascii:
  assumes "is_ascii c"
  shows "read_string (json_escape_ascii c @ t) = prepend [c] (read_string t)"
proof -
  let ?n = "of_char c :: nat"
  have n: "?n < 128" using assms by (simp add: is_ascii_def)
  have bd: "backslash \<noteq> dquote" by (simp add: backslash_def dquote_def)
  consider "c = dquote \<or> c = backslash" | "?n = 8" | "?n = 12" | "?n = 10" | "?n = 13" | "?n = 9"
    | "c \<noteq> dquote" "c \<noteq> backslash" "?n \<notin> {8, 9, 10, 12, 13}" "?n < 32 \<or> c \<in> {CHR ''<'', CHR ''>'', CHR 0x26}"
    | "c \<noteq> dquote" "c \<noteq> backslash" "\<not> ?n < 32" "c \<notin> {CHR ''<'', CHR ''>'', CHR 0x26}"
    by fastforce
  then show ?thesis
  proof cases
    case 1
    then show ?thesis by (auto simp: json_escape_ascii_def read_escape_def bd)
  next
    case 7
    then have e: "json_escape_ascii c = [backslash, CHR ''u'', CHR ''0'', CHR ''0'', hex_digit (?n div 16), hex_digit (?n mod 16)]"
      by (auto simp: json_escape_ascii_def Let_def)
    show ?thesis unfolding e using read_escape_ascii [OF n, of t] by (simp add: bd)
  next
    case 8
    then have "json_escape_ascii c = [c]" by (auto simp: json_escape_ascii_def Let_def)
    with 8 assms show ?thesis by simp
  qed (auto dest!: of_char_eq_iff simp: json_escape_ascii_def Let_def read_escape_def bd dquote_def backslash_def char_literals)
qed

lemma utf8_seq_append: "utf8_seq c cs = Some n \<Longrightarrow> utf8_seq c (take n cs @ r) = Some n"
  by (cases cs) (auto simp: utf8_seq_def take_Cons' split: option.splits if_splits nat.splits)

lemma read_string_wide:
  assumes "\<not> is_ascii c" "utf8_seq c cs = Some n"
  shows "read_string (c # take n cs @ t) = prepend (c # take n cs) (read_string t)"
proof -
  have c: "c \<noteq> dquote" "c \<noteq> backslash" "\<not> (of_char c :: nat) < 32" using assms(1) by (auto simp: is_ascii_def dquote_def backslash_def)
  have l: "n \<le> length cs" using utf8_seq_length [OF assms(2)] .
  from utf8_seq_append [OF assms(2), of t] c assms(1) l show ?thesis by simp
qed

lemma read_string_separator:
  "line_separator w = Some e \<Longrightarrow> read_string (e @ t) = prepend w (read_string t)"
  by (auto simp: line_separator_def read_escape_def unicode_escape_def getu4_def hex_value_def byte_in_def utf8_encode_def
      backslash_def dquote_def char_literals split: if_splits)

lemma prepend_Some_eq [simp]: "prepend w (Some (v, r)) = Some (w @ v, r)"
  by (simp add: prepend_def)

lemma read_string_escape: "utf8_valid s \<Longrightarrow> read_string (json_escape s @ dquote # r) = Some (s, r)"
proof (induction s rule: json_escape.induct)
  case (2 c cs)
  show ?case
  proof (cases "is_ascii c")
    case True
    then have "utf8_seq c cs = Some 0" by (simp add: utf8_seq_def utf8_lead_def byte_in_def is_ascii_def)
    then have "utf8_valid cs" using "2.prems" by (simp add: utf8_valid_Cons del: utf8_valid.simps)
    with "2.IH"(1) True show ?thesis by (simp add: read_string_ascii del: read_string.simps)
  next
    case False
    obtain n where n: "utf8_seq c cs = Some n" and v: "utf8_valid (drop n cs)"
      using "2.prems" by (auto simp: utf8_valid_Cons simp del: utf8_valid.simps split: option.splits)
    have ih: "read_string (json_escape (drop n cs) @ dquote # r) = Some (drop n cs, r)" using "2.IH"(3) [OF False n v] .
    show ?thesis
    proof (cases "line_separator (c # take n cs)")
      case None
      with False n ih read_string_wide [OF False n, of "json_escape (drop n cs) @ dquote # r"] show ?thesis
        by (simp del: read_string.simps)
    next
      case (Some e)
      with False n ih read_string_separator [OF Some, of "json_escape (drop n cs) @ dquote # r"] show ?thesis
        by (simp del: read_string.simps)
    qed
  qed
qed simp

section \<open>Trees are read back\<close>

fun json_text :: "json \<Rightarrow> string" where
  "json_text JNull = ''null''"
| "json_text (JBool b) = (if b then ''true'' else ''false'')"
| "json_text (JNum s) = s"
| "json_text (JStr s) = json_string s"
| "json_text (JArr xs) = json_array (map json_text xs)"
| "json_text (JObj ms) = json_object (map (\<lambda>(k, v). (k, json_text v)) ms)"

fun json_ok :: "json \<Rightarrow> bool" where
  "json_ok (JNum s) = (finitePattern s \<and> list_all number_char s)"
| "json_ok (JStr s) = utf8_valid s"
| "json_ok (JArr xs) = (\<forall>x\<in>set xs. json_ok x)"
| "json_ok (JObj ms) = (distinct (map fst ms) \<and> (\<forall>(k, v)\<in>set ms. utf8_valid k \<and> json_ok v))"
| "json_ok _ = True"

definition stops :: "string \<Rightarrow> bool" where
  "stops r \<longleftrightarrow> r = [] \<or> \<not> number_char (hd r)"

lemma stops_simps [simp]:
  "stops []" "stops (CHR '','' # r)" "stops (CHR ''}'' # r)" "stops (CHR '']'' # r)" "stops (newline # r)"
  by (simp_all add: stops_def number_char_def is_digit_def)

definition is_ws :: "char \<Rightarrow> bool" where
  "is_ws c \<longleftrightarrow> c \<in> {CHR '' '', CHR 0x09, CHR 0x0A, CHR 0x0D}"

lemma skip_ws_stop: "\<not> is_ws c \<Longrightarrow> skip_ws (c # s) = c # s"
  by (auto simp: skip_ws_def is_ws_def)

lemma skip_ws_marks [simp]:
  "skip_ws [] = []" "skip_ws (CHR ''{'' # s) = CHR ''{'' # s" "skip_ws (CHR ''}'' # s) = CHR ''}'' # s"
  "skip_ws (CHR ''['' # s) = CHR ''['' # s" "skip_ws (CHR '']'' # s) = CHR '']'' # s" "skip_ws (CHR '','' # s) = CHR '','' # s"
  "skip_ws (CHR '':'' # s) = CHR '':'' # s" "skip_ws (dquote # s) = dquote # s"
  by (simp_all add: skip_ws_def dquote_def)

lemma number_first: "finitePattern s \<Longrightarrow> list_all number_char s \<Longrightarrow>
    \<exists>c cs. s = c # cs \<and> (is_digit c \<or> c = CHR ''-'')"
  by (cases s) (auto simp: finitePattern_def canonical_digits_def Let_def split: if_splits)

lemma json_text_first:
  assumes "json_ok j"
  obtains c cs where "json_text j = c # cs" "\<not> is_ws c" "c \<noteq> CHR '']''" "c \<noteq> CHR ''}''"
proof (cases j)
  case (JNum s)
  with assms number_first [of s] obtain c cs where s: "s = c # cs" "is_digit c \<or> c = CHR ''-''" by auto
  then have "\<not> is_ws c" "c \<noteq> CHR '']''" "c \<noteq> CHR ''}''" by (auto simp: is_ws_def is_digit_def)
  with s JNum that show thesis by simp
next
  case (JBool b)
  with that show thesis by (cases b) (auto simp: is_ws_def)
qed (use that in \<open>auto simp: json_string_def json_array_def json_object_def is_ws_def dquote_def split: if_splits\<close>)

lemma skip_ws_text: "json_ok j \<Longrightarrow> skip_ws (json_text j @ r) = json_text j @ r"
  using json_text_first [of j] skip_ws_stop by (metis append_Cons)

lemma read_scalar_number:
  assumes "finitePattern s" "list_all number_char s" "stops r"
  shows "read_scalar (s @ r) = Inr (JNum s, r)"
proof -
  obtain c cs where s: "s = c # cs" "is_digit c \<or> c = CHR ''-''" using number_first [OF assms(1,2)] by blast
  then have c: "c \<noteq> CHR ''n''" "c \<noteq> CHR ''t''" "c \<noteq> CHR ''f''" "c \<noteq> dquote" by (auto simp: is_digit_def dquote_def)
  have "takeWhile number_char (s @ r) = s" "dropWhile number_char (s @ r) = r"
    using assms(2,3) by (cases r; simp add: list_all_iff stops_def)+
  with assms(1) c s(1) show ?thesis by (simp add: read_scalar_def has_prefix_def)
qed

definition member_text :: "string \<times> json \<Rightarrow> string" where
  "member_text m = json_string (fst m) @ CHR '':'' # json_text (snd m)"

lemma json_text_JObj: "json_text (JObj ms) = CHR ''{'' # commas (map member_text ms) @ ''}''"
proof -
  have "member_text = (\<lambda>(k, v). json_string k @ CHR '':'' # json_text v)" by (simp add: fun_eq_iff member_text_def)
  then show ?thesis by (simp add: json_object_def comp_def case_prod_unfold)
qed

lemma json_text_JArr: "json_text (JArr xs) = CHR ''['' # commas (map json_text xs) @ '']''"
  by (simp add: json_array_def)

lemma commas_Cons: "commas (x # xs) = x @ (if xs = [] then [] else CHR '','' # commas xs)"
  by (cases xs) auto

lemma scan_members_text:
  assumes sv: "\<And>k v n p r. (k, v) \<in> set ms \<Longrightarrow> 2 * length (json_text v) < n \<Longrightarrow> stops r \<Longrightarrow>
      scan_value d n p (json_text v @ r) = Inr (v, r)"
    and "ms \<noteq> []" "distinct (map fst ms)" "\<forall>(k, v)\<in>set ms. utf8_valid k \<and> json_ok v" "fst ` set ms \<inter> set seen = {}"
    and "2 * length (commas (map member_text ms)) < n"
  shows "scan_members d n p seen (commas (map member_text ms) @ CHR ''}'' # r) = Inr (ms, r)"
  using assms
proof (induction ms arbitrary: n seen)
  case (Cons m ms)
  obtain k v where m: "m = (k, v)" by fastforce
  obtain n' where n': "n = Suc n'" using Cons.prems(6) by (cases n) auto
  let ?tail = "if ms = [] then CHR ''}'' # r else CHR '','' # commas (map member_text ms) @ CHR ''}'' # r"
  have k: "read_string (json_escape k @ dquote # CHR '':'' # json_text v @ ?tail) = Some (k, CHR '':'' # json_text v @ ?tail)"
    by (rule read_string_escape) (use Cons.prems(4) m in auto)
  have st: "stops ?tail" by simp
  have "2 * length (json_text v) < n'"
    using Cons.prems(6) n' m by (simp add: commas_Cons member_text_def json_string_def)
  then have v: "scan_value d n' k (json_text v @ ?tail) = Inr (v, ?tail)"
    using Cons.prems(1) [of k v n' ?tail k] m st by simp
  have seen: "k \<notin> set seen" using Cons.prems(5) m by auto
  have tx: "commas (map member_text (m # ms)) @ CHR ''}'' # r = dquote # json_escape k @ dquote # CHR '':'' # json_text v @ ?tail"
    by (simp add: m member_text_def json_string_def commas_Cons)
  show ?case
  proof (cases "ms = []")
    case True
    with k v seen show ?thesis unfolding tx n' by (simp add: Let_def m)
  next
    case False
    have "scan_members d n' p (if d then k # seen else []) (commas (map member_text ms) @ CHR ''}'' # r) = Inr (ms, r)"
    proof (rule Cons.IH)
      show "2 * length (commas (map member_text ms)) < n'"
        using Cons.prems(6) n' m False by (simp add: commas_Cons)
      show "scan_value d m' q (json_text w @ t) = Inr (w, t)" if "(a, w) \<in> set ms" "2 * length (json_text w) < m'" "stops t" for a w m' q t
        using Cons.prems(1) [of a w m' t q] that by simp
      show "fst ` set ms \<inter> set (if d then k # seen else []) = {}" using Cons.prems(3,5) m by auto
    qed (use Cons.prems False in auto)
    moreover have "skip_ws (commas (map member_text ms) @ CHR ''}'' # r) = commas (map member_text ms) @ CHR ''}'' # r"
      using False by (cases ms) (simp_all add: commas_Cons member_text_def json_string_def)
    ultimately show ?thesis using k v seen False unfolding tx n' by (simp add: Let_def m)
  qed
qed simp

lemma scan_elements_text:
  assumes sv: "\<And>v n p r. v \<in> set xs \<Longrightarrow> 2 * length (json_text v) < n \<Longrightarrow> stops r \<Longrightarrow>
      scan_value d n p (json_text v @ r) = Inr (v, r)"
    and "xs \<noteq> []" "Suc (2 * length (commas (map json_text xs))) < n"
  shows "scan_elements d n p (commas (map json_text xs) @ CHR '']'' # r) = Inr (xs, r)"
  using assms
proof (induction xs arbitrary: n)
  case (Cons x xs)
  obtain n' where n': "n = Suc n'" using Cons.prems(3) by (cases n) auto
  let ?tail = "if xs = [] then CHR '']'' # r else CHR '','' # commas (map json_text xs) @ CHR '']'' # r"
  have st: "stops ?tail" by simp
  have "2 * length (json_text x) < n'" using Cons.prems(3) n' by (simp add: commas_Cons)
  then have v: "scan_value d n' p (json_text x @ ?tail) = Inr (x, ?tail)" using Cons.prems(1) [of x n' ?tail p] st by simp
  have tx: "commas (map json_text (x # xs)) @ CHR '']'' # r = json_text x @ ?tail" by (simp add: commas_Cons)
  show ?case
  proof (cases "xs = []")
    case True
    with v show ?thesis unfolding tx n' by (simp add: Let_def)
  next
    case False
    have "scan_elements d n' p (commas (map json_text xs) @ CHR '']'' # r) = Inr (xs, r)"
      by (rule Cons.IH) (use Cons.prems False n' in \<open>auto simp: commas_Cons\<close>)
    with v False show ?thesis unfolding tx n' by (simp add: Let_def)
  qed
qed simp

lemma scan_text: "json_ok j \<Longrightarrow> 2 * length (json_text j) < n \<Longrightarrow> stops r \<Longrightarrow> scan_value d n p (json_text j @ r) = Inr (j, r)"
proof (induction j arbitrary: n p r)
  case (JNum s)
  then obtain n' where "n = Suc n'" by (cases n) auto
  moreover obtain c cs where "s = c # cs" "is_digit c \<or> c = CHR ''-''" using number_first [of s] JNum.prems(1) by auto
  moreover have "skip_ws (s @ r) = s @ r" using skip_ws_text [OF JNum.prems(1)] by simp
  ultimately show ?case using JNum.prems read_scalar_number [of s r] by (auto simp: Let_def is_digit_def)
next
  case (JStr s)
  then obtain n' where "n = Suc n'" by (cases n) auto
  then show ?case using JStr.prems read_string_escape [of s r]
    by (simp add: json_string_def Let_def read_scalar_def has_prefix_def dquote_def [symmetric]) (simp add: dquote_def)
next
  case (JArr xs)
  then obtain n' where n': "n = Suc n'" by (cases n) auto
  show ?case
  proof (cases "xs = []")
    case True
    with n' show ?thesis by (simp add: json_array_def)
  next
    case False
    have "scan_elements d n' p (commas (map json_text xs) @ CHR '']'' # r) = Inr (xs, r)"
    proof (rule scan_elements_text [OF _ False])
      show "scan_value d m q (json_text v @ t) = Inr (v, t)" if "v \<in> set xs" "2 * length (json_text v) < m" "stops t" for v m q t
        using JArr.IH [OF that(1)] JArr.prems(1) that by simp
      show "Suc (2 * length (commas (map json_text xs))) < n'" using JArr.prems(2) n' by (simp add: json_array_def)
    qed
    moreover obtain x xs' c cs where "xs = x # xs'" "json_text x = c # cs" "\<not> is_ws c" "c \<noteq> CHR '']''"
      using False JArr.prems(1) json_text_first by (cases xs) force+
    moreover have "skip_ws (commas (map json_text xs) @ CHR '']'' # r) = commas (map json_text xs) @ CHR '']'' # r"
      using calculation by (simp add: commas_Cons skip_ws_stop)
    ultimately show ?thesis unfolding json_text_JArr n' by (simp add: Let_def commas_Cons)
  qed
next
  case (JObj ms)
  then obtain n' where n': "n = Suc n'" by (cases n) auto
  show ?case
  proof (cases "ms = []")
    case True
    with n' show ?thesis by (simp add: json_object_def)
  next
    case False
    have "scan_members d n' p [] (commas (map member_text ms) @ CHR ''}'' # r) = Inr (ms, r)"
    proof (rule scan_members_text [OF _ False])
      show "scan_value d m q (json_text v @ t) = Inr (v, t)" if "(k, v) \<in> set ms" "2 * length (json_text v) < m" "stops t" for k v m q t
        using JObj.IH [OF that(1), of v] JObj.prems(1) that by auto
      show "2 * length (commas (map member_text ms)) < n'" using JObj.prems(2) n' unfolding json_text_JObj by simp
    qed (use JObj.prems(1) in auto)
    moreover obtain w where "commas (map member_text ms) @ CHR ''}'' # r = dquote # w"
      using False by (cases ms) (auto simp: commas_Cons member_text_def json_string_def)
    ultimately show ?thesis unfolding json_text_JObj n' by (simp add: Let_def) (simp add: dquote_def)
  qed
next
  case JNull
  then obtain n' where "n = Suc n'" by (cases n) auto
  then show ?case by (simp add: Let_def skip_ws_def read_scalar_def has_prefix_def)
next
  case (JBool b)
  then obtain n' where "n = Suc n'" by (cases n) auto
  then show ?case by (cases b) (simp_all add: Let_def skip_ws_def read_scalar_def has_prefix_def)
qed

lemma scan_document_text: "json_ok j \<Longrightarrow> scan_document (json_text j @ [newline]) = Inr j"
proof -
  assume "json_ok j"
  then have "scan_value True (Suc (2 * length (json_text j @ [newline]))) [] (json_text j @ [newline]) = Inr (j, [newline])"
    by (intro scan_text) simp_all
  moreover have "skip_ws [newline] = []" by (simp add: skip_ws_def)
  ultimately show ?thesis by (simp add: scan_document_def del: scan_value.simps)
qed

section \<open>Texts are valid UTF-8\<close>

declare utf8_valid.simps(2) [simp del]


lemma utf8_valid_append: "utf8_valid s \<Longrightarrow> utf8_valid t \<Longrightarrow> utf8_valid (s @ t)"
proof (induction s rule: utf8_valid.induct)
  case (2 c cs)
  then obtain n where n: "utf8_seq c cs = Some n" "utf8_valid (drop n cs)" by (auto simp: utf8_valid_Cons split: option.splits)
  have l: "n \<le> length cs" using utf8_seq_length [OF n(1)] .
  have "utf8_seq c (cs @ t) = Some n"
    using utf8_seq_append [OF n(1), of "drop n cs @ t"] by (metis append.assoc append_take_drop_id)
  moreover have "utf8_valid (drop n cs @ t)"
  proof (cases "n = 0")
    case True
    have "utf8_lead c \<noteq> None" using n(1) by (auto simp: utf8_seq_def split: option.splits)
    then obtain k lo hi where "utf8_lead c = Some (k, lo, hi)" by (metis option.exhaust prod_cases3)
    with n(1) True have "k = 0" by (auto simp: utf8_seq_def split: if_splits)
    with \<open>utf8_lead c = Some (k, lo, hi)\<close> 2 n True show ?thesis by simp
  next
    case False
    then obtain k lo hi where k: "utf8_lead c = Some (k, lo, hi)" "k = n" "n \<noteq> 0"
      using n(1) by (auto simp: utf8_seq_def split: option.splits if_splits)
    with 2 n show ?thesis by simp
  qed
  ultimately show ?case using l by (simp add: utf8_valid_Cons)
qed simp

lemma utf8_ascii_Cons: "is_ascii c \<Longrightarrow> utf8_valid (c # s) \<longleftrightarrow> utf8_valid s"
  by (simp add: utf8_valid_Cons utf8_seq_def utf8_lead_def byte_in_def is_ascii_def)

lemma hex_digit_ascii: "n < 16 \<Longrightarrow> is_ascii (hex_digit n)"
  by (auto simp: is_ascii_def hex_digit_def)

lemma escape_ascii_valid: "is_ascii c \<Longrightarrow> utf8_valid (json_escape_ascii c)"
proof (rule utf8_valid_ascii)
  assume c: "is_ascii c"
  then have "(of_char c :: nat) div 16 < 16" "(of_char c :: nat) mod 16 < 16" by (auto simp: is_ascii_def)
  with c hex_digit_ascii show "list_all is_ascii (json_escape_ascii c)"
    by (auto simp: json_escape_ascii_def Let_def) (auto simp: is_ascii_def backslash_def)
qed

lemma utf8_seq_valid: "utf8_seq c cs = Some n \<Longrightarrow> utf8_valid (c # take n cs)"
  using utf8_seq_append [of c cs n "[]"] by (simp add: utf8_valid_Cons)

lemma json_escape_valid: "utf8_valid (json_escape s)"
proof (induction s rule: json_escape.induct)
  case (2 c cs)
  have sep: "utf8_valid e" if "line_separator w = Some e" for w e
    using that by (intro utf8_valid_ascii) (auto simp: line_separator_def is_ascii_def backslash_def split: if_splits)
  have "utf8_valid (backslash # ''ufffd'')" by (rule utf8_valid_ascii) (simp add: is_ascii_def backslash_def)
  note bad = this
  show ?case
  proof (cases "is_ascii c")
    case True
    with 2 show ?thesis by (simp add: utf8_valid_append escape_ascii_valid)
  next
    case False
    note wide = False
    show ?thesis
    proof (cases "utf8_seq c cs")
      case None
      with wide 2 utf8_valid_append [OF bad] show ?thesis by simp
    next
      case (Some n)
      have "utf8_valid (case line_separator (c # take n cs) of Some e \<Rightarrow> e | None \<Rightarrow> c # take n cs)"
        using sep utf8_seq_valid [OF Some] by (simp split: option.split)
      from utf8_valid_append [OF this "2.IH"(3) [OF wide Some]] wide Some show ?thesis by simp
    qed
  qed
qed simp

lemma json_string_valid: "utf8_valid (json_string s)"
  using utf8_valid_append [OF json_escape_valid, of "[dquote]" s]
  by (simp add: json_string_def utf8_ascii_Cons is_ascii_def dquote_def)

lemma commas_valid: "\<forall>x\<in>set xs. utf8_valid x \<Longrightarrow> utf8_valid (commas xs)"
  by (induction xs rule: commas.induct) (auto intro!: utf8_valid_append simp: utf8_ascii_Cons is_ascii_def)

lemma json_text_valid: "json_ok j \<Longrightarrow> utf8_valid (json_text j)"
proof (induction j)
  case (JNum s)
  then have "list_all is_ascii s" by (auto simp: list_all_iff number_char_def is_digit_def is_ascii_def)
  then show ?case by (simp add: utf8_valid_ascii)
next
  case (JArr xs)
  then have "utf8_valid (commas (map json_text xs))" by (intro commas_valid) auto
  then show ?case by (simp add: json_array_def utf8_ascii_Cons is_ascii_def utf8_valid_append)
next
  case (JObj ms)
  have "utf8_valid (member_text m)" if "m \<in> set ms" for m
  proof -
    have "utf8_valid (json_text (snd m))" using JObj that by (cases m) fastforce
    then show ?thesis by (simp add: member_text_def utf8_valid_append json_string_valid utf8_ascii_Cons is_ascii_def)
  qed
  then have "utf8_valid (commas (map member_text ms))" by (intro commas_valid) auto
  then show ?case unfolding json_text_JObj by (simp add: utf8_ascii_Cons is_ascii_def utf8_valid_append)
next
  case JNull
  show ?case by (rule utf8_valid_ascii) (simp add: is_ascii_def)
next
  case (JBool b)
  show ?case by (rule utf8_valid_ascii) (simp add: is_ascii_def)
qed (simp add: json_string_valid)

end
