(* ===== verification/Json_Line.thy ===== *)
theory Json_Line
  imports Json_Parse_Facts
begin

text \<open>
  JSON texts as lines: a text that was written has no line break in it, it is read back with or without
  the line break after it, and its depth is that of the tree. An ASCII byte separates valid UTF-8 texts.
\<close>

declare utf8_valid.simps(2) [simp del]

section \<open>Reading back\<close>

lemma scan_line:
  assumes "json_ok j" "r = [] \<or> r = [newline]"
  shows "scan_value d (Suc (2 * length (json_text j @ r))) [] (json_text j @ r) = Inr (j, r)" "skip_ws r = []"
proof -
  show "skip_ws r = []" using assms(2) by (auto simp: skip_ws_def)
  have "stops r" using assms(2) by auto
  with assms(1) show "scan_value d (Suc (2 * length (json_text j @ r))) [] (json_text j @ r) = Inr (j, r)"
    by (intro scan_text) simp_all
qed

lemma scan_document_bare: "json_ok j \<Longrightarrow> scan_document (json_text j) = Inr j"
  using scan_line(1) [of j "[]" True] scan_line(2) [of j "[]"] by (simp add: scan_document_def del: scan_value.simps)

section \<open>No line break\<close>

lemma newline_ascii [simp]: "is_ascii newline"
  by (simp add: is_ascii_def)

lemma newline_not_hex: "n < 16 \<Longrightarrow> hex_digit n \<noteq> newline"
proof -
  assume "n < 16"
  then have "of_char (hex_digit n) \<noteq> (10 :: nat)" by (auto simp: hex_digit_def)
  then show "hex_digit n \<noteq> newline" by auto
qed

lemma newline_not_escaped: "is_ascii c \<Longrightarrow> newline \<notin> set (json_escape_ascii c)"
proof -
  assume "is_ascii c"
  then have "(of_char c :: nat) div 16 < 16" "(of_char c :: nat) mod 16 < 16" by (auto simp: is_ascii_def)
  from newline_not_hex [OF this(1)] newline_not_hex [OF this(2)] show ?thesis
    by (auto simp: json_escape_ascii_def Let_def backslash_def dquote_def)
qed

lemma utf8_seq_bytes:
  assumes "utf8_seq c cs = Some n" "x \<in> set (take n cs)"
  shows "\<not> is_ascii x"
proof -
  obtain lo hi where l: "utf8_lead c = Some (n, lo, hi)" "n \<noteq> 0 \<Longrightarrow> length cs \<ge> n \<and> byte_in lo hi (hd cs) \<and> list_all (byte_in 128 191) (take (n - 1) (tl cs))"
    using assms(1) by (auto simp: utf8_seq_def split: option.splits prod.splits if_splits)
  then have lo: "n \<noteq> 0 \<Longrightarrow> 128 \<le> lo" by (auto simp: utf8_lead_def split: if_splits)
  show ?thesis
  proof (cases n)
    case 0
    with assms(2) show ?thesis by simp
  next
    case (Suc m)
    with l(2) obtain y ys where cs: "cs = y # ys" by (cases cs) auto
    with assms(2) Suc have "x = y \<or> x \<in> set (take m ys)" by simp
    with l(2) lo Suc cs show ?thesis by (auto simp: is_ascii_def byte_in_def list_all_iff)
  qed
qed

lemma newline_not_in_escape: "newline \<notin> set (json_escape s)"
proof (induction s rule: json_escape.induct)
  case (2 c cs)
  have sep: "newline \<notin> set e" if "line_separator w = Some e" for w e
    using that by (auto simp: line_separator_def backslash_def split: if_splits)
  show ?case
  proof (cases "is_ascii c")
    case True
    with 2 newline_not_escaped show ?thesis by simp
  next
    case False
    show ?thesis
    proof (cases "utf8_seq c cs")
      case None
      with False 2 show ?thesis by (simp add: backslash_def)
    next
      case (Some n)
      have "newline \<notin> set (take n cs)" using utf8_seq_bytes [OF Some, of newline] by auto
      moreover have "newline \<noteq> c" using False by auto
      ultimately have "newline \<notin> set (case line_separator (c # take n cs) of Some e \<Rightarrow> e | None \<Rightarrow> c # take n cs)"
        using sep by (simp split: option.split)
      with "2.IH"(3) [OF False Some] False Some show ?thesis by (simp split: option.split)
    qed
  qed
qed simp

lemma newline_not_in_string: "newline \<notin> set (json_string s)"
  using newline_not_in_escape by (auto simp: json_string_def dquote_def)

lemma commas_set: "set (commas xs) \<subseteq> insert (CHR '','') (\<Union> (set ` set xs))"
  by (induction xs rule: commas.induct) auto

lemma newline_not_in_text: "json_ok j \<Longrightarrow> newline \<notin> set (json_text j)"
proof (induction j)
  case (JNum s)
  then show ?case by (auto simp: list_all_iff number_char_def is_digit_def)
next
  case (JArr xs)
  then have "newline \<notin> \<Union> (set ` set (map json_text xs))" by auto
  with commas_set [of "map json_text xs"] show ?case by (auto simp: json_array_def)
next
  case (JObj ms)
  have "newline \<notin> set (member_text m)" if "m \<in> set ms" for m
  proof -
    have "newline \<notin> set (json_text (snd m))" using JObj that by (cases m) fastforce
    then show ?thesis using newline_not_in_string [of "fst m"] by (auto simp: member_text_def)
  qed
  then have "newline \<notin> \<Union> (set ` set (map member_text ms))" by auto
  with commas_set [of "map member_text ms"] show ?case unfolding json_text_JObj by auto
qed (simp_all add: newline_not_in_string)

lemma json_text_nonempty: "json_ok j \<Longrightarrow> json_text j \<noteq> []"
  by (cases j) (auto simp: json_array_def json_object_def json_string_def finitePattern_def canonical_digits_def split: if_splits)

section \<open>Depth\<close>

lemma fold_max_le: "\<forall>x\<in>set xs. x \<le> k \<Longrightarrow> a \<le> k \<Longrightarrow> fold max xs a \<le> (k :: nat)"
  by (induction xs arbitrary: a) auto

lemma json_depth_JObj: "\<forall>(n, v)\<in>set ms. json_depth v \<le> k \<Longrightarrow> json_depth (JObj ms) \<le> Suc k"
  by (simp, rule fold_max_le) auto

lemma json_depth_JArr: "\<forall>v\<in>set xs. json_depth v \<le> k \<Longrightarrow> json_depth (JArr xs) \<le> Suc k"
  by (simp, rule fold_max_le) auto

section \<open>UTF-8 around an ASCII byte\<close>

lemma utf8_seq_before_ascii:
  assumes "utf8_seq x (s @ c # t) = Some n" "is_ascii c"
  shows "n \<le> length s \<and> utf8_seq x s = Some n"
proof -
  have n: "n \<le> length s"
  proof (rule ccontr)
    assume "\<not> n \<le> length s"
    then have "c \<in> set (take n (s @ c # t))" by (simp add: take_Cons' )
    with utf8_seq_bytes [OF assms(1)] assms(2) show False by blast
  qed
  with assms(1) show ?thesis
    using utf8_seq_append [OF assms(1), of "drop n s"] by simp
qed

lemma utf8_valid_split:
  "is_ascii c \<Longrightarrow> utf8_valid (s @ c # t) \<Longrightarrow> utf8_valid s \<and> utf8_valid t"
proof (induction s rule: length_induct)
  case (1 s)
  show ?case
  proof (cases s)
    case Nil
    with 1 show ?thesis by (simp add: utf8_ascii_Cons)
  next
    case (Cons x xs)
    with "1.prems"(2) obtain n where n: "utf8_seq x (xs @ c # t) = Some n" "utf8_valid (drop n (xs @ c # t))"
      by (auto simp: utf8_valid_Cons split: option.splits)
    from utf8_seq_before_ascii [OF n(1) "1.prems"(1)] have m: "n \<le> length xs" "utf8_seq x xs = Some n" by auto
    with n(2) have "utf8_valid (drop n xs @ c # t)" by simp
    moreover have "length (drop n xs) < length s" using Cons by simp
    ultimately have "utf8_valid (drop n xs) \<and> utf8_valid t" using "1.IH" "1.prems"(1) by blast
    with Cons m show ?thesis by (simp add: utf8_valid_Cons)
  qed
qed

lemma utf8_valid_split_on:
  assumes "is_ascii c"
  shows "utf8_valid s \<Longrightarrow> x \<in> set (split_on c s) \<Longrightarrow> utf8_valid x"
proof (induction s arbitrary: x rule: length_induct)
  case (1 s)
  show ?case
  proof (cases "c \<in> set s")
    case False
    with 1 show ?thesis by (simp add: split_on_no_sep)
  next
    case True
    then obtain a b where s: "s = a @ c # b" "c \<notin> set a" by (meson split_list_first)
    from utf8_valid_split [OF assms, of a b] "1.prems"(1) s have v: "utf8_valid a" "utf8_valid b" by auto
    from "1.prems"(2) s have "x = a \<or> x \<in> set (split_on c b)" by (simp add: split_on_append_sep)
    moreover have "length b < length s" using s(1) by simp
    ultimately show ?thesis using v "1.IH" by blast
  qed
qed

end
