(* ===== verification/Float64_Facts.thy ===== *)
theory Float64_Facts
  imports Float64 Complex_Main
begin

text \<open>
  What the operations of \<open>Float64\<close> guarantee: rounding yields well-formed values, is exact
  on representable ones, depends on the ratio only and never falls below a representable lower
  bound (so adding a value that is not negative never decreases a counter), and formatting a
  finite number with the shortest digits and parsing the text gives the number back.
\<close>

section \<open>Rounding is exact on representable values\<close>

lemma bitlen_bounds: "0 < n \<Longrightarrow> 2 ^ (bitlen n - 1) \<le> n \<and> n < 2 ^ bitlen n \<and> 0 < bitlen n"
proof (induction n rule: bitlen.induct)
  case (1 n)
  show ?case
  proof (cases "n = 1")
    case True
    then show ?thesis by (simp add: bitlen.simps)
  next
    case False
    with 1 have IH: "2 ^ (bitlen (n div 2) - 1) \<le> n div 2 \<and> n div 2 < 2 ^ bitlen (n div 2) \<and> 0 < bitlen (n div 2)"
      by auto
    obtain b where b: "bitlen (n div 2) = Suc b" using IH by (cases "bitlen (n div 2)") auto
    have n: "bitlen n = Suc (Suc b)" using 1(2) b by (subst bitlen.simps) simp
    show ?thesis using IH unfolding n b by auto
  qed
qed

lemma powi_nat_split: "(2::real) powi e = 2 ^ nat e / 2 ^ nat (- e)"
proof (cases "0 \<le> e")
  case True
  then show ?thesis by (simp add: power_int_def)
next
  case False
  then obtain k where e: "e = - int k" by (metis int_nat_eq minus_minus neg_0_le_iff_le nle_le)
  show ?thesis unfolding e by (simp add: power_int_minus inverse_eq_divide)
qed

lemma bitlen_real:
  assumes "0 < n"
  shows "(2::real) powi (int (bitlen n) - 1) \<le> real n" and "real n < 2 powi int (bitlen n)"
proof -
  from bitlen_bounds [OF assms] obtain b where b: "bitlen n = Suc b"
    by (cases "bitlen n") auto
  have lo: "2 ^ b \<le> n" and hi: "n < 2 ^ Suc b" using bitlen_bounds [OF assms] b by auto
  have "(2::real) ^ b \<le> real n" using lo by (metis of_nat_le_iff of_nat_numeral of_nat_power)
  then show "(2::real) powi (int (bitlen n) - 1) \<le> real n" by (simp add: b)
  have "real n < real (2 ^ Suc b)" using hi by (simp only: of_nat_less_iff)
  then show "real n < 2 powi int (bitlen n)" by (simp only: b power_int_of_nat of_nat_power of_nat_numeral)
qed

definition lsb_of :: "real \<Rightarrow> int \<Rightarrow> bool" where
  "lsb_of v e \<longleftrightarrow> - 1074 \<le> e \<and> v < 2 powi (e + 53) \<and> (2 powi (e + 52) \<le> v \<or> e = - 1074)"

lemma lsb_of_unique:
  assumes "lsb_of v e" and "lsb_of v f"
  shows "e = f"
proof (rule ccontr)
  have *: "False" if "lsb_of v e" "lsb_of v f" "e < f" for e f
  proof -
    from that have "2 powi (f + 52) \<le> v" and "v < 2 powi (e + 53)" by (auto simp: lsb_of_def)
    moreover have "(2::real) powi (e + 53) \<le> 2 powi (f + 52)"
      using \<open>e < f\<close> by (intro power_int_increasing) auto
    ultimately show False by linarith
  qed
  assume "e \<noteq> f"
  with assms * show False by (metis linorder_neqE)
qed

lemma lsb_exp_scale:
  assumes "0 < den"
  shows "den * 2 ^ nat e * 2 ^ j \<le> num * 2 ^ nat (- e) \<longleftrightarrow> 2 powi (e + int j) \<le> real num / real den"
proof -
  have "den * 2 ^ nat e * 2 ^ j \<le> num * 2 ^ nat (- e)
      \<longleftrightarrow> real (den * 2 ^ nat e * 2 ^ j) \<le> real (num * 2 ^ nat (- e))" by (simp only: of_nat_le_iff)
  also have "\<dots> \<longleftrightarrow> 2 ^ nat e / 2 ^ nat (- e) * 2 ^ j \<le> real num / real den"
    using assms by (simp add: field_simps)
  also have "\<dots> \<longleftrightarrow> 2 powi (e + int j) \<le> real num / real den"
    by (simp add: power_int_add powi_nat_split [symmetric])
  finally show ?thesis .
qed

lemma lsb_of_lsb_exp:
  assumes "0 < num" and "0 < den"
  shows "lsb_of (real num / real den) (lsb_exp num den)"
proof -
  let ?v = "real num / real den"
  define e0 where "e0 = int (bitlen num) - int (bitlen den) - 53"
  define e1 where "e1 = (if num * 2 ^ nat (- e0) \<ge> den * 2 ^ nat e0 * 2 ^ 53 then e0 + 1 else e0)"
  have e: "lsb_exp num den = max e1 (- 1074)"
    by (simp add: lsb_exp_def e0_def e1_def Let_def)
  note n = bitlen_real [OF assms(1)] and d = bitlen_real [OF assms(2)]
  have "?v < 2 powi int (bitlen num) / 2 powi (int (bitlen den) - 1)"
    using n d assms by (intro frac_less) auto
  also have "\<dots> = 2 powi (e0 + 54)" by (simp add: e0_def power_int_diff [symmetric] algebra_simps del: power_int_of_nat)
  finally have up: "?v < 2 powi (e0 + 54)" .
  have "2 powi (int (bitlen num) - 1) / 2 powi int (bitlen den) < ?v"
    using n d assms by (intro frac_less2) auto
  moreover have "(2::real) powi (int (bitlen num) - 1) / 2 powi int (bitlen den) = 2 powi (e0 + 52)"
    by (simp add: e0_def power_int_diff [symmetric] algebra_simps del: power_int_of_nat)
  ultimately have lo: "2 powi (e0 + 52) < ?v" by simp
  have e1: "2 powi (e1 + 52) \<le> ?v" "?v < 2 powi (e1 + 53)"
    using lsb_exp_scale [OF assms(2), of e0 53 num] up lo by (auto simp: e1_def add.assoc)
  show ?thesis
  proof (cases "e1 \<le> - 1074")
    case True
    have "(2::real) powi (e1 + 53) \<le> 2 powi (- 1074 + 53)"
      using True by (intro power_int_increasing) auto
    with e1 have "?v < 2 powi (- 1074 + 53)" by linarith
    then have "lsb_of ?v (- 1074)" unfolding lsb_of_def by blast
    with True e show ?thesis by (simp only: max.absorb2)
  next
    case False
    with e1 e show ?thesis by (simp add: lsb_of_def max_def)
  qed
qed

lemma lsb_exp_eq: "0 < num \<Longrightarrow> 0 < den \<Longrightarrow> lsb_of (real num / real den) e \<Longrightarrow> lsb_exp num den = e"
  using lsb_of_lsb_exp lsb_of_unique by blast

lemma round_even_exact: "0 < d \<Longrightarrow> n = m * d \<Longrightarrow> round_even n d = m"
  by (simp add: round_even_def)

lemma round_even_cases:
  assumes "0 < d"
  shows "round_even n d = n div d \<or> n mod d \<noteq> 0 \<and> round_even n d = n div d + 1"
  using assms by (auto simp: round_even_def Let_def)

text \<open>The reduced fraction of equal ratios.\<close>

lemma reduced_cross:
  assumes "0 < den" and "0 < (num::nat)"
  defines "g \<equiv> gcd num den"
  shows "0 < num div g" and "0 < den div g" and "num div g * den = num * (den div g)"
    and "real (num div g) / real (den div g) = real num / real den"
proof -
  have dvd: "g dvd num" "g dvd den" by (auto simp: g_def)
  show *: "0 < num div g" "0 < den div g" using assms dvd by (auto simp: dvd_div_eq_0_iff simp flip: neq0_conv)
  show cross: "num div g * den = num * (den div g)" using dvd
    by (metis div_mult_swap dvd_div_mult mult.commute)
  have "real (num div g * den) = real (num * (den div g))" by (simp only: cross)
  then show "real (num div g) / real (den div g) = real num / real den"
    using * assms by (simp add: field_simps)
qed

lemma f64_round_Fin:
  assumes "f64_wf (Fin neg m e)" and "0 < m" and "0 < den"
    and eq: "num * 2 ^ nat (- e) = m * 2 ^ nat e * den"
  shows "f64_round neg num den = Fin neg m e"
proof -
  have num: "0 < num" using eq assms(2,3) by (metis mult_eq_0_iff neq0_conv power_not_zero zero_neq_numeral)
  define g where "g = gcd num den"
  note red = reduced_cross [OF assms(3) num, folded g_def]
  have v: "real num / real den = real m * 2 powi e"
  proof -
    have "real (num * 2 ^ nat (- e)) = real (m * 2 ^ nat e * den)" by (simp only: eq)
    then show ?thesis using assms(3) by (simp add: powi_nat_split field_simps)
  qed
  have "lsb_of (real num / real den) e"
  proof -
    have "real m < 2 ^ 53" using assms(1) by (simp add: f64_wf_def)
    moreover have "2 ^ 52 \<le> real m \<or> e = - 1074"
      using assms(1) by (auto simp: f64_wf_def)
    moreover have "(2::real) powi (e + 53) = 2 ^ 53 * 2 powi e" "(2::real) powi (e + 52) = 2 ^ 52 * 2 powi e"
      by (simp_all add: power_int_add)
    ultimately show ?thesis using assms(1) unfolding lsb_of_def v by (auto simp: f64_wf_def)
  qed
  with red(4) have e: "lsb_exp (num div g) (den div g) = e"
    using red(1,2) by (intro lsb_exp_eq) simp_all
  have "num div g * 2 ^ nat (- e) * den = m * (den div g * 2 ^ nat e) * den"
    using red(3) eq by (metis (no_types, opaque_lifting) mult.assoc mult.commute mult.left_commute)
  then have "num div g * 2 ^ nat (- e) = m * (den div g * 2 ^ nat e)" using assms(3) by simp
  then have q: "round_even (num div g * 2 ^ nat (- e)) (den div g * 2 ^ nat e) = m"
    using red(2) by (intro round_even_exact) auto
  show ?thesis using num assms(1) q e
    by (simp add: f64_round_def g_def [symmetric] Let_def f64_wf_def)
qed

lemma f64_round_ratio:
  assumes "a * d = c * b" and "0 < b" and "0 < d"
  shows "f64_round neg a b = f64_round neg c d"
proof (cases "a = 0")
  case True
  with assms show ?thesis by (simp add: f64_round_def)
next
  case False
  with assms have c: "0 < c" by (metis mult_eq_0_iff neq0_conv)
  have "a div gcd a b * (d div gcd c d) = c div gcd c d * (b div gcd a b)"
    using assms False c
    by (simp add: div_mult_div_if_dvd mult.commute)
  moreover have "coprime (a div gcd a b) (b div gcd a b)" "coprime (c div gcd c d) (d div gcd c d)"
    using False c by (auto intro: div_gcd_coprime)
  ultimately have "a div gcd a b = c div gcd c d \<and> b div gcd a b = d div gcd c d"
    using coprime_crossproduct_nat by metis
  with False c show ?thesis by (simp add: f64_round_def Let_def)
qed

section \<open>Results of rounding and addition\<close>

lemma round_even_le: 
  assumes "0 < d" "n < k * d"
  shows "round_even n d \<le> k"
proof -
  have "n div d < k" using assms by (simp add: less_mult_imp_div_less)
  then show ?thesis using round_even_cases [OF assms(1), of n] by auto
qed

lemma round_even_ge: "0 < d \<Longrightarrow> k * d \<le> n \<Longrightarrow> k \<le> round_even n d"
  using round_even_cases [of d n] by (metis div_le_mono le_SucI nonzero_mult_div_cancel_right Suc_eq_plus1 neq0_conv)

text \<open>What rounding a positive rational yields: exponent of the last place, and a mantissa.\<close>

lemma f64_round_pos:
  assumes "0 < num" and "0 < den"
  obtains e q where "lsb_of (real num / real den) e"
    and "q \<le> 2 ^ 53" and "2 ^ 52 \<le> q \<or> e = - 1074"
    and "\<And>k. real k * 2 powi e \<le> real num / real den \<Longrightarrow> k \<le> q"
    and "f64_round neg num den =
      (let (m, e') = (if q = 2 ^ 53 then (2 ^ 52, e + 1) else (q, e)) in if e' > 971 then Inf neg else Fin neg m e')"
proof -
  define g where "g = gcd num den"
  define a where "a = num div g"
  define b where "b = den div g"
  note red = reduced_cross [OF assms(2,1), folded g_def, folded a_def b_def]
  define e where "e = lsb_exp a b"
  define q where "q = round_even (a * 2 ^ nat (- e)) (b * 2 ^ nat e)"
  have lsb: "lsb_of (real num / real den) e"
    using lsb_of_lsb_exp [OF red(1,2)] by (simp add: red(4) e_def)
  have pos: "0 < b * 2 ^ nat e" using red(2) by simp
  have ge: "k \<le> q" if "real k * 2 powi e \<le> real num / real den" for k
  proof -
    from that have "real (k * (b * 2 ^ nat e)) \<le> real (a * 2 ^ nat (- e))"
      using red(2) by (simp add: powi_nat_split red(4) [symmetric] field_simps)
    then have "k * (b * 2 ^ nat e) \<le> a * 2 ^ nat (- e)" by (simp only: of_nat_le_iff)
    then show ?thesis unfolding q_def by (rule round_even_ge [OF pos])
  qed
  have "a * 2 ^ nat (- e) < 2 ^ 53 * (b * 2 ^ nat e)"
  proof -
    have "real num / real den < 2 powi (e + 53)" using lsb by (simp add: lsb_of_def)
    then have "\<not> b * 2 ^ nat e * 2 ^ 53 \<le> a * 2 ^ nat (- e)"
      using lsb_exp_scale [OF red(2), of e 53 a] red(4) by simp
    then show ?thesis by (simp add: mult.commute mult.left_commute)
  qed
  then have "q \<le> 2 ^ 53" unfolding q_def by (rule round_even_le [OF pos])
  moreover have "2 ^ 52 \<le> q \<or> e = - 1074"
  proof (cases "e = - 1074")
    case False
    then have "2 powi (e + 52) \<le> real num / real den" using lsb by (simp add: lsb_of_def)
    then have "real (2 ^ 52) * 2 powi e \<le> real num / real den" by (simp add: power_int_add mult.commute)
    then show ?thesis using ge by blast
  qed simp
  moreover have "f64_round neg num den =
      (let (m, e') = (if q = 2 ^ 53 then (2 ^ 52, e + 1) else (q, e)) in if e' > 971 then Inf neg else Fin neg m e')"
    using assms(1) by (simp add: f64_round_def g_def [symmetric] a_def [symmetric] b_def [symmetric]
        e_def [symmetric] q_def [symmetric] Let_def)
  ultimately show thesis using that lsb ge by blast
qed

lemma f64_round_wf:
  assumes "0 < den"
  shows "f64_wf (f64_round neg num den)"
proof (cases "num = 0")
  case True
  then show ?thesis by (simp add: f64_round_def f64_wf_def)
next
  case False
  then have "0 < num" by simp
  from f64_round_pos [OF this assms, of neg] obtain e q where
    "lsb_of (real num / real den) e" and q: "q \<le> 2 ^ 53" "2 ^ 52 \<le> q \<or> e = - 1074"
    and r: "f64_round neg num den =
      (let (m, e') = (if q = 2 ^ 53 then (2 ^ 52, e + 1) else (q, e)) in if e' > 971 then Inf neg else Fin neg m e')"
    by blast
  then have "- 1074 \<le> e" by (simp add: lsb_of_def)
  with q show ?thesis unfolding r by (auto simp: f64_wf_def Let_def)
qed

text \<open>Rounding never falls below a representable value the rational is not below.\<close>

lemma f64_round_ge:
  assumes wf: "f64_wf (Fin False m e)" and "0 < num" "0 < den"
    and ge: "real m * 2 powi e \<le> real num / real den"
  shows "f64_le (Fin False m e) (f64_round False num den)"
proof -
  from f64_round_pos [OF assms(2,3), of False] obtain f q where
    lsb: "lsb_of (real num / real den) f" and q: "q \<le> 2 ^ 53" "2 ^ 52 \<le> q \<or> f = - 1074"
    and qge: "\<And>k. real k * 2 powi f \<le> real num / real den \<Longrightarrow> k \<le> q"
    and r: "f64_round False num den =
      (let (m, e') = (if q = 2 ^ 53 then (2 ^ 52, f + 1) else (q, f)) in if e' > 971 then Inf False else Fin False m e')"
    by blast
  have ef: "e \<le> f"
  proof (rule ccontr)
    assume "\<not> e \<le> f"
    then have "f < e" by simp
    with lsb wf have m: "2 ^ 52 \<le> m" by (auto simp: f64_wf_def lsb_of_def)
    have "(2::real) powi (f + 53) \<le> 2 powi (e + 52)" using \<open>f < e\<close> by (intro power_int_increasing) auto
    also have "\<dots> = real (2 ^ 52) * 2 powi e" by (simp add: power_int_add)
    also have "\<dots> \<le> real m * 2 powi e" using m by (intro mult_right_mono) (simp_all only: of_nat_le_iff, simp)
    finally show False using ge lsb by (simp add: lsb_of_def)
  qed
  have key: "m \<le> q * 2 ^ nat (f - e)"
  proof (cases "f = e")
    case True
    with ge qge [of m] show ?thesis by simp
  next
    case False
    with ef have "Suc 0 \<le> nat (f - e)" by simp
    then have "(2::nat) ^ Suc 0 \<le> 2 ^ nat (f - e)" by (intro power_increasing) simp_all
    moreover have "f \<noteq> - 1074" using False ef wf by (auto simp: f64_wf_def)
    ultimately have "2 ^ 52 * 2 \<le> q * 2 ^ nat (f - e)" using q(2) by (intro mult_mono) auto
    with wf show ?thesis by (simp add: f64_wf_def)
  qed
  show ?thesis
  proof (cases "q = 2 ^ 53")
    case False
    have "int m \<le> int q * 2 ^ nat (f - e)" using key by (metis of_nat_le_iff of_nat_mult of_nat_numeral of_nat_power)
    with False ef show ?thesis by (auto simp: r Let_def fin_int_def)
  next
    case True
    have "int m \<le> int q * 2 ^ nat (f - e)" using key by (metis of_nat_le_iff of_nat_mult of_nat_numeral of_nat_power)
    also have "\<dots> = 2 ^ 52 * 2 ^ nat (f + 1 - e)" using True ef by (simp add: nat_add_distrib algebra_simps nat_diff_distrib' flip: power_Suc)
    finally show ?thesis using True ef by (auto simp: r Let_def fin_int_def)
  qed
qed

lemma fin_int_real:
  assumes "k \<le> e"
  shows "real_of_int (fin_int k s m e) * 2 powi k = (if s then - 1 else 1) * real m * 2 powi e"
proof -
  have "(2::real) powi e = 2 ^ nat (e - k) * 2 powi k"
    using assms power_int_add [of "2::real" "e - k" k] by (simp add: powi_nat_split [of "e - k"])
  then show ?thesis by (simp add: fin_int_def)
qed

lemma f64_nonneg_Fin:
  assumes "f64_le f64_zero (Fin s m e)"
  shows "s \<longrightarrow> m = 0"
  using assms by (auto simp: f64_zero_def fin_int_def zero_le_mult_iff)

lemma f64_le_neg_zero: "f64_le (Fin s 0 e) y = f64_le (Fin False 0 e) y"
  by (cases y) (auto simp: fin_int_def)

lemma fin_add_ge:
  assumes wf: "f64_wf (Fin s m e)" and s: "s \<longrightarrow> m = 0" and t: "t \<longrightarrow> n = 0"
  shows "f64_le (Fin s m e) (fin_add s m e t n f)"
proof -
  define k where "k = min e f"
  define sum where "sum = fin_int k s m e + fin_int k t n f"
  have nn: "0 \<le> fin_int k s m e" "0 \<le> fin_int k t n f" using s t by (auto simp: fin_int_def)
  show ?thesis
  proof (cases "sum = 0")
    case True
    with nn have "fin_int k s m e = 0" by (simp add: sum_def)
    then have "m = 0" by (simp add: fin_int_def split: if_splits)
    with True show ?thesis by (simp add: fin_add_def Let_def fin_int_def k_def sum_def)
  next
    case False
    with nn have pos: "0 < sum" by (simp add: sum_def)
    let ?num = "nat sum * 2 ^ nat k" and ?den = "2 ^ nat (- k) :: nat"
    have "real ?num / real ?den = real_of_int sum * 2 powi k"
      using pos by (simp add: powi_nat_split)
    also have "\<dots> = real m * 2 powi e + real n * 2 powi f"
      using fin_int_real [of k e s m] fin_int_real [of k f t n] s t
      by (auto simp: sum_def k_def distrib_right)
    finally have ge: "real m * 2 powi e \<le> real ?num / real ?den" by simp
    have "f64_le (Fin False m e) (f64_round False ?num ?den)"
      using wf ge pos by (intro f64_round_ge) (auto simp: f64_wf_def)
    moreover have "f64_le (Fin s m e) z = f64_le (Fin False m e) z" for z
      using s f64_le_neg_zero by (cases s) auto
    ultimately show ?thesis using False pos
      by (simp add: fin_add_def Let_def k_def [symmetric] sum_def [symmetric])
  qed
qed

text \<open>Adding a value that is not negative never decreases a value that is not negative.\<close>

lemma f64_add_ge:
  assumes "f64_wf x" and "f64_le f64_zero x" and "f64_le f64_zero y"
  shows "f64_le x (f64_add x y)"
proof (cases x)
  case NaN
  with assms show ?thesis by (simp add: f64_zero_def)
next
  case (Inf s)
  with assms have s: "s = False" by (cases s) (auto simp: f64_zero_def)
  show ?thesis using assms Inf s by (cases y) (auto simp: f64_zero_def split: if_splits)
next
  case x: (Fin s m e)
  show ?thesis
  proof (cases y)
    case NaN
    with assms show ?thesis by (simp add: f64_zero_def)
  next
    case (Inf t)
    with assms x show ?thesis by (cases t) (auto simp: f64_zero_def)
  next
    case (Fin t n f)
    with assms x show ?thesis
      using fin_add_ge f64_nonneg_Fin by auto
  qed
qed

lemma f64_le_Fin_real:
  "f64_le (Fin s m e) (Fin t n f) \<longleftrightarrow>
     (if s then - 1 else 1) * real m * 2 powi e \<le> (if t then - 1 else 1) * real n * 2 powi f"
proof -
  let ?k = "min e f"
  have "f64_le (Fin s m e) (Fin t n f) \<longleftrightarrow> real_of_int (fin_int ?k s m e) \<le> real_of_int (fin_int ?k t n f)"
    by simp
  also have "\<dots> \<longleftrightarrow> real_of_int (fin_int ?k s m e) * 2 powi ?k \<le> real_of_int (fin_int ?k t n f) * 2 powi ?k"
    by (intro mult_le_cancel_right_pos [symmetric]) simp
  finally show ?thesis by (simp only: fin_int_real min.cobounded1 min.cobounded2)
qed

lemma f64_le_trans: "f64_le x y \<Longrightarrow> f64_le y z \<Longrightarrow> f64_le x z"
proof (cases x; cases y; cases z)
  fix s m e t n f u p g
  assume "f64_le x y" "f64_le y z" and "x = Fin s m e" "y = Fin t n f" "z = Fin u p g"
  then show "f64_le x z" by (simp only: f64_le_Fin_real)
qed (auto elim: f64_le.elims)

section \<open>FormatFloat and ParseFloat\<close>

lemma digits_val_append_gen:
  "foldl (\<lambda>n c. 10 * n + digit_val c) v s = v * 10 ^ length s + digits_val s"
proof (induction s rule: rev_induct)
  case Nil
  then show ?case by (simp add: digits_val_def)
next
  case (snoc c s)
  then show ?case by (simp add: digits_val_snoc algebra_simps)
qed

lemma digits_val_append: "digits_val (s @ t) = digits_val s * 10 ^ length t + digits_val t"
  using digits_val_append_gen [of "digits_val s" t] by (simp add: digits_val_def)

lemma digits_val_replicate_0: "digits_val (replicate n (CHR ''0'')) = 0"
  by (induction n) (simp_all add: digits_val_def digit_val_def)

lemma digits_val_bound: "list_all is_digit s \<Longrightarrow> digits_val s < 10 ^ length s"
proof (induction s rule: rev_induct)
  case Nil
  then show ?case by (simp add: digits_val_def)
next
  case (snoc c s)
  then have "digits_val s < 10 ^ length s" "digit_val c < 10" by (auto simp: digit_val_less)
  then show ?case by (simp add: digits_val_snoc)
qed

lemma length_itoa_bound: "n < 10 ^ j \<Longrightarrow> 0 < j \<Longrightarrow> length (itoa n) \<le> j"
proof (induction j arbitrary: n)
  case (Suc j)
  show ?case
  proof (cases "n < 10")
    case True
    then show ?thesis by (simp add: itoa.simps)
  next
    case False
    with Suc.prems have "n div 10 < 10 ^ j" "0 < j"
      by (auto simp: less_mult_imp_div_less mult.commute intro: Nat.gr0I)
    with Suc.IH False show ?thesis by (subst itoa.simps) simp
  qed
qed simp

text \<open>The search finds digits: from a thousand places on, the decimal is exact.\<close>

lemma pick_digits_sound:
  assumes "pick_digits m e n k = Some d"
  shows "dec_round d (k - int n) = Fin False m e"
proof -
  define s where "s = k - int n"
  define a where "a = m * 2 ^ nat e * 10 ^ nat (- s)"
  define b where "b = (2::nat) ^ nat (- e) * 10 ^ nat s"
  have b: "0 < b" by (simp add: b_def)
  show ?thesis using assms round_even_cases [OF b, of a]
    unfolding pick_digits_def Let_def s_def [symmetric] a_def [symmetric] b_def [symmetric]
    by (auto split: if_splits)
qed

lemma pick_digits_exact:
  assumes wf: "f64_wf (Fin False m e)" and m: "0 < m" and n: "k + 1074 \<le> int n"
  shows "\<exists>d. pick_digits m e n k = Some d"
proof -
  define s where "s = k - int n"
  have s: "s \<le> 0" "nat (- e) \<le> nat (- s)" using n wf by (auto simp: s_def f64_wf_def)
  define a where "a = m * 2 ^ nat e * 10 ^ nat (- s)"
  define b where "b = (2::nat) ^ nat (- e) * 10 ^ nat s"
  have "(2::nat) ^ nat (- e) dvd 2 ^ nat (- s)" using s by (simp add: le_imp_power_dvd)
  also have "(2::nat) ^ nat (- s) dvd 10 ^ nat (- s)" by (rule dvd_power_same) simp
  finally have "b dvd a" using s by (simp add: a_def b_def)
  then have z: "a mod b = 0" and eq: "a div b * b = a" by auto
  have "dec_round (a div b) s = Fin False m e"
    unfolding dec_round_def using wf m s eq by (intro f64_round_Fin) (auto simp: a_def b_def)
  then show ?thesis using z
    unfolding pick_digits_def Let_def s_def [symmetric] a_def [symmetric] b_def [symmetric] by auto
qed

lemma shortest_from_sound: "shortest_from fuel n m e k = Some (d, n') \<Longrightarrow> dec_round d (k - int n') = Fin False m e"
  by (induction fuel n m e k rule: shortest_from.induct) (auto split: option.splits dest: pick_digits_sound)

lemma shortest_from_some:
  assumes "f64_wf (Fin False m e)" and "0 < m" and "k + 1074 < int n + int fuel" and "0 < fuel"
  shows "\<exists>d n'. shortest_from fuel n m e k = Some (d, n')"
  using assms(3,4)
proof (induction fuel arbitrary: n)
  case (Suc fuel)
  show ?case
  proof (cases "pick_digits m e n k")
    case (Some d)
    then show ?thesis by simp
  next
    case None
    have "\<not> k + 1074 \<le> int n" using pick_digits_exact [OF assms(1,2)] None by fastforce
    with Suc.prems have "0 < fuel" "k + 1074 < int (Suc n) + int fuel" by auto
    with Suc.IH None show ?thesis by simp
  qed
qed simp

lemma dec_point_bounds:
  assumes "num < 10 ^ i" "den < 10 ^ j" "0 < i" "0 < j"
  shows "- int j < dec_point num den" and "dec_point num den \<le> int i"
proof -
  have l: "length (itoa num) \<le> i" "length (itoa den) \<le> j" using assms by (auto intro: length_itoa_bound)
  have p: "0 < length (itoa num)" "0 < length (itoa den)" by auto
  show "- int j < dec_point num den" "dec_point num den \<le> int i"
    using l p by (auto simp: dec_point_def Let_def simp del: length_greater_0_conv)
qed

lemma shortest_from_bounds:
  "shortest_from fuel n m e k = Some (d, n') \<Longrightarrow>
     n' \<le> n + fuel \<and> d \<le> m * 2 ^ nat e * 10 ^ nat (int n' - k) + 1"
proof (induction fuel n m e k rule: shortest_from.induct)
  case (2 fuel n m e k)
  show ?case
  proof (cases "pick_digits m e n k")
    case None
    with 2 show ?thesis by simp
  next
    case (Some d')
    define a where "a = m * 2 ^ nat e * 10 ^ nat (- (k - int n))"
    define b where "b = (2::nat) ^ nat (- e) * 10 ^ nat (k - int n)"
    have "0 < b" by (simp add: b_def)
    from Some have "d' \<le> a div b + 1" using round_even_cases [OF \<open>0 < b\<close>, of a]
      unfolding pick_digits_def Let_def a_def [symmetric] b_def [symmetric]
      by (auto split: if_splits)
    also have "\<dots> \<le> a + 1" by simp
    finally show ?thesis using Some 2(2) by (simp add: a_def)
  qed
qed simp

lemma strip_zeros_decomp: "\<exists>z. s = strip_zeros s @ replicate z (CHR ''0'')"
proof -
  have "rev s = takeWhile (\<lambda>c. c = CHR ''0'') (rev s) @ rev (strip_zeros s)"
    by (simp add: strip_zeros_def)
  then have "s = strip_zeros s @ rev (takeWhile (\<lambda>c. c = CHR ''0'') (rev s))"
    by (metis rev_append rev_rev_ident)
  moreover have "replicate (length (takeWhile (\<lambda>c. c = CHR ''0'') (rev s))) (CHR ''0'')
      = takeWhile (\<lambda>c. c = CHR ''0'') (rev s)"
    by (rule replicate_length_same) (auto dest: set_takeWhileD)
  ultimately show ?thesis by (metis rev_replicate)
qed

lemma fin_num_den_bounds:
  assumes "f64_wf (Fin s m e)"
  shows "m * 2 ^ nat e < 10 ^ 1024" and "(2::nat) ^ nat (- e) < 10 ^ 1075"
proof -
  have "m * 2 ^ nat e < 2 ^ 53 * 2 ^ 971"
    using assms by (intro mult_less_le_imp_less power_increasing) (auto simp: f64_wf_def)
  also have "\<dots> = (2::nat) ^ 1024" by (subst power_add [symmetric]) (rule arg_cong [where f = "(^) 2"], simp)
  also have "\<dots> \<le> 10 ^ 1024" by (rule power_mono) simp_all
  finally show "m * 2 ^ nat e < 10 ^ 1024" .
  have "(2::nat) ^ nat (- e) \<le> 2 ^ 1074" using assms by (intro power_increasing) (auto simp: f64_wf_def)
  also have "\<dots> \<le> 10 ^ 1074" by (rule power_mono) simp_all
  also have "\<dots> < (10::nat) ^ 1075" by (rule power_strict_increasing) simp_all
  finally show "(2::nat) ^ nat (- e) < 10 ^ 1075" .
qed

lemma dec_round_shift: "dec_round (d * 10 ^ z) s = dec_round d (s + int z)"
proof -
  have "d * 10 ^ z * 10 ^ nat s * 10 ^ nat (- (s + int z)) = d * 10 ^ nat (s + int z) * 10 ^ nat (- s)"
  proof -
    have "z + nat s + nat (- (s + int z)) = nat (s + int z) + nat (- s)" by linarith
    then show ?thesis by (metis (no_types, opaque_lifting) mult.assoc power_add)
  qed
  then show ?thesis unfolding dec_round_def by (rule f64_round_ratio) simp_all
qed

text \<open>What the shortest digits are: a numeral that rounds to the float.\<close>

lemma shortest_digits_spec:
  assumes wf: "f64_wf (Fin False m e)" and m: "0 < m"
  obtains ds dp where "shortest_digits m e = (ds, dp)" and "list_all is_digit ds" and "ds \<noteq> []"
    and "hd ds \<noteq> CHR ''0''" and "dec_round (digits_val ds) (dp - int (length ds)) = Fin False m e"
    and "\<bar>dp\<bar> < 9000"
proof -
  define k where "k = dec_point (m * 2 ^ nat e) (2 ^ nat (- e))"
  note b = fin_num_den_bounds [OF wf]
  have k: "- 1075 < k" "k \<le> 1024" using dec_point_bounds [OF b] by (simp_all add: k_def)
  obtain d n where dn: "shortest_from 2100 1 m e k = Some (d, n)"
    using shortest_from_some [OF wf m, of k 1 2100] k by auto
  note sound = shortest_from_sound [OF dn] and bnd = shortest_from_bounds [OF dn]
  have d: "0 < d"
  proof (rule Nat.gr0I)
    assume "d = 0"
    with sound have "Fin False 0 (- 1074) = Fin False m e" by (simp add: dec_round_def f64_round_def)
    with m show False by simp
  qed
  obtain z where z: "itoa d = strip_zeros (itoa d) @ replicate z (CHR ''0'')" using strip_zeros_decomp by blast
  define ds where "ds = strip_zeros (itoa d)"
  define dp where "dp = k + int (length (itoa d)) - int n"
  have len: "length (itoa d) = length ds + z" using z by (metis ds_def length_append length_replicate)
  have val: "d = digits_val ds * 10 ^ z"
    using digits_val_append [of ds "replicate z (CHR ''0'')"] z
    by (simp add: ds_def [symmetric] digits_val_replicate_0) (metis digits_val_itoa)
  have ne: "ds \<noteq> []"
  proof
    assume "ds = []"
    with val d show False by (simp add: digits_val_def)
  qed
  have hd: "hd ds \<noteq> CHR ''0''" using itoa_hd_nonzero [OF d] z ne by (metis ds_def hd_append2)
  have dig: "list_all is_digit ds" using itoa_digits [of d] z by (metis ds_def list_all_append)
  have rnd: "dec_round (digits_val ds) (dp - int (length ds)) = Fin False m e"
  proof -
    have "dp - int (length ds) = k - int n + int z" by (simp add: dp_def len)
    then show ?thesis using sound dec_round_shift [of "digits_val ds" z "k - int n"] val by simp
  qed
  have "d < 10 ^ 4300"
  proof -
    have "nat (int n - k) \<le> 3200" using bnd k by linarith
    then have "(10::nat) ^ nat (int n - k) \<le> 10 ^ 3200" by (intro power_increasing) simp_all
    with b(1) have "m * 2 ^ nat e * 10 ^ nat (int n - k) < 10 ^ 1024 * 10 ^ 3200"
      by (rule mult_less_le_imp_less) (rule le0, rule zero_less_power, simp)
    also have "(10::nat) ^ 1024 * 10 ^ 3200 = 10 ^ 4224"
      by (subst power_add [symmetric]) (rule arg_cong [where f = "(^) 10"], simp)
    finally have "d \<le> 10 ^ 4224" using bnd by (metis Suc_eq_plus1 Suc_leI le_trans)
    also have "(10::nat) ^ 4224 < 10 ^ 4300" by (rule power_strict_increasing) simp_all
    finally show ?thesis .
  qed
  then have "length (itoa d) \<le> 4300" by (rule length_itoa_bound) simp
  then have "\<bar>dp\<bar> < 9000" using k bnd by (simp add: dp_def abs_less_iff)
  moreover have "shortest_digits m e = (ds, dp)"
    using dn by (simp add: shortest_digits_def Let_def k_def [symmetric] ds_def dp_def)
  ultimately show thesis using that dig ne hd rnd by blast
qed

subsection \<open>Plain decimal numerals\<close>

text \<open>Sign, integer digits, optional fraction, optional exponent: the form of every formatted number.\<close>

definition dec_text :: "bool \<Rightarrow> string \<Rightarrow> string \<Rightarrow> int option \<Rightarrow> string" where
  "dec_text neg I F x =
     (if neg then ''-'' else []) @ I @ (if F = [] then [] else CHR ''.'' # F) @
     (case x of None \<Rightarrow> [] | Some k \<Rightarrow> CHR ''e'' # format_exp k)"

definition dec_scale :: "int option \<Rightarrow> int" where
  "dec_scale x = (case x of None \<Rightarrow> 0 | Some k \<Rightarrow> k)"

lemma digit_neq:
  assumes "is_digit c"
  shows "c \<noteq> CHR ''_''" "c \<noteq> CHR ''.''" "c \<noteq> CHR ''-''" "c \<noteq> CHR ''+''" "lower c = c" "hex_val c = digit_val c"
    "c \<noteq> CHR ''i''" "c \<noteq> CHR ''n''" "c \<noteq> CHR ''x''" "c \<noteq> CHR ''e''" "c \<noteq> CHR ''E''" "c \<noteq> CHR '' ''"
  using assms by (auto simp: is_digit_def lower_def hex_val_def)

lemma scan_mantissa_digits:
  "list_all is_digit ds \<Longrightarrow>
     scan_mantissa 10 v fr dot saw (ds @ r) =
     scan_mantissa 10 (v * 10 ^ length ds + digits_val ds) (if dot then fr + length ds else fr) dot (saw \<or> ds \<noteq> []) r"
proof (induction ds arbitrary: v fr saw)
  case Nil
  then show ?case by (simp add: digits_val_def)
next
  case (Cons c ds)
  have "digits_val (c # ds) = digit_val c * 10 ^ length ds + digits_val ds"
    using digits_val_append [of "[c]" ds] by (simp add: digits_val_def)
  with Cons digit_neq [of c] show ?case by (simp add: algebra_simps)
qed

lemma scan_exp_digits:
  "list_all is_digit ds \<Longrightarrow> e * 10 ^ length ds + digits_val ds < 10000 \<Longrightarrow>
     scan_exp e ds = (e * 10 ^ length ds + digits_val ds, [])"
proof (induction ds arbitrary: e)
  case Nil
  then show ?case by (simp add: digits_val_def)
next
  case (Cons c ds)
  have v: "digits_val (c # ds) = digit_val c * 10 ^ length ds + digits_val ds"
    using digits_val_append [of "[c]" ds] by (simp add: digits_val_def)
  have "e \<le> e * 10 ^ length (c # ds)" by simp
  with Cons.prems have e: "e < 10000" by linarith
  have "(10 * e + digit_val c) * 10 ^ length ds + digits_val ds < 10000"
    using Cons.prems(2) by (simp add: v algebra_simps)
  with Cons e digit_neq [of c] show ?case by (simp add: v algebra_simps)
qed

lemma format_exp_scan:
  assumes "\<bar>x\<bar> < 10000"
  obtains ds where "format_exp x = (if x < 0 then CHR ''-'' else CHR ''+'') # ds"
    and "list_all is_digit ds" and "ds \<noteq> []" and "scan_exp 0 ds = (nat \<bar>x\<bar>, [])"
proof -
  let ?a = "nat \<bar>x\<bar>"
  let ?ds = "if ?a < 10 then CHR ''0'' # itoa ?a else itoa ?a"
  have d: "list_all is_digit ?ds" by (simp add: itoa_digits is_digit_def)
  have "digits_val ''0'' = 0" by (simp add: digits_val_def digit_val_def)
  then have v: "digits_val ?ds = ?a"
    using digits_val_append [of "''0''" "itoa ?a"] by (simp add: digits_val_itoa)
  show thesis
  proof (rule that)
    show "format_exp x = (if x < 0 then CHR ''-'' else CHR ''+'') # ?ds" by (simp add: format_exp_def Let_def)
    have "?a < 10000" using assms by linarith
    then have "scan_exp 0 ?ds = (0 * 10 ^ length ?ds + digits_val ?ds, [])"
      by (intro scan_exp_digits [OF d]) (simp only: v mult_0 add_0)
    then show "scan_exp 0 ?ds = (?a, [])" by (simp only: v mult_0 add_0)
  qed (use d in auto)
qed

lemma split_sign_dec:
  assumes "list_all is_digit I" "I \<noteq> []"
  shows "split_sign ((if neg then ''-'' else []) @ I @ r) = (neg, I @ r)"
proof -
  obtain c I' where I: "I = c # I'" using assms by (cases I) auto
  with assms digit_neq [of c] show ?thesis by (simp add: split_sign_def)
qed

lemma special_float_dec:
  assumes "list_all is_digit I" "I \<noteq> []"
  shows "special_float ((if neg then ''-'' else []) @ I @ r) = None"
proof -
  obtain c I' where I: "I = c # I'" using assms by (cases I) auto
  with assms digit_neq [of c] show ?thesis
    by (auto simp: special_float_def split_sign_def lower_def [of "CHR ''-''"])
qed

lemma float_text_dec:
  assumes I: "list_all is_digit I" "I \<noteq> []" and F: "list_all is_digit F"
    and x: "case x of None \<Rightarrow> True | Some k \<Rightarrow> \<bar>k\<bar> < 10000"
  shows "float_text (dec_text neg I F x) = Some (neg, digits_val (I @ F), dec_scale x - int (length F), 0)"
proof -
  define tail where "tail = (case x of None \<Rightarrow> [] | Some k \<Rightarrow> CHR ''e'' # format_exp k)"
  define body where "body = I @ (if F = [] then [] else CHR ''.'' # F) @ tail"
  have sg: "split_sign (dec_text neg I F x) = (neg, body)"
    unfolding dec_text_def tail_def [symmetric] body_def using split_sign_dec [OF I] by simp
  obtain c I' where c: "I = c # I'" using I by (cases I) auto
  have nohex: "(case body of CHR ''0'' # p # rest \<Rightarrow> if lower p = CHR ''x'' then (True, rest) else (False, body)
      | _ \<Rightarrow> (False, body)) = (False, body)"
  proof -
    have "lower p \<noteq> CHR ''x''" if "body = y # p # rest" for y p rest
    proof -
      have "p \<in> set (I' @ [CHR ''.''] @ [CHR ''e''])"
        using that by (cases I'; cases F; cases x) (auto simp: body_def c tail_def)
      then show ?thesis using I c digit_neq [of p]
        by (auto simp: list_all_iff lower_def [of "CHR ''.''"] lower_def [of "CHR ''e''"])
    qed
    then show ?thesis by (auto split: list.split char.split bool.split)
  qed
  have scan: "scan_mantissa 10 0 0 False False body = (digits_val (I @ F), length F, True, tail)"
  proof -
    have stop: "scan_mantissa 10 v fr dot True tail = (v, fr, True, tail)" for v fr dot
      by (cases x) (simp_all add: tail_def is_digit_def)
    show ?thesis
      using scan_mantissa_digits [OF I(1), of 0 0 False False] scan_mantissa_digits [OF F, of _ 0 True True tail] I(2)
      by (cases "F = []") (simp_all add: body_def stop digits_val_append)
  qed
  show ?thesis
  proof (cases x)
    case None
    then show ?thesis unfolding float_text_def sg by (simp add: nohex scan tail_def dec_scale_def)
  next
    case (Some k)
    with x have "\<bar>k\<bar> < 10000" by simp
    then obtain ds where ds: "format_exp k = (if k < 0 then CHR ''-'' else CHR ''+'') # ds"
      "list_all is_digit ds" "ds \<noteq> []" "scan_exp 0 ds = (nat \<bar>k\<bar>, [])" by (rule format_exp_scan)
    have "is_digit (hd ds)" using ds by (cases ds) auto
    then show ?thesis unfolding float_text_def sg using Some ds
      by (simp add: nohex scan tail_def dec_scale_def split_sign_def lower_def)
  qed
qed

lemma dec_text_no_underscore:
  assumes I: "list_all is_digit I" and F: "list_all is_digit F"
  shows "CHR ''_'' \<notin> set (dec_text neg I F x)"
proof -
  have "CHR ''_'' \<notin> set I" "CHR ''_'' \<notin> set F"
    using I F digit_neq(1) by (auto simp: list_all_iff)
  moreover have "CHR ''_'' \<notin> set (itoa n)" for n
    using itoa_digits [of n] digit_neq(1) by (auto simp: list_all_iff)
  ultimately show ?thesis
    by (auto simp: dec_text_def format_exp_def Let_def split: option.splits)
qed

lemma f64_round_sign: "f64_round False a b = Fin False m e \<Longrightarrow> f64_round neg a b = Fin neg m e"
  by (auto simp: f64_round_def Let_def split: if_splits)

lemma parse_float_dec:
  assumes "list_all is_digit I" "I \<noteq> []" "list_all is_digit F"
    and "case x of None \<Rightarrow> True | Some k \<Rightarrow> \<bar>k\<bar> < 10000"
    and "dec_round (digits_val (I @ F)) (dec_scale x - int (length F)) = Fin False m e"
  shows "parse_float (dec_text neg I F x) = Some (Fin neg m e)"
proof -
  have "special_float (dec_text neg I F x) = None"
    unfolding dec_text_def by (rule special_float_dec [OF assms(1,2)])
  then show ?thesis
    using float_text_dec [OF assms(1-4), of neg] dec_text_no_underscore [OF assms(1,3), of neg x]
      f64_round_sign [OF assms(5) [unfolded dec_round_def], of neg]
    by (simp add: parse_float_def)
qed

text \<open>Every formatted finite number is a plain decimal that rounds to it.\<close>

lemma format_float_dec:
  assumes wf: "f64_wf (Fin neg m e)"
  obtains I F x where "format_float (Fin neg m e) = dec_text neg I F x"
    and "list_all is_digit I" and "I = ''0'' \<or> I \<noteq> [] \<and> hd I \<noteq> CHR ''0''" and "list_all is_digit F"
    and "case x of None \<Rightarrow> True | Some k \<Rightarrow> \<bar>k\<bar> < 10000"
    and "dec_round (digits_val (I @ F)) (dec_scale x - int (length F)) = Fin False m e"
proof (cases "m = 0")
  case True
  with wf have "e = - 1074" by (simp add: f64_wf_def)
  with True that [of "''0''" "[]" None] show thesis
    by (simp add: format_float_def format_f_def dec_text_def is_digit_def dec_scale_def dec_round_def
        digits_val_def digit_val_def f64_round_def)
next
  case False
  then have m: "0 < m" by simp
  have "f64_wf (Fin False m e)" using wf by (simp add: f64_wf_def)
  from shortest_digits_spec [OF this m] obtain ds dp where ds: "shortest_digits m e = (ds, dp)"
    "list_all is_digit ds" "ds \<noteq> []" "hd ds \<noteq> CHR ''0''"
    and rnd: "dec_round (digits_val ds) (dp - int (length ds)) = Fin False m e" and dp: "\<bar>dp\<bar> < 9000"
    by blast
  obtain c ds' where c: "ds = c # ds'" using ds(3) by (cases ds) auto
  have dig: "list_all is_digit (take n ds)" "list_all is_digit (drop n ds)" for n
    using ds(2) by (auto simp: list_all_iff dest: in_set_takeD in_set_dropD)
  show thesis
  proof (cases "dp - 1 < - 4 \<or> dp - 1 \<ge> 6")
    case True
    show thesis
    proof (rule that)
      show "format_float (Fin neg m e) = dec_text neg (take 1 ds) (drop 1 ds) (Some (dp - 1))"
        using False True ds(1) by (cases ds') (auto simp: format_float_def format_e_def dec_text_def c)
      show "dec_round (digits_val (take 1 ds @ drop 1 ds)) (dec_scale (Some (dp - 1)) - int (length (drop 1 ds)))
          = Fin False m e" using rnd by (simp add: dec_scale_def c diff_diff_eq)
    qed (use ds dp dig c in auto)
  next
    case small: False
    show thesis
    proof (cases "dp > 0")
      case True
      show thesis
      proof (rule that)
        show "format_float (Fin neg m e) =
            dec_text neg (take (nat dp) ds @ replicate (nat dp - length ds) (CHR ''0'')) (drop (nat dp) ds) None"
          using False small ds(1) True by (auto simp: format_float_def format_f_def dec_text_def)
        show "list_all is_digit (take (nat dp) ds @ replicate (nat dp - length ds) (CHR ''0''))"
          using dig by (auto simp: list_all_iff is_digit_def)
        show "take (nat dp) ds @ replicate (nat dp - length ds) (CHR ''0'') = ''0'' \<or>
            take (nat dp) ds @ replicate (nat dp - length ds) (CHR ''0'') \<noteq> [] \<and>
            hd (take (nat dp) ds @ replicate (nat dp - length ds) (CHR ''0'')) \<noteq> CHR ''0''"
          using ds True c by (cases "nat dp") auto
        show "dec_round (digits_val ((take (nat dp) ds @ replicate (nat dp - length ds) (CHR ''0'')) @ drop (nat dp) ds))
            (dec_scale None - int (length (drop (nat dp) ds))) = Fin False m e"
        proof (cases "length ds \<le> nat dp")
          case True
          with \<open>dp > 0\<close> have "int (nat dp - length ds) = dp - int (length ds)" by linarith
          with rnd dec_round_shift [of "digits_val ds" "nat dp - length ds" 0] True show ?thesis
            by (simp add: dec_scale_def digits_val_append digits_val_replicate_0)
        next
          case False
          with rnd \<open>dp > 0\<close> show ?thesis by (simp add: dec_scale_def of_nat_diff)
        qed
      qed (use dig in auto)
    next
      case dp0: False
      show thesis
      proof (rule that)
        show "format_float (Fin neg m e) = dec_text neg ''0'' (replicate (nat (- dp)) (CHR ''0'') @ ds) None"
          using False small ds(1,3) dp0 by (auto simp: format_float_def format_f_def dec_text_def)
        have "digits_val ''0'' = 0" by (simp add: digits_val_def digit_val_def)
        then have "digits_val (''0'' @ replicate (nat (- dp)) (CHR ''0'') @ ds) = digits_val ds"
          using digits_val_append [of "''0''" "replicate (nat (- dp)) (CHR ''0'') @ ds"]
            digits_val_append [of "replicate (nat (- dp)) (CHR ''0'')" ds]
          by (simp add: digits_val_replicate_0)
        with rnd dp0 show "dec_round (digits_val (''0'' @ replicate (nat (- dp)) (CHR ''0'') @ ds))
            (dec_scale None - int (length (replicate (nat (- dp)) (CHR ''0'') @ ds))) = Fin False m e"
          by (simp add: dec_scale_def)
      qed (use ds in \<open>auto simp: list_all_iff is_digit_def\<close>)
    qed
  qed
qed

lemma parse_format_float:
  assumes "f64_wf (Fin neg m e)"
  shows "parse_float (format_float (Fin neg m e)) = Some (Fin neg m e)"
proof -
  obtain I F x where t: "format_float (Fin neg m e) = dec_text neg I F x"
    and I: "list_all is_digit I" "I = ''0'' \<or> I \<noteq> [] \<and> hd I \<noteq> CHR ''0''" and F: "list_all is_digit F"
    and x: "case x of None \<Rightarrow> True | Some k \<Rightarrow> \<bar>k\<bar> < 10000"
    and r: "dec_round (digits_val (I @ F)) (dec_scale x - int (length F)) = Fin False m e"
    using format_float_dec [OF assms] by blast
  from I have "I \<noteq> []" by auto
  then show ?thesis unfolding t using parse_float_dec [OF I(1) _ F x r] by blast
qed

lemma special_float_wf: "special_float s = Some x \<Longrightarrow> f64_wf x"
  by (auto simp: special_float_def f64_wf_def split: prod.splits if_splits)

lemma parse_float_wf:
  assumes "parse_float s = Some x"
  shows "f64_wf x"
proof -
  have "f64_wf (f64_round neg n (10 ^ i * 2 ^ j))" for neg n i j by (rule f64_round_wf) simp
  with assms show ?thesis
    by (auto simp: parse_float_def split: option.splits prod.splits if_splits float64.splits
        dest: special_float_wf) metis+
qed

end
