(* ===== verification/Snapshot_Facts.thy ===== *)
theory Snapshot_Facts
  imports Snapshot_Model Float64_Facts "HOL-Library.Multiset"
begin

text \<open>
  What the snapshot model guarantees. Canonical numbers are fixed points of the canonicalisation;
  series identities are injective; an accepted candidate becomes a snapshot that is sorted, free of
  duplicates and within the limits, and that validates to itself again; and the candidates that
  are accepted are exactly the well-formed ones.
\<close>

section \<open>Canonical numbers\<close>

lemma takeWhile_digits_append:
  "list_all is_digit ds \<Longrightarrow> takeWhile is_digit (ds @ r) = ds @ takeWhile is_digit r"
  by (induction ds) auto

lemma dropWhile_digits_append:
  "list_all is_digit ds \<Longrightarrow> dropWhile is_digit (ds @ r) = dropWhile is_digit r"
  by (induction ds) auto

lemma exponent_pattern_format_exp: "exponent_pattern (CHR ''e'' # format_exp k)"
  by (auto simp: exponent_pattern_def format_exp_def Let_def go_num itoa_digits is_digit_def)

lemma finitePattern_dec_text:
  assumes "list_all is_digit I" "I = ''0'' \<or> I \<noteq> [] \<and> hd I \<noteq> CHR ''0''" "list_all is_digit F"
  shows "finitePattern (dec_text neg I F x)"
proof -
  define tail where "tail = (case x of None \<Rightarrow> [] | Some k \<Rightarrow> CHR ''e'' # format_exp k)"
  define frac where "frac = (if F = [] then [] else CHR ''.'' # F) @ tail"
  have t: "takeWhile is_digit tail = []" "dropWhile is_digit tail = tail" "exponent_pattern tail"
    unfolding tail_def
    by (auto simp: is_digit_def exponent_pattern_format_exp exponent_pattern_def [of "[]"] split: option.splits)
  have f: "takeWhile is_digit frac = []" "dropWhile is_digit frac = frac"
    unfolding frac_def using t by (auto simp: is_digit_def)
  have fp: "fraction_pattern frac"
  proof (cases "F = []")
    case True
    then have "frac = tail" by (simp add: frac_def)
    moreover have "fraction_pattern tail = exponent_pattern tail"
      unfolding tail_def by (auto simp: fraction_pattern_def exponent_pattern_def [of "[]"] split: option.splits)
    ultimately show ?thesis using t by simp
  next
    case False
    with t assms(3) show ?thesis
      by (simp add: frac_def fraction_pattern_def takeWhile_digits_append dropWhile_digits_append)
  qed
  obtain c I' where c: "I = c # I'" "is_digit c" using assms by (cases I) auto
  have body: "canonical_digits (takeWhile is_digit (I @ frac)) \<and> fraction_pattern (dropWhile is_digit (I @ frac))"
    using assms f fp by (auto simp: takeWhile_digits_append dropWhile_digits_append canonical_digits_def)
  have "dec_text neg I F x = (if neg then ''-'' else []) @ I @ frac"
    by (simp add: dec_text_def frac_def tail_def)
  moreover have "(case I @ frac of [] \<Rightarrow> [] | c # t \<Rightarrow> if c = CHR ''-'' then t else I @ frac) = I @ frac"
    using c digit_neq(3) [OF c(2)] by simp
  ultimately show ?thesis using body by (cases neg) (simp_all add: finitePattern_def Let_def)
qed

lemma finitePattern_not_special: "finitePattern s \<Longrightarrow> special_float s = None"
proof -
  assume "finitePattern s"
  then obtain neg r where s: "s = (if neg then ''-'' else []) @ r" and r: "canonical_digits (takeWhile is_digit r)"
  proof (cases "has_prefix s ''-''")
    case True
    then obtain t where "s = CHR ''-'' # t" by (auto simp: has_prefix_iff)
    with \<open>finitePattern s\<close> that [of True t] show thesis by (simp add: finitePattern_def)
  next
    case False
    then have "(case s of [] \<Rightarrow> [] | c # t \<Rightarrow> if c = CHR ''-'' then t else s) = s"
      by (auto simp: has_prefix_def split: list.splits)
    with \<open>finitePattern s\<close> that [of False s] show thesis by (simp add: finitePattern_def)
  qed
  have "r = takeWhile is_digit r @ dropWhile is_digit r" by simp
  then show ?thesis
    unfolding s using special_float_dec [of "takeWhile is_digit r" neg "dropWhile is_digit r"] r
    by (simp add: canonical_digits_def)
qed

lemma f64_round_not_nan: "f64_round neg a b \<noteq> NaN"
  by (simp add: f64_round_def Let_def split: prod.splits)

lemma parse_float_finitePattern:
  assumes "finitePattern s" "parse_float s = Some x"
  obtains neg m e where "x = Fin neg m e" "f64_wf x"
proof -
  have "\<exists>neg m e. x = Fin neg m e"
    using assms(2) finitePattern_not_special [OF assms(1)] f64_round_not_nan
    by (auto simp: parse_float_def split: option.splits if_splits float64.splits) metis+
  with that parse_float_wf [OF assms(2)] show thesis by blast
qed

lemma f64_eq_zero_iff: "f64_wf (Fin neg m e) \<Longrightarrow> f64_eq (Fin neg m e) f64_zero \<longleftrightarrow> m = 0"
  by (auto simp: f64_eq_def f64_zero_def fin_int_def mult_le_0_iff)

lemma not_nonzero_zero: "\<not> tokenRepresentsNonZero (format_float (Fin neg 0 e))"
  by (cases neg) (simp_all add: format_float_def format_f_def tokenRepresentsNonZero_def has_prefix_def strip_zeros_def)

lemma canonicalFinite_format:
  assumes "f64_wf (Fin neg m e)"
  shows "canonicalFinite (format_float (Fin neg m e)) = Inr (format_float (Fin neg m e), Fin neg m e)"
proof -
  obtain I F x where t: "format_float (Fin neg m e) = dec_text neg I F x"
    and I: "list_all is_digit I" "I = ''0'' \<or> I \<noteq> [] \<and> hd I \<noteq> CHR ''0''" and F: "list_all is_digit F"
    using format_float_dec [OF assms] by metis
  have "finitePattern (format_float (Fin neg m e))"
    unfolding t by (rule finitePattern_dec_text [OF I F])
  then show ?thesis
    using parse_format_float [OF assms] f64_eq_zero_iff [OF assms] not_nonzero_zero [of neg e]
    by (auto simp: canonicalFinite_def is_inf_def is_inf_pos_def is_inf_neg_def)
qed

lemma canonicalFinite_Inr:
  assumes "canonicalFinite token = Inr (c, x)"
  obtains neg m e where "x = Fin neg m e" "f64_wf x" "c = format_float x" "parse_float token = Some x" "finitePattern token"
proof -
  from assms have p: "finitePattern token" "parse_float token = Some x" "c = format_float x"
    by (auto simp: canonicalFinite_def split: option.splits if_splits)
  from parse_float_finitePattern [OF p(1,2)] obtain neg m e where "x = Fin neg m e" "f64_wf x" .
  with p that show thesis by blast
qed

lemma canonicalFinite_idem:
  assumes "canonicalFinite token = Inr (c, x)"
  shows "canonicalFinite c = Inr (c, x)"
  using assms by (metis canonicalFinite_Inr canonicalFinite_format)

lemma format_float_not_special:
  assumes "f64_wf (Fin neg m e)"
  shows "format_float (Fin neg m e) \<notin> {''+Inf'', ''-Inf'', ''NaN'', []}"
proof -
  have "finitePattern (format_float (Fin neg m e))"
    using canonicalFinite_format [OF assms] by (auto elim: canonicalFinite_Inr)
  moreover have "\<not> finitePattern ''+Inf''" "\<not> finitePattern ''-Inf''" "\<not> finitePattern ''NaN''" "\<not> finitePattern []"
    by (simp_all add: finitePattern_def is_digit_def canonical_digits_def)
  ultimately show ?thesis by auto
qed

lemma canonicalCounter_idem: "canonicalCounter token = Inr (c, x) \<Longrightarrow> canonicalCounter c = Inr (c, x)"
  by (auto simp: canonicalCounter_def canonicalFinite_idem split: if_splits)
     (metis canonicalFinite_Inr format_float_not_special insertI1)

lemma canonicalPrometheusFloat_idem:
  "canonicalPrometheusFloat token = Inr c \<Longrightarrow> canonicalPrometheusFloat c = Inr c"
  by (auto simp: canonicalPrometheusFloat_def and_then_Inr_iff dest: canonicalFinite_idem split: if_splits)

lemma canonicalHistogramBoundary_idem:
  "canonicalHistogramBoundary token = Inr (c, x) \<Longrightarrow> canonicalHistogramBoundary c = Inr (c, x)"
proof (cases "token = ''+Inf'' \<or> token = ''-Inf''")
  case False
  assume "canonicalHistogramBoundary token = Inr (c, x)"
  with False have f: "canonicalFinite token = Inr (c, x)"
    by (auto simp: canonicalHistogramBoundary_def split: sum.splits)
  then have "c \<notin> {''+Inf'', ''-Inf''}"
    by (metis canonicalFinite_Inr format_float_not_special insert_iff)
  with canonicalFinite_idem [OF f] show ?thesis by (simp add: canonicalHistogramBoundary_def)
qed (auto simp: canonicalHistogramBoundary_def split: if_splits)

lemma canonicalHistogramBoundary_not_nan:
  "canonicalHistogramBoundary token = Inr (c, x) \<Longrightarrow> x \<noteq> NaN"
  by (auto simp: canonicalHistogramBoundary_def split: sum.splits if_splits elim: canonicalFinite_Inr)

lemma canonical_text_nonempty:
  "canonicalFinite token = Inr (c, x) \<Longrightarrow> c \<noteq> []"
  by (metis canonicalFinite_Inr format_float_not_special insert_iff)

lemma f64_le_linear: "x \<noteq> NaN \<Longrightarrow> y \<noteq> NaN \<Longrightarrow> f64_le x y \<or> f64_le y x"
proof (cases x; cases y)
  fix i j
  assume "x = Inf i" "y = Inf j"
  then show ?thesis by (cases i; cases j) auto
qed (auto simp: min.commute)

lemma f64_not_le: "x \<noteq> NaN \<Longrightarrow> y \<noteq> NaN \<Longrightarrow> \<not> f64_le x y \<longleftrightarrow> f64_less y x"
  using f64_le_linear [of x y] by (auto simp: f64_less_def)

lemma f64_less_trans: "f64_less x y \<Longrightarrow> f64_less y z \<Longrightarrow> f64_less x z"
  unfolding f64_less_def by (meson f64_le_trans)

lemma parseCount_format: "parseCount (format_uint w) = Some w"
proof -
  have "canonical_digits (format_uint w)"
  proof (cases "w = 0")
    case True
    then show ?thesis
      by (simp add: format_uint_def canonical_digits_def itoa.simps digit_char_def is_digit_def)
  next
    case False
    then have "0 < unat w" by (simp add: unat_gt_0)
    then show ?thesis
      by (simp add: format_uint_def canonical_digits_def itoa_digits itoa_hd_nonzero)
  qed
  then show ?thesis by (simp add: parseCount_def countPattern_def parse_format_uint)
qed


section \<open>Series identities\<close>

lemma seriesIdentity_netstr:
  "seriesIdentity labels = concat (map (\<lambda>l. netstr (l_name l) @ netstr (l_value l)) labels)"
  by (simp add: seriesIdentity_def netstr_def)

lemma seriesIdentity_inject: "seriesIdentity ls = seriesIdentity ms \<longleftrightarrow> ls = ms"
proof
  assume "seriesIdentity ls = seriesIdentity ms"
  then show "ls = ms" unfolding seriesIdentity_netstr
  proof (induction ls arbitrary: ms)
    case Nil
    then show ?case by (cases ms) auto
  next
    case (Cons l ls)
    then obtain m ms' where ms: "ms = m # ms'" by (cases ms) auto
    with Cons.prems have "netstr (l_name l) @ (netstr (l_value l) @ concat (map (\<lambda>l. netstr (l_name l) @ netstr (l_value l)) ls)) =
        netstr (l_name m) @ (netstr (l_value m) @ concat (map (\<lambda>l. netstr (l_name l) @ netstr (l_value l)) ms'))"
      by simp
    from netstr_append_eq [OF this] have n: "l_name l = l_name m"
      and v: "l_value l = l_value m \<and> concat (map (\<lambda>l. netstr (l_name l) @ netstr (l_value l)) ls) =
        concat (map (\<lambda>l. netstr (l_name l) @ netstr (l_value l)) ms')"
      using netstr_append_eq by blast+
    then have "ls = ms'" using Cons.IH by blast
    with n v ms show ?case by simp
  qed
qed simp

section \<open>Sorting\<close>

text \<open>Sorting by keys that are distinct gives a strictly increasing list, and leaves one alone.\<close>

lemma sort_key_strict:
  "distinct (map k xs) \<Longrightarrow> sorted_wrt (\<lambda>x y. k x < (k y :: 'b :: linorder)) (sort_key k xs)"
proof -
  assume d: "distinct (map k xs)"
  have "mset (map k (sort_key k xs)) = mset (map k xs)" by (metis mset_map mset_sort)
  then have "distinct (map k (sort_key k xs))" using d by (metis mset_eq_imp_distinct_iff)
  then have "sorted_wrt (<) (map k (sort_key k xs))" by (simp add: strict_sorted_iff)
  then show ?thesis by (simp add: sorted_wrt_map)
qed

lemma sort_key_strict_id:
  "sorted_wrt (\<lambda>x y. k x < (k y :: 'b :: linorder)) xs \<Longrightarrow> sort_key k xs = xs"
proof (induction xs)
  case (Cons x xs)
  then have "insort_key k x xs = x # xs" by (cases xs) (auto intro: less_imp_le)
  with Cons show ?case by simp
qed simp

lemma sorted_strict_distinct:
  "sorted_wrt (\<lambda>x y. k x < (k y :: 'b :: linorder)) xs \<Longrightarrow> distinct (map k xs)"
  by (metis sorted_wrt_map strict_sorted_iff)

section \<open>Labels\<close>

definition to_label :: "InputLabel \<Rightarrow> Label" where
  "to_label l = \<lparr>l_name = il_name l, l_value = il_value l\<rparr>"

definition of_label :: "Label \<Rightarrow> InputLabel" where
  "of_label l = \<lparr>il_name = l_name l, il_value = l_value l\<rparr>"

lemma to_of_label [simp]: "to_label (of_label l) = l"
  by (simp add: to_label_def of_label_def)

lemma label_sel [simp]:
  "l_name (to_label l) = il_name l" "il_name (of_label m) = l_name m"
  "l_value (to_label l) = il_value l" "il_value (of_label m) = l_value m"
  by (simp_all add: to_label_def of_label_def)

definition label_ok :: "Limits \<Rightarrow> Label \<Rightarrow> bool" where
  "label_ok lm l \<longleftrightarrow>
     utf8_valid (l_name l) \<and> labelNamePattern (l_name l) \<and> l_name l \<noteq> ''__name__'' \<and> utf8_valid (l_value l) \<and>
     go_len (l_name l) \<le> LabelNameBytes lm \<and> go_len (l_value l) \<le> LabelValueBytes lm"

lemma validate_labels_Inr_iff:
  "validate_labels lm seen ls = Inr rs \<longleftrightarrow>
     rs = map to_label ls \<and> (\<forall>l\<in>set ls. label_ok lm (to_label l)) \<and> distinct (map il_name ls) \<and>
     il_name ` set ls \<inter> seen = {}"
proof (induction ls arbitrary: seen rs)
  case (Cons l ls)
  have "label_ok lm (to_label l) \<longleftrightarrow>
      \<not> (\<not> utf8_valid (il_name l) \<or> \<not> labelNamePattern (il_name l) \<or> il_name l = ''__name__'') \<and>
      \<not> (go_len (il_name l) > LabelNameBytes lm \<or> go_len (il_value l) > LabelValueBytes lm) \<and>
      utf8_valid (il_value l)"
    by (auto simp: label_ok_def)
  then show ?case
    by (auto simp: and_then_Inr_iff Cons.IH to_label_def [symmetric])
qed auto

section \<open>Histograms\<close>

definition bound_value :: "string \<Rightarrow> float64" where
  "bound_value token = (case canonicalHistogramBoundary token of Inl _ \<Rightarrow> NaN | Inr (_, x) \<Rightarrow> x)"

text \<open>A boundary in canonical form: the canonicalisation keeps its text.\<close>

definition canonical_bound :: "string \<Rightarrow> bool" where
  "canonical_bound b \<longleftrightarrow> canonicalHistogramBoundary b = Inr (b, bound_value b)"

lemma canonical_bound_not_nan: "canonical_bound b \<Longrightarrow> bound_value b \<noteq> NaN"
  unfolding canonical_bound_def by (rule canonicalHistogramBoundary_not_nan)

lemma canonicalHistogramBoundary_bound:
  "canonicalHistogramBoundary token = Inr (c, x) \<Longrightarrow> canonical_bound c \<and> bound_value c = x"
  by (drule canonicalHistogramBoundary_idem) (simp add: canonical_bound_def bound_value_def)

definition buckets_ok :: "Bucket list \<Rightarrow> bool" where
  "buckets_ok bs \<longleftrightarrow>
     (\<forall>b\<in>set bs. canonical_bound (b_upper_bound b)) \<and>
     sorted_wrt (\<lambda>a b. f64_less (bound_value (b_upper_bound a)) (bound_value (b_upper_bound b))) bs \<and>
     sorted (map b_count bs)"

definition above :: "(float64 \<times> uint64) option \<Rightarrow> Bucket \<Rightarrow> bool" where
  "above prev b = (case prev of None \<Rightarrow> True
     | Some (x, c) \<Rightarrow> f64_less x (bound_value (b_upper_bound b)) \<and> c \<le> b_count b)"

definition prev_ok :: "(float64 \<times> uint64) option \<Rightarrow> bool" where
  "prev_ok prev = (case prev of None \<Rightarrow> True | Some (x, _) \<Rightarrow> x \<noteq> NaN)"

lemma above_trans: "above prev b \<Longrightarrow> above (Some (bound_value (b_upper_bound b), b_count b)) c \<Longrightarrow> above prev c"
  by (auto simp: above_def split: option.splits prod.splits dest: f64_less_trans)

lemma buckets_ok_Cons:
  "buckets_ok (b # bs) \<longleftrightarrow> canonical_bound (b_upper_bound b) \<and>
     list_all (above (Some (bound_value (b_upper_bound b), b_count b))) bs \<and> buckets_ok bs"
  by (auto simp: buckets_ok_def above_def list_all_iff)

lemma validate_buckets_Inr:
  "prev_ok prev \<Longrightarrow> validate_buckets prev ibs = Inr (bs, c) \<Longrightarrow>
     buckets_ok bs \<and> list_all (above prev) bs \<and>
     c = (if bs = [] then (case prev of None \<Rightarrow> 0 | Some (_, c) \<Rightarrow> c) else b_count (last bs))"
proof (induction ibs arbitrary: prev bs c)
  case Nil
  then show ?case by (simp add: buckets_ok_def)
next
  case (Cons ib ibs)
  from Cons.prems obtain bound x n rest where b: "canonicalHistogramBoundary (ib_upper_bound ib) = Inr (bound, x)"
    "parseCount (ib_count ib) = Some n"
    and gt: "\<not> (case prev of None \<Rightarrow> False | Some (pb, pc) \<Rightarrow> f64_le x pb \<or> n < pc)"
    and r: "validate_buckets (Some (x, n)) ibs = Inr (rest, c)"
    and bs: "bs = \<lparr>b_upper_bound = bound, b_count = n\<rparr> # rest"
    by (fastforce simp: and_then_Inr_iff split: sum.splits option.splits if_splits)
  note x = canonicalHistogramBoundary_bound [OF b(1)] canonicalHistogramBoundary_not_nan [OF b(1)]
  have "prev_ok (Some (x, n))" using x by (simp add: prev_ok_def)
  from Cons.IH [OF this r] have ih: "buckets_ok rest" "list_all (above (Some (x, n))) rest"
    "c = (if rest = [] then n else b_count (last rest))" by auto
  have hd: "above prev (hd bs)"
    using gt x Cons.prems(1) by (auto simp: bs above_def prev_ok_def f64_not_le split: option.splits)
  then have "list_all (above prev) bs"
    using ih(2) above_trans [of prev "hd bs"] x by (auto simp: bs list_all_iff)
  with ih x show ?case by (auto simp: bs buckets_ok_Cons)
qed

definition of_bucket :: "Bucket \<Rightarrow> InputBucket" where
  "of_bucket b = \<lparr>ib_upper_bound = b_upper_bound b, ib_count = format_uint (b_count b)\<rparr>"

lemma of_bucket_sel [simp]:
  "ib_upper_bound (of_bucket b) = b_upper_bound b" "ib_count (of_bucket b) = format_uint (b_count b)"
  by (simp_all add: of_bucket_def)

lemma validate_buckets_of_bucket:
  "prev_ok prev \<Longrightarrow> buckets_ok bs \<Longrightarrow> list_all (above prev) bs \<Longrightarrow>
     validate_buckets prev (map of_bucket bs) =
       Inr (bs, if bs = [] then (case prev of None \<Rightarrow> 0 | Some (_, c) \<Rightarrow> c) else b_count (last bs))"
proof (induction bs arbitrary: prev)
  case (Cons b bs)
  let ?p = "Some (bound_value (b_upper_bound b), b_count b)"
  from Cons.prems have b: "canonical_bound (b_upper_bound b)" "list_all (above ?p) bs" "buckets_ok bs"
    by (auto simp: buckets_ok_Cons)
  have "prev_ok ?p" using canonical_bound_not_nan [OF b(1)] by (simp add: prev_ok_def)
  from Cons.IH [OF this b(3,2)] have ih: "validate_buckets ?p (map of_bucket bs) =
      Inr (bs, if bs = [] then b_count b else b_count (last bs))" by simp
  have "\<not> (case prev of None \<Rightarrow> False | Some (pb, pc) \<Rightarrow> f64_le (bound_value (b_upper_bound b)) pb \<or> b_count b < pc)"
    using Cons.prems(1,3) by (auto simp: above_def prev_ok_def f64_less_def split: option.splits)
  with b(1) ih show ?case
    by (simp add: parseCount_format canonical_bound_def)
qed simp

definition histogram_ok :: "HistogramValue \<Rightarrow> bool" where
  "histogram_ok h \<longleftrightarrow>
     canonicalPrometheusFloat (hv_sum h) = Inr (hv_sum h) \<and> hv_buckets h \<noteq> [] \<and> buckets_ok (hv_buckets h) \<and>
     b_upper_bound (last (hv_buckets h)) = ''+Inf'' \<and> b_count (last (hv_buckets h)) = hv_count h"

definition of_histogram :: "HistogramValue \<Rightarrow> InputHistogram" where
  "of_histogram h = \<lparr>ih_count = format_uint (hv_count h), ih_sum = hv_sum h, ih_buckets = map of_bucket (hv_buckets h)\<rparr>"

lemma validateHistogram_Inr: "validateHistogram ih = Inr h \<Longrightarrow> histogram_ok h"
  using validate_buckets_Inr [of None "ih_buckets ih"]
  by (auto simp: validateHistogram_def and_then_Inr_iff histogram_ok_def prev_ok_def
      canonicalPrometheusFloat_idem split: option.splits sum.splits if_splits)

lemma validateHistogram_of: "histogram_ok h \<Longrightarrow> validateHistogram (of_histogram h) = Inr h"
  using validate_buckets_of_bucket [of None "hv_buckets h"]
  by (simp add: validateHistogram_def of_histogram_def histogram_ok_def parseCount_format prev_ok_def
      above_def list_all_iff)

section \<open>Series\<close>

definition value_ok :: "MetricType \<Rightarrow> Series \<Rightarrow> bool" where
  "value_ok t s =
     (if t = Counter then s_histogram s = None \<and>
        (\<exists>x. canonicalCounter (s_value s) = Inr (s_value s, x) \<and> \<not> f64_less x f64_zero)
      else if t = Gauge then s_histogram s = None \<and> canonicalGauge (s_value s) = Inr (s_value s)
      else if t = Histogram then s_value s = [] \<and> ''le'' \<notin> l_name ` set (s_labels s) \<and>
        (\<exists>h. s_histogram s = Some h \<and> histogram_ok h)
      else s_value s = [] \<and> s_histogram s = None)"

definition series_ok :: "MetricType \<Rightarrow> Limits \<Rightarrow> Series \<Rightarrow> bool" where
  "series_ok t lm s \<longleftrightarrow>
     go_len (s_labels s) \<le> LabelsPerSeries lm \<and> (\<forall>l\<in>set (s_labels s). label_ok lm l) \<and>
     sorted_wrt (\<lambda>l m. l_name l < l_name m) (s_labels s) \<and> value_ok t s"

definition of_series :: "Series \<Rightarrow> InputSeries" where
  "of_series s = \<lparr>is_labels = map of_label (s_labels s), is_value = s_value s,
     is_histogram = map_option of_histogram (s_histogram s)\<rparr>"

lemma type_distinct [simp]: "Counter \<noteq> Gauge" "Counter \<noteq> Histogram" "Gauge \<noteq> Histogram"
    "Gauge \<noteq> Counter" "Histogram \<noteq> Counter" "Histogram \<noteq> Gauge"
  by (simp_all add: Counter_def Gauge_def Histogram_def)

lemma validate_value_Inr: "validate_value t input labels = Inr s \<Longrightarrow> s_labels s = labels \<and> value_ok t s"
  by (auto simp: validate_value_def value_ok_def Let_def and_then_Inr_iff canonicalGauge_def
      dest: canonicalPrometheusFloat_idem validateHistogram_Inr split: if_splits option.splits sum.splits)
     (blast dest: canonicalCounter_idem)

lemma validate_value_of: "value_ok t s \<Longrightarrow> validate_value t (of_series s) (s_labels s) = Inr s"
  by (auto simp: validate_value_def value_ok_def of_series_def validateHistogram_of split: if_splits)

lemma validateSeries_Inr:
  assumes "validateSeries t input lm = Inr (s, i)"
  shows "series_ok t lm s \<and> i = seriesIdentity (s_labels s)"
proof -
  let ?ls = "map to_label (is_labels input)"
  from assms have len: "go_len (is_labels input) \<le> LabelsPerSeries lm"
    and ls: "\<forall>l\<in>set (is_labels input). label_ok lm (to_label l)" "distinct (map il_name (is_labels input))"
    and v: "validate_value t input (sort_key l_name ?ls) = Inr s" "i = seriesIdentity (sort_key l_name ?ls)"
    by (auto simp: validateSeries_def and_then_Inr_iff validate_labels_Inr_iff Let_def split: if_splits)
  have "s_labels s = sort_key l_name ?ls" "value_ok t s" using validate_value_Inr [OF v(1)] by simp_all
  moreover have "distinct (map l_name ?ls)" using ls(2) by (simp add: o_def)
  ultimately show ?thesis
    using len ls v(2) sort_key_strict [of l_name ?ls] by (simp add: series_ok_def)
qed

lemma validateSeries_of:
  assumes "series_ok t lm s"
  shows "validateSeries t (of_series s) lm = Inr (s, seriesIdentity (s_labels s))"
proof -
  have srt: "sort_key l_name (s_labels s) = s_labels s"
    using assms by (simp add: series_ok_def sort_key_strict_id)
  have "validate_labels lm {} (map of_label (s_labels s)) = Inr (s_labels s)"
    using assms sorted_strict_distinct [of l_name "s_labels s"]
    by (simp add: validate_labels_Inr_iff series_ok_def o_def list.map_ident)
  with assms srt show ?thesis
    using validate_value_of [of t s] by (simp add: validateSeries_def series_ok_def of_series_def)
qed

section \<open>Families\<close>

abbreviation identity_of :: "Series \<Rightarrow> string" where
  "identity_of s \<equiv> seriesIdentity (s_labels s)"

lemma validate_series_list_Inr_iff:
  "validate_series_list t lm ids k xs = Inr (ss, n) \<longleftrightarrow>
     list_all2 (\<lambda>x s. validateSeries t x lm = Inr (s, identity_of s)) xs ss \<and>
     distinct (map identity_of ss) \<and> identity_of ` set ss \<inter> ids = {} \<and>
     n = k + go_len ss \<and> (ss = [] \<or> n \<le> SeriesLimit lm)"
proof (induction xs arbitrary: ids k ss n)
  case Nil
  then show ?case by auto
next
  case (Cons x xs)
  show ?case
  proof (cases "validateSeries t x lm")
    case (Inl r)
    then show ?thesis by (auto simp: list_all2_Cons1)
  next
    case (Inr si)
    obtain s i where si: "si = (s, i)" by fastforce
    with Inr have i: "i = identity_of s" using validateSeries_Inr by blast
    show ?thesis
      unfolding validate_series_list.simps Inr si i
      by (auto simp: Cons.IH and_then_Inr_iff list_all2_Cons1 Inr si i; blast)
  qed
qed

lemma validate_names_Inr_iff:
  "validate_names lm base ow ns = Inr ow' \<longleftrightarrow>
     (\<forall>n\<in>set ns. go_len n \<le> MetricNameBytes lm \<and> ow n \<in> {None, Some base}) \<and>
     ow' = (\<lambda>n. if n \<in> set ns then Some base else ow n)"
proof (induction ns arbitrary: ow)
  case Nil
  then show ?case by auto
next
  case (Cons m ns)
  show ?case
    by (auto simp: Cons.IH split: option.splits)
qed

abbreviation encoded_names :: "InputFamily \<Rightarrow> string set" where
  "encoded_names f \<equiv> set (encodedSampleNames (if_name f) (if_type f))"

text \<open>What the loop checks of one family, and the series it gets.\<close>

definition family_accepts :: "Limits \<Rightarrow> InputFamily \<Rightarrow> Series list \<Rightarrow> bool" where
  "family_accepts lm f ss \<longleftrightarrow>
     validateFamilyMetadata f lm = None \<and> (\<forall>n\<in>encoded_names f. go_len n \<le> MetricNameBytes lm) \<and>
     list_all2 (\<lambda>x s. validateSeries (if_type f) x lm = Inr (s, identity_of s)) (if_series f) ss \<and>
     distinct (map identity_of ss)"

definition names_apart :: "InputFamily \<Rightarrow> InputFamily \<Rightarrow> bool" where
  "names_apart f g \<longleftrightarrow> if_name f \<noteq> if_name g \<and> encoded_names f \<inter> encoded_names g = {}"

definition make_family :: "InputFamily \<Rightarrow> Series list \<Rightarrow> Family" where
  "make_family f ss = \<lparr>f_name = if_name f, f_help = if_help f, f_type = if_type f,
     f_series = sort_key identity_of ss\<rparr>"

definition kept_families :: "InputFamily list \<Rightarrow> Series list list \<Rightarrow> Family list" where
  "kept_families fs sss = map (\<lambda>(f, ss). make_family f ss) (filter (\<lambda>(f, ss). ss \<noteq> []) (zip fs sss))"

definition series_total :: "Series list list \<Rightarrow> int" where
  "series_total sss = sum_list (map (\<lambda>ss. go_len ss) sss)"

lemma series_total_nonneg: "0 \<le> series_total sss"
  unfolding series_total_def by (induction sss) auto

lemma series_total_Cons [simp]: "series_total (ss # sss) = go_len ss + series_total sss"
  and series_total_Nil [simp]: "series_total [] = 0"
  by (simp_all add: series_total_def)

lemma kept_families_Cons [simp]:
  "kept_families (f # fs) (ss # sss) = (if ss = [] then [] else [make_family f ss]) @ kept_families fs sss"
  by (simp add: kept_families_def)

lemma kept_families_Nil [simp]: "kept_families [] sss = []"
  by (simp add: kept_families_def)

definition owners_free :: "(string \<rightharpoonup> MetricType) \<Rightarrow> (string \<rightharpoonup> string) \<Rightarrow> InputFamily \<Rightarrow> bool" where
  "owners_free bt ow f \<longleftrightarrow> bt (if_name f) = None \<and> (\<forall>n\<in>encoded_names f. ow n \<in> {None, Some (if_name f)})"

lemma owners_free_update:
  "owners_free (bt(if_name f \<mapsto> t)) (\<lambda>n. if n \<in> encoded_names f then Some (if_name f) else ow n) g \<longleftrightarrow>
     names_apart f g \<and> owners_free bt ow g"
  by (auto simp: owners_free_def names_apart_def split: if_splits)

lemma ex_list_all2_Cons:
  "(\<exists>ys. list_all2 P (x # xs) ys \<and> Q ys) \<longleftrightarrow> (\<exists>y ys. P x y \<and> list_all2 P xs ys \<and> Q (y # ys))"
  by (auto simp: list_all2_Cons1)

lemma validate_families_Inr_iff:
  "validate_families lm bt ow k fs = Inr (gs, n) \<longleftrightarrow>
     (\<exists>sss. list_all2 (family_accepts lm) fs sss \<and> gs = kept_families fs sss \<and>
        sorted_wrt names_apart fs \<and> list_all (owners_free bt ow) fs \<and>
        n = k + series_total sss \<and> (n = k \<or> n \<le> SeriesLimit lm))"
proof (induction fs arbitrary: bt ow k gs n)
  case Nil
  then show ?case by auto
next
  case (Cons f fs)
  let ?ow = "\<lambda>n. if n \<in> encoded_names f then Some (if_name f) else ow n"
  let ?bt = "bt(if_name f \<mapsto> if_type f)"
  have step: "validate_families lm bt ow k (f # fs) = Inr (gs, n) \<longleftrightarrow>
      owners_free bt ow f \<and> (\<exists>ss gs'. family_accepts lm f ss \<and> (ss = [] \<or> k + go_len ss \<le> SeriesLimit lm) \<and>
        validate_families lm ?bt ?ow (k + go_len ss) fs = Inr (gs', n) \<and>
        gs = (if ss = [] then [] else [make_family f ss]) @ gs')"
    by (auto simp: and_then_Inr_iff validate_names_Inr_iff validate_series_list_Inr_iff
        family_accepts_def owners_free_def make_family_def split: option.splits)
  have free: "list_all (owners_free ?bt ?ow) fs \<longleftrightarrow> list_all (names_apart f) fs \<and> list_all (owners_free bt ow) fs"
    by (auto simp: list_all_iff owners_free_update)
  have "validate_families lm bt ow k (f # fs) = Inr (gs, n) \<longleftrightarrow>
      owners_free bt ow f \<and> (\<exists>ss sss. family_accepts lm f ss \<and> (ss = [] \<or> k + go_len ss \<le> SeriesLimit lm) \<and>
        list_all2 (family_accepts lm) fs sss \<and> gs = kept_families (f # fs) (ss # sss) \<and>
        sorted_wrt names_apart fs \<and> list_all (owners_free ?bt ?ow) fs \<and>
        n = k + go_len ss + series_total sss \<and> (n = k + go_len ss \<or> n \<le> SeriesLimit lm))"
    unfolding step Cons.IH by auto
  also have "\<dots> \<longleftrightarrow> (\<exists>ss sss. family_accepts lm f ss \<and> list_all2 (family_accepts lm) fs sss \<and>
        gs = kept_families (f # fs) (ss # sss) \<and> sorted_wrt names_apart (f # fs) \<and>
        list_all (owners_free bt ow) (f # fs) \<and> n = k + series_total (ss # sss) \<and> (n = k \<or> n \<le> SeriesLimit lm))"
  proof -
    have lim: "(ss = [] \<or> k + go_len ss \<le> SeriesLimit lm) \<and> (n = k + go_len ss \<or> n \<le> SeriesLimit lm) \<longleftrightarrow>
        n = k \<or> n \<le> SeriesLimit lm" if "n = k + go_len ss + series_total sss" for ss :: "Series list" and sss
      using that series_total_nonneg [of sss] length_greater_0_conv [of ss] by (cases "ss = []") linarith+
    have eq: "owners_free bt ow f \<and> (family_accepts lm f ss \<and> (ss = [] \<or> k + go_len ss \<le> SeriesLimit lm) \<and>
        list_all2 (family_accepts lm) fs sss \<and> gs = kept_families (f # fs) (ss # sss) \<and>
        sorted_wrt names_apart fs \<and> list_all (owners_free ?bt ?ow) fs \<and>
        n = k + go_len ss + series_total sss \<and> (n = k + go_len ss \<or> n \<le> SeriesLimit lm)) \<longleftrightarrow>
      family_accepts lm f ss \<and> list_all2 (family_accepts lm) fs sss \<and>
        gs = kept_families (f # fs) (ss # sss) \<and> sorted_wrt names_apart (f # fs) \<and>
        list_all (owners_free bt ow) (f # fs) \<and> n = k + series_total (ss # sss) \<and> (n = k \<or> n \<le> SeriesLimit lm)"
      for ss sss
    proof (cases "n = k + go_len ss + series_total sss")
      case True
      have "sorted_wrt names_apart (f # fs) \<longleftrightarrow> list_all (names_apart f) fs \<and> sorted_wrt names_apart fs"
        "list_all (owners_free bt ow) (f # fs) \<longleftrightarrow> owners_free bt ow f \<and> list_all (owners_free bt ow) fs"
        "n = k + series_total (ss # sss)"
        using True by (simp_all add: list_all_iff)
      with lim [OF True] free True show ?thesis by argo
    qed (simp add: add.assoc)
    show ?thesis unfolding eq [symmetric] by (simp only: ex_simps)
  qed
  finally show ?case by (simp only: ex_list_all2_Cons)
qed

section \<open>Validated snapshots\<close>

definition of_family :: "Family \<Rightarrow> InputFamily" where
  "of_family f = \<lparr>if_name = f_name f, if_help = f_help f, if_type = f_type f, if_series = map of_series (f_series f)\<rparr>"

lemma of_family_sel [simp]:
  "if_name (of_family f) = f_name f" "if_type (of_family f) = f_type f" "if_help (of_family f) = f_help f"
  "if_series (of_family f) = map of_series (f_series f)"
  by (simp_all add: of_family_def)

lemma validateFamilyMetadata_cong:
  "if_name f = if_name g \<Longrightarrow> if_help f = if_help g \<Longrightarrow> if_type f = if_type g \<Longrightarrow>
     validateFamilyMetadata f lm = validateFamilyMetadata g lm"
  by (simp add: validateFamilyMetadata_def)

definition family_ok :: "Limits \<Rightarrow> Family \<Rightarrow> bool" where
  "family_ok lm f \<longleftrightarrow>
     validateFamilyMetadata (of_family f) lm = None \<and>
     (\<forall>n\<in>set (encodedSampleNames (f_name f) (f_type f)). go_len n \<le> MetricNameBytes lm) \<and>
     f_series f \<noteq> [] \<and> (\<forall>s\<in>set (f_series f). series_ok (f_type f) lm s) \<and>
     sorted_wrt (\<lambda>s t. identity_of s < identity_of t) (f_series f)"

definition snapshot_ok :: "Limits \<Rightarrow> ValidatedSnapshot \<Rightarrow> bool" where
  "snapshot_ok lm v \<longleftrightarrow>
     (\<forall>f\<in>set (v_families v). family_ok lm f) \<and>
     sorted_wrt (\<lambda>f g. f_name f < f_name g) (v_families v) \<and>
     pairwise (\<lambda>f g. set (encodedSampleNames (f_name f) (f_type f)) \<inter>
        set (encodedSampleNames (f_name g) (f_type g)) = {}) (set (v_families v)) \<and>
     v_series v = series_total (map f_series (v_families v)) \<and> v_series v \<le> max 0 (SeriesLimit lm) \<and>
     v_canonical v = marshalCanonical (v_families v) \<and> go_len (v_canonical v) \<le> SnapshotBytes lm"

lemma make_family_sel [simp]:
  "f_name (make_family f ss) = if_name f" "f_type (make_family f ss) = if_type f"
  "f_help (make_family f ss) = if_help f" "f_series (make_family f ss) = sort_key identity_of ss"
  by (simp_all add: make_family_def)

lemma family_accepts_ok: "family_accepts lm f ss \<Longrightarrow> ss \<noteq> [] \<Longrightarrow> family_ok lm (make_family f ss)"
proof -
  assume a: "family_accepts lm f ss" "ss \<noteq> []"
  have "validateFamilyMetadata (of_family (make_family f ss)) lm = None"
    using a(1) validateFamilyMetadata_cong [of "of_family (make_family f ss)" f lm] by (simp add: family_accepts_def)
  moreover have "series_ok (if_type f) lm s" if "s \<in> set ss" for s
    using a(1) that validateSeries_Inr
    unfolding family_accepts_def list_all2_conv_all_nth in_set_conv_nth by metis
  moreover have "sort_key identity_of ss \<noteq> []" using a(2) by (metis set_empty set_sort)
  ultimately show ?thesis
    using a(1) by (simp add: family_accepts_def family_ok_def sort_key_strict)
qed

lemma kept_families_set:
  "list_all2 P fs sss \<Longrightarrow> g \<in> set (kept_families fs sss) \<Longrightarrow>
     \<exists>f ss. f \<in> set fs \<and> P f ss \<and> ss \<noteq> [] \<and> g = make_family f ss"
  by (induction fs sss rule: list_all2_induct) (auto split: if_splits)

lemma kept_families_total: "list_all2 P fs sss \<Longrightarrow> series_total (map f_series (kept_families fs sss)) = series_total sss"
  by (induction fs sss rule: list_all2_induct) auto

lemma kept_families_apart:
  "list_all2 P fs sss \<Longrightarrow> sorted_wrt names_apart fs \<Longrightarrow>
     sorted_wrt (\<lambda>f g. names_apart (of_family f) (of_family g)) (kept_families fs sss)"
proof (induction fs sss rule: list_all2_induct)
  case (Cons f fs ss sss)
  have "names_apart f g \<Longrightarrow> names_apart (of_family (make_family f ss)) (of_family (make_family g tt))" for g tt
    by (simp add: names_apart_def)
  with Cons kept_families_set [OF Cons.hyps(2)] show ?case by fastforce
qed simp

lemma names_apart_distinct:
  "sorted_wrt (\<lambda>f g. names_apart (of_family f) (of_family g)) fs \<Longrightarrow> distinct (map f_name fs)"
  by (induction fs) (auto simp: names_apart_def)

lemma names_apart_commute: "names_apart f g \<longleftrightarrow> names_apart g f"
  by (auto simp: names_apart_def)

lemma sorted_wrt_pairwise:
  "sorted_wrt R xs \<Longrightarrow> (\<And>x y. R x y \<longleftrightarrow> R y x) \<Longrightarrow> pairwise R (set xs)"
  by (induction xs) (auto simp: pairwise_insert)

lemma series_total_sort: "series_total (map f_series (sort_key k fs)) = series_total (map f_series fs)"
proof -
  have "mset (map (\<lambda>f. go_len (f_series f)) (sort_key k fs)) = mset (map (\<lambda>f. go_len (f_series f)) fs)"
    by (metis mset_map mset_sort)
  then show ?thesis
    unfolding series_total_def map_map o_def by (metis sum_mset_sum_list)
qed

lemma Validate_Inr_iff:
  "Validate c lm = Inr v \<longleftrightarrow>
     cs_schema_version c = SchemaVersion \<and> cs_decoded_bytes c \<le> DecodedBytes lm \<and>
     (\<exists>sss. list_all2 (family_accepts lm) (cs_families c) sss \<and> sorted_wrt names_apart (cs_families c) \<and>
        v_families v = sort_key f_name (kept_families (cs_families c) sss) \<and>
        v_series v = series_total sss \<and> v_series v \<le> max 0 (SeriesLimit lm) \<and>
        v_canonical v = marshalCanonical (v_families v) \<and> go_len (v_canonical v) \<le> SnapshotBytes lm)"
proof -
  have "list_all (owners_free Map.empty Map.empty) fs" for fs
    by (simp add: list_all_iff owners_free_def)
  moreover have "(series_total sss = 0 \<or> series_total sss \<le> SeriesLimit lm) \<longleftrightarrow> series_total sss \<le> max 0 (SeriesLimit lm)"
    for sss using series_total_nonneg [of sss] by (auto simp: max_def)
  moreover have "Validate c lm = Inr v \<longleftrightarrow>
      cs_schema_version c = SchemaVersion \<and> cs_decoded_bytes c \<le> DecodedBytes lm \<and>
      (\<exists>us. validate_families lm Map.empty Map.empty 0 (cs_families c) = Inr (us, v_series v) \<and>
        v_families v = sort_key f_name us \<and> v_canonical v = marshalCanonical (v_families v) \<and>
        go_len (v_canonical v) \<le> SnapshotBytes lm)"
    by (cases v; cases "validate_families lm Map.empty Map.empty 0 (cs_families c)")
       (auto simp: Validate_def Let_def split: if_splits)
  ultimately show ?thesis unfolding validate_families_Inr_iff by (auto; blast)
qed

lemma Validate_sound:
  assumes "Validate c lm = Inr v"
  shows "snapshot_ok lm v"
proof -
  from assms obtain sss where acc: "list_all2 (family_accepts lm) (cs_families c) sss"
    and apart: "sorted_wrt names_apart (cs_families c)"
    and fams: "v_families v = sort_key f_name (kept_families (cs_families c) sss)"
    and rest: "v_series v = series_total sss" "v_series v \<le> max 0 (SeriesLimit lm)"
      "v_canonical v = marshalCanonical (v_families v)" "go_len (v_canonical v) \<le> SnapshotBytes lm"
    by (auto simp: Validate_Inr_iff)
  let ?ks = "kept_families (cs_families c) sss"
  have ap: "sorted_wrt (\<lambda>f g. names_apart (of_family f) (of_family g)) ?ks"
    by (rule kept_families_apart [OF acc apart])
  then have "distinct (map f_name ?ks)" by (rule names_apart_distinct)
  then have "sorted_wrt (\<lambda>f g. f_name f < f_name g) (v_families v)"
    unfolding fams by (rule sort_key_strict)
  moreover have "pairwise (\<lambda>f g. names_apart (of_family f) (of_family g)) (set ?ks)"
    by (rule sorted_wrt_pairwise [OF ap]) (rule names_apart_commute)
  then have "pairwise (\<lambda>f g. set (encodedSampleNames (f_name f) (f_type f)) \<inter>
        set (encodedSampleNames (f_name g) (f_type g)) = {}) (set (v_families v))"
    unfolding fams by (auto simp: pairwise_def names_apart_def)
  moreover have "\<forall>f\<in>set (v_families v). family_ok lm f"
    using kept_families_set [OF acc] family_accepts_ok by (fastforce simp: fams)
  ultimately show ?thesis
    using rest by (simp add: snapshot_ok_def fams series_total_sort kept_families_total [OF acc])
qed

lemma family_accepts_of: "family_ok lm f \<Longrightarrow> family_accepts lm (of_family f) (f_series f)"
  using sorted_strict_distinct [of identity_of "f_series f"]
  by (auto simp: family_ok_def family_accepts_def list_all2_map1 list_all2_same validateSeries_of)

lemma make_family_of: "family_ok lm f \<Longrightarrow> make_family (of_family f) (f_series f) = f"
  by (simp add: family_ok_def make_family_def sort_key_strict_id)

lemma kept_families_of:
  "(\<And>f. f \<in> set fs \<Longrightarrow> family_ok lm f) \<Longrightarrow> kept_families (map of_family fs) (map f_series fs) = fs"
proof (induction fs)
  case (Cons f fs)
  have "family_ok lm f" using Cons.prems by simp
  then have "f_series f \<noteq> []" "make_family (of_family f) (f_series f) = f"
    by (simp add: family_ok_def, rule make_family_of)
  with Cons show ?case by simp
qed simp

definition to_candidate :: "ValidatedSnapshot \<Rightarrow> int \<Rightarrow> CandidateSnapshot" where
  "to_candidate v n = NewCandidate SchemaVersion (map of_family (v_families v)) n"

lemma Validate_to_candidate:
  assumes ok: "snapshot_ok lm v" and n: "n \<le> DecodedBytes lm"
  shows "Validate (to_candidate v n) lm = Inr v"
proof -
  let ?fs = "v_families v"
  have fam: "\<And>f. f \<in> set ?fs \<Longrightarrow> family_ok lm f" and srt: "sorted_wrt (\<lambda>f g. f_name f < f_name g) ?fs"
    using ok by (simp_all add: snapshot_ok_def)
  have acc: "list_all2 (family_accepts lm) (map of_family ?fs) (map f_series ?fs)"
    using fam by (auto simp: list_all2_map1 list_all2_map2 list_all2_same family_accepts_of)
  have "names_apart (of_family f) (of_family g)" if "f_name f < f_name g" "f \<in> set ?fs" "g \<in> set ?fs" for f g
  proof -
    have "f \<noteq> g" using that(1) by auto
    with ok that show ?thesis by (simp add: snapshot_ok_def pairwise_def names_apart_def less_imp_neq)
  qed
  with srt have apart: "sorted_wrt names_apart (map of_family ?fs)"
    by (auto simp: sorted_wrt_map elim: sorted_wrt_mono_rel [rotated])
  have "kept_families (map of_family ?fs) (map f_series ?fs) = ?fs" by (rule kept_families_of [OF fam])
  then show ?thesis
    using acc apart ok n srt unfolding Validate_Inr_iff
    by (intro conjI exI [of _ "map f_series ?fs"])
       (auto simp: to_candidate_def NewCandidate_def snapshot_ok_def sort_key_strict_id)
qed

section \<open>Characters of canonical numbers\<close>

definition numeral_char :: "char \<Rightarrow> bool" where
  "numeral_char c \<longleftrightarrow> is_digit c \<or> c \<in> set ''+-.eINafn''"

lemma itoa_numeral: "list_all numeral_char (itoa n)"
  using itoa_digits [of n] by (simp add: list_all_iff numeral_char_def)

lemma shortest_numeral: "list_all numeral_char (fst (shortest_digits m e))"
proof -
  have "set (strip_zeros s) \<subseteq> set s" for s
    unfolding strip_zeros_def by (metis set_dropWhileD set_rev subsetI)
  from subsetD [OF this] have "list_all numeral_char (strip_zeros (itoa n))" for n
    using itoa_numeral [of n] unfolding list_all_iff by blast
  then show ?thesis by (auto simp: shortest_digits_def Let_def split: option.splits)
qed

lemma format_float_numeral: "list_all numeral_char (format_float x)"
proof (cases x)
  case (Fin neg m e)
  obtain ds dp where d: "(if m = 0 then ([], 0) else shortest_digits m e) = (ds, dp)" by fastforce
  then have ds: "\<forall>c\<in>set ds. numeral_char c"
    using shortest_numeral [of m e] by (auto simp: list_all_iff split: if_splits)
  have marks: "numeral_char (CHR ''0'')" "numeral_char (CHR ''.'')" "numeral_char (CHR ''e'')" "numeral_char (CHR ''-'')"
    "numeral_char (CHR ''+'')"
    by (simp_all add: numeral_char_def is_digit_def)
  have "\<forall>c\<in>set (format_e ds dp). numeral_char c"
    using ds marks itoa_numeral by (auto simp: format_e_def format_exp_def Let_def list_all_iff dest: in_set_takeD in_set_dropD)
  moreover have "\<forall>c\<in>set (format_f ds dp). numeral_char c"
    using ds marks by (auto simp: format_f_def dest: in_set_takeD in_set_dropD)
  ultimately show ?thesis using d Fin marks by (auto simp: format_float_def list_all_iff)
qed (auto simp: format_float_def numeral_char_def)

lemma special_numeral: "list_all numeral_char ''NaN''" "list_all numeral_char ''+Inf''" "list_all numeral_char ''-Inf''"
  by (simp_all add: numeral_char_def)

lemma canonicalFinite_numeral: "canonicalFinite t = Inr (c, x) \<Longrightarrow> list_all numeral_char c"
  using format_float_numeral by (auto simp: canonicalFinite_def split: option.splits if_splits)

lemma canonical_numeral:
  "canonicalCounter t = Inr (c, x) \<Longrightarrow> list_all numeral_char c"
  "canonicalPrometheusFloat t = Inr c \<Longrightarrow> list_all numeral_char c"
  "canonicalHistogramBoundary t = Inr (c, x) \<Longrightarrow> list_all numeral_char c"
  using special_numeral
  by (auto simp: canonicalCounter_def canonicalPrometheusFloat_def canonicalHistogramBoundary_def and_then_Inr_iff
      canonicalFinite_numeral simp del: list.pred_inject split: if_splits sum.splits)

end
