(* ===== verification/Snapshot_Properties.thy ===== *)
theory Snapshot_Properties
  imports Snapshot_Facts
begin

text \<open>The properties of the snapshot model, with their witnesses.\<close>

section \<open>The order of the labels does not matter\<close>

text \<open>
  The parser collects the labels of a series from a Go map, whose iteration order is random. Two
  candidates that differ only in the order of labels within series:
\<close>

definition same_series :: "InputSeries \<Rightarrow> InputSeries \<Rightarrow> bool" where
  "same_series x y \<longleftrightarrow>
     mset (is_labels x) = mset (is_labels y) \<and> is_value x = is_value y \<and> is_histogram x = is_histogram y"

definition same_family :: "InputFamily \<Rightarrow> InputFamily \<Rightarrow> bool" where
  "same_family f g \<longleftrightarrow>
     if_name f = if_name g \<and> if_help f = if_help g \<and> if_type f = if_type g \<and>
     list_all2 same_series (if_series f) (if_series g)"

definition same_candidate :: "CandidateSnapshot \<Rightarrow> CandidateSnapshot \<Rightarrow> bool" where
  "same_candidate c d \<longleftrightarrow>
     cs_schema_version c = cs_schema_version d \<and> cs_decoded_bytes c = cs_decoded_bytes d \<and>
     list_all2 same_family (cs_families c) (cs_families d)"

lemma sort_key_mset_eq:
  assumes "mset xs = mset ys" "distinct (map k xs)"
  shows "sort_key k xs = sort_key (k :: 'a \<Rightarrow> 'b :: linorder) ys"
proof (rule sort_key_inj_key_eq)
  show "mset xs = mset (sort_key k ys)" using assms(1) by simp
  show "inj_on k (set xs)" using assms(2) by (simp add: distinct_map)
  show "sorted (map k (sort_key k ys))" by simp
qed

lemma validate_value_cong:
  assumes "is_value x = is_value y" "is_histogram x = is_histogram y"
  shows "validate_value t x ls = validate_value t y ls"
  by (simp only: validate_value_def assms)

lemma list_all2_left_cong:
  "list_all2 R xs ys \<Longrightarrow> (\<And>x y. R x y \<Longrightarrow> P x = P y) \<Longrightarrow> list_all2 P xs zs = list_all2 P ys zs"
  by (induction arbitrary: zs rule: list_all2_induct) (auto simp: list_all2_Cons1)

lemma validateSeries_same:
  assumes "same_series x y" "validateSeries t x lm = Inr r"
  shows "validateSeries t y lm = Inr r"
proof -
  let ?xs = "map to_label (is_labels x)" and ?ys = "map to_label (is_labels y)"
  note same = assms(1) [unfolded same_series_def]
  have len: "length (is_labels y) = length (is_labels x)" using same by (metis size_mset)
  have set_eq: "set (is_labels x) = set (is_labels y)" using same by (metis set_mset_mset)
  have "mset (map il_name (is_labels x)) = mset (map il_name (is_labels y))" using same by simp
  then have d: "distinct (map il_name (is_labels x)) \<longleftrightarrow> distinct (map il_name (is_labels y))"
    by (metis mset_eq_imp_distinct_iff)
  from assms(2) have ok: "go_len (is_labels x) \<le> LabelsPerSeries lm" "validate_labels lm {} (is_labels x) = Inr ?xs"
    and v: "validate_value t x (sort_key l_name ?xs) = Inr (fst r)" "r = (fst r, seriesIdentity (sort_key l_name ?xs))"
    by (auto simp: validateSeries_def and_then_Inr_iff validate_labels_Inr_iff Let_def split: if_splits)
  from ok(2) have dx: "distinct (map il_name (is_labels x))" by (simp add: validate_labels_Inr_iff)
  have "sort_key l_name ?xs = sort_key l_name ?ys"
    by (rule sort_key_mset_eq) (use same dx in \<open>simp_all add: o_def\<close>)
  moreover have "validate_labels lm {} (is_labels y) = Inr ?ys"
    using ok(2) set_eq d by (auto simp: validate_labels_Inr_iff)
  ultimately show ?thesis
    using ok(1) len v validate_value_cong [of x y t "sort_key l_name ?ys"] same
    by (auto simp: validateSeries_def Let_def)
qed

lemma same_series_sym: "same_series x y \<Longrightarrow> same_series y x"
  by (auto simp: same_series_def)

lemma validateSeries_same_iff: "same_series x y \<Longrightarrow> validateSeries t x lm = Inr r \<longleftrightarrow> validateSeries t y lm = Inr r"
  using validateSeries_same same_series_sym by metis

lemma family_accepts_same:
  assumes "same_family f g"
  shows "family_accepts lm f ss = family_accepts lm g ss"
proof -
  let ?P = "\<lambda>x s. validateSeries (if_type f) x lm = Inr (s, seriesIdentity (s_labels s))"
  have "list_all2 ?P (if_series f) ss = list_all2 ?P (if_series g) ss"
    by (rule list_all2_left_cong [of same_series]) (use assms in \<open>simp_all add: same_family_def validateSeries_same_iff\<close>)
  then show ?thesis
    using assms validateFamilyMetadata_cong [of f g lm] by (simp add: same_family_def family_accepts_def)
qed

lemma kept_families_same:
  "list_all2 same_family fs gs \<Longrightarrow> length sss = length fs \<Longrightarrow> kept_families fs sss = kept_families gs sss"
proof (induction fs gs arbitrary: sss rule: list_all2_induct)
  case (Cons f fs g gs)
  then obtain ss sss' where "sss = ss # sss'" by (cases sss) auto
  with Cons show ?case by (simp add: make_family_def same_family_def)
qed simp

lemma names_apart_same:
  assumes "list_all2 same_family fs gs"
  shows "sorted_wrt names_apart fs = sorted_wrt names_apart gs"
  using assms
  by (simp add: sorted_wrt_iff_nth_less list_all2_conv_all_nth same_family_def names_apart_def)

lemma Validate_same:
  assumes "same_candidate c d"
  shows "Validate c lm = Inr v \<longleftrightarrow> Validate d lm = Inr v"
proof -
  have same: "list_all2 same_family (cs_families c) (cs_families d)"
    using assms by (simp add: same_candidate_def)
  have "list_all2 (family_accepts lm) (cs_families c) sss = list_all2 (family_accepts lm) (cs_families d) sss" for sss
    by (rule list_all2_left_cong [OF same]) (simp add: family_accepts_same fun_eq_iff)
  moreover have "kept_families (cs_families c) sss = kept_families (cs_families d) sss"
    if "list_all2 (family_accepts lm) (cs_families c) sss" for sss
    by (rule kept_families_same [OF same]) (use that in \<open>simp add: list_all2_lengthD\<close>)
  ultimately show ?thesis
    using assms names_apart_same [OF same] unfolding Validate_Inr_iff same_candidate_def by metis
qed

section \<open>Properties\<close>

text \<open>
  The order of series. The protocol's document says that canonical form sorts the series of a family
  lexicographically by their label pairs; the code compares the identities, in which every name and
  value comes after its length. The two orders differ: with the label \<^verbatim>\<open>a\<close>, the
  value \<^verbatim>\<open>10\<close> is before \<^verbatim>\<open>9\<close>, and the accepted snapshot has it after.
\<close>

definition two_series_candidate :: CandidateSnapshot where
  "two_series_candidate = NewCandidate 1
     [\<lparr>if_name = ''queue'', if_help = [], if_type = Gauge, if_series =
         [\<lparr>is_labels = [\<lparr>il_name = ''a'', il_value = ''10''\<rparr>], is_value = ''+Inf'', is_histogram = None\<rparr>,
          \<lparr>is_labels = [\<lparr>il_name = ''a'', il_value = ''9''\<rparr>], is_value = ''+Inf'', is_histogram = None\<rparr>]\<rparr>] 100"

definition label_pairs :: "Series \<Rightarrow> (string \<times> string) list" where
  "label_pairs s = map (\<lambda>l. (l_name l, l_value l)) (s_labels s)"

lemma series_order_of_code:
  "(''10'' :: string) < ''9''"
  "(case Validate two_series_candidate DefaultLimits of
      Inl _ \<Rightarrow> []
    | Inr v \<Rightarrow> map label_pairs (concat (map f_series (v_families v)))) = [[(''a'', ''9'')], [(''a'', ''10'')]]"
  by code_simp+

text \<open>
  C3: the validation accepts exactly the well-formed candidates, and what it makes of them. It
  returns a snapshot if and only if the schema version is 1, the decoded size is within its limit,
  every family passes the metadata, name-length and series checks with distinct series identities,
  no two families share a base name or an encoded sample name, the number of series is within its
  limit and the canonical text is within its own; the snapshot then holds the families that have
  series, sorted by name, with the total count and their canonical text. The series of a family are
  in the order of their identities, which starts with the lengths of names and values: this is not
  the lexicographic order of label pairs that the protocol's document asks for (see
  \<open>series_order_of_code\<close>).
\<close>

theorem Validate_accepts_exactly:
  "Validate c lm = Inr v \<longleftrightarrow>
     cs_schema_version c = SchemaVersion \<and> cs_decoded_bytes c \<le> DecodedBytes lm \<and>
     (\<exists>sss. list_all2 (family_accepts lm) (cs_families c) sss \<and> sorted_wrt names_apart (cs_families c) \<and>
        v_families v = sort_key f_name (kept_families (cs_families c) sss) \<and>
        v_series v = series_total sss \<and> v_series v \<le> max 0 (SeriesLimit lm) \<and>
        v_canonical v = marshalCanonical (v_families v) \<and> go_len (v_canonical v) \<le> SnapshotBytes lm)"
  by (rule Validate_Inr_iff)

text \<open>
  C4: an accepted snapshot is in normal form. Families are strictly sorted by name and none is empty,
  series are strictly sorted by identity, labels by name (the identity puts lengths before names and
  values, so this is the order of the code and not the order by label pairs of the protocol's
  document); names, help texts and labels satisfy the
  patterns and limits; counters are canonical and not negative, gauges canonical, histogram bounds
  canonical and strictly increasing with cumulative counts that end in \<^verbatim>\<open>+Inf\<close> at the
  total; encoded sample names of different families are disjoint; the canonical text is that of the
  families. And validating the snapshot again gives the same snapshot.
\<close>

theorem accepted_snapshot_normal_form:
  assumes "Validate c lm = Inr v" "n \<le> DecodedBytes lm"
  shows "snapshot_ok lm v \<and> Validate (to_candidate v n) lm = Inr v"
  using Validate_sound [OF assms(1)] Validate_to_candidate [OF _ assms(2)] by blast

definition sample_candidate :: CandidateSnapshot where
  "sample_candidate = NewCandidate 1
     [\<lparr>if_name = ''queue'', if_help = [], if_type = Gauge, if_series =
         [\<lparr>is_labels = [\<lparr>il_name = ''z'', il_value = ''1''\<rparr>, \<lparr>il_name = ''a'', il_value = ''x''\<rparr>],
           is_value = ''-0.00'', is_histogram = None\<rparr>]\<rparr>,
      \<lparr>if_name = ''jobs'', if_help = ''Jobs'', if_type = Counter, if_series =
         [\<lparr>is_labels = [], is_value = ''+Inf'', is_histogram = None\<rparr>]\<rparr>] 200"

definition sample_validated :: ValidatedSnapshot where
  "sample_validated = (case Validate sample_candidate DefaultLimits of Inr v \<Rightarrow> v | Inl _ \<Rightarrow> Zero)"

lemma sample_accepted: "Validate sample_candidate DefaultLimits = Inr sample_validated"
proof -
  have "isl (Validate sample_candidate DefaultLimits) = False" by code_simp
  then show ?thesis
    by (cases "Validate sample_candidate DefaultLimits") (simp_all add: sample_validated_def)
qed

theorem accepted_snapshot_normal_form_witness:
  "snapshot_ok DefaultLimits sample_validated \<and>
   Validate (to_candidate sample_validated 300) DefaultLimits = Inr sample_validated"
  by (rule accepted_snapshot_normal_form [OF sample_accepted]) (simp add: DefaultLimits_def)

text \<open>
  Canonical numbers. When a token is accepted as a finite number, its value is a finite binary64
  number, the canonical text reads back as exactly that value, and canonicalising the canonical text
  changes nothing.
\<close>

theorem canonical_number_roundtrip:
  assumes "canonicalFinite token = Inr (c, x)"
  shows "(\<exists>neg m e. x = Fin neg m e) \<and> parse_float token = Some x \<and> parse_float c = Some x \<and>
     canonicalFinite c = Inr (c, x)"
  using canonicalFinite_idem [OF assms] assms by (auto elim!: canonicalFinite_Inr)

theorem canonical_number_roundtrip_witness:
  "(\<exists>neg m e. Fin True 0 (- 1074) = Fin neg m e) \<and> parse_float ''-0.00'' = Some (Fin True 0 (- 1074)) \<and>
   parse_float ''-0'' = Some (Fin True 0 (- 1074)) \<and> canonicalFinite ''-0'' = Inr (''-0'', Fin True 0 (- 1074))"
  by (rule canonical_number_roundtrip) code_simp

end
