(* ===== verification/Snapshot_Parser.thy ===== *)
theory Snapshot_Parser
  imports Json_Line Snapshot_Properties
begin

text \<open>
  The parser of candidate documents (\<^verbatim>\<open>internal/snapshot/parser.go\<close>): the structural scan, the
  exact shape of every object, and the hand-over to the validation.

  Every \<^verbatim>\<open>json.RawMessage\<close> is a part of the scanned document, so the tree of the scan is what
  the decoders read. The labels of a series are collected from a Go map, whose iteration order is the
  argument \<open>order\<close>.
\<close>

section \<open>Decoding\<close>

text \<open>The member of an object whose presence was checked.\<close>

definition member :: "(string \<times> json) list \<Rightarrow> string \<Rightarrow> json" where
  "member ms name = (case map_of ms name of None \<Rightarrow> JNull | Some v \<Rightarrow> v)"

definition decodeExactObject :: "json \<Rightarrow> string list \<Rightarrow> (string \<times> json) list option" where
  "decodeExactObject content required =
     (case unmarshal_object content of
        None \<Rightarrow> None
      | Some object \<Rightarrow>
          if length object \<noteq> length required then None
          else if list_ex (\<lambda>name. map_of object name = None) required then None
          else Some object)"

definition malformed :: "'a option \<Rightarrow> Reason + 'a" where
  "malformed x = (case x of None \<Rightarrow> Inl ReasonMalformed | Some v \<Rightarrow> Inr v)"

definition decodeLabels :: "(InputLabel list \<Rightarrow> InputLabel list) \<Rightarrow> json \<Rightarrow> Reason + InputLabel list" where
  "decodeLabels order content =
     and_then (malformed (unmarshal_object content)) (\<lambda>ms.
     and_then (map_result (\<lambda>(name, v). and_then (malformed (unmarshal_string v)) (\<lambda>s. Inr \<lparr>il_name = name, il_value = s\<rparr>)) ms)
       (\<lambda>labels. Inr (order labels)))"

definition decode_bucket :: "json \<Rightarrow> Reason + InputBucket" where
  "decode_bucket encoded =
     and_then (malformed (decodeExactObject encoded [''le'', ''count''])) (\<lambda>object.
     and_then (malformed (unmarshal_string (member object ''le''))) (\<lambda>le.
     and_then (malformed (unmarshal_string (member object ''count''))) (\<lambda>count.
       Inr \<lparr>ib_upper_bound = le, ib_count = count\<rparr>)))"

definition decodeHistogram :: "json \<Rightarrow> Reason + InputHistogram" where
  "decodeHistogram content =
     and_then (malformed (decodeExactObject content [''count'', ''sum'', ''buckets''])) (\<lambda>object.
     and_then (malformed (unmarshal_string (member object ''count''))) (\<lambda>count.
     and_then (malformed (unmarshal_string (member object ''sum''))) (\<lambda>sum_text.
     and_then (malformed (unmarshal_array (member object ''buckets''))) (\<lambda>encoded.
     and_then (map_result decode_bucket encoded) (\<lambda>buckets.
       Inr \<lparr>ih_count = count, ih_sum = sum_text, ih_buckets = buckets\<rparr>)))))"

definition decodeSeries :: "(InputLabel list \<Rightarrow> InputLabel list) \<Rightarrow> MetricType \<Rightarrow> json \<Rightarrow> Reason + InputSeries" where
  "decodeSeries order t content =
     and_then (malformed (decodeExactObject content (if t = Histogram then [''labels'', ''histogram''] else [''labels'', ''value''])))
       (\<lambda>object.
     and_then (decodeLabels order (member object ''labels'')) (\<lambda>labels.
       if t \<noteq> Histogram then
         and_then (malformed (unmarshal_string (member object ''value''))) (\<lambda>v.
           Inr \<lparr>is_labels = labels, is_value = v, is_histogram = None\<rparr>)
       else
         and_then (decodeHistogram (member object ''histogram'')) (\<lambda>h.
           Inr \<lparr>is_labels = labels, is_value = [], is_histogram = Some h\<rparr>)))"

definition decodeFamily :: "(InputLabel list \<Rightarrow> InputLabel list) \<Rightarrow> json \<Rightarrow> Reason + InputFamily" where
  "decodeFamily order content =
     and_then (malformed (decodeExactObject content [''name'', ''help'', ''type'', ''series''])) (\<lambda>object.
     and_then (malformed (unmarshal_string (member object ''name''))) (\<lambda>name.
     and_then (malformed (unmarshal_string (member object ''help''))) (\<lambda>help.
     and_then (malformed (unmarshal_string (member object ''type''))) (\<lambda>t.
       if t \<noteq> Counter \<and> t \<noteq> Gauge \<and> t \<noteq> Histogram then Inl ReasonPolicy
       else
         and_then (malformed (unmarshal_array (member object ''series''))) (\<lambda>encoded.
         and_then (map_result (decodeSeries order t) encoded) (\<lambda>series.
           Inr \<lparr>if_name = name, if_help = help, if_type = t, if_series = series\<rparr>))))))"

section \<open>Parse\<close>

text \<open>
  \<^verbatim>\<open>validateJSONStructure\<close> with the recursive \<^verbatim>\<open>scanJSONValue\<close> is the scan of a document; a
  duplicate member is a duplicate series when the object is a value of \<^verbatim>\<open>labels\<close>.
\<close>

definition validateJSONStructure :: "bytes \<Rightarrow> Reason + json" where
  "validateJSONStructure content =
     (case scan_document content of
        Inr tree \<Rightarrow> Inr tree
      | Inl (ScanDuplicate True) \<Rightarrow> Inl ReasonDuplicateSeries
      | Inl _ \<Rightarrow> Inl ReasonMalformed)"

definition decode_document :: "(InputLabel list \<Rightarrow> InputLabel list) \<Rightarrow> json \<Rightarrow> int \<Rightarrow> Reason + CandidateSnapshot" where
  "decode_document order tree n =
     and_then (malformed (if json_depth tree > max_depth then None
                          else decodeExactObject tree [''schema_version'', ''families''])) (\<lambda>top.
       case unmarshal_int (member top ''schema_version'') of
         None \<Rightarrow> Inl ReasonSchemaVersion
       | Some version \<Rightarrow>
           if version \<noteq> SchemaVersion then Inl ReasonSchemaVersion
           else
             and_then (malformed (unmarshal_array (member top ''families''))) (\<lambda>encoded.
             and_then (map_result (decodeFamily order) encoded) (\<lambda>families.
               Inr (NewCandidate version families n))))"

definition Parse :: "(InputLabel list \<Rightarrow> InputLabel list) \<Rightarrow> bytes \<Rightarrow> Limits \<Rightarrow> Reason + ValidatedSnapshot" where
  "Parse order content lm =
     (if content = [] then Inl ReasonEmptyPayload
      else if go_len content > DecodedBytes lm then Inl ReasonPayloadLimit
      else if \<not> utf8_valid content then Inl ReasonMalformed
      else
        and_then (validateJSONStructure content) (\<lambda>tree.
        and_then (decode_document order tree (go_len content)) (\<lambda>candidate.
          Validate candidate lm)))"

section \<open>The canonical text as a tree\<close>

definition bucket_tree :: "Bucket \<Rightarrow> json" where
  "bucket_tree b = JObj [(''le'', JStr (b_upper_bound b)), (''count'', JStr (format_uint (b_count b)))]"

definition histogram_tree :: "HistogramValue \<Rightarrow> json" where
  "histogram_tree h =
     JObj [(''count'', JStr (format_uint (hv_count h))), (''sum'', JStr (hv_sum h)),
       (''buckets'', JArr (map bucket_tree (hv_buckets h)))]"

definition series_tree :: "Series \<Rightarrow> json" where
  "series_tree s =
     JObj ((''labels'', JObj (map (\<lambda>l. (l_name l, JStr (l_value l))) (s_labels s))) #
       (case s_histogram s of None \<Rightarrow> [(''value'', JStr (s_value s))] | Some h \<Rightarrow> [(''histogram'', histogram_tree h)]))"

definition family_tree :: "Family \<Rightarrow> json" where
  "family_tree f =
     JObj [(''name'', JStr (f_name f)), (''help'', JStr (f_help f)), (''type'', JStr (f_type f)),
       (''series'', JArr (map series_tree (f_series f)))]"

definition snapshot_tree :: "Family list \<Rightarrow> json" where
  "snapshot_tree fs = JObj [(''schema_version'', JNum ''1''), (''families'', JArr (map family_tree fs))]"

lemma fold_update_labels:
  "distinct (map l_name ls) \<Longrightarrow> fst ` set m \<inter> l_name ` set ls = {} \<Longrightarrow>
     fold (\<lambda>l m. AList.update (l_name l) (l_value l) m) ls m = m @ map (\<lambda>l. (l_name l, l_value l)) ls"
proof (induction ls arbitrary: m)
  case (Cons l ls)
  have "AList.update (l_name l) (l_value l) m = m @ [(l_name l, l_value l)]"
    using Cons.prems(2) by (induction m) auto
  with Cons show ?case by auto
qed simp

lemma label_fields_sorted:
  assumes "sorted_wrt (\<lambda>l m. l_name l < l_name m) ls"
  shows "label_fields ls = map (\<lambda>l. (l_name l, json_string (l_value l))) ls"
proof -
  have d: "distinct (map l_name ls)" by (rule sorted_strict_distinct [OF assms])
  have "sorted_wrt (\<lambda>a b. fst a < fst b) (map (\<lambda>l. (l_name l, json_string (l_value l))) ls)"
    using assms by (simp add: sorted_wrt_map)
  then show ?thesis
    using fold_update_labels [OF d, of "[]"] sort_key_strict_id
    by (simp add: label_fields_def comp_def)
qed

lemma canonical_not_empty: "canonicalCounter [] \<noteq> Inr r" "canonicalPrometheusFloat [] \<noteq> Inr q"
  by (simp_all add: canonicalCounter_def canonicalPrometheusFloat_def canonicalFinite_def finitePattern_def canonical_digits_def)

lemma json_text_series:
  assumes "series_ok t lm s" "t = Counter \<or> t = Gauge \<or> t = Histogram"
  shows "json_series s = json_text (series_tree s)"
proof -
  have l: "label_fields (s_labels s) = map (\<lambda>l. (l_name l, json_string (l_value l))) (s_labels s)"
    using assms(1) by (simp add: series_ok_def label_fields_sorted)
  have v: "value_ok t s" using assms(1) by (simp add: series_ok_def)
  show ?thesis
  proof (cases "s_histogram s")
    case None
    then have "s_value s \<noteq> []" using v assms(2) by (auto simp: value_ok_def canonicalGauge_def canonical_not_empty)
    with None l show ?thesis by (simp add: json_series_def series_tree_def comp_def)
  next
    case (Some h)
    then have "s_value s = []" using v by (auto simp: value_ok_def split: if_splits)
    moreover have "json_bucket = (\<lambda>b. json_text (bucket_tree b))" by (simp add: fun_eq_iff json_bucket_def bucket_tree_def)
    ultimately show ?thesis
      using Some l by (simp add: json_series_def series_tree_def json_histogram_def histogram_tree_def comp_def)
  qed
qed

lemma family_ok_type: "family_ok lm f \<Longrightarrow> f_type f = Counter \<or> f_type f = Gauge \<or> f_type f = Histogram"
  by (auto simp: family_ok_def validateFamilyMetadata_def split: if_splits)

lemma json_text_family:
  assumes "family_ok lm f"
  shows "json_family f = json_text (family_tree f)"
proof -
  have m: "map json_series (f_series f) = map (\<lambda>s. json_text (series_tree s)) (f_series f)"
    using assms json_text_series [OF _ family_ok_type [OF assms]] by (auto simp: family_ok_def)
  show ?thesis by (simp add: json_family_def family_tree_def comp_def m)
qed

lemma marshal_tree:
  assumes "\<forall>f\<in>set fs. family_ok lm f"
  shows "marshalCanonical fs = json_text (snapshot_tree fs) @ [newline]"
proof -
  have m: "map json_family fs = map (\<lambda>f. json_text (family_tree f)) fs" using assms json_text_family by auto
  have "itoa (nat SchemaVersion) = ''1''" by code_simp
  then show ?thesis by (simp add: marshalCanonical_def snapshot_tree_def comp_def m)
qed

section \<open>The tree is proper\<close>

lemma numeral_utf8: "list_all numeral_char s \<Longrightarrow> utf8_valid s"
proof -
  assume a: "list_all numeral_char s"
  have "numeral_char c \<Longrightarrow> is_ascii c" for c by (auto simp: numeral_char_def is_ascii_def is_digit_def)
  with a have "list_all is_ascii s" by (auto simp: list_all_iff)
  then show ?thesis by (rule utf8_valid_ascii)
qed

lemma format_uint_utf8: "utf8_valid (format_uint w)"
  by (simp add: format_uint_def numeral_utf8 itoa_numeral)

lemma literal_utf8:
  "utf8_valid ''labels''" "utf8_valid ''value''" "utf8_valid ''histogram''" "utf8_valid ''count''" "utf8_valid ''sum''"
  "utf8_valid ''buckets''" "utf8_valid ''le''" "utf8_valid ''name''" "utf8_valid ''help''" "utf8_valid ''type''" "utf8_valid ''series''"
  "utf8_valid ''schema_version''" "utf8_valid ''families''" "utf8_valid Counter" "utf8_valid Gauge" "utf8_valid Histogram"
  by (rule utf8_valid_ascii, simp add: is_ascii_def Counter_def Gauge_def Histogram_def)+

declare utf8_valid.simps(2) [simp del]

lemma bucket_tree_ok: "canonical_bound (b_upper_bound b) \<Longrightarrow> json_ok (bucket_tree b)"
  using canonical_numeral(3) [THEN numeral_utf8] by (auto simp: bucket_tree_def canonical_bound_def literal_utf8 format_uint_utf8)

lemma histogram_tree_ok:
  assumes "histogram_ok h"
  shows "json_ok (histogram_tree h)"
proof -
  have "utf8_valid (hv_sum h)" using assms canonical_numeral(2) [THEN numeral_utf8] by (auto simp: histogram_ok_def)
  moreover have "\<forall>b\<in>set (hv_buckets h). json_ok (bucket_tree b)"
    using assms bucket_tree_ok by (auto simp: histogram_ok_def buckets_ok_def)
  ultimately show ?thesis by (simp add: histogram_tree_def literal_utf8 format_uint_utf8)
qed

lemma series_tree_ok:
  assumes "series_ok t lm s" "t = Counter \<or> t = Gauge \<or> t = Histogram"
  shows "json_ok (series_tree s)"
proof -
  have d: "distinct (map l_name (s_labels s))" by (rule sorted_strict_distinct) (use assms(1) in \<open>simp add: series_ok_def\<close>)
  have l: "json_ok (JObj (map (\<lambda>l. (l_name l, JStr (l_value l))) (s_labels s)))"
    using assms(1) d by (auto simp: series_ok_def label_ok_def comp_def)
  have v: "value_ok t s" using assms(1) by (simp add: series_ok_def)
  show ?thesis
  proof (cases "s_histogram s")
    case None
    then have "utf8_valid (s_value s)"
      using v assms(2) canonical_numeral(1,2) [THEN numeral_utf8] by (auto simp: value_ok_def canonicalGauge_def)
    with None l show ?thesis by (simp add: series_tree_def literal_utf8)
  next
    case (Some h)
    then have "histogram_ok h" using v by (auto simp: value_ok_def split: if_splits)
    with Some l histogram_tree_ok show ?thesis by (simp add: series_tree_def literal_utf8)
  qed
qed

lemma family_tree_ok:
  assumes "family_ok lm f"
  shows "json_ok (family_tree f)"
proof -
  have "utf8_valid (f_name f)" "utf8_valid (f_help f)"
    using assms by (auto simp: family_ok_def validateFamilyMetadata_def split: if_splits)
  moreover have "utf8_valid (f_type f)" using family_ok_type [OF assms] literal_utf8 by auto
  moreover have "\<forall>s\<in>set (f_series f). json_ok (series_tree s)"
    using assms series_tree_ok [OF _ family_ok_type [OF assms]] by (auto simp: family_ok_def)
  ultimately show ?thesis by (simp add: family_tree_def literal_utf8)
qed

lemma snapshot_tree_ok: "\<forall>f\<in>set fs. family_ok lm f \<Longrightarrow> json_ok (snapshot_tree fs)"
  using family_tree_ok
  by (auto simp: snapshot_tree_def literal_utf8 finitePattern_def canonical_digits_def fraction_pattern_def number_char_def is_digit_def)

text \<open>Its depth is at most eight.\<close>

lemma histogram_depth: "json_depth (histogram_tree h) \<le> 3"
proof -
  have "fold max (map (json_depth \<circ> bucket_tree) bs) 0 \<le> 1" for bs by (rule fold_max_le) (auto simp: bucket_tree_def)
  then show ?thesis by (simp add: histogram_tree_def)
qed

lemma series_depth: "json_depth (series_tree s) \<le> 4"
proof -
  have "fold max (map (\<lambda>l. 0) (s_labels s)) 0 \<le> (0 :: nat)" by (rule fold_max_le) auto
  then show ?thesis
    using histogram_depth [of "the (s_histogram s)"] by (cases "s_histogram s") (auto simp: series_tree_def comp_def)
qed

lemma snapshot_depth: "json_depth (snapshot_tree fs) \<le> 8"
proof -
  have s: "fold max (map (json_depth \<circ> series_tree) ss) 0 \<le> 4" for ss by (rule fold_max_le) (auto simp: series_depth)
  have "json_depth (family_tree f) \<le> 6" for f using s [of "f_series f"] by (simp add: family_tree_def)
  then have "fold max (map (json_depth \<circ> family_tree) fs) 0 \<le> 6" by (intro fold_max_le) auto
  then show ?thesis by (simp add: snapshot_tree_def)
qed

section \<open>Decoding the tree\<close>

lemma member_simps [simp]: "member ((k, v) # ms) name = (if name = k then v else member ms name)"
  by (simp add: member_def)

lemma unmarshal_simps [simp]:
  "unmarshal_string (JStr s) = Some s" "unmarshal_array (JArr xs) = Some xs" "unmarshal_object (JObj ms) = Some ms"
  "malformed (Some v) = Inr v" "malformed None = Inl ReasonMalformed"
  by (simp_all add: unmarshal_string_def unmarshal_array_def unmarshal_object_def malformed_def)

definition permutes_labels :: "(InputLabel list \<Rightarrow> InputLabel list) \<Rightarrow> bool" where
  "permutes_labels order \<longleftrightarrow> (\<forall>ls. mset (order ls) = mset ls)"

lemma decodeLabels_tree:
  "decodeLabels order (JObj (map (\<lambda>l. (l_name l, JStr (l_value l))) ls)) = Inr (order (map of_label ls))"
proof -
  let ?f = "\<lambda>(name, v). and_then (malformed (unmarshal_string v)) (\<lambda>s. Inr \<lparr>il_name = name, il_value = s\<rparr>)"
  have "map_result ?f (map (\<lambda>l. (l_name l, JStr (l_value l))) ls) = Inr (map of_label ls)"
    by (induction ls) (simp_all add: of_label_def)
  then show ?thesis by (simp add: decodeLabels_def)
qed

lemma decode_bucket_tree: "decode_bucket (bucket_tree b) = Inr (of_bucket b)"
  by (simp add: decode_bucket_def bucket_tree_def decodeExactObject_def of_bucket_def)

lemma decodeHistogram_tree: "decodeHistogram (histogram_tree h) = Inr (of_histogram h)"
proof -
  have "map_result decode_bucket (map bucket_tree bs) = Inr (map of_bucket bs)" for bs
    by (induction bs) (simp_all add: decode_bucket_tree)
  then show ?thesis by (simp add: decodeHistogram_def histogram_tree_def decodeExactObject_def of_histogram_def)
qed

definition shuffled :: "(InputLabel list \<Rightarrow> InputLabel list) \<Rightarrow> Series \<Rightarrow> InputSeries" where
  "shuffled order s = (of_series s)\<lparr>is_labels := order (map of_label (s_labels s))\<rparr>"

lemma decodeSeries_tree:
  assumes "value_ok t s" "t = Counter \<or> t = Gauge \<or> t = Histogram"
  shows "decodeSeries order t (series_tree s) = Inr (shuffled order s)"
proof (cases "t = Histogram")
  case True
  then obtain h where h: "s_histogram s = Some h" "s_value s = []" using assms(1) by (auto simp: value_ok_def)
  with True show ?thesis
    by (simp add: decodeSeries_def series_tree_def decodeExactObject_def decodeLabels_tree decodeHistogram_tree shuffled_def of_series_def)
next
  case False
  then have "s_histogram s = None" using assms by (auto simp: value_ok_def)
  with False show ?thesis
    by (simp add: decodeSeries_def series_tree_def decodeExactObject_def decodeLabels_tree shuffled_def of_series_def)
qed

lemma decodeFamily_tree:
  assumes "family_ok lm f"
  shows "decodeFamily order (family_tree f) = Inr ((of_family f)\<lparr>if_series := map (shuffled order) (f_series f)\<rparr>)"
proof -
  note t = family_ok_type [OF assms]
  have "\<forall>s\<in>set (f_series f). decodeSeries order (f_type f) (series_tree s) = Inr (shuffled order s)"
    using assms decodeSeries_tree [OF _ t] by (auto simp: family_ok_def series_ok_def)
  then have "map_result (decodeSeries order (f_type f)) (map series_tree (f_series f)) = Inr (map (shuffled order) (f_series f))"
    by (induction "f_series f" arbitrary: f) (auto simp: map_result_Inr_iff list_all2_map1 list_all2_map2 list_all2_same)
  with t show ?thesis by (auto simp: decodeFamily_def family_tree_def decodeExactObject_def of_family_def)
qed

lemma decode_snapshot_tree:
  assumes "\<forall>f\<in>set fs. family_ok lm f"
  shows "decode_document order (snapshot_tree fs) n =
    Inr (NewCandidate 1 (map (\<lambda>f. (of_family f)\<lparr>if_series := map (shuffled order) (f_series f)\<rparr>) fs) n)"
proof -
  have "\<not> json_depth (snapshot_tree fs) > max_depth" using snapshot_depth [of fs] by (simp add: max_depth_def)
  moreover have "map_result (decodeFamily order) (map family_tree fs) =
      Inr (map (\<lambda>f. (of_family f)\<lparr>if_series := map (shuffled order) (f_series f)\<rparr>) fs)"
    using assms decodeFamily_tree by (auto simp: map_result_Inr_iff list_all2_map1 list_all2_map2 list_all2_same)
  moreover have "unmarshal_int (JNum ''1'') = Some 1"
    by (simp add: unmarshal_int_def has_prefix_def is_digit_def digits_val_def digit_val_def)
  ultimately show ?thesis
    by (simp add: decode_document_def snapshot_tree_def decodeExactObject_def SchemaVersion_def del: json_depth.simps)
qed

section \<open>Order of labels\<close>

text \<open>
  One computation follows another when, whenever the first returns a value, the second returns a
  related one.
\<close>

definition follows :: "('a \<Rightarrow> 'b \<Rightarrow> bool) \<Rightarrow> 'e + 'a \<Rightarrow> 'e + 'b \<Rightarrow> bool" where
  "follows R a b \<longleftrightarrow> (\<forall>x. a = Inr x \<longrightarrow> (\<exists>y. b = Inr y \<and> R x y))"

lemma follows_ends: "follows R (Inl e) b" "follows R (Inr x) (Inr y) \<longleftrightarrow> R x y"
  by (simp_all add: follows_def)

lemma follows_bind:
  "(\<And>x. m = Inr x \<Longrightarrow> follows R (f x) (g x)) \<Longrightarrow> follows R (and_then m f) (and_then m g)"
  by (auto simp: follows_def and_then_Inr_iff)

lemma follows_bind_related:
  "follows Q a b \<Longrightarrow> (\<And>x y. Q x y \<Longrightarrow> follows R (f x) (g y)) \<Longrightarrow> follows R (and_then a f) (and_then b g)"
  by (fastforce simp: follows_def and_then_Inr_iff)

lemma follows_map_result:
  assumes "\<And>j. follows R (f j) (g j)"
  shows "follows (list_all2 R) (map_result f js) (map_result g js)"
proof (induction js)
  case (Cons j js)
  then show ?case
    by (auto intro!: follows_bind_related [OF assms] follows_bind_related [OF Cons] simp: follows_ends)
qed (simp add: follows_ends)

lemma decodeLabels_follows:
  assumes "permutes_labels o1" "permutes_labels o2"
  shows "follows (\<lambda>ls ms. mset ls = mset ms) (decodeLabels o1 j) (decodeLabels o2 j)"
  unfolding decodeLabels_def using assms by (intro follows_bind) (simp add: follows_ends permutes_labels_def)

lemma decodeSeries_follows:
  assumes "permutes_labels o1" "permutes_labels o2"
  shows "follows same_series (decodeSeries o1 t j) (decodeSeries o2 t j)"
  unfolding decodeSeries_def
proof (intro follows_bind follows_bind_related [OF decodeLabels_follows [OF assms]])
  fix object ls ms
  assume "mset ls = (mset ms :: InputLabel multiset)"
  then show "follows same_series
      (if t \<noteq> Histogram
       then and_then (malformed (unmarshal_string (member object ''value''))) (\<lambda>v. Inr \<lparr>is_labels = ls, is_value = v, is_histogram = None\<rparr>)
       else and_then (decodeHistogram (member object ''histogram'')) (\<lambda>h. Inr \<lparr>is_labels = ls, is_value = [], is_histogram = Some h\<rparr>))
      (if t \<noteq> Histogram
       then and_then (malformed (unmarshal_string (member object ''value''))) (\<lambda>v. Inr \<lparr>is_labels = ms, is_value = v, is_histogram = None\<rparr>)
       else and_then (decodeHistogram (member object ''histogram'')) (\<lambda>h. Inr \<lparr>is_labels = ms, is_value = [], is_histogram = Some h\<rparr>))"
    by (auto intro!: follows_bind simp: follows_ends same_series_def)
qed

lemma decodeFamily_follows:
  assumes "permutes_labels o1" "permutes_labels o2"
  shows "follows same_family (decodeFamily o1 j) (decodeFamily o2 j)"
  unfolding decodeFamily_def
  by (auto intro!: follows_bind follows_bind_related [OF follows_map_result [OF decodeSeries_follows [OF assms]]]
      simp: follows_ends same_family_def)

lemma decode_document_follows:
  assumes "permutes_labels o1" "permutes_labels o2"
  shows "follows same_candidate (decode_document o1 j n) (decode_document o2 j n)"
  unfolding decode_document_def
  by (auto intro!: follows_bind follows_bind_related [OF follows_map_result [OF decodeFamily_follows [OF assms]]]
      simp: follows_ends same_candidate_def NewCandidate_def split: option.split)

lemma Parse_follows:
  assumes "permutes_labels o1" "permutes_labels o2" "Parse o1 content lm = Inr v"
  shows "Parse o2 content lm = Inr v"
proof -
  have "follows (=) (Parse o1 content lm) (Parse o2 content lm)"
    unfolding Parse_def
    by (auto intro!: follows_bind follows_bind_related [OF decode_document_follows [OF assms(1,2)]] simp: follows_ends)
      (simp add: follows_def Validate_same)
  with assms(3) show ?thesis by (simp add: follows_def)
qed

section \<open>Reading the canonical text\<close>

lemma shuffled_same: "permutes_labels order \<Longrightarrow> same_series (shuffled order s) (of_series s)"
  by (simp add: shuffled_def same_series_def permutes_labels_def of_series_def)

lemma shuffled_candidate:
  assumes "permutes_labels order"
  shows "same_candidate
    (NewCandidate 1 (map (\<lambda>f. (of_family f)\<lparr>if_series := map (shuffled order) (f_series f)\<rparr>) (v_families v)) n)
    (to_candidate v n)"
  by (auto simp: same_candidate_def to_candidate_def NewCandidate_def SchemaVersion_def list_all2_map1 list_all2_map2
      list_all2_same same_family_def of_family_def shuffled_same [OF assms])

lemma marshal_read:
  assumes "snapshot_ok lm v" "permutes_labels order" "go_len (v_canonical v) \<le> DecodedBytes lm"
  shows "Parse order (v_canonical v) lm = Inr v"
proof -
  have fam: "\<forall>f\<in>set (v_families v). family_ok lm f" using assms(1) by (simp add: snapshot_ok_def)
  note ok = snapshot_tree_ok [OF fam]
  have c: "v_canonical v = json_text (snapshot_tree (v_families v)) @ [newline]"
    using assms(1) marshal_tree [OF fam] by (simp add: snapshot_ok_def)
  have "utf8_valid (v_canonical v)"
    using json_text_valid [OF ok] by (simp add: c utf8_valid_append utf8_ascii_Cons is_ascii_def)
  moreover have "validateJSONStructure (v_canonical v) = Inr (snapshot_tree (v_families v))"
    by (simp add: c validateJSONStructure_def scan_document_text [OF ok])
  moreover have "Validate (NewCandidate 1 (map (\<lambda>f. (of_family f)\<lparr>if_series := map (shuffled order) (f_series f)\<rparr>) (v_families v)) n) lm = Inr v"
    if "n \<le> DecodedBytes lm" for n
    using Validate_same [OF shuffled_candidate [OF assms(2)]] Validate_to_candidate [OF assms(1) that] by blast
  ultimately show ?thesis
    using assms(3) by (simp add: Parse_def decode_snapshot_tree [OF fam]) (simp add: c)
qed

text \<open>
  C5: the canonical text of an accepted snapshot is a document the parser reads back to the same
  snapshot, as long as it fits the limit of decoded bytes, whatever order the decoder visits the
  labels in; and for any document the order does not matter: when it is accepted with one order it
  is accepted with every other, with the same snapshot.
\<close>

theorem parse_canonical:
  assumes "Validate c lm = Inr v" "go_len (v_canonical v) \<le> DecodedBytes lm" "permutes_labels o1" "permutes_labels o2"
  shows "Parse o1 (v_canonical v) lm = Inr v \<and> (\<forall>content w. Parse o1 content lm = Inr w \<longleftrightarrow> Parse o2 content lm = Inr w)"
  using marshal_read [OF Validate_sound [OF assms(1)] assms(3,2)]
    Parse_follows [OF assms(3,4)] Parse_follows [OF assms(4,3)] by blast

theorem parse_canonical_witness:
  "Parse id (v_canonical sample_validated) DefaultLimits = Inr sample_validated \<and>
   (\<forall>content w. Parse id content DefaultLimits = Inr w \<longleftrightarrow> Parse rev content DefaultLimits = Inr w)"
proof (rule parse_canonical [OF sample_accepted])
  show "go_len (v_canonical sample_validated) \<le> DecodedBytes DefaultLimits" by code_simp
qed (simp_all add: permutes_labels_def)

end
