(* ===== verification/Snapshot_Holder.thy ===== *)
theory Snapshot_Holder
  imports Snapshot_Facts
begin

text \<open>
  The holder of the last valid snapshot (\<^verbatim>\<open>internal/snapshot/holder.go\<close> and
  \<^verbatim>\<open>zero.go\<close>). Installation and freezing run under one mutex and are atomic functions on
  the holder's record; the bindings remember the type every metric name was first installed with,
  for as long as the process lives.

  \<open>snapshot_store\<close> is the contract its clients rely on: a sequence of installations and
  freezes keeps exactly the snapshots that were accepted, numbered one by one, and nothing changes
  after the first freeze.
\<close>

section \<open>Model\<close>

record Holder =
  h_active :: ActiveSnapshot
  h_bindings :: "string \<rightharpoonup> MetricType"
  h_frozen :: bool

definition bind_families :: "Family list \<Rightarrow> (string \<rightharpoonup> MetricType) \<Rightarrow> (string \<rightharpoonup> MetricType)" where
  "bind_families fs b = fold (\<lambda>f m. m(f_name f \<mapsto> f_type f)) fs b"

definition NewHolder :: "ValidatedSnapshot \<Rightarrow> Holder" where
  "NewHolder initial =
     \<lparr>h_active = NewActive initial 0, h_bindings = bind_families (v_families initial) Map.empty, h_frozen = False\<rparr>"

definition NewInitialHolder :: Holder where
  "NewInitialHolder = NewHolder Zero"

definition Active :: "Holder \<Rightarrow> ActiveSnapshot" where
  "Active h = NewActive (a_validated (h_active h)) (a_generation (h_active h))"

definition binding_conflict :: "(string \<rightharpoonup> MetricType) \<Rightarrow> Family \<Rightarrow> bool" where
  "binding_conflict b f = (case b (f_name f) of None \<Rightarrow> False | Some bound \<Rightarrow> bound \<noteq> f_type f)"

definition Install :: "Holder \<Rightarrow> ValidatedSnapshot \<Rightarrow> Holder \<times> ActiveSnapshot \<times> Reason option" where
  "Install h validated =
     (let current = h_active h in
      if h_frozen h then (h, NewActive (a_validated current) (a_generation current), Some ReasonFrozen)
      else if list_ex (binding_conflict (h_bindings h)) (v_families validated)
        then (h, NewActive (a_validated current) (a_generation current), Some ReasonTypeConflict)
      else if a_generation current = max_uint64
        then (h, NewActive (a_validated current) (a_generation current), Some ReasonInternal)
      else
        let next = NewActive validated (a_generation current + 1)
        in (h\<lparr>h_active := next, h_bindings := bind_families (v_families validated) (h_bindings h)\<rparr>,
            NewActive (a_validated next) (a_generation next), None))"

definition Freeze :: "Holder \<Rightarrow> Holder \<times> ActiveSnapshot" where
  "Freeze h = (h\<lparr>h_frozen := True\<rparr>, NewActive (a_validated (h_active h)) (a_generation (h_active h)))"

definition Frozen :: "Holder \<Rightarrow> bool" where
  "Frozen h = h_frozen h"

lemma NewActive_id [simp]: "NewActive (a_validated a) (a_generation a) = a"
  by (simp add: NewActive_def)

lemma NewActive_same [simp]: "a_generation a = g \<Longrightarrow> NewActive (a_validated a) g = a"
  by (auto simp: NewActive_def)

lemma Active_h_active [simp]: "Active h = h_active h"
  by (simp add: Active_def)

section \<open>The contract of a snapshot store\<close>

datatype store_op = Op_Install ValidatedSnapshot | Op_Freeze

text \<open>
  A run of a store: the final store and, for every installation, the snapshot it accepted, if it
  did.
\<close>

fun run_store ::
  "('h \<Rightarrow> ValidatedSnapshot \<Rightarrow> 'h \<times> ActiveSnapshot \<times> Reason option) \<Rightarrow> ('h \<Rightarrow> 'h \<times> ActiveSnapshot) \<Rightarrow>
     'h \<Rightarrow> store_op list \<Rightarrow> 'h \<times> ActiveSnapshot list" where
  "run_store install freeze h [] = (h, [])"
| "run_store install freeze h (Op_Freeze # ops) = run_store install freeze (fst (freeze h)) ops"
| "run_store install freeze h (Op_Install v # ops) =
     (case install h v of
        (h', a, None) \<Rightarrow> (case run_store install freeze h' ops of (h'', as) \<Rightarrow> (h'', a # as))
      | (h', a, Some _) \<Rightarrow> run_store install freeze h' ops)"

locale snapshot_store =
  fixes install :: "'h \<Rightarrow> ValidatedSnapshot \<Rightarrow> 'h \<times> ActiveSnapshot \<times> Reason option"
    and freeze :: "'h \<Rightarrow> 'h \<times> ActiveSnapshot"
    and active :: "'h \<Rightarrow> ActiveSnapshot"
    and is_frozen :: "'h \<Rightarrow> bool"
  assumes install_accepted: "install h v = (h', a, None) \<Longrightarrow>
      \<not> is_frozen h \<and> \<not> is_frozen h' \<and> active h' = a \<and> a_validated a = v \<and>
      unat (a_generation a) = Suc (unat (a_generation (active h)))"
    and install_rejected: "install h v = (h', a, Some r) \<Longrightarrow> h' = h \<and> a = active h"
    and freeze_keeps: "freeze h = (h', a) \<Longrightarrow> is_frozen h' \<and> active h' = active h \<and> a = active h"
begin

lemma frozen_install: "is_frozen h \<Longrightarrow> \<exists>r. install h v = (h, active h, Some r)"
  using install_accepted install_rejected by (metis not_Some_eq prod_cases3)

lemma frozen_run: "is_frozen h \<Longrightarrow> run_store install freeze h ops = (h', as) \<Longrightarrow> active h' = active h \<and> as = [] \<and> is_frozen h'"
proof (induction ops arbitrary: h)
  case (Cons op ops)
  show ?case
  proof (cases op)
    case (Op_Install v)
    from frozen_install [OF Cons.prems(1)] obtain r where "install h v = (h, active h, Some r)" by blast
    with Cons Op_Install show ?thesis by simp
  next
    case Op_Freeze
    obtain h1 a where f: "freeze h = (h1, a)" by fastforce
    with Cons.prems(2) Op_Freeze have "run_store install freeze h1 ops = (h', as)" by simp
    with Cons.IH [of h1] freeze_keeps [OF f] show ?thesis by simp
  qed
qed simp

text \<open>The accepted snapshots carry consecutive generations, and the last one is active.\<close>

lemma run_generations:
  "run_store install freeze h ops = (h', as) \<Longrightarrow>
     map (\<lambda>a. unat (a_generation a)) as =
       [Suc (unat (a_generation (active h))) ..< Suc (unat (a_generation (active h)) + length as)] \<and>
     active h' = last (active h # as)"
proof (induction ops arbitrary: h as)
  case (Cons op ops)
  show ?case
  proof (cases op)
    case (Op_Install v)
    obtain h1 a res where i: "install h v = (h1, a, res)" by (rule prod_cases3)
    show ?thesis
    proof (cases res)
      case None
      obtain as' where r: "run_store install freeze h1 ops = (h', as')" "as = a # as'"
        using Cons.prems Op_Install i None by (auto split: prod.splits)
      note a = install_accepted [OF i [unfolded None]]
      have "[Suc k ..< Suc (k + Suc n)] = Suc k # [Suc (Suc k) ..< Suc (Suc k + n)]" for k n
        by (simp add: upt_conv_Cons del: upt_Suc)
      with Cons.IH [OF r(1)] a show ?thesis unfolding r(2) by (simp del: upt_Suc)
    next
      case (Some r)
      with Cons install_rejected [OF i [unfolded Some]] Op_Install i show ?thesis by simp
    qed
  next
    case Op_Freeze
    obtain h1 a where f: "freeze h = (h1, a)" by fastforce
    with Cons.prems Op_Freeze have "run_store install freeze h1 ops = (h', as)" by simp
    with Cons.IH [OF this] freeze_keeps [OF f] show ?thesis by simp
  qed
qed simp

end

section \<open>The holder keeps the contract\<close>

lemma Install_cases:
  obtains (frozen) "h_frozen h" "Install h v = (h, h_active h, Some ReasonFrozen)"
  | (conflict) "\<not> h_frozen h" "list_ex (binding_conflict (h_bindings h)) (v_families v)"
      "Install h v = (h, h_active h, Some ReasonTypeConflict)"
  | (exhausted) "\<not> h_frozen h" "\<not> list_ex (binding_conflict (h_bindings h)) (v_families v)"
      "a_generation (h_active h) = max_uint64" "Install h v = (h, h_active h, Some ReasonInternal)"
  | (accepted) "\<not> h_frozen h" "\<not> list_ex (binding_conflict (h_bindings h)) (v_families v)"
      "a_generation (h_active h) \<noteq> max_uint64"
      "Install h v = (h\<lparr>h_active := NewActive v (a_generation (h_active h) + 1),
         h_bindings := bind_families (v_families v) (h_bindings h)\<rparr>,
         NewActive v (a_generation (h_active h) + 1), None)"
  by (cases "h_frozen h"; cases "list_ex (binding_conflict (h_bindings h)) (v_families v)";
      cases "a_generation (h_active h) = max_uint64") (simp_all add: Install_def Let_def)

interpretation holder: snapshot_store Install Freeze Active Frozen
proof
  fix h v h' a
  assume "Install h v = (h', a, None)"
  then show "\<not> Frozen h \<and> \<not> Frozen h' \<and> Active h' = a \<and> a_validated a = v \<and>
      unat (a_generation a) = Suc (unat (a_generation (Active h)))"
    by (cases rule: Install_cases [of h v]) (auto simp: Frozen_def NewActive_def unat_inc)
next
  fix h v h' a r
  assume "Install h v = (h', a, Some r)"
  then show "h' = h \<and> a = Active h" by (cases rule: Install_cases [of h v]) auto
next
  fix h h' a
  assume "Freeze h = (h', a)"
  then show "Frozen h' \<and> Active h' = Active h \<and> a = Active h"
    by (auto simp: Freeze_def Frozen_def)
qed

section \<open>Bindings\<close>

text \<open>Every family of the active snapshot is bound with its type, and a binding never changes.\<close>

definition holder_inv :: "Holder \<Rightarrow> bool" where
  "holder_inv h \<longleftrightarrow> (\<forall>f\<in>set (v_families (a_validated (h_active h))). h_bindings h (f_name f) = Some (f_type f))"

lemma bind_families_spec:
  "distinct (map f_name fs) \<Longrightarrow>
     bind_families fs b n = (case map_of (map (\<lambda>f. (f_name f, f_type f)) fs) n of None \<Rightarrow> b n | Some t \<Rightarrow> Some t)"
proof (induction fs arbitrary: b)
  case (Cons f fs)
  have "map_of (map (\<lambda>f. (f_name f, f_type f)) fs) (f_name f) = None"
    using Cons.prems by (auto simp: map_of_eq_None_iff image_iff)
  with Cons show ?case
    by (cases "n = f_name f") (auto simp: bind_families_def split: option.splits)
qed (simp add: bind_families_def)

lemma bind_families_mem:
  "distinct (map f_name fs) \<Longrightarrow> f \<in> set fs \<Longrightarrow> bind_families fs b (f_name f) = Some (f_type f)"
proof -
  assume d: "distinct (map f_name fs)" "f \<in> set fs"
  then have "map_of (map (\<lambda>f. (f_name f, f_type f)) fs) (f_name f) = Some (f_type f)"
    by (intro map_of_is_SomeI) (auto simp: o_def)
  with d show ?thesis by (simp add: bind_families_spec)
qed

lemma bind_families_keeps:
  "distinct (map f_name fs) \<Longrightarrow> \<not> list_ex (binding_conflict b) fs \<Longrightarrow> b n = Some t \<Longrightarrow> bind_families fs b n = Some t"
  by (auto simp: bind_families_spec binding_conflict_def list_ex_iff split: option.splits dest!: map_of_SomeD)

lemma Install_inv:
  assumes "holder_inv h" "distinct (map f_name (v_families v))"
  shows "holder_inv (fst (Install h v)) \<and> h_bindings h \<subseteq>\<^sub>m h_bindings (fst (Install h v))"
  by (cases rule: Install_cases [of h v])
     (use assms in \<open>auto simp: holder_inv_def NewActive_def bind_families_mem bind_families_keeps map_le_def\<close>)

definition bound_in :: "(string \<rightharpoonup> MetricType) \<Rightarrow> ActiveSnapshot \<Rightarrow> bool" where
  "bound_in b a \<longleftrightarrow> (\<forall>f\<in>set (v_families (a_validated a)). b (f_name f) = Some (f_type f))"

lemma bound_in_mono: "bound_in b a \<Longrightarrow> b \<subseteq>\<^sub>m c \<Longrightarrow> bound_in c a"
  unfolding bound_in_def map_le_def by (metis domI)

lemma run_store_bindings:
  "holder_inv h \<Longrightarrow> list_all (\<lambda>op. case op of Op_Install v \<Rightarrow> distinct (map f_name (v_families v)) | Op_Freeze \<Rightarrow> True) ops \<Longrightarrow>
     run_store Install Freeze h ops = (h', as) \<Longrightarrow>
     h_bindings h \<subseteq>\<^sub>m h_bindings h' \<and> (\<forall>a\<in>set (h_active h # as). bound_in (h_bindings h') a)"
proof (induction ops arbitrary: h as)
  case Nil
  then show ?case by (simp add: holder_inv_def bound_in_def)
next
  case (Cons op ops)
  show ?case
  proof (cases op)
    case (Op_Install v)
    obtain h1 a res where i: "Install h v = (h1, a, res)" by (rule prod_cases3)
    have h1: "holder_inv h1" "h_bindings h \<subseteq>\<^sub>m h_bindings h1"
      using Install_inv [of h v] Cons.prems Op_Install i by simp_all
    obtain as' where r: "run_store Install Freeze h1 ops = (h', as')"
      "as = (if res = None then a # as' else as')"
      using Cons.prems Op_Install i by (cases res) (auto split: prod.splits)
    note ih = Cons.IH [OF h1(1) _ r(1)]
    have "bound_in (h_bindings h) (h_active h)" using Cons.prems(1) by (simp add: holder_inv_def bound_in_def)
    moreover have "res = None \<Longrightarrow> h_active h1 = a" using holder.install_accepted [of h v h1 a] i by simp
    moreover from ih Cons.prems(2) have hb: "h_bindings h1 \<subseteq>\<^sub>m h_bindings h'"
      "\<forall>a\<in>set (h_active h1 # as'). bound_in (h_bindings h') a" by simp_all
    moreover have "h_bindings h \<subseteq>\<^sub>m h_bindings h'" by (rule map_le_trans [OF h1(2) hb(1)])
    ultimately show ?thesis
      using r(2) bound_in_mono [of "h_bindings h" "h_active h" "h_bindings h'"] by (cases res) auto
  next
    case Op_Freeze
    have f: "holder_inv (fst (Freeze h))" "h_bindings (fst (Freeze h)) = h_bindings h" "h_active (fst (Freeze h)) = h_active h"
      using Cons.prems(1) by (simp_all add: Freeze_def holder_inv_def)
    with Cons.IH [OF f(1), of as] Cons.prems Op_Freeze show ?thesis by simp
  qed
qed

section \<open>Properties\<close>

text \<open>
  C6: whatever sequence of installations and freezes a holder sees, the snapshots it accepts get
  consecutive generations starting one above the generation it began with, readers see the last one
  accepted, and once it is frozen nothing is accepted any more and the active snapshot stays.
\<close>

theorem holder_generations:
  "(case run_store Install Freeze h ops of (h', as) \<Rightarrow>
      map (\<lambda>a. unat (a_generation a)) as =
        [Suc (unat (a_generation (Active h))) ..< Suc (unat (a_generation (Active h)) + length as)] \<and>
      Active h' = last (Active h # as)) \<and>
   (case run_store Install Freeze (fst (Freeze h)) ops of (h', as) \<Rightarrow> Active h' = Active h \<and> as = [])"
proof -
  obtain h1 as where r: "run_store Install Freeze h ops = (h1, as)" by fastforce
  obtain h2 bs where r2: "run_store Install Freeze (fst (Freeze h)) ops = (h2, bs)" by fastforce
  have "Frozen (fst (Freeze h))" "Active (fst (Freeze h)) = Active h"
    using holder.freeze_keeps [of h "fst (Freeze h)" "snd (Freeze h)"] by simp_all
  with holder.run_generations [OF r] holder.frozen_run [OF _ r2] r r2 show ?thesis by simp
qed

text \<open>
  C7: the type of a metric name is fixed for the life of the process: of all the snapshots a holder
  held, from the first to the last, no two have a family of the same name with different types, even
  when the name disappeared in between.
\<close>

theorem holder_types_stable:
  assumes "holder_inv h"
    and "list_all (\<lambda>op. case op of Op_Install v \<Rightarrow> distinct (map f_name (v_families v)) | Op_Freeze \<Rightarrow> True) ops"
    and "run_store Install Freeze h ops = (h', as)"
    and "a \<in> set (Active h # as)" "b \<in> set (Active h # as)"
    and "f \<in> set (v_families (a_validated a))" "g \<in> set (v_families (a_validated b))" "f_name f = f_name g"
  shows "f_type f = f_type g"
proof -
  have "bound_in (h_bindings h') a" "bound_in (h_bindings h') b"
    using run_store_bindings [OF assms(1-3)] assms(4,5) by auto
  with assms(6-8) show ?thesis unfolding bound_in_def by fastforce
qed

definition sample_snapshot :: "string \<Rightarrow> ValidatedSnapshot" where
  "sample_snapshot val =
     \<lparr>v_families = [\<lparr>f_name = ''jobs'', f_help = ''h'', f_type = Counter,
        f_series = [\<lparr>s_labels = [], s_value = val, s_histogram = None\<rparr>]\<rparr>],
      v_canonical = [], v_series = 1\<rparr>"

theorem holder_types_stable_witness:
  "f_type (hd (v_families (sample_snapshot ''1''))) = f_type (hd (v_families (sample_snapshot ''2'')))"
proof -
  let ?ops = "[Op_Install (sample_snapshot ''1''), Op_Install (sample_snapshot ''2'')]"
  let ?r = "run_store Install Freeze NewInitialHolder ?ops"
  have as: "snd ?r = [NewActive (sample_snapshot ''1'') 1, NewActive (sample_snapshot ''2'') 2]"
    by (simp add: Install_def Let_def NewInitialHolder_def NewHolder_def Zero_def sample_snapshot_def NewActive_def
        binding_conflict_def bind_families_def max_uint64_def)
  have inv: "holder_inv NewInitialHolder"
    by (simp add: holder_inv_def NewInitialHolder_def NewHolder_def Zero_def NewActive_def)
  have ops: "list_all (\<lambda>op. case op of Op_Install v \<Rightarrow> distinct (map f_name (v_families v)) | Op_Freeze \<Rightarrow> True) ?ops"
    by (simp add: sample_snapshot_def)
  show ?thesis
    by (rule holder_types_stable [OF inv ops prod.collapse [symmetric],
          of "NewActive (sample_snapshot ''1'') 1" "NewActive (sample_snapshot ''2'') 2"])
       (unfold as, simp_all add: sample_snapshot_def NewActive_def)
qed

end
