(* ===== verification/Ingestion.thy ===== *)
theory Ingestion
  imports Snapshot_Holder
begin

text \<open>
  The ingestion core (\<^verbatim>\<open>internal/ingestion/core.go\<close>): bounded admission, parsing,
  installation, and the barrier that closes admission and freezes the final snapshot.

  A call of \<^verbatim>\<open>Publish\<close> passes through sections that are atomic in the source (the
  barrier section, the wait for an execution slot, parsing, installation, the deferred clean-up).
  Every section is a function on the core's record; \<open>Publish\<close> runs them in order, and the
  step relation interleaves the sections of any number of calls with closing and freezing.

  The two buffered channels are counters with a capacity, the wait group is a counter, the frozen
  channel is closed exactly when the final snapshot is there. What a call sees of its context
  (expired on entry, while waiting, after parsing) is a parameter, and so is the parser, as in the
  source. The observer interface is the list of the notifications made; durations are left out.
\<close>

section \<open>Data\<close>

type_synonym Transport = string

definition File :: Transport where "File = ''file''"
definition Unix :: Transport where "Unix = ''unix''"
definition HTTP :: Transport where "HTTP = ''http''"
definition Managed :: Transport where "Managed = ''managed''"

definition Transports :: "Transport list" where
  "Transports = [File, Unix, HTTP]"

datatype Outcome = Accepted | Rejected | Busy | Timeout | InternalError

fun outcome_string :: "Outcome \<Rightarrow> string" where
  "outcome_string Accepted = ''accepted''"
| "outcome_string Rejected = ''rejected''"
| "outcome_string Busy = ''busy''"
| "outcome_string Timeout = ''timeout''"
| "outcome_string InternalError = ''internal_error''"

datatype TransportFailure =
    FailureIO | FailureMalformed | FailureProtocolVersion | FailureFrameLimit | FailurePartLimit
  | FailureDuplicatePart | FailureMissingPart | FailureTransactionInvalid | FailureTransactionExpired
  | FailureWireLimit | FailureEncoding | FailureMediaType | FailureMethod

fun failure_string :: "TransportFailure \<Rightarrow> string" where
  "failure_string FailureIO = ''io''"
| "failure_string FailureMalformed = ''malformed''"
| "failure_string FailureProtocolVersion = ''protocol_version''"
| "failure_string FailureFrameLimit = ''frame_limit''"
| "failure_string FailurePartLimit = ''part_limit''"
| "failure_string FailureDuplicatePart = ''duplicate_part''"
| "failure_string FailureMissingPart = ''missing_part''"
| "failure_string FailureTransactionInvalid = ''transaction_invalid''"
| "failure_string FailureTransactionExpired = ''transaction_expired''"
| "failure_string FailureWireLimit = ''wire_limit''"
| "failure_string FailureEncoding = ''encoding''"
| "failure_string FailureMediaType = ''media_type''"
| "failure_string FailureMethod = ''method''"

record Result =
  r_transport :: Transport
  r_outcome :: Outcome
  r_generation :: uint64
  r_reason :: "Reason option"

datatype observation =
    Obs_Started Transport
  | Obs_Completed Result ActiveSnapshot
  | Obs_Declined Result

text \<open>An error of the parser is a rejection with a reason, or any other error.\<close>

datatype parse_error = Rejection Reason | Other_Error

type_synonym Parser = "bytes \<Rightarrow> Limits \<Rightarrow> parse_error + ValidatedSnapshot"

record Core =
  c_holder :: Holder
  c_limits :: Limits
  c_parser :: Parser
  c_concurrent :: nat
  c_capacity :: nat
  c_executing :: nat
  c_admissions :: nat
  c_admitted :: nat
  c_closed :: bool
  c_final :: "ActiveSnapshot option"
  c_log :: "observation list"

definition NewWithParser :: "Holder \<Rightarrow> Limits \<Rightarrow> int \<Rightarrow> int \<Rightarrow> Parser \<Rightarrow> Core option" where
  "NewWithParser holder limits concurrent pending parser =
     (if concurrent < 1 \<or> pending < 0 then None
      else Some \<lparr>c_holder = holder, c_limits = limits, c_parser = parser,
        c_concurrent = nat concurrent, c_capacity = nat (concurrent + pending),
        c_executing = 0, c_admissions = 0, c_admitted = 0, c_closed = False, c_final = None, c_log = []\<rparr>)"

definition validTransport :: "Transport \<Rightarrow> bool" where
  "validTransport t \<longleftrightarrow> t = Managed \<or> t \<in> set Transports"

definition mk_result :: "Transport \<Rightarrow> Outcome \<Rightarrow> uint64 \<Rightarrow> Reason option \<Rightarrow> Result" where
  "mk_result t oc g r = \<lparr>r_transport = t, r_outcome = oc, r_generation = g, r_reason = r\<rparr>"

definition observe :: "observation \<Rightarrow> Core \<Rightarrow> Core" where
  "observe ob core = core\<lparr>c_log := c_log core @ [ob]\<rparr>"

section \<open>The sections of a publication\<close>

text \<open>Where a call stands: waiting for a slot, executing, parsed, decided, leaving.\<close>

datatype call =
    Waiting Transport bytes
  | Executing Transport bytes ActiveSnapshot
  | Parsed Transport bytes ValidatedSnapshot ActiveSnapshot
  | Finished Result ActiveSnapshot
  | Leaving Result

text \<open>The section under the barrier mutex: declined at once, or admitted.\<close>

definition publish_enter :: "bool \<Rightarrow> Transport \<Rightarrow> bytes \<Rightarrow> Core \<Rightarrow> Core \<times> (Result + call)" where
  "publish_enter expired t candidate core =
     (if \<not> validTransport t then (core, Inl (mk_result t InternalError 0 (Some ReasonInternal)))
      else if c_closed core then
        let r = mk_result t Rejected 0 (Some ReasonFrozen) in (observe (Obs_Declined r) core, Inl r)
      else if expired then
        let r = mk_result t Timeout 0 None in (observe (Obs_Declined r) core, Inl r)
      else if c_admissions core < c_capacity core then
        (core\<lparr>c_admissions := c_admissions core + 1, c_admitted := c_admitted core + 1\<rparr>, Inr (Waiting t candidate))
      else
        let r = mk_result t Busy 0 None in (observe (Obs_Declined r) core, Inl r))"

text \<open>The wait: an execution slot, after which the call reads the active snapshot, or the context ends.\<close>

definition publish_start :: "Transport \<Rightarrow> bytes \<Rightarrow> Core \<Rightarrow> Core \<times> call" where
  "publish_start t candidate core =
     (observe (Obs_Started t) (core\<lparr>c_executing := c_executing core + 1\<rparr>),
      Executing t candidate (Active (c_holder core)))"

definition publish_give_up :: "Transport \<Rightarrow> Core \<Rightarrow> Core \<times> call" where
  "publish_give_up t core =
     (let r = mk_result t Timeout 0 None in (observe (Obs_Declined r) core, Leaving r))"

definition publish_error :: "Transport \<Rightarrow> parse_error \<Rightarrow> Result" where
  "publish_error t e =
     (case e of
        Rejection reason \<Rightarrow> mk_result t Rejected 0 (Some reason)
      | Other_Error \<Rightarrow> mk_result t InternalError 0 (Some ReasonInternal))"

text \<open>Parsing, with the context check that follows it.\<close>

definition publish_parse :: "bool \<Rightarrow> Transport \<Rightarrow> bytes \<Rightarrow> ActiveSnapshot \<Rightarrow> Core \<Rightarrow> call" where
  "publish_parse expired t candidate active core =
     (case c_parser core candidate (c_limits core) of
        Inl e \<Rightarrow> Finished (publish_error t e) active
      | Inr validated \<Rightarrow>
          if expired then Finished (mk_result t Timeout 0 None) active
          else Parsed t candidate validated active)"

definition publish_install :: "Transport \<Rightarrow> ValidatedSnapshot \<Rightarrow> Core \<Rightarrow> Core \<times> call" where
  "publish_install t validated core =
     (case Install (c_holder core) validated of
        (h, active, Some reason) \<Rightarrow>
          (core\<lparr>c_holder := h\<rparr>, Finished (mk_result t Rejected 0 (Some reason)) active)
      | (h, active, None) \<Rightarrow>
          (core\<lparr>c_holder := h\<rparr>, Finished (mk_result t Accepted (a_generation active) None) active))"

text \<open>The deferred functions, last one first: report completion, free the slot; then the admission.\<close>

definition publish_complete :: "Result \<Rightarrow> ActiveSnapshot \<Rightarrow> Core \<Rightarrow> Core \<times> call" where
  "publish_complete r active core =
     ((observe (Obs_Completed r active) core)\<lparr>c_executing := c_executing core - 1\<rparr>, Leaving r)"

definition publish_leave :: "Core \<Rightarrow> Core" where
  "publish_leave core = core\<lparr>c_admissions := c_admissions core - 1, c_admitted := c_admitted core - 1\<rparr>"

record publish_ctx =
  expired_on_entry :: bool
  expired_waiting :: bool
  expired_after_parse :: bool

text \<open>
  A whole call, run without others in between. Then nobody frees a slot while it waits, so without
  a free slot the wait ends with the context.
\<close>

definition Publish :: "publish_ctx \<Rightarrow> Transport \<Rightarrow> bytes \<Rightarrow> Core \<Rightarrow> Core \<times> Result" where
  "Publish ctx t candidate core =
     (case publish_enter (expired_on_entry ctx) t candidate core of
        (core, Inl r) \<Rightarrow> (core, r)
      | (core, Inr _) \<Rightarrow>
          if expired_waiting ctx \<or> c_executing core \<ge> c_concurrent core then
            let r = mk_result t Timeout 0 None in (publish_leave (observe (Obs_Declined r) core), r)
          else
            let active = Active (c_holder core);
                core = fst (publish_start t candidate core);
                (core, r, active) =
                  (case publish_parse (expired_after_parse ctx) t candidate active core of
                     Parsed _ _ validated _ \<Rightarrow>
                       (case publish_install t validated core of
                          (core, Finished r active) \<Rightarrow> (core, r, active)
                        | (core, _) \<Rightarrow> (core, mk_result t InternalError 0 (Some ReasonInternal), active))
                   | Finished r active \<Rightarrow> (core, r, active)
                   | _ \<Rightarrow> (core, mk_result t InternalError 0 (Some ReasonInternal), active))
            in (publish_leave (fst (publish_complete r active core)), r))"

section \<open>Closing and freezing\<close>

definition core_close :: "Core \<Rightarrow> Core" where
  "core_close core = core\<lparr>c_closed := True\<rparr>"

text \<open>\<^verbatim>\<open>freezeOnce\<close>: only the first freeze acts.\<close>

definition core_freeze :: "Core \<Rightarrow> Core" where
  "core_freeze core =
     (case c_final core of
        Some _ \<Rightarrow> core
      | None \<Rightarrow> (case Freeze (c_holder core) of (h, a) \<Rightarrow> core\<lparr>c_holder := h, c_final := Some a\<rparr>))"

text \<open>
  Both branches of the select of \<^verbatim>\<open>CloseAndFreeze\<close> end with the core frozen and return its
  final snapshot; which one is taken, and when, is a matter of the step relation below.
\<close>

definition CloseAndFreeze :: "Core \<Rightarrow> Core \<times> ActiveSnapshot option" where
  "CloseAndFreeze core = (let core = core_freeze (core_close core) in (core, c_final core))"

section \<open>Interleaved calls\<close>

text \<open>
  The calls in progress by an identifier, the calls whose context is done, whether the context of a
  \<^verbatim>\<open>CloseAndFreeze\<close> is done, and, for the statements only, the candidate each call was made
  with, what was installed by which call from which candidate, in order, and what was returned to
  which call for which candidate.
\<close>

record system =
  sys_core :: Core
  sys_calls :: "nat \<rightharpoonup> call"
  sys_expired :: "nat set"
  sys_freeze_expired :: bool
  sys_submitted :: "nat \<Rightarrow> bytes"
  sys_installed :: "(nat \<times> bytes \<times> ActiveSnapshot) list"
  sys_returned :: "(nat \<times> bytes \<times> Result) list"

definition move :: "nat \<Rightarrow> Core \<times> call \<Rightarrow> system \<Rightarrow> system" where
  "move p cc s = s\<lparr>sys_core := fst cc, sys_calls := (sys_calls s)(p \<mapsto> snd cc)\<rparr>"

text \<open>A new call comes with its candidate and with a context that is not done.\<close>

definition submit_call :: "nat \<Rightarrow> bytes \<Rightarrow> system \<Rightarrow> system" where
  "submit_call p c s = s\<lparr>sys_expired := sys_expired s - {p}, sys_submitted := (sys_submitted s)(p := c)\<rparr>"

text \<open>
  A waiting call gives up only when its context is done, and a call that has parsed looks at the
  same context. The core freezes when the goroutine that \<^verbatim>\<open>CloseAndFreeze\<close> starts finds no
  admitted call left, or when the context of a \<^verbatim>\<open>CloseAndFreeze\<close> is done.
\<close>

inductive core_step :: "system \<Rightarrow> system \<Rightarrow> bool" where
  decline: "sys_calls s p = None \<Longrightarrow> publish_enter e t c (sys_core s) = (core, Inl r) \<Longrightarrow>
    core_step s (s\<lparr>sys_core := core, sys_returned := sys_returned s @ [(p, c, r)]\<rparr>)"
| admit: "sys_calls s p = None \<Longrightarrow> publish_enter e t c (sys_core s) = (core, Inr k) \<Longrightarrow>
    core_step s (move p (core, k) (submit_call p c s))"
| expire: "core_step s (s\<lparr>sys_expired := insert p (sys_expired s)\<rparr>)"
| start: "sys_calls s p = Some (Waiting t c) \<Longrightarrow> c_executing (sys_core s) < c_concurrent (sys_core s) \<Longrightarrow>
    core_step s (move p (publish_start t c (sys_core s)) s)"
| give_up: "sys_calls s p = Some (Waiting t c) \<Longrightarrow> p \<in> sys_expired s \<Longrightarrow>
    core_step s (move p (publish_give_up t (sys_core s)) s)"
| parse: "sys_calls s p = Some (Executing t c a) \<Longrightarrow>
    core_step s (move p (sys_core s, publish_parse (p \<in> sys_expired s) t c a (sys_core s)) s)"
| install: "sys_calls s p = Some (Parsed t c v a) \<Longrightarrow> publish_install t v (sys_core s) = (core, Finished r b) \<Longrightarrow>
    core_step s ((move p (core, Finished r b) s)
      \<lparr>sys_installed := sys_installed s @ (if r_outcome r = Accepted then [(p, c, b)] else [])\<rparr>)"
| complete: "sys_calls s p = Some (Finished r a) \<Longrightarrow>
    core_step s (move p (publish_complete r a (sys_core s)) s)"
| leave: "sys_calls s p = Some (Leaving r) \<Longrightarrow>
    core_step s (s\<lparr>sys_core := publish_leave (sys_core s), sys_calls := (sys_calls s)(p := None),
      sys_returned := sys_returned s @ [(p, sys_submitted s p, r)]\<rparr>)"
| close: "core_step s (s\<lparr>sys_core := core_close (sys_core s)\<rparr>)"
| freeze_drained: "c_closed (sys_core s) \<Longrightarrow> c_admitted (sys_core s) = 0 \<Longrightarrow>
    core_step s (s\<lparr>sys_core := core_freeze (sys_core s)\<rparr>)"
| freeze_deadline: "core_step s (s\<lparr>sys_freeze_expired := True\<rparr>)"
| freeze_expired: "c_closed (sys_core s) \<Longrightarrow> sys_freeze_expired s \<Longrightarrow>
    core_step s (s\<lparr>sys_core := core_freeze (sys_core s)\<rparr>)"

definition sys_init :: "Core \<Rightarrow> system" where
  "sys_init core = \<lparr>sys_core = core, sys_calls = Map.empty, sys_expired = {}, sys_freeze_expired = False,
     sys_submitted = (\<lambda>_. []), sys_installed = [], sys_returned = []\<rparr>"

end
