(* ===== verification/Ingestion_Facts.thy ===== *)
theory Ingestion_Facts
  imports Ingestion
begin

text \<open>
  Invariants of the ingestion core under every interleaving of publications with closing and
  freezing, and what follows for the results the callers get.
\<close>

section \<open>Slots\<close>

fun holds_slot :: "call \<Rightarrow> bool" where
  "holds_slot (Waiting _ _) = False"
| "holds_slot (Leaving _) = False"
| "holds_slot _ = True"

definition slots :: "(nat \<rightharpoonup> call) \<Rightarrow> nat set" where
  "slots calls = {p. \<exists>k. calls p = Some k \<and> holds_slot k}"

lemma slots_upd: "slots (calls(p \<mapsto> k)) = (if holds_slot k then insert p (slots calls) else slots calls - {p})"
  by (auto simp: slots_def)

lemma slots_del: "slots (calls(p := None)) = slots calls - {p}"
  by (auto simp: slots_def)

lemma slots_sub: "slots calls \<subseteq> dom calls"
  by (auto simp: slots_def)

lemma slots_in: "calls p = Some k \<Longrightarrow> p \<in> slots calls \<longleftrightarrow> holds_slot k"
  by (simp add: slots_def)

definition count_inv :: "system \<Rightarrow> bool" where
  "count_inv s \<longleftrightarrow>
     finite (dom (sys_calls s)) \<and>
     c_admissions (sys_core s) = card (dom (sys_calls s)) \<and> c_admitted (sys_core s) = card (dom (sys_calls s)) \<and>
     c_admissions (sys_core s) \<le> c_capacity (sys_core s) \<and>
     c_executing (sys_core s) = card (slots (sys_calls s)) \<and>
     c_executing (sys_core s) \<le> c_concurrent (sys_core s)"

lemma core_sel [simp]:
  "c_holder (observe ob k) = c_holder k" "c_limits (observe ob k) = c_limits k" "c_parser (observe ob k) = c_parser k"
  "c_concurrent (observe ob k) = c_concurrent k" "c_capacity (observe ob k) = c_capacity k"
  "c_executing (observe ob k) = c_executing k" "c_admissions (observe ob k) = c_admissions k"
  "c_admitted (observe ob k) = c_admitted k" "c_closed (observe ob k) = c_closed k" "c_final (observe ob k) = c_final k"
  by (simp_all add: observe_def)

lemma move_sel [simp]:
  "sys_core (move p cc s) = fst cc" "sys_calls (move p cc s) = (sys_calls s)(p \<mapsto> snd cc)"
  "sys_installed (move p cc s) = sys_installed s" "sys_returned (move p cc s) = sys_returned s"
  "sys_submitted (move p cc s) = sys_submitted s" "sys_expired (move p cc s) = sys_expired s"
  "sys_freeze_expired (move p cc s) = sys_freeze_expired s"
  by (simp_all add: move_def)

lemma submit_call_sel [simp]:
  "sys_core (submit_call p c s) = sys_core s" "sys_calls (submit_call p c s) = sys_calls s"
  "sys_installed (submit_call p c s) = sys_installed s" "sys_returned (submit_call p c s) = sys_returned s"
  "sys_submitted (submit_call p c s) = (sys_submitted s)(p := c)" "sys_expired (submit_call p c s) = sys_expired s - {p}"
  "sys_freeze_expired (submit_call p c s) = sys_freeze_expired s"
  by (simp_all add: submit_call_def)

lemma publish_enter_cases:
  assumes "publish_enter e t c core = (core', out)"
  obtains (declined) r where "out = Inl r" "core' = core \<or> core' = observe (Obs_Declined r) core" "r_outcome r \<noteq> Accepted"
  | (admitted) "out = Inr (Waiting t c)" "\<not> c_closed core" "c_admissions core < c_capacity core" "validTransport t"
      "core' = core\<lparr>c_admissions := c_admissions core + 1, c_admitted := c_admitted core + 1\<rparr>"
  using assms by (auto simp: publish_enter_def Let_def mk_result_def split: if_splits)

lemma publish_install_cases:
  obtains (rejected) r h a where "Install (c_holder core) v = (h, a, Some r)" "h = c_holder core" "a = Active (c_holder core)"
      "publish_install t v core = (core, Finished (mk_result t Rejected 0 (Some r)) a)"
  | (accepted) h a where "Install (c_holder core) v = (h, a, None)"
      "publish_install t v core = (core\<lparr>c_holder := h\<rparr>, Finished (mk_result t Accepted (a_generation a) None) a)"
proof -
  obtain h a res where i: "Install (c_holder core) v = (h, a, res)" by (rule prod_cases3)
  show thesis
  proof (cases res)
    case None
    with i accepted show thesis by (simp add: publish_install_def)
  next
    case (Some r)
    note k = holder.install_rejected [OF i [unfolded Some]]
    have "core\<lparr>c_holder := h\<rparr> = core" using k by simp
    with i Some k rejected show thesis by (simp add: publish_install_def)
  qed
qed

lemma publish_parse_slot: "holds_slot (publish_parse e t c a core)"
  by (simp add: publish_parse_def split: sum.splits)

lemma core_freeze_sel [simp]:
  "c_limits (core_freeze k) = c_limits k" "c_parser (core_freeze k) = c_parser k"
  "c_concurrent (core_freeze k) = c_concurrent k" "c_capacity (core_freeze k) = c_capacity k"
  "c_executing (core_freeze k) = c_executing k" "c_admissions (core_freeze k) = c_admissions k"
  "c_admitted (core_freeze k) = c_admitted k" "c_closed (core_freeze k) = c_closed k"
  by (simp_all add: core_freeze_def split: option.splits prod.splits)

lemma count_inv_step: "core_step s s' \<Longrightarrow> count_inv s \<Longrightarrow> count_inv s'"
proof (induction rule: core_step.induct)
  case (decline s p e t c core r)
  from decline.hyps(2) decline.prems show ?case
    by (cases rule: publish_enter_cases) (auto simp: count_inv_def)
next
  case (admit s p e t c core k)
  have "p \<notin> slots (sys_calls s)" "p \<notin> dom (sys_calls s)" using admit.hyps(1) slots_sub by auto
  with admit.hyps(2) admit.prems show ?case
    by (cases rule: publish_enter_cases) (auto simp: count_inv_def slots_upd)
next
  case (start s p t c)
  have "p \<in> dom (sys_calls s)" "p \<notin> slots (sys_calls s)" using start.hyps(1) by (auto simp: slots_in)
  moreover have "finite (slots (sys_calls s))" using start.prems slots_sub finite_subset by (fastforce simp: count_inv_def)
  ultimately show ?case
    using start.prems start.hyps(2) by (auto simp: count_inv_def publish_start_def slots_upd insert_absorb)
next
  case (give_up s p t c)
  have "p \<in> dom (sys_calls s)" "p \<notin> slots (sys_calls s)" using give_up.hyps(1) by (auto simp: slots_in)
  with give_up.prems show ?case
    by (auto simp: count_inv_def publish_give_up_def Let_def slots_upd insert_absorb)
next
  case (parse s p t c a)
  have "p \<in> dom (sys_calls s)" "p \<in> slots (sys_calls s)" using parse.hyps(1) by (auto simp: slots_in)
  with parse.prems show ?case by (auto simp: count_inv_def publish_parse_slot slots_upd insert_absorb)
next
  case (install s p t c v a core r b)
  have "p \<in> dom (sys_calls s)" "p \<in> slots (sys_calls s)" using install.hyps(1) by (auto simp: slots_in)
  with install.prems install.hyps(2) show ?case
    by (cases rule: publish_install_cases [of "sys_core s" v t]) (auto simp: count_inv_def slots_upd insert_absorb)
next
  case (complete s p r a)
  have "p \<in> dom (sys_calls s)" "p \<in> slots (sys_calls s)" using complete.hyps(1) by (auto simp: slots_in)
  moreover have "finite (slots (sys_calls s))" using complete.prems slots_sub finite_subset by (fastforce simp: count_inv_def)
  ultimately show ?case
    using complete.prems by (auto simp: count_inv_def publish_complete_def slots_upd insert_absorb card_Diff_singleton)
next
  case (leave s p r)
  have "p \<in> dom (sys_calls s)" "p \<notin> slots (sys_calls s)" using leave.hyps(1) by (auto simp: slots_in)
  with leave.prems show ?case
    by (auto simp: count_inv_def publish_leave_def slots_del card_Diff_singleton)
qed (auto simp: count_inv_def core_close_def)

section \<open>The final snapshot\<close>

definition final_inv :: "Core \<Rightarrow> bool" where
  "final_inv core \<longleftrightarrow>
     (Frozen (c_holder core) \<longleftrightarrow> c_final core \<noteq> None) \<and>
     (\<forall>a. c_final core = Some a \<longrightarrow> c_closed core \<and> Active (c_holder core) = a)"

lemma core_freeze_final:
  assumes "c_closed k" "final_inv k"
  shows "final_inv (core_freeze k) \<and> c_final (core_freeze k) \<noteq> None"
proof (cases "c_final k")
  case None
  obtain h a where f: "Freeze (c_holder k) = (h, a)" by fastforce
  with holder.freeze_keeps [OF f] None assms show ?thesis by (simp add: core_freeze_def final_inv_def)
qed (use assms in \<open>simp add: core_freeze_def\<close>)

lemma core_freeze_keeps: "c_final k = Some a \<Longrightarrow> core_freeze k = k"
  by (simp add: core_freeze_def)

lemma publish_install_final:
  assumes "final_inv core" "publish_install t v core = (core', k)"
  shows "final_inv core' \<and> c_final core' = c_final core \<and> c_closed core' = c_closed core"
proof (cases rule: publish_install_cases [of core v t])
  case (rejected r h a)
  with assms show ?thesis by simp
next
  case (accepted h a)
  with assms holder.install_accepted [OF accepted(1)] show ?thesis by (auto simp: final_inv_def)
qed

lemma final_inv_step:
  "core_step s s' \<Longrightarrow> final_inv (sys_core s) \<Longrightarrow>
     final_inv (sys_core s') \<and> (c_closed (sys_core s) \<longrightarrow> c_closed (sys_core s')) \<and>
     (c_final (sys_core s) \<noteq> None \<longrightarrow> c_final (sys_core s') = c_final (sys_core s))"
proof (induction rule: core_step.induct)
  case (decline s p e t c core r)
  from decline.hyps(2) decline.prems show ?case
    by (cases rule: publish_enter_cases) (auto simp: final_inv_def)
next
  case (admit s p e t c core k)
  from admit.hyps(2) admit.prems show ?case
    by (cases rule: publish_enter_cases) (auto simp: final_inv_def)
next
  case (install s p t c v a core r b)
  from publish_install_final [OF install.prems install.hyps(2)] show ?case by simp
next
  case (close s)
  then show ?case by (auto simp: core_close_def final_inv_def)
next
  case (freeze_drained s)
  then show ?case using core_freeze_final core_freeze_keeps by fastforce
next
  case (freeze_expired s)
  then show ?case using core_freeze_final core_freeze_keeps by fastforce
qed (auto simp: publish_start_def publish_give_up_def publish_complete_def publish_leave_def Let_def final_inv_def)

section \<open>What was installed\<close>

definition decided :: "system \<Rightarrow> nat \<Rightarrow> bytes \<Rightarrow> Result \<Rightarrow> bool" where
  "decided s p c r \<longleftrightarrow>
     c = sys_submitted s p \<and> ((\<exists>a. sys_calls s p = Some (Finished r a)) \<or> sys_calls s p = Some (Leaving r)) \<or>
     (p, c, r) \<in> set (sys_returned s)"

text \<open>The candidate that a call carries until it is decided.\<close>

fun carried :: "call \<Rightarrow> bytes option" where
  "carried (Waiting _ c) = Some c"
| "carried (Executing _ c _) = Some c"
| "carried (Parsed _ c _ _) = Some c"
| "carried _ = None"

definition installed_snapshots :: "system \<Rightarrow> ActiveSnapshot list" where
  "installed_snapshots s = map (\<lambda>(p, c, a). a) (sys_installed s)"

definition same_config :: "Core \<Rightarrow> Core \<Rightarrow> bool" where
  "same_config k k' \<longleftrightarrow> c_parser k = c_parser k' \<and> c_limits k = c_limits k' \<and>
     c_concurrent k = c_concurrent k' \<and> c_capacity k = c_capacity k'"

definition history_inv :: "Core \<Rightarrow> system \<Rightarrow> bool" where
  "history_inv k s \<longleftrightarrow>
     same_config (sys_core s) k \<and>
     map (\<lambda>a. unat (a_generation a)) (installed_snapshots s) =
       [Suc (unat (a_generation (Active (c_holder k)))) ..<
        Suc (unat (a_generation (Active (c_holder k))) + length (sys_installed s))] \<and>
     Active (c_holder (sys_core s)) = last (Active (c_holder k) # installed_snapshots s)"

definition source_inv :: "Core \<Rightarrow> system \<Rightarrow> bool" where
  "source_inv k s \<longleftrightarrow>
     (\<forall>p c a. (p, c, a) \<in> set (sys_installed s) \<longrightarrow> c_parser k c (c_limits k) = Inr (a_validated a)) \<and>
     (\<forall>p t c v a. sys_calls s p = Some (Parsed t c v a) \<longrightarrow> c_parser k c (c_limits k) = Inr v) \<and>
     (\<forall>p k c. sys_calls s p = Some k \<longrightarrow> carried k = Some c \<longrightarrow> c = sys_submitted s p) \<and>
     (\<forall>p c r. decided s p c r \<and> r_outcome r = Accepted \<longrightarrow>
        (\<exists>a. (p, c, a) \<in> set (sys_installed s) \<and> a_generation a = r_generation r))"

lemma same_config_step: "core_step s s' \<Longrightarrow> same_config (sys_core s) k \<Longrightarrow> same_config (sys_core s') k"
proof (induction rule: core_step.induct)
  case (decline s p e t c core r)
  from decline.hyps(2) decline.prems show ?case
    by (cases rule: publish_enter_cases) (auto simp: same_config_def)
next
  case (admit s p e t c core k)
  from admit.hyps(2) admit.prems show ?case
    by (cases rule: publish_enter_cases) (auto simp: same_config_def)
next
  case (install s p t c v a core r b)
  from install.prems install.hyps(2) show ?case
    by (cases rule: publish_install_cases [of "sys_core s" v t]) (auto simp: same_config_def)
qed (auto simp: same_config_def publish_start_def publish_give_up_def publish_complete_def publish_leave_def core_close_def Let_def)

lemma holder_step:
  "core_step s s' \<Longrightarrow>
     Active (c_holder (sys_core s')) = Active (c_holder (sys_core s)) \<and> sys_installed s' = sys_installed s \<or>
     (\<exists>p c a. sys_installed s' = sys_installed s @ [(p, c, a)] \<and> Active (c_holder (sys_core s')) = a \<and>
        unat (a_generation a) = Suc (unat (a_generation (Active (c_holder (sys_core s))))))"
proof (induction rule: core_step.induct)
  case (decline s p e t c core r)
  from decline.hyps(2) show ?case by (cases rule: publish_enter_cases) auto
next
  case (admit s p e t c core k)
  from admit.hyps(2) show ?case by (cases rule: publish_enter_cases) auto
next
  case (install s p t c v a core r b)
  show ?case
  proof (cases rule: publish_install_cases [of "sys_core s" v t])
    case (rejected r' h a')
    with install.hyps(2) show ?thesis by (auto simp: mk_result_def)
  next
    case (accepted h a')
    with install.hyps(2) holder.install_accepted [OF accepted(1)] show ?thesis
      by (intro disjI2 exI [of _ p] exI [of _ c] exI [of _ b]) (auto simp: mk_result_def)
  qed
next
  case (freeze_drained s)
  then show ?case using holder.freeze_keeps by (auto simp: core_freeze_def split: option.splits prod.splits)
next
  case (freeze_expired s)
  then show ?case using holder.freeze_keeps by (auto simp: core_freeze_def split: option.splits prod.splits)
qed (auto simp: publish_start_def publish_give_up_def publish_complete_def publish_leave_def core_close_def Let_def)

lemma history_inv_step: "core_step s s' \<Longrightarrow> history_inv k s \<Longrightarrow> history_inv k s'"
proof -
  assume st: "core_step s s'" and inv: "history_inv k s"
  have cfg: "same_config (sys_core s') k" using same_config_step [OF st] inv by (simp add: history_inv_def)
  let ?g = "unat (a_generation (Active (c_holder k)))"
  have last: "unat (a_generation (Active (c_holder (sys_core s)))) = ?g + length (sys_installed s)"
  proof (cases "sys_installed s" rule: rev_cases)
    case Nil
    with inv show ?thesis by (simp add: history_inv_def installed_snapshots_def)
  next
    case (snoc xs x)
    from inv have "last (map (\<lambda>a. unat (a_generation a)) (installed_snapshots s)) =
        last [Suc ?g ..< Suc (?g + length (sys_installed s))]" by (simp add: history_inv_def)
    with inv snoc show ?thesis by (auto simp: history_inv_def installed_snapshots_def)
  qed
  from holder_step [OF st] show "history_inv k s'"
  proof (elim disjE exE conjE)
    assume "Active (c_holder (sys_core s')) = Active (c_holder (sys_core s))" "sys_installed s' = sys_installed s"
    with inv cfg show ?thesis by (simp add: history_inv_def installed_snapshots_def)
  next
    fix p c a
    assume "sys_installed s' = sys_installed s @ [(p, c, a)]" "Active (c_holder (sys_core s')) = a"
      "unat (a_generation a) = Suc (unat (a_generation (Active (c_holder (sys_core s)))))"
    with inv cfg last show ?thesis by (simp add: history_inv_def installed_snapshots_def)
  qed
qed

lemma decided_move:
  "decided (move p (core, k) s) q c r \<longleftrightarrow>
     (if q = p then c = sys_submitted s p \<and> ((\<exists>a. k = Finished r a) \<or> k = Leaving r) \<or> (p, c, r) \<in> set (sys_returned s)
      else decided s q c r)"
  by (auto simp: decided_def)

lemma source_inv_move:
  assumes "source_inv k s"
    and "\<And>t c v a. call = Parsed t c v a \<Longrightarrow> c_parser k c (c_limits k) = Inr v"
    and "\<And>c. carried call = Some c \<Longrightarrow> c = sys_submitted s p"
    and "\<And>r a. call = Finished r a \<or> call = Leaving r \<Longrightarrow> r_outcome r = Accepted \<Longrightarrow> decided s p (sys_submitted s p) r"
  shows "source_inv k (move p (core, call) s)"
  using assms unfolding source_inv_def decided_move
  by (auto simp: decided_def)

lemma source_inv_submit_call: "source_inv k s \<Longrightarrow> sys_calls s p = None \<Longrightarrow> source_inv k (submit_call p c s)"
  unfolding source_inv_def decided_def by (auto split: if_splits)

lemma source_inv_carried:
  "source_inv k s \<Longrightarrow> sys_calls s p = Some call \<Longrightarrow> carried call = Some c \<Longrightarrow> c = sys_submitted s p"
  unfolding source_inv_def by blast

lemma publish_error_outcome: "r_outcome (publish_error t e) \<noteq> Accepted"
  by (simp add: publish_error_def mk_result_def split: parse_error.splits)

lemma source_inv_install:
  assumes inv: "source_inv k s" and p: "sys_calls s p = Some (Parsed t c v a)"
    and i: "publish_install t v (sys_core s) = (core, Finished r b)" and acc: "r_outcome r = Accepted"
  shows "source_inv k ((move p (core, Finished r b) s)\<lparr>sys_installed := sys_installed s @ [(p, c, b)]\<rparr>)"
    (is "source_inv k ?s")
proof -
  have v: "c_parser k c (c_limits k) = Inr v" using inv p unfolding source_inv_def by blast
  have c: "sys_submitted s p = c" using source_inv_carried [OF inv p] by simp
  from i acc have b: "a_generation b = r_generation r" "a_validated b = v"
    by (cases rule: publish_install_cases [of "sys_core s" v t];
        auto simp: mk_result_def dest: holder.install_accepted)+
  have "\<exists>a'. (q, c', a') \<in> set (sys_installed ?s) \<and> a_generation a' = r_generation r'"
    if d: "decided ?s q c' r'" "r_outcome r' = Accepted" for q c' r'
  proof (cases "q = p \<and> r' = r \<and> c' = c")
    case False
    with d(1) c have "decided s q c' r'" by (auto simp: decided_def split: if_splits)
    with inv d(2) show ?thesis unfolding source_inv_def by fastforce
  qed (use b in auto)
  with inv b v c show ?thesis unfolding source_inv_def by (simp; blast)
qed

lemma source_inv_step:
  "core_step s s' \<Longrightarrow> source_inv k s \<Longrightarrow> same_config (sys_core s) k \<Longrightarrow> source_inv k s'"
proof (induction rule: core_step.induct)
  case (decline s p e t c core r)
  from decline.hyps(2) have "r_outcome r \<noteq> Accepted" by (cases rule: publish_enter_cases) auto
  with decline.prems(1) show ?case by (auto simp: source_inv_def decided_def)
next
  case (admit s p e t c core call)
  from admit.hyps(2) have "call = Waiting t c" by (cases rule: publish_enter_cases) auto
  then show ?case by (auto intro!: source_inv_move [OF source_inv_submit_call [OF admit.prems(1) admit.hyps(1)]])
next
  case (start s p t c)
  show ?case unfolding publish_start_def
    by (rule source_inv_move [OF start.prems(1)]) (use source_inv_carried [OF start.prems(1) start.hyps(1)] in simp_all)
next
  case (give_up s p t c)
  show ?case unfolding publish_give_up_def Let_def
    by (rule source_inv_move [OF give_up.prems(1)]) (auto simp: mk_result_def)
next
  case (parse s p t c a)
  show ?case
    by (rule source_inv_move [OF parse.prems(1)])
       (use parse.prems(2) publish_error_outcome source_inv_carried [OF parse.prems(1) parse.hyps(1)] in
        \<open>auto simp: publish_parse_def same_config_def mk_result_def split: sum.splits if_splits\<close>)
next
  case (install s p t c v a core r b)
  show ?case
  proof (cases "r_outcome r = Accepted")
    case True
    with source_inv_install [OF install.prems(1) install.hyps] show ?thesis by simp
  next
    case False
    then have "source_inv k (move p (core, Finished r b) s)"
      by (intro source_inv_move [OF install.prems(1)]) auto
    with False show ?thesis by (simp add: source_inv_def decided_def)
  qed
next
  case (complete s p r a)
  show ?case unfolding publish_complete_def
    by (rule source_inv_move [OF complete.prems(1)]) (use complete.hyps in \<open>auto simp: decided_def\<close>)
next
  case (leave s p r)
  then show ?case by (auto simp: source_inv_def decided_def split: if_splits)
qed (auto simp: source_inv_def decided_def)

section \<open>Reachable states\<close>

definition core_reach :: "Core \<Rightarrow> system \<Rightarrow> bool" where
  "core_reach k s \<longleftrightarrow> core_step\<^sup>*\<^sup>* (sys_init k) s"

text \<open>A core as its constructor leaves it, with a holder that may have a history.\<close>

definition fresh_core :: "Core \<Rightarrow> bool" where
  "fresh_core k \<longleftrightarrow>
     1 \<le> c_concurrent k \<and> c_concurrent k \<le> c_capacity k \<and> c_executing k = 0 \<and> c_admissions k = 0 \<and>
     c_admitted k = 0 \<and> \<not> c_closed k \<and> c_final k = None \<and> \<not> Frozen (c_holder k)"

lemma NewWithParser_fresh: "NewWithParser h l n m p = Some k \<Longrightarrow> \<not> Frozen h \<Longrightarrow> fresh_core k"
  by (auto simp: NewWithParser_def fresh_core_def split: if_splits)

lemma core_reach_inv:
  assumes "fresh_core k" "core_reach k s"
  shows "count_inv s \<and> final_inv (sys_core s) \<and> history_inv k s \<and> source_inv k s"
  using assms(2) unfolding core_reach_def
proof (induction rule: rtranclp_induct)
  case base
  show ?case
    using assms(1) by (auto simp: fresh_core_def sys_init_def count_inv_def slots_def final_inv_def history_inv_def
        same_config_def installed_snapshots_def source_inv_def decided_def)
next
  case (step s s')
  then show ?case
    using count_inv_step final_inv_step history_inv_step source_inv_step
    by (metis history_inv_def)
qed

section \<open>Draining after the close\<close>

fun remaining :: "call \<Rightarrow> nat" where
  "remaining (Waiting _ _) = 5"
| "remaining (Executing _ _ _) = 4"
| "remaining (Parsed _ _ _ _) = 3"
| "remaining (Finished _ _) = 2"
| "remaining (Leaving _) = 1"

definition work :: "system \<Rightarrow> nat" where
  "work s = (\<Sum>p\<in>dom (sys_calls s). remaining (the (sys_calls s p)))"

lemma work_move:
  assumes "finite (dom (sys_calls s))" "sys_calls s p = Some k" "remaining k' < remaining k"
  shows "work (move p (core, k') s) < work s"
proof -
  let ?D = "dom (sys_calls s)"
  have p: "p \<in> ?D" using assms(2) by auto
  have "work (move p (core, k') s) = (\<Sum>q\<in>?D. remaining (the (((sys_calls s)(p \<mapsto> k')) q)))"
    using p by (simp add: work_def insert_absorb)
  also have "\<dots> = remaining k' + (\<Sum>q\<in>?D - {p}. remaining (the (sys_calls s q)))"
    using sum.remove [OF assms(1) p, of "\<lambda>q. remaining (the (((sys_calls s)(p \<mapsto> k')) q))"]
    by (auto intro: sum.cong)
  also have "\<dots> < remaining k + (\<Sum>q\<in>?D - {p}. remaining (the (sys_calls s q)))" using assms(3) by simp
  also have "\<dots> = work s" using assms(1,2) p by (simp add: work_def sum.remove)
  finally show ?thesis .
qed

lemma work_drop:
  assumes "finite (dom (sys_calls s))" "sys_calls s p = Some k" "sys_calls s' = (sys_calls s)(p := None)"
  shows "work s' < work s"
proof -
  have p: "p \<in> dom (sys_calls s)" using assms(2) by auto
  have "work s' = (\<Sum>q\<in>dom (sys_calls s) - {p}. remaining (the (sys_calls s q)))"
    using assms(3) by (simp add: work_def)
  moreover have "work s = remaining k + (\<Sum>q\<in>dom (sys_calls s) - {p}. remaining (the (sys_calls s q)))"
    using assms(1,2) p by (simp add: work_def sum.remove)
  moreover have "0 < remaining k" by (cases k) simp_all
  ultimately show ?thesis by linarith
qed

text \<open>
  What the draining run leaves alone: no context ends during it, and a call that is gone has got its
  answer.
\<close>

definition undisturbed :: "system \<Rightarrow> system \<Rightarrow> bool" where
  "undisturbed s s' \<longleftrightarrow>
     sys_expired s' = sys_expired s \<and> sys_freeze_expired s' = sys_freeze_expired s \<and>
     sys_submitted s' = sys_submitted s \<and> set (sys_returned s) \<subseteq> set (sys_returned s') \<and>
     (\<forall>p \<in> dom (sys_calls s). p \<in> dom (sys_calls s') \<or> (\<exists>r. (p, sys_submitted s p, r) \<in> set (sys_returned s')))"

lemma undisturbed_refl: "undisturbed s s"
  by (simp add: undisturbed_def)

lemma undisturbed_trans: "undisturbed s s1 \<Longrightarrow> undisturbed s1 s2 \<Longrightarrow> undisturbed s s2"
  unfolding undisturbed_def by (simp; blast)

lemma undisturbed_move: "undisturbed s (move p cc s)"
  by (simp add: undisturbed_def)

text \<open>As long as a call is in progress, one of the calls can go on, and its work shrinks.\<close>

lemma progress:
  assumes inv: "count_inv s" and cap: "1 \<le> c_concurrent (sys_core s)" and ne: "sys_calls s \<noteq> Map.empty"
  shows "\<exists>s'. core_step s s' \<and> work s' < work s \<and> undisturbed s s'"
proof -
  have fin: "finite (dom (sys_calls s))" using inv by (simp add: count_inv_def)
  obtain p k where "sys_calls s p = Some k" "\<And>t c. k = Waiting t c \<Longrightarrow> slots (sys_calls s) = {}"
  proof (cases "slots (sys_calls s) = {}")
    case True
    obtain p where "sys_calls s p \<noteq> None" using ne by (auto simp: fun_eq_iff)
    with True that show thesis by auto
  next
    case False
    then obtain p k where "sys_calls s p = Some k" "holds_slot k" by (auto simp: slots_def)
    with that show thesis by fastforce
  qed
  note pk = this
  show ?thesis
  proof (cases k)
    case (Waiting t c)
    have "c_executing (sys_core s) < c_concurrent (sys_core s)"
      using pk(2) [OF Waiting] inv cap by (simp add: count_inv_def)
    with pk(1) Waiting core_step.start [of s p t c] work_move [OF fin pk(1)] show ?thesis
      by (intro exI [of _ "move p (publish_start t c (sys_core s)) s"]) (simp add: publish_start_def undisturbed_move)
  next
    case (Executing t c a)
    have "remaining (publish_parse (p \<in> sys_expired s) t c a (sys_core s)) < 4"
      by (simp add: publish_parse_def split: sum.splits)
    with pk(1) Executing core_step.parse [of s p t c a] work_move [OF fin pk(1)] undisturbed_move show ?thesis by auto
  next
    case (Parsed t c v a)
    obtain core r b where i: "publish_install t v (sys_core s) = (core, Finished r b)"
      by (cases rule: publish_install_cases [of "sys_core s" v t]) auto
    let ?s = "(move p (core, Finished r b) s)
      \<lparr>sys_installed := sys_installed s @ (if r_outcome r = Accepted then [(p, c, b)] else [])\<rparr>"
    have "core_step s ?s" by (rule core_step.install [OF _ i]) (use pk(1) Parsed in simp)
    moreover have "work ?s = work (move p (core, Finished r b) s)" by (simp add: work_def)
    moreover have "undisturbed s ?s" by (simp add: undisturbed_def)
    ultimately show ?thesis using work_move [OF fin pk(1), of "Finished r b" core] Parsed by auto
  next
    case (Finished r a)
    with pk(1) core_step.complete [of s p r a] work_move [OF fin pk(1)] show ?thesis
      by (intro exI [of _ "move p (publish_complete r a (sys_core s)) s"]) (simp add: publish_complete_def undisturbed_move)
  next
    case (Leaving r)
    with pk(1) core_step.leave [of s p r] work_drop [OF fin pk(1)] show ?thesis
      by (intro exI conjI) (rule core_step.leave, auto simp: undisturbed_def)
  qed
qed

lemma drain:
  assumes "count_inv s" "1 \<le> c_concurrent (sys_core s)" "c_closed (sys_core s)" "final_inv (sys_core s)"
  shows "\<exists>s'. core_step\<^sup>*\<^sup>* s s' \<and> sys_calls s' = Map.empty \<and> c_final (sys_core s') \<noteq> None \<and> undisturbed s s'"
  using assms
proof (induction "work s" arbitrary: s rule: less_induct)
  case less
  show ?case
  proof (cases "sys_calls s = Map.empty")
    case True
    with less.prems(1) have "c_admitted (sys_core s) = 0" by (simp add: count_inv_def)
    with less.prems(3) have "core_step s (s\<lparr>sys_core := core_freeze (sys_core s)\<rparr>)"
      by (intro core_step.freeze_drained) simp_all
    with True core_freeze_final [OF less.prems(3,4)] show ?thesis
      by (intro exI [of _ "s\<lparr>sys_core := core_freeze (sys_core s)\<rparr>"]) (auto intro: r_into_rtranclp simp: undisturbed_def)
  next
    case False
    from progress [OF less.prems(1,2) False] obtain s1 where s1: "core_step s s1" "work s1 < work s" "undisturbed s s1" by blast
    have "same_config (sys_core s1) (sys_core s)"
      by (rule same_config_step [OF s1(1)]) (simp add: same_config_def)
    then have "c_concurrent (sys_core s1) = c_concurrent (sys_core s)" by (simp add: same_config_def)
    with less.hyps [OF s1(2)] count_inv_step [OF s1(1)] final_inv_step [OF s1(1)] less.prems
    obtain s' where "core_step\<^sup>*\<^sup>* s1 s'" "sys_calls s' = Map.empty" "c_final (sys_core s') \<noteq> None" "undisturbed s1 s'"
      by auto
    with s1(1,3) undisturbed_trans show ?thesis by (meson converse_rtranclp_into_rtranclp)
  qed
qed

section \<open>A whole call is a sequence of steps\<close>

text \<open>The end of a call: it is gone, its result is returned for its candidate.\<close>

definition ends_call :: "nat \<Rightarrow> Core \<Rightarrow> Result \<Rightarrow> system \<Rightarrow> system \<Rightarrow> bool" where
  "ends_call p core r s s' \<longleftrightarrow>
     sys_core s' = core \<and> sys_calls s' = (sys_calls s)(p := None) \<and>
     sys_returned s' = sys_returned s @ [(p, sys_submitted s p, r)]"

lemma leave_steps:
  assumes "sys_calls s p = Some (Leaving r)"
  shows "\<exists>s'. core_step\<^sup>*\<^sup>* s s' \<and> ends_call p (publish_leave (sys_core s)) r s s'"
  unfolding ends_call_def by (intro exI conjI, rule r_into_rtranclp, rule core_step.leave [OF assms]) simp_all

lemma ends_call_step:
  assumes "core_step s s1" "\<exists>s'. core_step\<^sup>*\<^sup>* s1 s' \<and> ends_call p core r s1 s'"
    and "\<exists>k. sys_calls s1 = (sys_calls s)(p \<mapsto> k)" "sys_returned s1 = sys_returned s" "sys_submitted s1 p = sys_submitted s p"
  shows "\<exists>s'. core_step\<^sup>*\<^sup>* s s' \<and> ends_call p core r s s'"
  using assms converse_rtranclp_into_rtranclp [of core_step s s1] by (fastforce simp: ends_call_def)

lemma finish_steps:
  assumes "sys_calls s p = Some (Finished r a)"
  shows "\<exists>s'. core_step\<^sup>*\<^sup>* s s' \<and> ends_call p (publish_leave (fst (publish_complete r a (sys_core s)))) r s s'"
proof (rule ends_call_step [OF core_step.complete [OF assms]])
  let ?s = "move p (publish_complete r a (sys_core s)) s"
  have "sys_calls ?s p = Some (Leaving r)" by (simp add: publish_complete_def)
  from leave_steps [OF this]
  show "\<exists>s'. core_step\<^sup>*\<^sup>* ?s s' \<and> ends_call p (publish_leave (fst (publish_complete r a (sys_core s)))) r ?s s'" by simp
qed auto

lemma execute_steps:
  assumes "sys_calls s p = Some (Executing t c a)" "p \<in> sys_expired s \<longleftrightarrow> e"
    and "(case publish_parse e t c a (sys_core s) of
        Parsed _ _ v _ \<Rightarrow> (case publish_install t v (sys_core s) of (k, Finished r b) \<Rightarrow> (k, r, b) | (k, _) \<Rightarrow> (k, dflt, a))
      | Finished r b \<Rightarrow> (sys_core s, r, b) | _ \<Rightarrow> (sys_core s, dflt, a)) = (core, r, b)"
  shows "\<exists>s'. core_step\<^sup>*\<^sup>* s s' \<and> ends_call p (publish_leave (fst (publish_complete r b core))) r s s'"
proof -
  let ?k = "publish_parse e t c a (sys_core s)"
  let ?s = "move p (sys_core s, ?k) s"
  have st: "core_step s ?s" using core_step.parse [OF assms(1)] assms(2) by simp
  have "\<exists>s'. core_step\<^sup>*\<^sup>* ?s s' \<and> ends_call p (publish_leave (fst (publish_complete r b core))) r ?s s'"
  proof (cases ?k)
    case (Finished r' b')
    with assms(3) have eq: "r' = r" "b' = b" "core = sys_core s" by simp_all
    have "sys_calls ?s p = Some (Finished r b)" using Finished eq by simp
    from finish_steps [OF this] show ?thesis using eq by simp
  next
    case (Parsed t' c' v a')
    have t': "t' = t" "c' = c" using Parsed by (auto simp: publish_parse_def split: sum.splits if_splits)
    obtain k' r' b' where i: "publish_install t v (sys_core s) = (k', Finished r' b')"
      by (cases rule: publish_install_cases [of "sys_core s" v t]) auto
    with assms(3) Parsed have eq: "r' = r" "b' = b" "k' = core" by simp_all
    let ?s2 = "(move p (core, Finished r b) ?s)
      \<lparr>sys_installed := sys_installed ?s @ (if r_outcome r = Accepted then [(p, c, b)] else [])\<rparr>"
    have st2: "core_step ?s ?s2"
      by (rule core_step.install [of ?s p t c v a']) (use i eq Parsed t' in simp_all)
    have f: "sys_calls ?s2 p = Some (Finished r b)" and k: "sys_core ?s2 = core" by simp_all
    show ?thesis by (rule ends_call_step [OF st2 finish_steps [OF f, unfolded k]]) auto
  qed (auto simp: publish_parse_def split: sum.splits if_splits)
  with st show ?thesis by (rule ends_call_step) auto
qed

text \<open>The context of a call may end at any time.\<close>

lemma expire_steps:
  "\<exists>s1. core_step\<^sup>*\<^sup>* s s1 \<and> s1 = s\<lparr>sys_expired := (if e then insert p (sys_expired s) else sys_expired s)\<rparr>"
  using core_step.expire [of s p] by (cases e) auto

lemma waiting_steps:
  assumes w: "sys_calls s p = Some (Waiting t c)"
  shows "\<exists>s'. core_step\<^sup>*\<^sup>* s s' \<and>
     ends_call p (publish_leave (fst (publish_give_up t (sys_core s)))) (mk_result t Timeout 0 None) s s'"
proof -
  let ?s1 = "s\<lparr>sys_expired := insert p (sys_expired s)\<rparr>"
  let ?s2 = "move p (publish_give_up t (sys_core s)) ?s1"
  have s1: "core_step s ?s1" by (rule core_step.expire)
  have s2: "core_step ?s1 ?s2" using core_step.give_up [of ?s1 p t c] w by simp
  have "sys_calls ?s2 p = Some (Leaving (mk_result t Timeout 0 None))" by (simp add: publish_give_up_def Let_def)
  from leave_steps [OF this] obtain s' where s': "core_step\<^sup>*\<^sup>* ?s2 s'"
    "ends_call p (publish_leave (sys_core ?s2)) (mk_result t Timeout 0 None) ?s2 s'" by blast
  have "core_step\<^sup>*\<^sup>* s s'" using s1 s2 s'(1) by (meson converse_rtranclp_into_rtranclp)
  with s'(2) show ?thesis by (auto simp: ends_call_def)
qed

lemma slot_steps:
  assumes w: "sys_calls s p = Some (Waiting t c)" and x: "p \<notin> sys_expired s"
    and b: "c_executing (sys_core s) < c_concurrent (sys_core s)"
    and k2: "k2 = fst (publish_start t c (sys_core s))" and a: "a = Active (c_holder (sys_core s))"
    and run: "(case publish_parse e t c a k2 of
        Parsed _ _ v _ \<Rightarrow> (case publish_install t v k2 of (k, Finished r b) \<Rightarrow> (k, r, b) | (k, _) \<Rightarrow> (k, dflt, a))
      | Finished r b \<Rightarrow> (k2, r, b) | _ \<Rightarrow> (k2, dflt, a)) = (core, r, d)"
  shows "\<exists>s'. core_step\<^sup>*\<^sup>* s s' \<and> ends_call p (publish_leave (fst (publish_complete r d core))) r s s'"
proof -
  let ?s1 = "move p (publish_start t c (sys_core s)) s"
  let ?s2 = "?s1\<lparr>sys_expired := (if e then insert p (sys_expired s) else sys_expired s)\<rparr>"
  have s1: "core_step s ?s1" by (rule core_step.start [OF w b])
  have s2: "core_step\<^sup>*\<^sup>* ?s1 ?s2" using expire_steps [of ?s1 e p] by (cases e) auto
  have ex: "sys_calls ?s2 p = Some (Executing t c a)" using a by (simp add: publish_start_def)
  have e: "p \<in> sys_expired ?s2 \<longleftrightarrow> e" using x by simp
  have k: "sys_core ?s2 = k2" using k2 by simp
  obtain s' where s': "core_step\<^sup>*\<^sup>* ?s2 s'" "ends_call p (publish_leave (fst (publish_complete r d core))) r ?s2 s'"
    using execute_steps [OF ex e, unfolded k, OF run] by blast
  have "core_step\<^sup>*\<^sup>* s s'" using s1 s2 s'(1) by (meson converse_rtranclp_into_rtranclp rtranclp_trans)
  with s'(2) show ?thesis by (auto simp: ends_call_def)
qed

lemma Publish_steps:
  assumes p: "sys_calls s p = None" and r: "Publish ctx t c (sys_core s) = (core, r)"
  shows "\<exists>s'. core_step\<^sup>*\<^sup>* s s' \<and> sys_core s' = core \<and> sys_calls s' = sys_calls s \<and>
     sys_returned s' = sys_returned s @ [(p, c, r)]"
proof -
  obtain k out where e: "publish_enter (expired_on_entry ctx) t c (sys_core s) = (k, out)" by fastforce
  from e show ?thesis
  proof (cases rule: publish_enter_cases)
    case (declined r')
    with e r have "k = core" "r' = r" by (simp_all add: Publish_def)
    with core_step.decline [OF p, of "expired_on_entry ctx" t c core r] e declined(1) show ?thesis
      by (intro exI [of _ "s\<lparr>sys_core := core, sys_returned := sys_returned s @ [(p, c, r)]\<rparr>"]) auto
  next
    case admitted
    let ?s1 = "move p (k, Waiting t c) (submit_call p c s)"
    have s1: "core_step s ?s1" by (rule core_step.admit [OF p]) (use e admitted(1) in simp)
    have w: "sys_calls ?s1 p = Some (Waiting t c)" and x: "p \<notin> sys_expired ?s1" by simp_all
    have "\<exists>s'. core_step\<^sup>*\<^sup>* ?s1 s' \<and> ends_call p core r ?s1 s'"
    proof (cases "expired_waiting ctx \<or> c_executing k \<ge> c_concurrent k")
      case True
      moreover have "core = publish_leave (fst (publish_give_up t k))" "r = mk_result t Timeout 0 None"
        using r e admitted(1) True by (auto simp: Publish_def publish_give_up_def Let_def)
      ultimately show ?thesis using waiting_steps [OF w] by simp
    next
      case False
      let ?k2 = "fst (publish_start t c k)"
      let ?r0 = "mk_result t InternalError 0 (Some ReasonInternal)"
      let ?a = "Active (c_holder k)"
      obtain k3 r3 b3 where run: "(case publish_parse (expired_after_parse ctx) t c ?a ?k2 of
          Parsed _ _ v _ \<Rightarrow> (case publish_install t v ?k2 of (k, Finished r b) \<Rightarrow> (k, r, b) | (k, _) \<Rightarrow> (k, ?r0, ?a))
        | Finished r b \<Rightarrow> (?k2, r, b) | _ \<Rightarrow> (?k2, ?r0, ?a)) = (k3, r3, b3)" by (rule prod_cases3)
      have "(core, r) = (publish_leave (fst (publish_complete r3 b3 k3)), r3)"
        using r e admitted(1) False run by (auto simp: Publish_def Let_def simp del: Active_h_active)
      with slot_steps [OF w x _ _ _ run] False show ?thesis by simp
    qed
    then obtain s' where "core_step\<^sup>*\<^sup>* ?s1 s'" "ends_call p core r ?s1 s'" by blast
    with s1 p show ?thesis by (intro exI [of _ s']) (auto simp: ends_call_def intro: converse_rtranclp_into_rtranclp)
  qed
qed

section \<open>Properties\<close>

lemma fresh_not_closed_reach:
  assumes "fresh_core k" "core_reach k s"
  shows "1 \<le> c_concurrent (sys_core s) \<and> same_config (sys_core s) k"
  using core_reach_inv [OF assms] assms(1) by (simp add: history_inv_def same_config_def fresh_core_def)

text \<open>
  C8: admission is bounded. In every state that any interleaving of publications, closing and
  freezing can reach, the number of calls in progress is the number of admission tokens taken and is
  at most concurrent plus pending, and the number of calls that hold an execution slot is the number
  of slots taken and is at most concurrent.
\<close>

theorem core_admission_bounded:
  assumes "fresh_core k" "core_reach k s"
  shows "c_admissions (sys_core s) = card (dom (sys_calls s)) \<and> card (dom (sys_calls s)) \<le> c_capacity k \<and>
     c_executing (sys_core s) = card (slots (sys_calls s)) \<and> card (slots (sys_calls s)) \<le> c_concurrent k"
  using core_reach_inv [OF assms] fresh_not_closed_reach [OF assms]
  by (simp add: count_inv_def same_config_def)

definition accept_x :: Parser where
  "accept_x c l = (if c = ''x'' then Inr Zero else Inl (Rejection ReasonMalformed))"

definition accept_zero :: Parser where
  "accept_zero c l = Inr Zero"

definition sample_core :: "Parser \<Rightarrow> Core" where
  "sample_core p = the (NewWithParser NewInitialHolder DefaultLimits 1 1 p)"

lemma sample_core_fresh: "fresh_core (sample_core p)"
  by (rule NewWithParser_fresh [of NewInitialHolder DefaultLimits 1 1 p])
     (simp_all add: sample_core_def NewWithParser_def NewInitialHolder_def NewHolder_def Frozen_def)

lemma sample_core_fields:
  "c_holder (sample_core p) = NewInitialHolder" "c_parser (sample_core p) = p" "c_closed (sample_core p) = False"
  "c_capacity (sample_core p) = 2" "c_concurrent (sample_core p) = 1" "c_admissions (sample_core p) = 0"
  "c_executing (sample_core p) = 0" "c_final (sample_core p) = None" "c_log (sample_core p) = []"
  "c_limits (sample_core p) = DefaultLimits" "c_admitted (sample_core p) = 0"
  by (simp_all add: sample_core_def NewWithParser_def)

lemma sample_reach: "core_reach (sample_core p) (sys_init (sample_core p))"
  by (simp add: core_reach_def)

text \<open>A core with one slot and one place to wait, both taken: call 1 executes, call 2 waits.\<close>

definition busy_waiting :: "nat \<Rightarrow> bytes \<Rightarrow> system \<Rightarrow> system" where
  "busy_waiting p c s = move p (fst (publish_enter False Unix c (sys_core s)), Waiting Unix c) (submit_call p c s)"

definition busy_system :: system where
  "busy_system =
     (let s = busy_waiting 2 ''y'' (busy_waiting 1 ''x'' (sys_init (sample_core accept_zero)))
      in move 1 (publish_start Unix ''x'' (sys_core s)) s)"

lemma busy_waiting_step:
  assumes "sys_calls s p = None" "\<not> c_closed (sys_core s)" "c_admissions (sys_core s) < c_capacity (sys_core s)"
  shows "core_step s (busy_waiting p c s)"
  unfolding busy_waiting_def
  by (rule core_step.admit [where e = False and t = Unix])
     (use assms in \<open>simp_all add: publish_enter_def validTransport_def Transports_def\<close>)

lemma busy_waiting_sel:
  assumes "\<not> c_closed (sys_core s)" "c_admissions (sys_core s) < c_capacity (sys_core s)"
  shows "sys_core (busy_waiting p c s) =
      (sys_core s)\<lparr>c_admissions := c_admissions (sys_core s) + 1, c_admitted := c_admitted (sys_core s) + 1\<rparr>"
    "sys_calls (busy_waiting p c s) = (sys_calls s)(p \<mapsto> Waiting Unix c)"
  using assms by (simp_all add: busy_waiting_def publish_enter_def validTransport_def Transports_def)

lemma sys_init_sel [simp]:
  "sys_core (sys_init k) = k" "sys_calls (sys_init k) = Map.empty" "sys_expired (sys_init k) = {}"
  "sys_freeze_expired (sys_init k) = False" "sys_installed (sys_init k) = []" "sys_returned (sys_init k) = []"
  by (simp_all add: sys_init_def)

lemma busy_reach: "core_reach (sample_core accept_zero) busy_system"
proof -
  let ?s0 = "sys_init (sample_core accept_zero)"
  let ?s1 = "busy_waiting 1 ''x'' ?s0"
  let ?s2 = "busy_waiting 2 ''y'' ?s1"
  have "core_step ?s0 ?s1" by (rule busy_waiting_step) (simp_all add: sample_core_fields)
  moreover have "core_step ?s1 ?s2"
    by (rule busy_waiting_step) (simp_all add: busy_waiting_sel sample_core_fields)
  moreover have "core_step ?s2 busy_system"
    unfolding busy_system_def Let_def by (rule core_step.start) (simp_all add: busy_waiting_sel sample_core_fields)
  ultimately show ?thesis unfolding core_reach_def by (meson converse_rtranclp_into_rtranclp rtranclp.rtrancl_refl)
qed

lemma busy_fields:
  "dom (sys_calls busy_system) = {1, 2}" "sys_expired busy_system = {}" "\<not> sys_freeze_expired busy_system"
  "sys_submitted busy_system 1 = ''x''" "sys_submitted busy_system 2 = ''y''"
  by (auto simp: busy_system_def Let_def busy_waiting_def sample_core_fields)

theorem core_admission_bounded_witness:
  "c_admissions (sys_core busy_system) = 2 \<and> card (dom (sys_calls busy_system)) = 2 \<and>
   2 \<le> c_capacity (sample_core accept_zero) \<and>
   c_executing (sys_core busy_system) = card (slots (sys_calls busy_system)) \<and>
   card (slots (sys_calls busy_system)) \<le> c_concurrent (sample_core accept_zero)"
  using core_admission_bounded [OF sample_core_fresh busy_reach] by (simp add: busy_fields)

text \<open>
  C9: the final snapshot is final. Once the core is frozen, with calls still in progress or not, it
  is closed, readers see exactly the frozen snapshot, and no further step of any call changes it.
\<close>

theorem core_final_fixed:
  assumes "fresh_core k" "core_reach k s" "c_final (sys_core s) = Some a" "core_step\<^sup>*\<^sup>* s s'"
  shows "c_closed (sys_core s') \<and> c_final (sys_core s') = Some a \<and> Active (c_holder (sys_core s')) = a"
proof -
  have "final_inv (sys_core s') \<and> c_final (sys_core s') = Some a"
    using assms(4)
  proof (induction rule: rtranclp_induct)
    case base
    with assms core_reach_inv show ?case by blast
  next
    case (step s1 s2)
    with final_inv_step [OF step(2)] show ?case by simp
  qed
  then show ?thesis by (simp add: final_inv_def)
qed

lemma sample_frozen_reach:
  "core_reach (sample_core p) ((sys_init (sample_core p))\<lparr>sys_core := core_freeze (core_close (sample_core p))\<rparr>)"
proof -
  let ?s = "(sys_init (sample_core p))\<lparr>sys_core := core_close (sample_core p)\<rparr>"
  have "core_step (sys_init (sample_core p)) ?s" using core_step.close [of "sys_init (sample_core p)"]
    by (simp add: sys_init_def)
  moreover have "core_step ?s (?s\<lparr>sys_core := core_freeze (sys_core ?s)\<rparr>)"
    by (rule core_step.freeze_drained) (simp_all add: core_close_def sample_core_fields)
  ultimately show ?thesis unfolding core_reach_def by simp
qed

theorem core_final_fixed_witness:
  "c_closed (core_freeze (core_close (sample_core accept_zero))) \<and>
   c_final (core_freeze (core_close (sample_core accept_zero))) = Some (NewActive Zero 0) \<and>
   Active (c_holder (core_freeze (core_close (sample_core accept_zero)))) = NewActive Zero 0"
proof -
  let ?s = "(sys_init (sample_core accept_zero))\<lparr>sys_core := core_freeze (core_close (sample_core accept_zero))\<rparr>"
  have "c_final (sys_core ?s) = Some (NewActive Zero 0)"
    by (simp add: core_freeze_def core_close_def sample_core_fields Freeze_def NewInitialHolder_def NewHolder_def)
  from core_final_fixed [OF sample_core_fresh sample_frozen_reach this rtranclp.rtrancl_refl] show ?thesis by simp
qed

text \<open>
  C10: an accepted publication was installed. Over every interleaving the installed snapshots carry
  consecutive generations and the last one is active; and a call that was made with a candidate and
  is told accepted has had exactly that candidate parsed and the result of parsing it installed,
  under the generation the call is told.
\<close>

theorem core_accepted_installed:
  assumes "fresh_core k" "core_reach k s"
  shows "map (\<lambda>a. unat (a_generation a)) (installed_snapshots s) =
       [Suc (unat (a_generation (Active (c_holder k)))) ..<
        Suc (unat (a_generation (Active (c_holder k))) + length (sys_installed s))] \<and>
     Active (c_holder (sys_core s)) = last (Active (c_holder k) # installed_snapshots s) \<and>
     (\<forall>p c r. (p, c, r) \<in> set (sys_returned s) \<and> r_outcome r = Accepted \<longrightarrow>
        (\<exists>a. (p, c, a) \<in> set (sys_installed s) \<and> a_generation a = r_generation r \<and>
           c_parser k c (c_limits k) = Inr (a_validated a)))"
proof -
  have src: "source_inv k s" and hist: "history_inv k s" using core_reach_inv [OF assms] by blast+
  have "\<exists>a. (p, c, a) \<in> set (sys_installed s) \<and> a_generation a = r_generation r \<and>
      c_parser k c (c_limits k) = Inr (a_validated a)"
    if "(p, c, r) \<in> set (sys_returned s)" "r_outcome r = Accepted" for p c r
  proof -
    have "decided s p c r" using that by (simp add: decided_def)
    with that(2) src obtain a where "(p, c, a) \<in> set (sys_installed s)" "a_generation a = r_generation r"
      unfolding source_inv_def by blast
    with src show ?thesis unfolding source_inv_def by blast
  qed
  with hist show ?thesis unfolding history_inv_def by blast
qed

abbreviation open_ctx :: publish_ctx where
  "open_ctx \<equiv> \<lparr>expired_on_entry = False, expired_waiting = False, expired_after_parse = False\<rparr>"

lemma sample_publish:
  assumes "p ''x'' DefaultLimits = Inr Zero"
  shows "snd (Publish open_ctx Unix ''x'' (sample_core p)) = mk_result Unix Accepted 1 None"
  using assms
  by (simp add: Publish_def publish_enter_def publish_start_def publish_parse_def publish_install_def
      publish_complete_def publish_leave_def observe_def sample_core_fields validTransport_def
      Transports_def Install_def Let_def NewInitialHolder_def NewHolder_def NewActive_def Zero_def
      max_uint64_def bind_families_def)

theorem core_accepted_installed_witness:
  "\<exists>s a. core_reach (sample_core accept_x) s \<and>
     (7, ''x'', mk_result Unix Accepted 1 None) \<in> set (sys_returned s) \<and>
     (7, ''x'', a) \<in> set (sys_installed s) \<and> a_generation a = 1 \<and> accept_x ''x'' DefaultLimits = Inr (a_validated a)"
proof -
  let ?k = "sample_core accept_x"
  have x: "accept_x ''x'' DefaultLimits = Inr Zero" by (simp add: accept_x_def)
  have "Publish open_ctx Unix ''x'' (sys_core (sys_init ?k)) =
      (fst (Publish open_ctx Unix ''x'' ?k), mk_result Unix Accepted 1 None)"
    using sample_publish [where p = accept_x, OF x] by (simp add: prod_eq_iff)
  from Publish_steps [OF _ this, of 7]
  obtain s where s: "core_step\<^sup>*\<^sup>* (sys_init ?k) s" "(7, ''x'', mk_result Unix Accepted 1 None) \<in> set (sys_returned s)"
    by auto
  then have r: "core_reach ?k s" by (simp add: core_reach_def)
  have "r_outcome (mk_result Unix Accepted 1 None) = Accepted" by (simp add: mk_result_def)
  with core_accepted_installed [OF sample_core_fresh r] s(2)
  obtain a where "(7, ''x'', a) \<in> set (sys_installed s)" "a_generation a = r_generation (mk_result Unix Accepted 1 None)"
    "c_parser ?k ''x'' (c_limits ?k) = Inr (a_validated a)" by blast
  with r s(2) show ?thesis by (intro exI [of _ s] exI [of _ a]) (simp add: mk_result_def sample_core_fields)
qed

text \<open>
  C11: closing always leads to the frozen state, without the help of a context that ends. From every
  reachable state in which admission is closed, the admitted calls can all run to their end, however
  many wait for a slot, each call in progress gets an answer, and the core then freezes; no context
  of a call and no context of \<^verbatim>\<open>CloseAndFreeze\<close> ends on the way. A call can give up waiting and
  a \<^verbatim>\<open>CloseAndFreeze\<close> can freeze the core early only when its context has ended, so where none
  has, the calls get their slots and the freeze is the one that follows the last admitted call.
\<close>

theorem core_close_drains:
  assumes "fresh_core k" "core_reach k s" "c_closed (sys_core s)"
  shows "\<exists>s'. core_step\<^sup>*\<^sup>* s s' \<and> sys_calls s' = Map.empty \<and> c_final (sys_core s') \<noteq> None \<and>
     sys_expired s' = sys_expired s \<and> sys_freeze_expired s' = sys_freeze_expired s \<and>
     (\<forall>p \<in> dom (sys_calls s). \<exists>r. (p, sys_submitted s p, r) \<in> set (sys_returned s'))"
proof -
  obtain s' where "core_step\<^sup>*\<^sup>* s s'" "sys_calls s' = Map.empty" "c_final (sys_core s') \<noteq> None" "undisturbed s s'"
    using core_reach_inv [OF assms(1,2)] fresh_not_closed_reach [OF assms(1,2)] drain assms(3) by blast
  then show ?thesis unfolding undisturbed_def by (intro exI [of _ s']) auto
qed

theorem core_close_drains_witness:
  "\<exists>s'. core_step\<^sup>*\<^sup>* (busy_system\<lparr>sys_core := core_close (sys_core busy_system)\<rparr>) s' \<and>
     sys_calls s' = Map.empty \<and> c_final (sys_core s') \<noteq> None \<and> sys_expired s' = {} \<and> \<not> sys_freeze_expired s' \<and>
     (\<exists>r1 r2. {(1, ''x'', r1), (2, ''y'', r2)} \<subseteq> set (sys_returned s'))"
proof -
  let ?s = "busy_system\<lparr>sys_core := core_close (sys_core busy_system)\<rparr>"
  have "core_reach (sample_core accept_zero) ?s"
    using busy_reach core_step.close [of busy_system] unfolding core_reach_def by (meson rtranclp.rtrancl_into_rtrancl)
  moreover have "c_closed (sys_core ?s)" by (simp add: core_close_def)
  ultimately obtain s' where s': "core_step\<^sup>*\<^sup>* ?s s'" "sys_calls s' = Map.empty" "c_final (sys_core s') \<noteq> None"
      "sys_expired s' = sys_expired ?s" "sys_freeze_expired s' = sys_freeze_expired ?s"
      "\<forall>p \<in> dom (sys_calls ?s). \<exists>r. (p, sys_submitted ?s p, r) \<in> set (sys_returned s')"
    using core_close_drains [OF sample_core_fresh] by blast
  from s'(6) have "\<exists>r. (1, ''x'', r) \<in> set (sys_returned s')" "\<exists>r. (2, ''y'', r) \<in> set (sys_returned s')"
    by (simp_all add: busy_fields [simplified])
  with s'(1-5) show ?thesis by (intro exI [of _ s']) (auto simp: busy_fields)
qed

text \<open>
  C12: the handler as one function is one of the interleavings: whatever calls are in progress, a
  call of \<open>Publish\<close> that runs to its end without interruption is a sequence of steps that ends
  in the same core, returns the same result for its candidate and leaves the other calls alone.
\<close>

theorem Publish_refines_steps:
  assumes "sys_calls s p = None"
  shows "\<exists>s'. core_step\<^sup>*\<^sup>* s s' \<and> sys_core s' = fst (Publish ctx t c (sys_core s)) \<and>
     sys_calls s' = sys_calls s \<and> sys_returned s' = sys_returned s @ [(p, c, snd (Publish ctx t c (sys_core s)))]"
  using Publish_steps [OF assms, of ctx t c] by (metis prod.collapse)

theorem Publish_refines_steps_witness:
  "\<exists>s'. core_step\<^sup>*\<^sup>* (sys_init (sample_core accept_zero)) s' \<and>
     sys_core s' = fst (Publish open_ctx Unix ''x'' (sample_core accept_zero)) \<and> sys_calls s' = Map.empty \<and>
     sys_returned s' = [(7, ''x'', mk_result Unix Accepted 1 None)]"
proof -
  have "accept_zero ''x'' DefaultLimits = Inr Zero" by (simp add: accept_zero_def)
  from sample_publish [where p = accept_zero, OF this]
    Publish_refines_steps [of "sys_init (sample_core accept_zero)" 7 open_ctx Unix "''x''"]
  show ?thesis by simp
qed

end
