(* ===== verification/Base64.thy ===== *)
theory Base64
  imports Prelude
begin

text \<open>
  \<^verbatim>\<open>base64.RawURLEncoding\<close> of the Go library: the URL-safe alphabet without padding. The
  decoder skips carriage returns and line feeds wherever they stand, and it does not check that the
  unused low bits of the last character are zero.
\<close>

definition b64_char :: "nat \<Rightarrow> char" where
  "b64_char n =
     (if n < 26 then char_of (65 + n) else if n < 52 then char_of (71 + n)
      else if n < 62 then char_of (n - 4) else if n = 62 then CHR ''-'' else CHR ''_'')"

definition b64_val :: "char \<Rightarrow> nat option" where
  "b64_val c =
     (if byte_in 65 90 c then Some (of_char c - 65) else if byte_in 97 122 c then Some (of_char c - 71)
      else if byte_in 48 57 c then Some (of_char c + 4) else if c = CHR ''-'' then Some 62
      else if c = CHR ''_'' then Some 63 else None)"

fun b64_encode_bytes :: "nat list \<Rightarrow> nat list" where
  "b64_encode_bytes [] = []"
| "b64_encode_bytes [a] = [a div 4, a mod 4 * 16]"
| "b64_encode_bytes [a, b] = [a div 4, a mod 4 * 16 + b div 16, b mod 16 * 4]"
| "b64_encode_bytes (a # b # c # r) =
     [a div 4, a mod 4 * 16 + b div 16, b mod 16 * 4 + c div 64, c mod 64] @ b64_encode_bytes r"

fun b64_decode_quads :: "nat list \<Rightarrow> nat list option" where
  "b64_decode_quads [] = Some []"
| "b64_decode_quads [x] = None"
| "b64_decode_quads [x, y] = Some [x * 4 + y div 16]"
| "b64_decode_quads [x, y, z] = Some [x * 4 + y div 16, y mod 16 * 16 + z div 4]"
| "b64_decode_quads (x # y # z # w # r) =
     map_option (\<lambda>bs. [x * 4 + y div 16, y mod 16 * 16 + z div 4, z mod 4 * 64 + w] @ bs) (b64_decode_quads r)"

definition EncodeToString :: "bytes \<Rightarrow> string" where
  "EncodeToString s = map b64_char (b64_encode_bytes (map of_char s))"

fun vals_of :: "string \<Rightarrow> nat list option" where
  "vals_of [] = Some []"
| "vals_of (c # cs) =
     (if c = CHR 0x0D \<or> c = CHR 0x0A then vals_of cs
      else case b64_val c of None \<Rightarrow> None | Some v \<Rightarrow> map_option ((#) v) (vals_of cs))"

definition DecodeString :: "string \<Rightarrow> bytes option" where
  "DecodeString s = Option.bind (vals_of s) (\<lambda>vs. map_option (map char_of) (b64_decode_quads vs))"

definition EncodedLen :: "nat \<Rightarrow> nat" where
  "EncodedLen n = n div 3 * 4 + (n mod 3 * 8 + 5) div 6"

section \<open>Round trip\<close>

lemma of_char_b64_char: "n < 64 \<Longrightarrow> (of_char (b64_char n) :: nat) =
    (if n < 26 then 65 + n else if n < 52 then 71 + n else if n < 62 then n - 4 else if n = 62 then 45 else 95)"
  by (auto simp: b64_char_def)

lemma b64_val_char: "n < 64 \<Longrightarrow> b64_val (b64_char n) = Some n"
proof -
  assume "n < 64"
  then consider "n < 26" | "26 \<le> n" "n < 52" | "52 \<le> n" "n < 62" | "n = 62" | "n = 63" by linarith
  then show ?thesis
    by cases (use of_char_b64_char [of n] in \<open>auto simp: b64_val_def byte_in_def b64_char_def\<close>)
qed

text \<open>The alphabet has no space, no padding and no line characters.\<close>

lemma b64_char_plain:
  "n < 64 \<Longrightarrow> b64_char n \<noteq> CHR 0x0D \<and> b64_char n \<noteq> CHR 0x0A \<and> b64_char n \<noteq> CHR '' '' \<and> b64_char n \<noteq> CHR ''=''"
proof -
  assume "n < 64"
  then have "(of_char (b64_char n) :: nat) \<notin> {10, 13, 32, 61}" by (auto simp: of_char_b64_char)
  then show ?thesis by auto
qed

lemma b64_encode_bytes_less: "list_all (\<lambda>b. b < 256) bs \<Longrightarrow> list_all (\<lambda>v. v < 64) (b64_encode_bytes bs)"
  by (induction bs rule: b64_encode_bytes.induct) auto

lemma b64_roundtrip: "list_all (\<lambda>b. b < 256) bs \<Longrightarrow> b64_decode_quads (b64_encode_bytes bs) = Some bs"
proof (induction bs rule: b64_encode_bytes.induct)
  case (3 a b)
  have "a mod 4 * 16 + b div 16 < 64" using 3 by auto
  then have "(a mod 4 * 16 + b div 16) div 16 = a mod 4" "(a mod 4 * 16 + b div 16) mod 16 = b div 16"
    using 3 by (auto simp: div_less)
  then show ?case using 3 by auto
next
  case (4 a b c r)
  have "(a mod 4 * 16 + b div 16) div 16 = a mod 4" "(a mod 4 * 16 + b div 16) mod 16 = b div 16"
    "(b mod 16 * 4 + c div 64) div 4 = b mod 16" "(b mod 16 * 4 + c div 64) mod 4 = c div 64"
    using 4 by (auto simp: div_less)
  then show ?case using 4 by auto
qed auto

lemma vals_of_encode: "list_all (\<lambda>v. v < 64) vs \<Longrightarrow> vals_of (map b64_char vs) = Some vs"
  by (induction vs) (auto simp: b64_char_plain b64_val_char)

lemma bytes_less: "list_all (\<lambda>b. b < 256) (map (of_char :: char \<Rightarrow> nat) s)"
  by (simp add: list_all_iff)

lemma Decode_Encode: "DecodeString (EncodeToString s) = Some s"
  using b64_roundtrip [OF bytes_less [of s]] vals_of_encode [OF b64_encode_bytes_less [OF bytes_less [of s]]]
  by (simp add: DecodeString_def EncodeToString_def o_def)

lemma EncodeToString_plain: "set (EncodeToString s) \<inter> {CHR 0x0D, CHR 0x0A, CHR '' '', CHR ''=''} = {}"
proof -
  have "c \<notin> {CHR 0x0D, CHR 0x0A, CHR '' '', CHR ''=''}" if "c \<in> set (EncodeToString s)" for c
  proof -
    from that obtain n where "c = b64_char n" "n < 64"
      using b64_encode_bytes_less [OF bytes_less [of s]] by (auto simp: EncodeToString_def list_all_iff)
    with b64_char_plain [of n] show ?thesis by auto
  qed
  then show ?thesis by blast
qed

lemma EncodedLen_alt: "EncodedLen n = (4 * n + 2) div 3"
proof -
  obtain q r where n: "n = 3 * q + r" "r < 3" by (metis mod_less_divisor mult_div_mod_eq zero_less_numeral)
  have "n div 3 = q" "n mod 3 = r" using n by auto
  moreover have "r = 0 \<or> r = 1 \<or> r = 2" using n(2) by auto
  ultimately show ?thesis unfolding EncodedLen_def using n(1) by auto
qed

lemma length_b64_encode_bytes: "length (b64_encode_bytes bs) = EncodedLen (length bs)"
proof (induction bs rule: b64_encode_bytes.induct)
  case (4 a b c r)
  have step: "EncodedLen (n + 3) = 4 + EncodedLen n" for n
    unfolding EncodedLen_alt by presburger
  have "length (a # b # c # r) = length r + 3" by simp
  then have "EncodedLen (length (a # b # c # r)) = 4 + EncodedLen (length r)" by (simp only: step)
  with 4 show ?case by simp
qed (simp_all add: EncodedLen_def)

lemma length_EncodeToString: "length (EncodeToString s) = EncodedLen (length s)"
  by (simp add: EncodeToString_def length_b64_encode_bytes)

lemma EncodedLen_mono: "m \<le> n \<Longrightarrow> EncodedLen m \<le> EncodedLen n"
  unfolding EncodedLen_alt by (intro div_le_mono) simp

lemma EncodeToString_nonempty: "s \<noteq> [] \<Longrightarrow> EncodeToString s \<noteq> []"
proof -
  assume "s \<noteq> []"
  then have "0 < length s" by simp
  then have "0 < EncodedLen (length s)" unfolding EncodedLen_alt by presburger
  then show ?thesis by (metis length_EncodeToString list.size(3) less_irrefl)
qed

text \<open>The decoder skips a carriage return between the characters.\<close>

lemma decode_skips_carriage_return: "DecodeString (''QU'' @ [CHR 0x0D] @ ''I'') = Some ''AB''"
  by code_simp

end
