(* ===== verification/Msp_Server.thy ===== *)
theory Msp_Server
  imports Ingestion Base64
begin

text \<open>
  The socket snapshot protocol MSP/1 on the server side
  (\<^verbatim>\<open>internal/socketingest/protocol.go\<close>): frames on a byte stream, transactions that
  collect the parts of a candidate, and the commit that publishes it.

  The state of a connection is its map of open transactions, with the count of transaction slots
  taken over all connections, the notifications of the observer, and the publisher. The publisher is
  the interface of the source: an operation on a state of its own, given the deadline, the transport
  and the candidate. The clock is an argument of every operation that reads it. Deadlines, timeouts
  and failures of the connection itself are not modelled: they end the connection.
\<close>

section \<open>Configuration\<close>

record msp_config =
  cfg_FrameBytes :: int
  cfg_Parts :: int
  cfg_Connections :: int
  cfg_Transactions :: int
  cfg_TransactionTimeout :: int
  cfg_ReadTimeout :: int
  cfg_WriteTimeout :: int
  cfg_DecodedBytes :: int
  cfg_SnapshotBytes :: int

definition DefaultConfig :: msp_config where
  "DefaultConfig =
     \<lparr>cfg_FrameBytes = 8 * 2 ^ 10, cfg_Parts = 256, cfg_Connections = 8, cfg_Transactions = 4,
      cfg_TransactionTimeout = 5 * 10 ^ 9, cfg_ReadTimeout = 5 * 10 ^ 9, cfg_WriteTimeout = 5 * 10 ^ 9,
      cfg_DecodedBytes = 2 * 2 ^ 20, cfg_SnapshotBytes = 2 ^ 20\<rparr>"

definition payload_characters :: "int \<Rightarrow> int \<Rightarrow> nat \<Rightarrow> int" where
  "payload_characters frame_bytes id_bytes index =
     frame_bytes - go_len ''MSP/1 SNAPSHOT_PART '' - id_bytes - 1 - go_len (itoa index) - 1 - 1"

definition EffectiveDecodedCapacity :: "int \<Rightarrow> int \<Rightarrow> int" where
  "EffectiveDecodedCapacity frame_bytes parts =
     sum_list (map (\<lambda>index. let n = payload_characters frame_bytes 64 index
                            in if n > 0 then n * 3 div 4 else 0) [0..<nat parts])"

definition config_valid :: "msp_config \<Rightarrow> bool" where
  "config_valid c \<longleftrightarrow> \<not>
     (cfg_FrameBytes c < 64 \<or> cfg_Parts c < 1 \<or> cfg_Connections c < 1 \<or> cfg_Transactions c < 1 \<or>
      cfg_TransactionTimeout c \<le> 0 \<or> cfg_ReadTimeout c \<le> 0 \<or> cfg_WriteTimeout c \<le> 0 \<or>
      cfg_DecodedBytes c < 1 \<or> cfg_SnapshotBytes c < 1 \<or> cfg_DecodedBytes c < cfg_SnapshotBytes c \<or>
      cfg_FrameBytes c > cfg_DecodedBytes c \<or>
      EffectiveDecodedCapacity (cfg_FrameBytes c) (cfg_Parts c) < cfg_SnapshotBytes c)"

section \<open>State\<close>

record transaction =
  tx_id :: string
  tx_parts :: "bytes list"
  tx_next :: nat
  tx_declared :: nat
  tx_actual :: nat
  tx_expires :: int

record 'p msp =
  msp_cfg :: msp_config
  msp_slots :: nat
  msp_txs :: "string \<rightharpoonup> transaction"
  msp_rejections :: "TransportFailure list"
  msp_expirations :: nat
  msp_publisher :: 'p

type_synonym 'p publish_op = "int \<Rightarrow> Transport \<Rightarrow> bytes \<Rightarrow> 'p \<Rightarrow> 'p \<times> Result"

section \<open>Frames\<close>

definition msp_protocol :: string where "msp_protocol = ''MSP/1''"

definition publicationIDPattern :: "string \<Rightarrow> bool" where
  "publicationIDPattern s \<longleftrightarrow>
     1 \<le> length s \<and> length s \<le> 64 \<and>
     list_all (\<lambda>c. byte_in 65 90 c \<or> byte_in 97 122 c \<or> is_digit c \<or> c = CHR ''_'' \<or> c = CHR ''-'') s"

definition canonicalUint :: "string \<Rightarrow> nat option" where
  "canonicalUint s = (if s = [] \<or> (1 < length s \<and> hd s = CHR ''0'') then None else parse_uint 31 s)"

definition responseID :: "string list \<Rightarrow> string" where
  "responseID fs =
     (if 2 < length fs \<and> publicationIDPattern (fs ! 2) then fs ! 2 else ''invalid'')"

definition nack :: "string \<Rightarrow> string \<Rightarrow> string" where
  "nack ident code = with_newline (msp_protocol @ '' NACK '' @ ident @ '' '' @ code)"

definition frame_accepted :: "string \<Rightarrow> string \<Rightarrow> string" where
  "frame_accepted ident what = with_newline (msp_protocol @ '' FRAME_ACCEPTED '' @ ident @ '' '' @ what)"

datatype frame = Frame string | Frame_Failure TransportFailure | Frame_EOF

text \<open>
  The buffered reader holds \<^verbatim>\<open>FrameBytes\<close> bytes: a line that does not end within them is
  skipped to its end and reported; a stream that ends before is the end of the connection.
\<close>

definition readFrame :: "nat \<Rightarrow> string \<Rightarrow> frame \<times> string" where
  "readFrame limit s =
     (if s = [] then (Frame_EOF, [])
      else if newline \<in> set (take limit s) then
        (let line = takeWhile (\<lambda>c. c \<noteq> newline) s @ [newline]; rest = tl (dropWhile (\<lambda>c. c \<noteq> newline) s)
         in if length line > limit then (Frame_Failure FailureFrameLimit, rest) else (Frame line, rest))
      else if limit \<le> length s then (Frame_Failure FailureFrameLimit, tl (dropWhile (\<lambda>c. c \<noteq> newline) s))
      else (Frame_EOF, []))"

section \<open>Handlers\<close>

definition reject :: "string \<Rightarrow> TransportFailure \<Rightarrow> 'p msp \<Rightarrow> 'p msp \<times> string" where
  "reject ident failure st =
     (st\<lparr>msp_rejections := msp_rejections st @ [failure]\<rparr>, nack ident (failure_string failure))"

text \<open>A slot goes back once per transaction, when it leaves the map.\<close>

definition drop_tx :: "string \<Rightarrow> 'p msp \<Rightarrow> 'p msp" where
  "drop_tx ident st = st\<lparr>msp_txs := (msp_txs st)(ident := None), msp_slots := msp_slots st - 1\<rparr>"

definition note_expired :: "'p msp \<Rightarrow> 'p msp" where
  "note_expired st = st\<lparr>msp_expirations := msp_expirations st + 1\<rparr>"

definition msp_begin :: "int \<Rightarrow> string list \<Rightarrow> 'p msp \<Rightarrow> 'p msp \<times> string" where
  "msp_begin now fs st =
     (if length fs \<noteq> 5 \<or> \<not> publicationIDPattern (fs ! 2) then reject (responseID fs) FailureMalformed st
      else
        let ident = fs ! 2 in
        case canonicalUint (fs ! 3) of
          None \<Rightarrow> reject ident FailurePartLimit st
        | Some parts \<Rightarrow>
            if parts < 1 \<or> int parts > cfg_Parts (msp_cfg st) then reject ident FailurePartLimit st
            else case canonicalUint (fs ! 4) of
              None \<Rightarrow> reject ident FailureTransactionInvalid st
            | Some decoded \<Rightarrow>
                if decoded < 1 \<or> int decoded > cfg_DecodedBytes (msp_cfg st)
                  then reject ident FailureTransactionInvalid st
                else if msp_txs st ident \<noteq> None then reject ident FailureTransactionInvalid st
                else if int (msp_slots st) \<ge> cfg_Transactions (msp_cfg st)
                  then (st, nack ident (outcome_string Busy))
                else
                  (st\<lparr>msp_slots := msp_slots st + 1,
                      msp_txs := (msp_txs st)(ident \<mapsto>
                        \<lparr>tx_id = ident, tx_parts = replicate parts [], tx_next = 0, tx_declared = decoded,
                         tx_actual = 0, tx_expires = now + cfg_TransactionTimeout (msp_cfg st)\<rparr>)\<rparr>,
                   frame_accepted ident ''BEGIN''))"

definition msp_part :: "int \<Rightarrow> string list \<Rightarrow> 'p msp \<Rightarrow> 'p msp \<times> string" where
  "msp_part now fs st =
     (if length fs \<noteq> 5 \<or> \<not> publicationIDPattern (fs ! 2) then reject (responseID fs) FailureMalformed st
      else
        let ident = fs ! 2 in
        case msp_txs st ident of
          None \<Rightarrow> reject ident FailureTransactionInvalid st
        | Some tx \<Rightarrow>
            if \<not> now < tx_expires tx then
              reject ident FailureTransactionExpired (note_expired (drop_tx ident st))
            else case canonicalUint (fs ! 3) of
              None \<Rightarrow> reject ident FailurePartLimit st
            | Some index \<Rightarrow>
                if index \<ge> length (tx_parts tx) then reject ident FailurePartLimit st
                else if index < tx_next tx then reject ident FailureDuplicatePart st
                else if index > tx_next tx then reject ident FailureMissingPart st
                else if CHR ''='' \<in> set (fs ! 4) then reject ident FailureMalformed st
                else case DecodeString (fs ! 4) of
                  None \<Rightarrow> reject ident FailureTransactionInvalid st
                | Some decoded \<Rightarrow>
                    if decoded = [] \<or> tx_actual tx + length decoded > tx_declared tx \<or>
                       int (tx_actual tx + length decoded) > cfg_DecodedBytes (msp_cfg st)
                      then reject ident FailureTransactionInvalid st
                    else
                      (st\<lparr>msp_txs := (msp_txs st)(ident \<mapsto>
                          tx\<lparr>tx_parts := (tx_parts tx)[index := decoded],
                             tx_actual := tx_actual tx + length decoded, tx_next := tx_next tx + 1\<rparr>)\<rparr>,
                       frame_accepted ident (itoa index)))"

definition commit_response :: "string \<Rightarrow> Result \<Rightarrow> string" where
  "commit_response ident r =
     (case r_outcome r of
        Accepted \<Rightarrow> with_newline (msp_protocol @ '' ACK '' @ ident @ '' '' @ format_uint (r_generation r))
      | Rejected \<Rightarrow> nack ident (case r_reason r of None \<Rightarrow> [] | Some reason \<Rightarrow> reason_string reason)
      | Busy \<Rightarrow> nack ident (outcome_string Busy)
      | Timeout \<Rightarrow> nack ident (outcome_string Timeout)
      | InternalError \<Rightarrow> nack ident ''internal'')"

definition msp_commit :: "'p publish_op \<Rightarrow> int \<Rightarrow> string list \<Rightarrow> 'p msp \<Rightarrow> 'p msp \<times> string" where
  "msp_commit publish now fs st =
     (if length fs \<noteq> 3 \<or> \<not> publicationIDPattern (fs ! 2) then reject (responseID fs) FailureMalformed st
      else
        let ident = fs ! 2 in
        case msp_txs st ident of
          None \<Rightarrow> reject ident FailureTransactionInvalid st
        | Some tx \<Rightarrow>
            let st = drop_tx ident st in
            if \<not> now < tx_expires tx then reject ident FailureTransactionExpired (note_expired st)
            else if tx_next tx \<noteq> length (tx_parts tx) then reject ident FailureMissingPart st
            else if tx_actual tx \<noteq> tx_declared tx then reject ident FailureTransactionInvalid st
            else
              case publish (tx_expires tx) Unix (concat (tx_parts tx)) (msp_publisher st) of
                (p, r) \<Rightarrow> (st\<lparr>msp_publisher := p\<rparr>, commit_response ident r))"

definition msp_process :: "'p publish_op \<Rightarrow> int \<Rightarrow> string \<Rightarrow> 'p msp \<Rightarrow> 'p msp \<times> string" where
  "msp_process publish now line st =
     (let fs = split_on (CHR '' '') line in
      if length fs < 2 \<or> fs ! 0 \<noteq> msp_protocol then
        reject (responseID fs)
          (if 0 < length fs \<and> has_prefix (fs ! 0) ''MSP/'' then FailureProtocolVersion else FailureMalformed) st
      else if fs ! 1 = ''SNAPSHOT_BEGIN'' then msp_begin now fs st
      else if fs ! 1 = ''SNAPSHOT_PART'' then msp_part now fs st
      else if fs ! 1 = ''SNAPSHOT_COMMIT'' then msp_commit publish now fs st
      else reject (responseID fs) FailureMalformed st)"

section \<open>A connection\<close>

text \<open>The deferred clean-up: every transaction still open gives its slot back.\<close>

definition close_connection :: "'p msp \<Rightarrow> 'p msp" where
  "close_connection st =
     st\<lparr>msp_slots := msp_slots st - card (dom (msp_txs st)), msp_txs := Map.empty\<rparr>"

lemma skip_line_shorter: "s \<noteq> [] \<Longrightarrow> length (dropWhile P s) - Suc 0 < length s"
  using length_dropWhile_le [of P s] length_greater_0_conv [of s] by linarith

lemma readFrame_shorter: "(f, rest) = readFrame limit s \<Longrightarrow> s \<noteq> [] \<Longrightarrow> length rest < length s"
  by (cases "newline \<in> set (take limit s)"; cases "limit \<le> length s")
     (simp_all add: readFrame_def Let_def skip_line_shorter split: if_splits)

text \<open>The loop over a stream of bytes; \<open>clock\<close> gives the time at which a frame is handled.\<close>

function serve_stream ::
  "'p publish_op \<Rightarrow> (nat \<Rightarrow> int) \<Rightarrow> nat \<Rightarrow> string \<Rightarrow> 'p msp \<Rightarrow> 'p msp \<times> string list" where
  "serve_stream publish clock n s st =
     (if s = [] then (close_connection st, [])
      else case readFrame (nat (cfg_FrameBytes (msp_cfg st))) s of
        (Frame_EOF, _) \<Rightarrow> (close_connection st, [])
      | (Frame_Failure f, rest) \<Rightarrow>
          (case reject ''invalid'' f st of (st, out) \<Rightarrow>
             (case serve_stream publish clock (Suc n) rest st of (st', outs) \<Rightarrow> (st', out # outs)))
      | (Frame line, rest) \<Rightarrow>
          (case msp_process publish (clock n) (trim_suffix line [newline]) st of (st, out) \<Rightarrow>
             (case serve_stream publish clock (Suc n) rest st of (st', outs) \<Rightarrow> (st', out # outs))))"
  by pat_completeness auto
termination
  by (relation "measure (\<lambda>(publish, clock, n, s, st). length s)") (auto dest: readFrame_shorter)

declare serve_stream.simps [simp del]

end
