(* ===== verification/Msp_Server_Facts.thy ===== *)
theory Msp_Server_Facts
  imports Msp_Server
begin

text \<open>
  The server side of MSP/1: bounds on what a connection can hold, whatever bytes it receives, and
  the return of every transaction slot.
\<close>

section \<open>Invariant\<close>

definition tx_ok :: "msp_config \<Rightarrow> transaction \<Rightarrow> bool" where
  "tx_ok cfg tx \<longleftrightarrow>
     1 \<le> length (tx_parts tx) \<and> int (length (tx_parts tx)) \<le> cfg_Parts cfg \<and> tx_next tx \<le> length (tx_parts tx) \<and>
     tx_actual tx = length (concat (tx_parts tx)) \<and> (\<forall>p\<in>set (drop (tx_next tx) (tx_parts tx)). p = []) \<and>
     tx_actual tx \<le> tx_declared tx \<and> 1 \<le> tx_declared tx \<and> int (tx_declared tx) \<le> cfg_DecodedBytes cfg"

text \<open>\<open>n\<close> is the number of slots that other connections hold.\<close>

definition msp_inv :: "nat \<Rightarrow> 'p msp \<Rightarrow> bool" where
  "msp_inv n st \<longleftrightarrow>
     finite (dom (msp_txs st)) \<and> msp_slots st = n + card (dom (msp_txs st)) \<and>
     int (msp_slots st) \<le> max (cfg_Transactions (msp_cfg st)) (int n) \<and>
     (\<forall>ident tx. msp_txs st ident = Some tx \<longrightarrow> tx_id tx = ident \<and> tx_ok (msp_cfg st) tx)"

lemma reject_sel [simp]:
  "msp_cfg (fst (reject i f st)) = msp_cfg st" "msp_slots (fst (reject i f st)) = msp_slots st"
  "msp_txs (fst (reject i f st)) = msp_txs st" "msp_publisher (fst (reject i f st)) = msp_publisher st"
  "snd (reject i f st) = nack i (failure_string f)"
  by (simp_all add: reject_def)

lemma drop_tx_sel [simp]:
  "msp_cfg (drop_tx i st) = msp_cfg st" "msp_slots (drop_tx i st) = msp_slots st - 1"
  "msp_txs (drop_tx i st) = (msp_txs st)(i := None)" "msp_publisher (drop_tx i st) = msp_publisher st"
  by (simp_all add: drop_tx_def)

lemma note_expired_sel [simp]:
  "msp_cfg (note_expired st) = msp_cfg st" "msp_slots (note_expired st) = msp_slots st"
  "msp_txs (note_expired st) = msp_txs st" "msp_publisher (note_expired st) = msp_publisher st"
  by (simp_all add: note_expired_def)

lemma msp_inv_cong:
  "msp_cfg st = msp_cfg st' \<Longrightarrow> msp_slots st = msp_slots st' \<Longrightarrow> msp_txs st = msp_txs st' \<Longrightarrow> msp_inv n st \<longleftrightarrow> msp_inv n st'"
  by (simp add: msp_inv_def)

lemma msp_inv_reject [simp]: "msp_inv n (fst (reject i f st)) \<longleftrightarrow> msp_inv n st"
  by (rule msp_inv_cong) simp_all

lemma msp_inv_note_expired [simp]: "msp_inv n (note_expired st) \<longleftrightarrow> msp_inv n st"
  by (rule msp_inv_cong) simp_all

lemma msp_inv_publisher [simp]: "msp_inv n (st\<lparr>msp_publisher := p\<rparr>) \<longleftrightarrow> msp_inv n st"
  by (rule msp_inv_cong) simp_all

lemma msp_inv_drop:
  assumes "msp_inv n st" "msp_txs st i = Some tx"
  shows "msp_inv n (drop_tx i st)"
proof -
  have i: "i \<in> dom (msp_txs st)" using assms(2) by auto
  then have "0 < card (dom (msp_txs st))" using assms(1) by (auto simp: msp_inv_def card_gt_0_iff)
  with i assms(1) show ?thesis by (auto simp: msp_inv_def card_Diff_singleton)
qed

lemma tx_ok_update:
  assumes ok: "tx_ok cfg tx" and i: "tx_next tx < length (tx_parts tx)"
    and d: "tx_actual tx + length d \<le> tx_declared tx"
  shows "tx_ok cfg (tx\<lparr>tx_parts := (tx_parts tx)[tx_next tx := d], tx_actual := tx_actual tx + length d,
      tx_next := tx_next tx + 1\<rparr>)"
proof -
  let ?ps = "tx_parts tx" and ?k = "tx_next tx"
  have split: "?ps = take ?k ?ps @ ?ps ! ?k # drop (Suc ?k) ?ps" using i by (simp add: id_take_nth_drop)
  have nil: "?ps ! ?k = []" "\<forall>p\<in>set (drop (Suc ?k) ?ps). p = []"
    using ok i by (auto simp: tx_ok_def Cons_nth_drop_Suc [symmetric])
  have upd: "?ps[?k := d] = take ?k ?ps @ d # drop (Suc ?k) ?ps" using i by (simp add: upd_conv_take_nth_drop)
  have "length (concat ?ps) = length (concat (take ?k ?ps)) + length (concat (drop (Suc ?k) ?ps))"
    by (subst split) (simp add: nil)
  then have "length (concat (?ps[?k := d])) = tx_actual tx + length d"
    unfolding upd using ok by (simp add: tx_ok_def)
  moreover have "drop (Suc ?k) (?ps[?k := d]) = drop (Suc ?k) ?ps" by simp
  ultimately show ?thesis using ok i d nil by (simp add: tx_ok_def)
qed

lemma msp_begin_inv: "msp_inv n st \<Longrightarrow> msp_inv n (fst (msp_begin now fs st))"
proof -
  assume inv: "msp_inv n st"
  let ?i = "fs ! 2"
  let ?tx = "\<lambda>parts decoded. \<lparr>tx_id = ?i, tx_parts = replicate parts [], tx_next = 0, tx_declared = decoded,
      tx_actual = 0, tx_expires = now + cfg_TransactionTimeout (msp_cfg st)\<rparr>"
  have "msp_inv n (st\<lparr>msp_slots := msp_slots st + 1, msp_txs := (msp_txs st)(?i \<mapsto> ?tx parts decoded)\<rparr>)"
    if "msp_txs st ?i = None" "int (msp_slots st) < cfg_Transactions (msp_cfg st)" "1 \<le> parts"
      "int parts \<le> cfg_Parts (msp_cfg st)" "1 \<le> decoded" "int decoded \<le> cfg_DecodedBytes (msp_cfg st)" for parts decoded
  proof -
    have "?i \<notin> dom (msp_txs st)" using that(1) by auto
    moreover have "tx_ok (msp_cfg st) (?tx parts decoded)" using that by (simp add: tx_ok_def)
    ultimately show ?thesis using inv that(2) by (auto simp: msp_inv_def)
  qed
  with inv show ?thesis by (auto simp: msp_begin_def Let_def split: option.splits)
qed

lemma msp_part_inv: "msp_inv n st \<Longrightarrow> msp_inv n (fst (msp_part now fs st))"
proof -
  assume inv: "msp_inv n st"
  let ?i = "fs ! 2"
  have upd: "msp_inv n (st\<lparr>msp_txs := (msp_txs st)(?i \<mapsto> tx')\<rparr>)"
    if "msp_txs st ?i = Some tx" "tx_id tx' = ?i" "tx_ok (msp_cfg st) tx'" for tx tx'
  proof -
    have "insert ?i (dom (msp_txs st)) = dom (msp_txs st)" using that(1) by auto
    with inv that show ?thesis by (auto simp: msp_inv_def)
  qed
  show ?thesis
  proof (cases "msp_txs st ?i")
    case (Some tx)
    have tx: "tx_id tx = ?i" "tx_ok (msp_cfg st) tx" using inv Some by (auto simp: msp_inv_def)
    show ?thesis
      using inv msp_inv_drop [OF inv Some] upd [OF Some] tx tx_ok_update [OF tx(2)]
      by (auto simp: msp_part_def Some Let_def split: option.splits)
  qed (use inv in \<open>auto simp: msp_part_def Let_def\<close>)
qed

lemma msp_commit_inv: "msp_inv n st \<Longrightarrow> msp_inv n (fst (msp_commit publish now fs st))"
  using msp_inv_drop [of n st "fs ! 2"]
  by (auto simp: msp_commit_def Let_def split: option.splits prod.splits)

lemma msp_process_inv: "msp_inv n st \<Longrightarrow> msp_inv n (fst (msp_process publish now line st))"
  by (simp add: msp_process_def Let_def msp_begin_inv msp_part_inv msp_commit_inv)

lemma close_connection_slots: "msp_inv n st \<Longrightarrow> msp_slots (close_connection st) = n \<and> msp_txs (close_connection st) = Map.empty"
  by (simp add: close_connection_def msp_inv_def)

lemma serve_stream_slots:
  "msp_inv n st \<Longrightarrow> msp_slots (fst (serve_stream publish clock k s st)) = n \<and>
     msp_txs (fst (serve_stream publish clock k s st)) = Map.empty"
proof (induction publish clock k s st rule: serve_stream.induct)
  case (1 publish clock k s st)
  show ?case
  proof (cases "s = []")
    case True
    with 1(3) close_connection_slots show ?thesis by (subst (1 2) serve_stream.simps) simp
  next
    case False
    obtain f rest where r: "readFrame (nat (cfg_FrameBytes (msp_cfg st))) s = (f, rest)" by fastforce
    show ?thesis
    proof (cases f)
      case (Frame line)
      obtain st' out where p: "msp_process publish (clock k) (trim_suffix line [newline]) st = (st', out)" by fastforce
      have "msp_inv n st'" using msp_process_inv [OF 1(3)] p by (metis fst_conv)
      with 1(1) [OF False r [symmetric] Frame p [symmetric]] False r Frame p show ?thesis
        by (subst (1 2) serve_stream.simps) (auto split: prod.splits)
    next
      case (Frame_Failure e)
      obtain st' out where p: "reject ''invalid'' e st = (st', out)" by fastforce
      have "msp_inv n st'" using 1(3) p msp_inv_reject by (metis fst_conv)
      with 1(2) [OF False r [symmetric] Frame_Failure p [symmetric]] False r Frame_Failure p show ?thesis
        by (subst (1 2) serve_stream.simps) (auto split: prod.splits)
    next
      case Frame_EOF
      with False r 1(3) close_connection_slots show ?thesis by (subst (1 2) serve_stream.simps) simp
    qed
  qed
qed

section \<open>Properties\<close>

text \<open>
  C13: a connection cannot hold more than its bounds, whatever frames it sends. After every frame,
  each open transaction has between one and \<^verbatim>\<open>Parts\<close> parts, holds exactly the bytes
  received for them, never more than it declared and never more than \<^verbatim>\<open>DecodedBytes\<close>; the
  count of slots taken is the number of open transactions on top of the slots of the other
  connections, and never above \<^verbatim>\<open>Transactions\<close> unless those already were.
\<close>

theorem msp_frame_keeps_bounds:
  assumes "msp_inv n st"
  shows "msp_inv n (fst (msp_process publish now line st))"
  using assms by (rule msp_process_inv)

definition sample_msp :: "nat msp" where
  "sample_msp = \<lparr>msp_cfg = DefaultConfig, msp_slots = 0, msp_txs = Map.empty, msp_rejections = [],
     msp_expirations = 0, msp_publisher = 0\<rparr>"

definition sample_publish :: "nat publish_op" where
  "sample_publish deadline t c n = (n + 1, mk_result t Accepted (of_nat n + 1) None)"

lemma sample_msp_inv: "msp_inv 0 sample_msp"
  by (simp add: sample_msp_def msp_inv_def DefaultConfig_def)

theorem msp_frame_keeps_bounds_witness:
  "msp_inv 0 (fst (msp_process sample_publish 0 ''MSP/1 SNAPSHOT_BEGIN a 2 5'' sample_msp))"
  by (rule msp_frame_keeps_bounds [OF sample_msp_inv])

text \<open>
  C14: every slot comes back. Whatever bytes arrive on a connection, when it ends the slots taken are
  again those of the other connections and no transaction is left.
\<close>

theorem msp_connection_releases_slots:
  assumes "msp_inv n st"
  shows "msp_slots (fst (serve_stream publish clock k s st)) = n \<and>
     msp_txs (fst (serve_stream publish clock k s st)) = Map.empty"
  using assms by (rule serve_stream_slots)

theorem msp_connection_releases_slots_witness:
  "msp_slots (fst (serve_stream sample_publish (\<lambda>_. 0) 0 (with_newline ''MSP/1 SNAPSHOT_BEGIN a 2 5'') sample_msp)) = 0 \<and>
   msp_txs (fst (serve_stream sample_publish (\<lambda>_. 0) 0 (with_newline ''MSP/1 SNAPSHOT_BEGIN a 2 5'') sample_msp)) = Map.empty"
  by (rule msp_connection_releases_slots [OF sample_msp_inv])

end
