(* ===== verification/Go_Strings.thy ===== *)
theory Go_Strings
  imports Prelude
begin

text \<open>
  What the sources use of Go's \<^verbatim>\<open>strings\<close> package beyond the prelude: white space as
  \<^verbatim>\<open>unicode.IsSpace\<close> has it, \<^verbatim>\<open>Fields\<close>, \<^verbatim>\<open>TrimSpace\<close>, lower case for comparisons with
  ASCII words, and replacement.
\<close>

section \<open>White space\<close>

text \<open>The number of bytes of the white-space rune at the front of a text, 0 when there is none.\<close>

definition space_len :: "string \<Rightarrow> nat" where
  "space_len s =
     (if s \<noteq> [] \<and> (byte_in 9 13 (hd s) \<or> hd s = CHR '' '') then 1
      else if take 2 s \<in> {[CHR 0xC2, CHR 0x85], [CHR 0xC2, CHR 0xA0]} then 2
      else if take 3 s \<in> {[CHR 0xE1, CHR 0x9A, CHR 0x80], [CHR 0xE2, CHR 0x80, CHR 0xA8], [CHR 0xE2, CHR 0x80, CHR 0xA9],
          [CHR 0xE2, CHR 0x80, CHR 0xAF], [CHR 0xE2, CHR 0x81, CHR 0x9F], [CHR 0xE3, CHR 0x80, CHR 0x80]} then 3
      else if length s \<ge> 3 \<and> take 2 s = [CHR 0xE2, CHR 0x80] \<and> byte_in 128 138 (s ! 2) then 3
      else 0)"

function fields_from :: "string \<Rightarrow> string \<Rightarrow> string list" where
  "fields_from w [] = (if w = [] then [] else [w])"
| "fields_from w (c # cs) =
     (let n = space_len (c # cs) in
      if n = 0 then fields_from (w @ [c]) cs
      else (if w = [] then [] else [w]) @ fields_from [] (drop (n - 1) cs))"
  by pat_completeness auto
termination by (relation "measure (\<lambda>(w, s). length s)") auto

definition go_fields :: "string \<Rightarrow> string list" where
  "go_fields s = fields_from [] s"

text \<open>The number of bytes of the white-space rune at the end of a text, 0 when there is none.\<close>

definition space_end :: "string \<Rightarrow> nat" where
  "space_end s =
     (let n = length s in
      if 1 \<le> n \<and> space_len (drop (n - 1) s) = 1 then 1
      else if 2 \<le> n \<and> space_len (drop (n - 2) s) = 2 then 2
      else if 3 \<le> n \<and> space_len (drop (n - 3) s) = 3 then 3
      else 0)"

function trim_left :: "string \<Rightarrow> string" where
  "trim_left s = (if space_len s = 0 \<or> s = [] then s else trim_left (drop (space_len s) s))"
  by pat_completeness auto
termination by (relation "measure length") auto

function trim_right :: "string \<Rightarrow> string" where
  "trim_right s = (if space_end s = 0 \<or> s = [] then s else trim_right (take (length s - space_end s) s))"
  by pat_completeness auto
termination by (relation "measure length") auto

declare trim_left.simps [simp del] trim_right.simps [simp del]

definition TrimSpace :: "string \<Rightarrow> string" where
  "TrimSpace s = trim_right (trim_left s)"

section \<open>Case\<close>

definition ascii_lower :: "char \<Rightarrow> char" where
  "ascii_lower c = (if byte_in 65 90 c then char_of (of_char c + 32 :: nat) else c)"

text \<open>
  \<^verbatim>\<open>strings.ToLower\<close> as far as a comparison with an ASCII word can see it: of the runes
  outside ASCII only two have a lower case inside it, the dotted capital I and the Kelvin sign.
\<close>

fun to_lower_ascii :: "string \<Rightarrow> string" where
  "to_lower_ascii [] = []"
| "to_lower_ascii [c] = [ascii_lower c]"
| "to_lower_ascii [c, d] =
     (if c = CHR 0xC4 \<and> d = CHR 0xB0 then ''i'' else [ascii_lower c, ascii_lower d])"
| "to_lower_ascii (c # d # e # cs) =
     (if c = CHR 0xC4 \<and> d = CHR 0xB0 then CHR ''i'' # to_lower_ascii (e # cs)
      else if c = CHR 0xE2 \<and> d = CHR 0x84 \<and> e = CHR 0xAA then CHR ''k'' # to_lower_ascii cs
      else ascii_lower c # to_lower_ascii (d # e # cs))"

section \<open>Replacement of single bytes\<close>

text \<open>\<^verbatim>\<open>strings.ReplaceAll(s, c, w)\<close> for a pattern of one byte.\<close>

definition replace_byte :: "char \<Rightarrow> string \<Rightarrow> string \<Rightarrow> string" where
  "replace_byte c w s = concat (map (\<lambda>x. if x = c then w else [x]) s)"

lemma replace_byte_append: "replace_byte c w (s @ t) = replace_byte c w s @ replace_byte c w t"
  by (simp add: replace_byte_def)

section \<open>Addresses\<close>

text \<open>
  \<^verbatim>\<open>net.SplitHostPort\<close>: host and port of an address, \<open>None\<close> for an address it refuses. A host in
  brackets ends at the first closing bracket, which has to stand right before the last colon; without
  brackets the host has no colon; and no further bracket may occur.
\<close>

definition SplitHostPort :: "string \<Rightarrow> (string \<times> string) option" where
  "SplitHostPort s =
     (if CHR '':'' \<notin> set s then None
      else
        let port = rev (takeWhile (\<lambda>c. c \<noteq> CHR '':'') (rev s)); front = take (length s - Suc (length port)) s in
        if hd s = CHR ''['' then
          (let host = takeWhile (\<lambda>c. c \<noteq> CHR '']'') (tl s) in
           if front \<noteq> CHR ''['' # host @ '']'' then None
           else if CHR ''['' \<in> set (tl s) \<or> CHR '']'' \<in> set port then None
           else Some (host, port))
        else if CHR '':'' \<in> set front then None
        else if CHR ''['' \<in> set s \<or> CHR '']'' \<in> set s then None
        else Some (front, port))"

end
