(* ===== verification/Msp_Client.thy ===== *)
theory Msp_Client
  imports Msp_Server Go_Strings
begin

text \<open>
  The client of MSP/1 (\<^verbatim>\<open>client/writer.go\<close>): cutting a candidate into parts that fit
  a frame, and the conversation that publishes it.

  The connection is an operation that writes a frame and reads the next line of the answer, on a
  state of its own; it may fail with an error of the network or of the context. The gate that keeps
  two publications of one writer apart makes a call atomic.
\<close>

section \<open>Errors\<close>

datatype io_error =
    Ctx_Canceled | Ctx_Deadline | Os_Deadline | Short_Write | Unexpected_EOF | Net_Closed | Pipe_Closed | Net_Timeout | Other_Io

datatype client_error =
    InvalidInput | ShortWrite | ClosedConnection | ClientTimeout | InvalidResponse | ResponseMismatch | RejectedBy string

fun classify :: "io_error \<Rightarrow> client_error" where
  "classify Ctx_Canceled = ClientTimeout"
| "classify Ctx_Deadline = ClientTimeout"
| "classify Os_Deadline = ClientTimeout"
| "classify Short_Write = ShortWrite"
| "classify Unexpected_EOF = ClosedConnection"
| "classify Net_Closed = ClosedConnection"
| "classify Pipe_Closed = ClosedConnection"
| "classify Net_Timeout = ClientTimeout"
| "classify Other_Io = ClosedConnection"

type_synonym 's exchange = "string \<Rightarrow> 's \<Rightarrow> 's \<times> (io_error + string)"

section \<open>Parts\<close>

text \<open>The loop that shrinks a part until its encoding fits.\<close>

fun fit_bytes :: "int \<Rightarrow> nat \<Rightarrow> nat" where
  "fit_bytes characters 0 = 0"
| "fit_bytes characters (Suc n) =
     (if int (EncodedLen (Suc n)) > characters then fit_bytes characters n else Suc n)"

definition part_bytes :: "int \<Rightarrow> int \<Rightarrow> nat \<Rightarrow> nat" where
  "part_bytes frame_bytes id_bytes index =
     (let characters = payload_characters frame_bytes id_bytes index
      in fit_bytes characters (nat (characters * 3 div 4)))"

function split_parts :: "string \<Rightarrow> int \<Rightarrow> int \<Rightarrow> nat \<Rightarrow> bytes \<Rightarrow> client_error + bytes list" where
  "split_parts ident frame_bytes max_parts index candidate =
     (if candidate = [] then Inr []
      else if int index \<ge> max_parts then Inl InvalidInput
      else
        let n = part_bytes frame_bytes (go_len ident) index in
        if n < 1 then Inl InvalidInput
        else and_then (split_parts ident frame_bytes max_parts (Suc index) (drop n candidate))
               (\<lambda>rest. Inr (take n candidate # rest)))"
  by pat_completeness auto
termination by (relation "measure (\<lambda>(ident, frame_bytes, max_parts, index, candidate). length candidate)") auto

declare split_parts.simps [simp del]

section \<open>The conversation\<close>

definition client_response :: "int \<Rightarrow> string \<Rightarrow> string \<Rightarrow> client_error + string list" where
  "client_response frame_bytes ident line =
     (if go_len line > frame_bytes \<or> \<not> has_suffix line [newline] then Inl InvalidResponse
      else
        let fs = go_fields (trim_suffix line [newline]) in
        if length fs = 4 \<and> fs ! 0 = msp_protocol \<and> fs ! 1 = ''NACK'' then
          (if fs ! 2 \<noteq> ident then Inl ResponseMismatch else Inl (RejectedBy (fs ! 3)))
        else Inr fs)"

definition responseError :: "string list \<Rightarrow> string \<Rightarrow> client_error" where
  "responseError fs ident = (if 2 < length fs \<and> fs ! 2 \<noteq> ident then ResponseMismatch else InvalidResponse)"

definition ask :: "'s exchange \<Rightarrow> int \<Rightarrow> string \<Rightarrow> string \<Rightarrow> 's \<Rightarrow> 's \<times> (client_error + string list)" where
  "ask ex frame_bytes ident frame s =
     (case ex frame s of
        (s, Inl e) \<Rightarrow> (s, Inl (classify e))
      | (s, Inr line) \<Rightarrow> (s, client_response frame_bytes ident line))"

definition roundTrip ::
  "'s exchange \<Rightarrow> int \<Rightarrow> string \<Rightarrow> string \<Rightarrow> string list \<Rightarrow> 's \<Rightarrow> 's \<times> client_error option" where
  "roundTrip ex frame_bytes ident frame expected s =
     (if go_len frame > frame_bytes then (s, Some InvalidInput)
      else case ask ex frame_bytes ident frame s of
             (s, Inl e) \<Rightarrow> (s, Some e)
           | (s, Inr fs) \<Rightarrow>
               (s, if fs \<noteq> expected then Some (responseError fs ident) else None))"

definition begin_frame :: "string \<Rightarrow> nat \<Rightarrow> nat \<Rightarrow> string" where
  "begin_frame ident parts n =
     with_newline (msp_protocol @ '' SNAPSHOT_BEGIN '' @ ident @ '' '' @ itoa parts @ '' '' @ itoa n)"

definition part_frame :: "string \<Rightarrow> nat \<Rightarrow> bytes \<Rightarrow> string" where
  "part_frame ident index part =
     with_newline (msp_protocol @ '' SNAPSHOT_PART '' @ ident @ '' '' @ itoa index @ '' '' @ EncodeToString part)"

definition commit_frame :: "string \<Rightarrow> string" where
  "commit_frame ident = with_newline (msp_protocol @ '' SNAPSHOT_COMMIT '' @ ident)"

fun send_parts :: "'s exchange \<Rightarrow> int \<Rightarrow> string \<Rightarrow> nat \<Rightarrow> bytes list \<Rightarrow> 's \<Rightarrow> 's \<times> client_error option" where
  "send_parts ex frame_bytes ident index [] s = (s, None)"
| "send_parts ex frame_bytes ident index (p # ps) s =
     (case roundTrip ex frame_bytes ident (part_frame ident index p)
             [msp_protocol, ''FRAME_ACCEPTED'', ident, itoa index] s of
        (s, Some e) \<Rightarrow> (s, Some e)
      | (s, None) \<Rightarrow> send_parts ex frame_bytes ident (Suc index) ps s)"

text \<open>Reading the acknowledgement.\<close>

definition read_ack :: "string \<Rightarrow> string list \<Rightarrow> client_error + uint64" where
  "read_ack ident fs =
     (if length fs \<noteq> 4 \<or> fs ! 0 \<noteq> msp_protocol \<or> fs ! 1 \<noteq> ''ACK'' \<or> fs ! 2 \<noteq> ident then Inl (responseError fs ident)
      else case parse_uint 64 (fs ! 3) of
             None \<Rightarrow> Inl InvalidResponse
           | Some g \<Rightarrow>
               if fs ! 3 = [] \<or> (1 < length (fs ! 3) \<and> hd (fs ! 3) = CHR ''0'') then Inl InvalidResponse
               else Inr (of_nat g))"

text \<open>
  A publication; \<open>gate\<close> is the error of a context that ended before the gate opened,
  \<open>deadline\<close> the error of setting the deadline.
\<close>

definition writer_publish ::
  "'s exchange \<Rightarrow> int \<Rightarrow> int \<Rightarrow> io_error option \<Rightarrow> io_error option \<Rightarrow> string \<Rightarrow> bytes \<Rightarrow> 's \<Rightarrow> 's \<times> (client_error + uint64)" where
  "writer_publish ex frame_bytes max_parts gate deadline ident candidate s =
     (if \<not> publicationIDPattern ident \<or> candidate = [] then (s, Inl InvalidInput)
      else case gate of Some e \<Rightarrow> (s, Inl (classify e))
      | None \<Rightarrow>
        (case split_parts ident frame_bytes max_parts 0 candidate of
           Inl e \<Rightarrow> (s, Inl e)
         | Inr parts \<Rightarrow>
             (case deadline of Some e \<Rightarrow> (s, Inl (classify e))
              | None \<Rightarrow>
                (case roundTrip ex frame_bytes ident (begin_frame ident (length parts) (length candidate))
                        [msp_protocol, ''FRAME_ACCEPTED'', ident, ''BEGIN''] s of
                   (s, Some e) \<Rightarrow> (s, Inl e)
                 | (s, None) \<Rightarrow>
                     (case send_parts ex frame_bytes ident 0 parts s of
                        (s, Some e) \<Rightarrow> (s, Inl e)
                      | (s, None) \<Rightarrow>
                          (case ask ex frame_bytes ident (commit_frame ident) s of
                             (s, Inl e) \<Rightarrow> (s, Inl e)
                           | (s, Inr fs) \<Rightarrow> (s, read_ack ident fs)))))))"

section \<open>A server at the other end\<close>

text \<open>One frame in, one line out, at one time of the clock.\<close>

definition server_exchange :: "'p publish_op \<Rightarrow> int \<Rightarrow> 'p msp exchange" where
  "server_exchange publish now frame st =
     (case readFrame (nat (cfg_FrameBytes (msp_cfg st))) frame of
        (Frame_EOF, _) \<Rightarrow> (st, Inl Unexpected_EOF)
      | (Frame_Failure f, _) \<Rightarrow> (case reject ''invalid'' f st of (st, out) \<Rightarrow> (st, Inr out))
      | (Frame line, _) \<Rightarrow>
          (case msp_process publish now (trim_suffix line [newline]) st of (st, out) \<Rightarrow> (st, Inr out)))"

end
