(* ===== verification/Publisher.thy ===== *)
theory Publisher
  imports Ingestion_Facts
begin

text \<open>
  The interface between the transports and the core (\<^verbatim>\<open>ingestion.Publisher\<close>): an
  accepted candidate is active at once under the generation of the result, any other outcome leaves
  the active snapshot alone, and a rejection names its reason. The core keeps this contract whatever
  its contexts do.
\<close>

locale publisher =
  fixes publish :: "'x \<Rightarrow> Transport \<Rightarrow> bytes \<Rightarrow> 'p \<Rightarrow> 'p \<times> Result"
    and active :: "'p \<Rightarrow> ActiveSnapshot"
    and parse :: "'p \<Rightarrow> bytes \<Rightarrow> ValidatedSnapshot option"
  assumes rejected_reason: "publish x t c p = (p', r) \<Longrightarrow> r_outcome r = Rejected \<Longrightarrow> r_reason r \<noteq> None"
    and accepted_active: "publish x t c p = (p', r) \<Longrightarrow> r_outcome r = Accepted \<Longrightarrow>
      \<exists>v. parse p c = Some v \<and> active p' = NewActive v (r_generation r)"
    and declined_active: "publish x t c p = (p', r) \<Longrightarrow> r_outcome r \<noteq> Accepted \<Longrightarrow> active p' = active p"
    and parse_stable: "publish x t c p = (p', r) \<Longrightarrow> parse p' = parse p"

section \<open>The core is a publisher\<close>

definition core_parse :: "Core \<Rightarrow> bytes \<Rightarrow> ValidatedSnapshot option" where
  "core_parse core c = (case c_parser core c (c_limits core) of Inl _ \<Rightarrow> None | Inr v \<Rightarrow> Some v)"

lemma core_parse_cong:
  "c_parser k = c_parser k' \<Longrightarrow> c_limits k = c_limits k' \<Longrightarrow> core_parse k = core_parse k'"
  by (simp add: core_parse_def fun_eq_iff)

lemma publish_complete_sel [simp]:
  "c_holder (fst (publish_complete r a k)) = c_holder k" "c_parser (fst (publish_complete r a k)) = c_parser k"
  "c_limits (fst (publish_complete r a k)) = c_limits k"
  by (simp_all add: publish_complete_def)

lemma publish_leave_sel [simp]:
  "c_holder (publish_leave k) = c_holder k" "c_parser (publish_leave k) = c_parser k" "c_limits (publish_leave k) = c_limits k"
  by (simp_all add: publish_leave_def)

lemma publish_start_sel [simp]:
  "c_holder (fst (publish_start t c k)) = c_holder k" "c_parser (fst (publish_start t c k)) = c_parser k"
  "c_limits (fst (publish_start t c k)) = c_limits k"
  by (simp_all add: publish_start_def)

text \<open>The four ways a call can go.\<close>

lemma Publish_cases:
  assumes "Publish ctx t c core = (core', r)"
  obtains (kept) "r_outcome r \<noteq> Accepted" "r_outcome r = Rejected \<longrightarrow> r_reason r \<noteq> None"
      "c_holder core' = c_holder core" "c_parser core' = c_parser core" "c_limits core' = c_limits core"
  | (installed) v h where "r_outcome r = Accepted" "c_parser core c (c_limits core) = Inr v"
      "Install (c_holder core) v = (h, NewActive v (r_generation r), None)"
      "c_holder core' = h" "c_parser core' = c_parser core" "c_limits core' = c_limits core"
proof -
  obtain k out where e: "publish_enter (expired_on_entry ctx) t c core = (k, out)" by fastforce
  from e show thesis
  proof (cases rule: publish_enter_cases)
    case (declined r')
    have "r_outcome r' = Rejected \<longrightarrow> r_reason r' \<noteq> None"
      using e declined(1) by (auto simp: publish_enter_def Let_def mk_result_def split: if_splits)
    with declined e assms show thesis by (intro kept) (auto simp: Publish_def)
  next
    case admitted
    let ?k = "fst (publish_start t c k)"
    show thesis
    proof (cases "expired_waiting ctx \<or> c_executing k \<ge> c_concurrent k")
      case True
      with e assms admitted show thesis by (intro kept) (auto simp: Publish_def Let_def mk_result_def)
    next
      case running: False
      show thesis
      proof (cases "c_parser core c (c_limits core)")
        case (Inl err)
        with e assms admitted running show thesis
          by (intro kept) (auto simp: Publish_def Let_def publish_parse_def publish_error_def mk_result_def split: parse_error.splits)
      next
        case (Inr v)
        show thesis
        proof (cases "expired_after_parse ctx")
          case True
          with Inr e assms admitted running show thesis
            by (intro kept) (auto simp: Publish_def Let_def publish_parse_def mk_result_def)
        next
          case False
          show thesis
          proof (cases rule: publish_install_cases [of ?k v t])
            case (rejected q h a)
            with Inr False e assms admitted running show thesis
              by (intro kept) (auto simp: Publish_def Let_def publish_parse_def mk_result_def)
          next
            case (accepted h a)
            have "a_validated a = v" using holder.install_accepted [OF accepted(1)] by blast
            then have "a = NewActive v (a_generation a)" by (auto simp: NewActive_def)
            with accepted Inr False e assms admitted running show thesis
              by (intro installed [of v h]) (auto simp: Publish_def Let_def publish_parse_def mk_result_def)
          qed
        qed
      qed
    qed
  qed
qed

interpretation core_publisher: publisher "\<lambda>_. Publish ctx" "\<lambda>core. Active (c_holder core)" core_parse for ctx
proof
  fix t c p p' r
  assume p: "Publish ctx t c p = (p', r)"
  show "r_outcome r = Rejected \<Longrightarrow> r_reason r \<noteq> None" using p by (cases rule: Publish_cases) auto
  show "r_outcome r \<noteq> Accepted \<Longrightarrow> Active (c_holder p') = Active (c_holder p)"
    using p by (cases rule: Publish_cases) auto
  show "core_parse p' = core_parse p" using p by (cases rule: Publish_cases) (auto intro: core_parse_cong)
  show "r_outcome r = Accepted \<Longrightarrow> \<exists>v. core_parse p c = Some v \<and> Active (c_holder p') = NewActive v (r_generation r)"
    using p
  proof (cases rule: Publish_cases)
    case (installed v h)
    then show ?thesis using holder.install_accepted [OF installed(3)] by (auto simp: core_parse_def)
  qed simp
qed

end
