(* ===== verification/Msp_Roundtrip.thy ===== *)
theory Msp_Roundtrip
  imports Msp_Client Publisher
begin

text \<open>
  The client and the server of MSP/1 together: the client's cut into parts succeeds whenever the
  configured capacity suffices, and a conversation publishes exactly the candidate and tells the
  client the outcome.
\<close>

section \<open>Words on a line\<close>

definition plain :: "string \<Rightarrow> bool" where
  "plain s \<longleftrightarrow> list_all (byte_in 33 126) s"

fun join_words :: "string list \<Rightarrow> string" where
  "join_words [] = []"
| "join_words [w] = w"
| "join_words (w # v # ws) = w @ CHR '' '' # join_words (v # ws)"

lemma plain_append [simp]: "plain (s @ t) \<longleftrightarrow> plain s \<and> plain t"
  by (simp add: plain_def)

lemma plain_no_space: "plain s \<Longrightarrow> CHR '' '' \<notin> set s" "plain s \<Longrightarrow> newline \<notin> set s"
  by (auto simp: plain_def list_all_iff byte_in_def)

lemma plain_itoa [simp]: "plain (itoa n)"
  using itoa_digits [of n] by (auto simp: plain_def list_all_iff is_digit_def byte_in_def)

lemma plain_id: "publicationIDPattern s \<Longrightarrow> plain s \<and> s \<noteq> []"
  by (auto simp: publicationIDPattern_def plain_def list_all_iff byte_in_def is_digit_def)

lemma plain_encode: "plain (EncodeToString s)"
proof -
  have "byte_in 33 126 (b64_char n)" if "n < 64" for n
    using of_char_b64_char [OF that] that by (auto simp: byte_in_def)
  then show ?thesis
    using b64_encode_bytes_less [OF bytes_less [of s]] by (auto simp: plain_def EncodeToString_def list_all_iff)
qed

definition words_ok :: "string list \<Rightarrow> bool" where
  "words_ok ws \<longleftrightarrow> ws \<noteq> [] \<and> list_all (\<lambda>w. plain w \<and> w \<noteq> []) ws"

lemma split_join: "words_ok ws \<Longrightarrow> split_on (CHR '' '') (join_words ws) = ws"
  by (induction ws rule: join_words.induct) (auto simp: words_ok_def go_str plain_no_space)

lemma space_len_plain: "byte_in 33 126 c \<Longrightarrow> space_len (c # cs) = 0"
proof -
  assume c: "byte_in 33 126 c"
  then have "c \<noteq> CHR 0xC2" "c \<noteq> CHR 0xE1" "c \<noteq> CHR 0xE2" "c \<noteq> CHR 0xE3" "c \<noteq> CHR '' ''" "\<not> byte_in 9 13 c"
    by (auto simp: byte_in_def)
  then show ?thesis by (simp add: space_len_def)
qed

lemma fields_from_plain: "plain s \<Longrightarrow> fields_from w (s @ r) = fields_from (w @ s) r"
  by (induction s arbitrary: w) (auto simp: plain_def space_len_plain)

lemma fields_from_space: "fields_from w (CHR '' '' # r) = (if w = [] then [] else [w]) @ fields_from [] r"
  by (simp add: space_len_def)

lemma fields_join: "words_ok ws \<Longrightarrow> go_fields (join_words ws) = ws"
proof (induction ws rule: join_words.induct)
  case (2 w)
  then show ?case using fields_from_plain [of w "[]" "[]"] by (simp add: go_fields_def words_ok_def)
next
  case (3 w v ws)
  then have "words_ok (v # ws)" "plain w" "w \<noteq> []" by (auto simp: words_ok_def)
  with 3 fields_from_plain [of w "[]" "CHR '' '' # join_words (v # ws)"] show ?case
    by (simp add: go_fields_def fields_from_space del: fields_from.simps)
qed (simp add: words_ok_def)

lemma join_no_newline: "words_ok ws \<Longrightarrow> newline \<notin> set (join_words ws)"
  by (induction ws rule: join_words.induct) (auto simp: words_ok_def plain_no_space)

section \<open>Frames both ways\<close>

lemma trim_newline [simp]: "trim_suffix (with_newline s) [newline] = s"
  by (simp add: with_newline_def)

lemma readFrame_line:
  assumes "newline \<notin> set s" "length s < limit"
  shows "readFrame limit (with_newline s) = (Frame (with_newline s), [])"
proof -
  have "takeWhile (\<lambda>c. c \<noteq> newline) (s @ [newline]) = s" "dropWhile (\<lambda>c. c \<noteq> newline) (s @ [newline]) = [newline]"
    using assms(1) by (induction s) auto
  moreover have "newline \<in> set (take limit (s @ [newline]))" using assms(2) by simp
  ultimately show ?thesis using assms(2) by (simp add: readFrame_def with_newline_def)
qed

lemma server_exchange_words:
  assumes "words_ok ws" "go_len (join_words ws) < cfg_FrameBytes (msp_cfg st)"
  shows "server_exchange publish now (with_newline (join_words ws)) st =
     (case msp_process publish now (join_words ws) st of (st, out) \<Rightarrow> (st, Inr out))"
  using readFrame_line [OF join_no_newline [OF assms(1)], of "nat (cfg_FrameBytes (msp_cfg st))"] assms(2)
  by (simp add: server_exchange_def nat_less_iff zless_nat_eq_int_zless)

lemma client_response_words:
  assumes "words_ok ws" "go_len (join_words ws) < frame_bytes"
  shows "client_response frame_bytes ident (with_newline (join_words ws)) =
     (if length ws = 4 \<and> ws ! 0 = msp_protocol \<and> ws ! 1 = ''NACK'' then
        (if ws ! 2 \<noteq> ident then Inl ResponseMismatch else Inl (RejectedBy (ws ! 3)))
      else Inr ws)"
proof -
  have "has_suffix (with_newline (join_words ws)) [newline]" by (simp add: has_suffix_iff with_newline_def)
  moreover have "go_len (with_newline (join_words ws)) \<le> frame_bytes" using assms(2) by (simp add: with_newline_def)
  ultimately show ?thesis using fields_join [OF assms(1)] by (simp add: client_response_def Let_def)
qed

lemma frame_words:
  "begin_frame ident n m = with_newline (join_words [msp_protocol, ''SNAPSHOT_BEGIN'', ident, itoa n, itoa m])"
  "part_frame ident i p = with_newline (join_words [msp_protocol, ''SNAPSHOT_PART'', ident, itoa i, EncodeToString p])"
  "commit_frame ident = with_newline (join_words [msp_protocol, ''SNAPSHOT_COMMIT'', ident])"
  "frame_accepted ident w = with_newline (join_words [msp_protocol, ''FRAME_ACCEPTED'', ident, w])"
  "nack ident c = with_newline (join_words [msp_protocol, ''NACK'', ident, c])"
  by (simp_all add: begin_frame_def part_frame_def commit_frame_def frame_accepted_def nack_def)

lemma plain_const [simp]:
  "plain msp_protocol" "plain ''SNAPSHOT_BEGIN''" "plain ''SNAPSHOT_PART''" "plain ''SNAPSHOT_COMMIT''"
  "plain ''FRAME_ACCEPTED''" "plain ''NACK''" "plain ''ACK''" "plain ''BEGIN''"
  by (simp_all add: plain_def msp_protocol_def byte_in_def)

lemma msp_protocol_len [simp]: "length msp_protocol = 5" "msp_protocol \<noteq> []"
  by (simp_all add: msp_protocol_def)

section \<open>Cutting a candidate\<close>

lemma fit_bytes_id: "int (EncodedLen n) \<le> c \<Longrightarrow> fit_bytes c n = n"
  by (cases n) auto

lemma part_bytes_eq:
  "part_bytes F k i = (let c = payload_characters F k i in nat (c * 3 div 4)) \<and>
   (0 < part_bytes F k i \<longrightarrow> int (EncodedLen (part_bytes F k i)) \<le> payload_characters F k i)"
proof -
  let ?c = "payload_characters F k i"
  have "int (EncodedLen (nat (?c * 3 div 4))) \<le> ?c" if "0 \<le> ?c"
  proof -
    have "int (nat (?c * 3 div 4)) = ?c * 3 div 4" using that by simp
    then show ?thesis unfolding EncodedLen_alt zdiv_int by simp
  qed
  moreover have "nat (?c * 3 div 4) = 0" if "?c < 0" using that by simp
  ultimately show ?thesis
    by (cases "0 \<le> ?c") (auto simp: part_bytes_def Let_def fit_bytes_id)
qed

lemma part_bytes_mono_id: "k \<le> 64 \<Longrightarrow> part_bytes F 64 i \<le> part_bytes F k i"
proof -
  assume "k \<le> 64"
  then have "payload_characters F 64 i * 3 div 4 \<le> payload_characters F k i * 3 div 4"
    by (intro zdiv_mono1) (simp_all add: payload_characters_def)
  then show ?thesis by (simp add: part_bytes_eq Let_def nat_mono)
qed

lemma part_bytes_antimono: "i \<le> j \<Longrightarrow> part_bytes F k j \<le> part_bytes F k i"
proof -
  assume "i \<le> j"
  from length_itoa_mono [OF this] have "payload_characters F k j * 3 div 4 \<le> payload_characters F k i * 3 div 4"
    by (intro zdiv_mono1) (simp_all add: payload_characters_def)
  then show ?thesis by (simp add: part_bytes_eq Let_def nat_mono)
qed

lemma sum_list_int: "(\<Sum>i\<leftarrow>xs. int (f i)) = int (\<Sum>i\<leftarrow>xs. f i)"
  by (induction xs) simp_all

lemma capacity_sum: "EffectiveDecodedCapacity F P = int (\<Sum>i\<leftarrow>[0..<nat P]. part_bytes F 64 i)"
proof -
  have "(let n = payload_characters F 64 i in if n > 0 then n * 3 div 4 else 0) = int (part_bytes F 64 i)" for i
    using pos_imp_zdiv_nonneg_iff [of 4 "payload_characters F 64 i * 3"] by (auto simp: part_bytes_eq Let_def)
  then show ?thesis unfolding EffectiveDecodedCapacity_def by (simp add: sum_list_int)
qed

lemma split_parts_ok:
  assumes "go_len ident \<le> 64" "length candidate \<le> (\<Sum>i\<leftarrow>[k..<nat P]. part_bytes F 64 i)"
  shows "\<exists>parts. split_parts ident F P k candidate = Inr parts \<and> concat parts = candidate \<and>
     list_all (\<lambda>p. p \<noteq> []) parts \<and> (parts \<noteq> [] \<longrightarrow> k + length parts \<le> nat P) \<and>
     (\<forall>i<length parts. int (EncodedLen (length (parts ! i))) \<le> payload_characters F (go_len ident) (k + i))"
  using assms(2)
proof (induction "length candidate" arbitrary: k candidate rule: less_induct)
  case less
  show ?case
  proof (cases "candidate = []")
    case True
    then show ?thesis by (subst split_parts.simps) simp
  next
    case False
    let ?n = "part_bytes F (go_len ident) k"
    have k: "k < nat P" using less.prems False by (cases "k < nat P") auto
    have "part_bytes F 64 k \<noteq> 0"
    proof
      assume "part_bytes F 64 k = 0"
      then have "\<forall>i\<in>set [k..<nat P]. part_bytes F 64 i = 0"
        using part_bytes_antimono [of k _ F 64] by fastforce
      then have "(\<Sum>i\<leftarrow>[k..<nat P]. part_bytes F 64 i) = 0" by (simp add: sum_list_eq_0_iff)
      with less.prems False show False by simp
    qed
    then have n: "0 < ?n" "part_bytes F 64 k \<le> ?n" using part_bytes_mono_id [OF assms(1), of F k] by auto
    have "length (drop ?n candidate) < length candidate" using n(1) False by simp
    moreover have "length (drop ?n candidate) \<le> (\<Sum>i\<leftarrow>[Suc k..<nat P]. part_bytes F 64 i)"
      using less.prems n(2) k by (simp add: upt_conv_Cons)
    ultimately obtain parts where p: "split_parts ident F P (Suc k) (drop ?n candidate) = Inr parts"
      "concat parts = drop ?n candidate" "list_all (\<lambda>p. p \<noteq> []) parts" "parts \<noteq> [] \<longrightarrow> Suc k + length parts \<le> nat P"
      "\<forall>i<length parts. int (EncodedLen (length (parts ! i))) \<le> payload_characters F (go_len ident) (Suc k + i)"
      using less.hyps by blast
    have eq: "split_parts ident F P k candidate = Inr (take ?n candidate # parts)"
      using False k n p(1) by (subst split_parts.simps) (simp add: Let_def nat_le_iff [symmetric] zless_nat_eq_int_zless [symmetric] not_le)
    have "EncodedLen (length (take ?n candidate)) \<le> EncodedLen ?n" by (rule EncodedLen_mono) simp
    moreover have "int (EncodedLen ?n) \<le> payload_characters F (go_len ident) k" using part_bytes_eq n(1) by blast
    ultimately have "\<forall>i<length (take ?n candidate # parts).
        int (EncodedLen (length ((take ?n candidate # parts) ! i))) \<le> payload_characters F (go_len ident) (k + i)"
      using p(5) by (auto simp: less_Suc_eq_0_disj)
    then show ?thesis
      unfolding eq using p n(1) False k
      by (intro exI [of _ "take ?n candidate # parts"]) auto
  qed
qed

section \<open>A conversation\<close>

lemma canonicalUint_itoa: "n < 2 ^ 31 \<Longrightarrow> canonicalUint (itoa n) = Some n"
proof -
  assume n: "n < 2 ^ 31"
  have "\<not> (1 < length (itoa n) \<and> hd (itoa n) = CHR ''0'')"
  proof (cases "n = 0")
    case True
    then show ?thesis by (simp add: itoa.simps)
  qed (simp add: itoa_hd_nonzero)
  with n show ?thesis by (simp add: canonicalUint_def parse_uint_itoa)
qed

lemma itoa_len10: "n < 2 ^ 31 \<Longrightarrow> length (itoa n) \<le> 10"
  by (rule length_itoa_bound) simp_all

definition tx_after :: "int \<Rightarrow> string \<Rightarrow> bytes list \<Rightarrow> nat \<Rightarrow> transaction" where
  "tx_after expires ident parts k =
     \<lparr>tx_id = ident, tx_parts = take k parts @ replicate (length parts - k) [], tx_next = k,
      tx_declared = length (concat parts), tx_actual = length (concat (take k parts)), tx_expires = expires\<rparr>"

definition st_after :: "int \<Rightarrow> string \<Rightarrow> bytes list \<Rightarrow> nat \<Rightarrow> 'p msp \<Rightarrow> 'p msp" where
  "st_after now ident parts k st =
     st\<lparr>msp_slots := msp_slots st + 1,
        msp_txs := (msp_txs st)(ident \<mapsto> tx_after (now + cfg_TransactionTimeout (msp_cfg st)) ident parts k)\<rparr>"

text \<open>A server that has room for one more transaction of this name and these parts.\<close>

definition room_for :: "string \<Rightarrow> bytes list \<Rightarrow> 'p msp \<Rightarrow> bool" where
  "room_for ident parts st \<longleftrightarrow>
     publicationIDPattern ident \<and> msp_txs st ident = None \<and> int (msp_slots st) < cfg_Transactions (msp_cfg st) \<and>
     0 < cfg_TransactionTimeout (msp_cfg st) \<and> 128 \<le> cfg_FrameBytes (msp_cfg st) \<and>
     parts \<noteq> [] \<and> list_all (\<lambda>p. p \<noteq> []) parts \<and> int (length parts) \<le> cfg_Parts (msp_cfg st) \<and>
     length parts < 2 ^ 31 \<and> int (length (concat parts)) \<le> cfg_DecodedBytes (msp_cfg st) \<and> length (concat parts) < 2 ^ 31 \<and>
     (\<forall>i<length parts. int (EncodedLen (length (parts ! i))) \<le> payload_characters (cfg_FrameBytes (msp_cfg st)) (go_len ident) i)"

lemma room_id: "room_for ident parts st \<Longrightarrow> plain ident \<and> ident \<noteq> [] \<and> length ident \<le> 64"
  using plain_id by (auto simp: room_for_def publicationIDPattern_def)

lemma exchange_process:
  assumes "words_ok ws" "go_len (join_words ws) < cfg_FrameBytes (msp_cfg st)" "2 \<le> length ws" "ws ! 0 = msp_protocol"
  shows "server_exchange publish now (with_newline (join_words ws)) st =
     (case (if ws ! 1 = ''SNAPSHOT_BEGIN'' then msp_begin now ws st
            else if ws ! 1 = ''SNAPSHOT_PART'' then msp_part now ws st
            else if ws ! 1 = ''SNAPSHOT_COMMIT'' then msp_commit publish now ws st
            else reject (responseID ws) FailureMalformed st) of (st, out) \<Rightarrow> (st, Inr out))"
  using server_exchange_words [OF assms(1,2), of publish now] split_join [OF assms(1)] assms(3,4)
  by (simp add: msp_process_def Let_def)

lemma exchange_begin:
  assumes room: "room_for ident parts st"
  shows "server_exchange publish now (begin_frame ident (length parts) (length (concat parts))) st =
     (st_after now ident parts 0 st, Inr (frame_accepted ident ''BEGIN''))"
proof -
  let ?ws = "[msp_protocol, ''SNAPSHOT_BEGIN'', ident, itoa (length parts), itoa (length (concat parts))]"
  note id = room_id [OF room]
  have lens: "length (itoa (length parts)) \<le> 10" "length (itoa (length (concat parts))) \<le> 10"
    using room by (auto simp: room_for_def intro!: itoa_len10)
  have ok: "words_ok ?ws" using id by (simp add: words_ok_def)
  have len: "go_len (join_words ?ws) < cfg_FrameBytes (msp_cfg st)" using id lens room by (simp add: room_for_def)
  have "0 < length (concat parts)" using room by (cases parts) (auto simp: room_for_def)
  then have "msp_begin now ?ws st = (st_after now ident parts 0 st, frame_accepted ident ''BEGIN'')"
    using room by (auto simp: msp_begin_def room_for_def canonicalUint_itoa Let_def st_after_def tx_after_def Suc_le_eq)
  with exchange_process [OF ok len, of publish now] show ?thesis by (simp add: frame_words(1))
qed

lemma replicate_upd:
  "k < length parts \<Longrightarrow> (take k parts @ replicate (length parts - k) [])[k := parts ! k] =
     take (Suc k) parts @ replicate (length parts - Suc k) []"
  by (simp add: list_update_append take_Suc_conv_app_nth Suc_diff_Suc [symmetric])

lemma exchange_part:
  assumes room: "room_for ident parts st" and k: "k < length parts"
  shows "server_exchange publish now (part_frame ident k (parts ! k)) (st_after now ident parts k st) =
     (st_after now ident parts (Suc k) st, Inr (frame_accepted ident (itoa k)))"
proof -
  let ?ws = "[msp_protocol, ''SNAPSHOT_PART'', ident, itoa k, EncodeToString (parts ! k)]"
  let ?st = "st_after now ident parts k st"
  note id = room_id [OF room]
  have ne: "parts ! k \<noteq> []" using room k by (auto simp: room_for_def list_all_length)
  have ok: "words_ok ?ws" using id plain_encode EncodeToString_nonempty [OF ne] by (simp add: words_ok_def)
  have "int (EncodedLen (length (parts ! k))) \<le> payload_characters (cfg_FrameBytes (msp_cfg st)) (go_len ident) k"
    using room k by (simp add: room_for_def)
  then have len: "go_len (join_words ?ws) < cfg_FrameBytes (msp_cfg ?st)"
    by (simp add: payload_characters_def length_EncodeToString st_after_def)
  have sum: "length (concat (take k parts)) + length (parts ! k) = length (concat (take (Suc k) parts))"
    using k by (simp add: take_Suc_conv_app_nth)
  have "concat parts = concat (take (Suc k) parts) @ concat (drop (Suc k) parts)"
    by (metis append_take_drop_id concat_append)
  then have le: "length (concat (take (Suc k) parts)) \<le> length (concat parts)"
    by (metis length_append le_add1)
  have eq: "CHR ''='' \<notin> set (EncodeToString (parts ! k))" using EncodeToString_plain by blast
  have "msp_part now ?ws ?st = (st_after now ident parts (Suc k) st, frame_accepted ident (itoa k))"
    using room k ne sum le eq replicate_upd [OF k]
    by (simp add: msp_part_def room_for_def canonicalUint_itoa Let_def st_after_def tx_after_def Decode_Encode)
  with exchange_process [OF ok len, of publish now] show ?thesis by (simp add: frame_words(2))
qed

lemma exchange_commit:
  assumes room: "room_for ident parts st"
    and pub: "publish (now + cfg_TransactionTimeout (msp_cfg st)) Unix (concat parts) (msp_publisher st) = (p, r)"
  shows "server_exchange publish now (commit_frame ident) (st_after now ident parts (length parts) st) =
     (st\<lparr>msp_publisher := p\<rparr>, Inr (commit_response ident r))"
proof -
  let ?ws = "[msp_protocol, ''SNAPSHOT_COMMIT'', ident]"
  let ?st = "st_after now ident parts (length parts) st"
  note id = room_id [OF room]
  have ok: "words_ok ?ws" using id by (simp add: words_ok_def)
  have len: "go_len (join_words ?ws) < cfg_FrameBytes (msp_cfg ?st)"
    using id room by (simp add: room_for_def st_after_def)
  have "((msp_txs st)(ident \<mapsto> x))(ident := None) = msp_txs st" for x
    using room by (auto simp: room_for_def)
  then have "msp_commit publish now ?ws ?st = (st\<lparr>msp_publisher := p\<rparr>, commit_response ident r)"
    using room pub by (simp add: msp_commit_def room_for_def Let_def st_after_def tx_after_def drop_tx_def)
  with exchange_process [OF ok len, of publish now] show ?thesis by (simp add: frame_words(3))
qed

text \<open>What the client makes of a result.\<close>

definition client_outcome :: "Result \<Rightarrow> client_error + uint64" where
  "client_outcome r =
     (case r_outcome r of
        Accepted \<Rightarrow> Inr (r_generation r)
      | Rejected \<Rightarrow> Inl (RejectedBy (reason_string (the (r_reason r))))
      | InternalError \<Rightarrow> Inl (RejectedBy ''internal'')
      | oc \<Rightarrow> Inl (RejectedBy (outcome_string oc)))"

lemma format_uint_words: "plain (format_uint w)" "format_uint w \<noteq> []" "length (format_uint w) \<le> 20"
proof -
  have "unat w < 2 ^ 64" using unsigned_less [of w] by simp
  then have "unat w < 10 ^ 20" by simp
  then show "length (format_uint w) \<le> 20" unfolding format_uint_def by (rule length_itoa_bound) simp
qed (simp_all add: format_uint_def)

lemma reason_word: "plain (reason_string q) \<and> reason_string q \<noteq> [] \<and> length (reason_string q) \<le> 17"
  by (cases q) (simp_all add: plain_def byte_in_def)

lemma client_nack:
  assumes "plain ident" "ident \<noteq> []" "length ident \<le> 64" "plain c" "c \<noteq> []" "length c \<le> 17" "128 \<le> F"
  shows "client_response F ident (nack ident c) = Inl (RejectedBy c)"
  unfolding frame_words using assms by (subst client_response_words) (simp_all add: words_ok_def)

lemma client_accepted:
  assumes "plain ident" "ident \<noteq> []" "length ident \<le> 64" "plain w" "w \<noteq> []" "length w \<le> 10" "128 \<le> F"
  shows "client_response F ident (frame_accepted ident w) = Inr [msp_protocol, ''FRAME_ACCEPTED'', ident, w]"
  unfolding frame_words using assms by (subst client_response_words) (simp_all add: words_ok_def)

lemma read_ack_generation: "read_ack ident [msp_protocol, ''ACK'', ident, format_uint g] = Inr g"
proof -
  have "\<not> (1 < length (format_uint g) \<and> hd (format_uint g) = CHR ''0'')"
  proof (cases "unat g = 0")
    case True
    then show ?thesis by (simp add: format_uint_def itoa.simps)
  qed (simp add: format_uint_def itoa_hd_nonzero)
  then show ?thesis using format_uint_words(2) [of g] by (auto simp: read_ack_def parse_format_uint)
qed

lemma client_commit:
  assumes id: "plain ident" "ident \<noteq> []" "length ident \<le> 64" and F: "128 \<le> F"
    and reason: "r_outcome r = Rejected \<Longrightarrow> r_reason r \<noteq> None"
  shows "(case client_response F ident (commit_response ident r) of Inl e \<Rightarrow> Inl e | Inr fs \<Rightarrow> read_ack ident fs) = client_outcome r"
proof (cases "r_outcome r")
  case Accepted
  have "commit_response ident r = with_newline (join_words [msp_protocol, ''ACK'', ident, format_uint (r_generation r)])"
    using Accepted by (simp add: commit_response_def)
  moreover have "client_response F ident (with_newline (join_words [msp_protocol, ''ACK'', ident, format_uint (r_generation r)])) =
      Inr [msp_protocol, ''ACK'', ident, format_uint (r_generation r)]"
    using id F format_uint_words [of "r_generation r"]
    by (subst client_response_words) (simp_all add: words_ok_def)
  ultimately show ?thesis using Accepted read_ack_generation by (simp add: client_outcome_def)
next
  case Rejected
  with reason obtain q where "r_reason r = Some q" by blast
  with Rejected client_nack [OF id _ _ _ F, of "reason_string q"] reason_word [of q] show ?thesis
    by (simp add: client_outcome_def commit_response_def)
qed (use client_nack [OF id _ _ _ F] in \<open>simp_all add: client_outcome_def commit_response_def plain_def byte_in_def\<close>)

lemma roundTrip_accepted:
  assumes "ex frame s = (s', Inr (frame_accepted ident w))" "go_len frame \<le> F"
    and "plain ident" "ident \<noteq> []" "length ident \<le> 64" "plain w" "w \<noteq> []" "length w \<le> 10" "128 \<le> F"
  shows "roundTrip ex F ident frame [msp_protocol, ''FRAME_ACCEPTED'', ident, w] s = (s', None)"
  using assms client_accepted [OF assms(3-9)] by (simp add: roundTrip_def ask_def)

lemma part_frame_len:
  "int (EncodedLen (length p)) \<le> payload_characters F (go_len ident) i \<Longrightarrow> go_len (part_frame ident i p) \<le> F"
  by (simp add: part_frame_def with_newline_def payload_characters_def length_EncodeToString)

lemma send_parts_ok:
  assumes room: "room_for ident parts st" and F: "F = cfg_FrameBytes (msp_cfg st)"
  shows "k \<le> length parts \<Longrightarrow>
     send_parts (server_exchange publish now) F ident k (drop k parts) (st_after now ident parts k st) =
       (st_after now ident parts (length parts) st, None)"
proof (induction "length parts - k" arbitrary: k)
  case 0
  then show ?case by simp
next
  case (Suc n)
  then have k: "k < length parts" by simp
  note id = room_id [OF room]
  have "length (itoa k) \<le> 10" using k room by (intro itoa_len10) (simp add: room_for_def)
  then have "roundTrip (server_exchange publish now) F ident (part_frame ident k (parts ! k))
      [msp_protocol, ''FRAME_ACCEPTED'', ident, itoa k] (st_after now ident parts k st) =
      (st_after now ident parts (Suc k) st, None)"
    using exchange_part [OF room k, of publish now] id room k F
    by (intro roundTrip_accepted) (auto simp: room_for_def intro!: part_frame_len)
  moreover have "drop k parts = parts ! k # drop (Suc k) parts" using k by (simp add: Cons_nth_drop_Suc)
  ultimately show ?case using Suc.hyps(1) [of "Suc k"] Suc.hyps(2) k by simp
qed

lemma publish_conversation:
  assumes room: "room_for ident parts st" and F: "F = cfg_FrameBytes (msp_cfg st)"
    and split: "split_parts ident F P 0 candidate = Inr parts" "concat parts = candidate" "candidate \<noteq> []"
    and pub: "publish (now + cfg_TransactionTimeout (msp_cfg st)) Unix candidate (msp_publisher st) = (p, r)"
    and reason: "r_outcome r = Rejected \<Longrightarrow> r_reason r \<noteq> None"
  shows "writer_publish (server_exchange publish now) F P None None ident candidate st =
     (st\<lparr>msp_publisher := p\<rparr>, client_outcome r)"
proof -
  note id = room_id [OF room]
  have F128: "128 \<le> F" using room F by (simp add: room_for_def)
  have lens: "length (itoa (length parts)) \<le> 10" "length (itoa (length candidate)) \<le> 10"
    using room split by (auto simp: room_for_def intro!: itoa_len10)
  have "go_len (begin_frame ident (length parts) (length candidate)) \<le> F"
    using lens id F128 by (simp add: begin_frame_def with_newline_def)
  then have b: "roundTrip (server_exchange publish now) F ident (begin_frame ident (length parts) (length candidate))
      [msp_protocol, ''FRAME_ACCEPTED'', ident, ''BEGIN''] st = (st_after now ident parts 0 st, None)"
    using exchange_begin [OF room, of publish now] split(2) id F128
    by (intro roundTrip_accepted) simp_all
  have s: "send_parts (server_exchange publish now) F ident 0 parts (st_after now ident parts 0 st) =
      (st_after now ident parts (length parts) st, None)"
    using send_parts_ok [OF room F, of 0 publish now] by simp
  have c: "ask (server_exchange publish now) F ident (commit_frame ident) (st_after now ident parts (length parts) st) =
      (st\<lparr>msp_publisher := p\<rparr>, client_response F ident (commit_response ident r))"
    using exchange_commit [OF room, of publish now p r] pub split(2) by (simp add: ask_def)
  have "publicationIDPattern ident" using room by (simp add: room_for_def)
  then show ?thesis
    using split b s c client_commit [of ident F r] id F128 reason
    by (simp add: writer_publish_def split: sum.splits)
qed

section \<open>Any publisher behind the server\<close>

locale msp_service = publisher publish active parse
  for publish :: "'p publish_op" and active :: "'p \<Rightarrow> ActiveSnapshot" and parse :: "'p \<Rightarrow> bytes \<Rightarrow> ValidatedSnapshot option"
begin

lemma conversation:
  assumes "publicationIDPattern ident" "candidate \<noteq> []" "128 \<le> cfg_FrameBytes (msp_cfg st)"
    "0 < cfg_TransactionTimeout (msp_cfg st)" "P \<le> cfg_Parts (msp_cfg st)" "cfg_Parts (msp_cfg st) < 2 ^ 31"
    "go_len candidate \<le> cfg_DecodedBytes (msp_cfg st)" "cfg_DecodedBytes (msp_cfg st) < 2 ^ 31"
    "go_len candidate \<le> EffectiveDecodedCapacity (cfg_FrameBytes (msp_cfg st)) P"
    "msp_txs st ident = None" "int (msp_slots st) < cfg_Transactions (msp_cfg st)"
    "publish (now + cfg_TransactionTimeout (msp_cfg st)) Unix candidate (msp_publisher st) = (p, r)"
  shows "writer_publish (server_exchange publish now) (cfg_FrameBytes (msp_cfg st)) P None None ident candidate st =
     (st\<lparr>msp_publisher := p\<rparr>, client_outcome r)"
proof -
  let ?F = "cfg_FrameBytes (msp_cfg st)"
  have "go_len ident \<le> 64" using assms(1) by (simp add: publicationIDPattern_def)
  moreover have "length candidate \<le> (\<Sum>i\<leftarrow>[0..<nat P]. part_bytes ?F 64 i)"
    using assms(9) by (simp add: capacity_sum)
  ultimately obtain parts where parts: "split_parts ident ?F P 0 candidate = Inr parts" "concat parts = candidate"
    "list_all (\<lambda>p. p \<noteq> []) parts" "parts \<noteq> [] \<longrightarrow> length parts \<le> nat P"
    "\<forall>i<length parts. int (EncodedLen (length (parts ! i))) \<le> payload_characters ?F (go_len ident) i"
    using split_parts_ok [where ident = ident and candidate = candidate and k = 0 and P = P and F = ?F] by auto
  have ne: "parts \<noteq> []" using parts(2) assms(2) by auto
  then have "0 < length parts" "length parts \<le> nat P" using parts(4) by simp_all
  then have "int (length parts) \<le> P" by linarith
  with ne have "room_for ident parts st"
    using assms parts ne by (auto simp: room_for_def)
  then show ?thesis
    using publish_conversation [where publish = publish and now = now, OF _ refl parts(1,2) assms(2,12)] rejected_reason [OF assms(12)]
    by blast
qed

text \<open>The generation the client reads belongs to its own candidate, active on the server.\<close>

lemma conversation_generation:
  assumes "publish d Unix candidate p0 = (p, r)" "client_outcome r = Inr g"
  shows "\<exists>v. parse p0 candidate = Some v \<and> active p = NewActive v g"
proof -
  have "r_outcome r = Accepted" "g = r_generation r"
    using assms(2) by (auto simp: client_outcome_def split: Outcome.splits)
  with accepted_active [OF assms(1)] show ?thesis by simp
qed

lemma conversation_error:
  assumes "publish d Unix candidate p0 = (p, r)" "client_outcome r = Inl e"
  shows "active p = active p0"
proof -
  have "r_outcome r \<noteq> Accepted" using assms(2) by (auto simp: client_outcome_def)
  with declined_active [OF assms(1)] show ?thesis by simp
qed

end

interpretation core_service: msp_service "\<lambda>_. Publish ctx" "\<lambda>core. Active (c_holder core)" core_parse for ctx
  by unfold_locales

section \<open>Properties\<close>

text \<open>
  C15: the whole way of a candidate over the socket. For a server with room for one more transaction
  and a client configured with the same frame size and at most as many parts, every candidate within
  the decoded limit and the effective capacity is cut, sent, assembled and published byte for byte;
  the core is left as one uninterrupted call of \<open>Publish\<close> leaves it, the server has its slots and
  transactions back, and the client returns the generation exactly when the candidate was accepted
  and is active under it, and the server's code otherwise.
\<close>

theorem msp_end_to_end:
  fixes st :: "Core msp"
  assumes "publicationIDPattern ident" "candidate \<noteq> []" "128 \<le> cfg_FrameBytes (msp_cfg st)"
    "0 < cfg_TransactionTimeout (msp_cfg st)" "P \<le> cfg_Parts (msp_cfg st)" "cfg_Parts (msp_cfg st) < 2 ^ 31"
    "go_len candidate \<le> cfg_DecodedBytes (msp_cfg st)" "cfg_DecodedBytes (msp_cfg st) < 2 ^ 31"
    "go_len candidate \<le> EffectiveDecodedCapacity (cfg_FrameBytes (msp_cfg st)) P"
    "msp_txs st ident = None" "int (msp_slots st) < cfg_Transactions (msp_cfg st)"
    and pub: "Publish ctx Unix candidate (msp_publisher st) = (core, r)"
  shows "writer_publish (server_exchange (\<lambda>_. Publish ctx) now) (cfg_FrameBytes (msp_cfg st)) P None None ident candidate st =
       (st\<lparr>msp_publisher := core\<rparr>, client_outcome r) \<and>
     (case client_outcome r of
        Inr g \<Rightarrow> (\<exists>v. core_parse (msp_publisher st) candidate = Some v \<and> Active (c_holder core) = NewActive v g)
      | Inl e \<Rightarrow> Active (c_holder core) = Active (c_holder (msp_publisher st)))"
  using core_service.conversation [where ctx = ctx, OF assms]
    core_service.conversation_generation [OF pub] core_service.conversation_error [OF pub]
  by (auto split: sum.splits)

definition sample_server :: "Parser \<Rightarrow> Core msp" where
  "sample_server parser = \<lparr>msp_cfg = DefaultConfig, msp_slots = 0, msp_txs = Map.empty, msp_rejections = [],
     msp_expirations = 0, msp_publisher = sample_core parser\<rparr>"

lemma itoa_0: "itoa 0 = ''0''"
  by code_simp

theorem msp_end_to_end_witness:
  "writer_publish (server_exchange (\<lambda>_. Publish \<lparr>expired_on_entry = False, expired_waiting = False, expired_after_parse = False\<rparr>) 0)
     (8 * 2 ^ 10) 1 None None ''job-1'' ''payload'' (sample_server accept_zero) =
   ((sample_server accept_zero)\<lparr>msp_publisher :=
       fst (Publish \<lparr>expired_on_entry = False, expired_waiting = False, expired_after_parse = False\<rparr> Unix ''payload''
         (sample_core accept_zero))\<rparr>, Inr 1)"
proof -
  let ?ctx = "\<lparr>expired_on_entry = False, expired_waiting = False, expired_after_parse = False\<rparr>"
  have r: "snd (Publish ?ctx Unix ''payload'' (sample_core accept_zero)) = mk_result Unix Accepted 1 None"
    by (simp add: Publish_def publish_enter_def publish_start_def publish_parse_def publish_install_def
        publish_complete_def publish_leave_def observe_def sample_core_fields accept_zero_def validTransport_def
        Transports_def Install_def Let_def NewInitialHolder_def NewHolder_def NewActive_def Zero_def
        max_uint64_def bind_families_def)
  have cap: "7 \<le> EffectiveDecodedCapacity (8 * 2 ^ 10) 1"
    by (simp add: EffectiveDecodedCapacity_def payload_characters_def itoa_0)
  have "client_outcome (mk_result Unix Accepted 1 None) = Inr 1" by (simp add: client_outcome_def mk_result_def)
  with msp_end_to_end [of "''job-1''" "''payload''" "sample_server accept_zero" 1 ?ctx
      "fst (Publish ?ctx Unix ''payload'' (sample_core accept_zero))"
      "mk_result Unix Accepted 1 None" 0] r cap
  show ?thesis
    by (simp add: sample_server_def DefaultConfig_def publicationIDPattern_def byte_in_def is_digit_def prod_eq_iff)
qed

end
