(* ===== verification/Managed_Model.thy ===== *)
theory Managed_Model
  imports Snapshot_Model
begin

text \<open>
  The managed registry's model (\<^verbatim>\<open>internal/managed/model.go\<close>): descriptors,
  operations on counters, gauges and histograms, and the limits they are checked against.

  The Go maps are association lists with distinct keys; lookup is \<open>map_of\<close>, insertion
  \<open>AList.update\<close>. The label map of an operation is an association list in the order the
  iteration happens to take, which decides between two limit errors when both apply. Operations that
  work on a clone and then swap it in return the new model or the error.
\<close>

section \<open>Data\<close>

datatype managed_reason =
    InvalidName | ReservedName | InvalidType | DerivedName | InvalidLabels | DuplicateLabel | InvalidBuckets
  | DescriptorConflict | Undeclared | LabelSchema | WrongType | AlreadyInitialized | InvalidNumber | Overflow
  | Unsupported | FamilyLimit | TooManySeries | LabelLimit | BucketLimit | BatchLimit | NameLimit | ValueLimit
  | HelpLimit | Late

fun managed_reason_string :: "managed_reason \<Rightarrow> string" where
  "managed_reason_string InvalidName = ''invalid_name''"
| "managed_reason_string ReservedName = ''reserved_name''"
| "managed_reason_string InvalidType = ''invalid_type''"
| "managed_reason_string DerivedName = ''derived_name_conflict''"
| "managed_reason_string InvalidLabels = ''invalid_label_schema''"
| "managed_reason_string DuplicateLabel = ''duplicate_label''"
| "managed_reason_string InvalidBuckets = ''invalid_buckets''"
| "managed_reason_string DescriptorConflict = ''descriptor_conflict''"
| "managed_reason_string Undeclared = ''undeclared''"
| "managed_reason_string LabelSchema = ''label_schema''"
| "managed_reason_string WrongType = ''wrong_type''"
| "managed_reason_string AlreadyInitialized = ''already_initialized''"
| "managed_reason_string InvalidNumber = ''invalid_number''"
| "managed_reason_string Overflow = ''overflow''"
| "managed_reason_string Unsupported = ''unsupported_operation''"
| "managed_reason_string FamilyLimit = ''family_limit''"
| "managed_reason_string TooManySeries = ''series_limit''"
| "managed_reason_string LabelLimit = ''label_limit''"
| "managed_reason_string BucketLimit = ''bucket_limit''"
| "managed_reason_string BatchLimit = ''batch_limit''"
| "managed_reason_string NameLimit = ''name_limit''"
| "managed_reason_string ValueLimit = ''label_value_limit''"
| "managed_reason_string HelpLimit = ''help_limit''"
| "managed_reason_string Late = ''late''"

record Descriptor =
  d_name :: string
  d_help :: string
  d_type :: MetricType
  d_labels :: "string list"
  d_buckets :: "float64 list"

type_synonym OperationKind = string

definition CounterInitialize :: OperationKind where "CounterInitialize = ''counter_initialize''"
definition CounterAdd :: OperationKind where "CounterAdd = ''counter_add''"
definition GaugeSet :: OperationKind where "GaugeSet = ''gauge_set''"
definition HistogramObserve :: OperationKind where "HistogramObserve = ''histogram_observe''"

type_synonym label_map = "(string \<times> string) list"

record Operation =
  op_kind :: OperationKind
  op_name :: string
  op_labels :: label_map
  op_value :: float64

record managed_series =
  ms_labels :: label_map
  ms_value :: float64
  ms_count :: uint64
  ms_sum :: float64
  ms_bucket_counts :: "uint64 list"

record managed_family =
  mf_descriptor :: Descriptor
  mf_series :: "(string \<times> managed_series) list"

record managed_limits =
  ml_families :: int
  ml_series :: int
  ml_labels :: int
  ml_buckets :: int
  ml_batch :: int
  ml_metric_name_bytes :: int
  ml_label_name_bytes :: int
  ml_label_value_bytes :: int
  ml_help_bytes :: int

definition managed_default_limits :: managed_limits where
  "managed_default_limits =
     \<lparr>ml_families = 1024, ml_series = 10000, ml_labels = 8, ml_buckets = 64, ml_batch = 64,
      ml_metric_name_bytes = 256, ml_label_name_bytes = 128, ml_label_value_bytes = 2 ^ 10, ml_help_bytes = 4 * 2 ^ 10\<rparr>"

definition limits_validate :: "managed_limits \<Rightarrow> managed_reason option" where
  "limits_validate l =
     (if ml_families l < 1 \<or> ml_families l > 100000 \<or> ml_series l < 1 \<or> ml_series l > 100000 \<or>
         ml_labels l < 0 \<or> ml_labels l > 64 \<or> ml_buckets l < 1 \<or> ml_buckets l > 1024 \<or>
         ml_batch l < 1 \<or> ml_batch l > 1024 \<or> ml_metric_name_bytes l < 1 \<or> ml_metric_name_bytes l > 1024 \<or>
         ml_label_name_bytes l < 1 \<or> ml_label_name_bytes l > 1024 \<or>
         ml_label_value_bytes l < 1 \<or> ml_label_value_bytes l > 16 * 2 ^ 10 \<or>
         ml_help_bytes l < 0 \<or> ml_help_bytes l > 64 * 2 ^ 10
      then Some InvalidNumber else None)"

record Model =
  md_families :: "(string \<times> managed_family) list"
  md_limits :: managed_limits
  md_active :: int

definition NewModelWithLimits :: "managed_limits \<Rightarrow> Model" where
  "NewModelWithLimits l = \<lparr>md_families = [], md_limits = l, md_active = 0\<rparr>"

section \<open>Descriptors\<close>

text \<open>
  The names are read rune by rune; a byte outside ASCII starts a rune (or an invalid one) outside all
  the ranges, so the byte-wise test agrees.
\<close>

definition name_char :: "char \<Rightarrow> bool" where
  "name_char c \<longleftrightarrow> c = CHR ''_'' \<or> c = CHR '':'' \<or> byte_in 97 122 c \<or> byte_in 65 90 c"

definition label_char :: "char \<Rightarrow> bool" where
  "label_char c \<longleftrightarrow> c = CHR ''_'' \<or> byte_in 97 122 c \<or> byte_in 65 90 c"

definition validName :: "string \<Rightarrow> bool" where
  "validName s \<longleftrightarrow>
     s \<noteq> [] \<and> (\<forall>(i, c)\<in>set (zip [0..<length s] s). name_char c \<or> 0 < i \<and> byte_in 48 57 c)"

definition validLabelName :: "string \<Rightarrow> bool" where
  "validLabelName s \<longleftrightarrow>
     s \<noteq> [] \<and> (\<forall>(i, c)\<in>set (zip [0..<length s] s). label_char c \<or> 0 < i \<and> byte_in 48 57 c)"

definition counterOperand :: "float64 \<Rightarrow> bool" where
  "counterOperand v \<longleftrightarrow> \<not> is_nan v \<and> \<not> is_inf_neg v \<and> f64_le f64_zero v"

definition derivedNames :: "Descriptor \<Rightarrow> string list" where
  "derivedNames d =
     (if d_type d = Counter then [d_name d, d_name d @ ''_total'']
      else if d_type d = Histogram then [d_name d, d_name d @ ''_bucket'', d_name d @ ''_sum'', d_name d @ ''_count'']
      else [d_name d])"

definition namesOverlap :: "string list \<Rightarrow> string list \<Rightarrow> bool" where
  "namesOverlap left right = list_ex (\<lambda>a. list_ex (\<lambda>b. a = b) right) left"

definition sameDescriptor :: "Descriptor \<Rightarrow> Descriptor \<Rightarrow> bool" where
  "sameDescriptor l r \<longleftrightarrow>
     d_name l = d_name r \<and> d_help l = d_help r \<and> d_type l = d_type r \<and>
     length (d_labels l) = length (d_labels r) \<and> length (d_buckets l) = length (d_buckets r) \<and>
     list_all (\<lambda>(a, b). a = b) (zip (d_labels l) (d_labels r)) \<and>
     list_all (\<lambda>(a, b). f64_eq a b) (zip (d_buckets l) (d_buckets r))"

definition validateDescriptorLimits :: "managed_limits \<Rightarrow> Descriptor \<Rightarrow> managed_reason option" where
  "validateDescriptorLimits l d =
     (if go_len (d_name d) > ml_metric_name_bytes l then Some NameLimit
      else if go_len (d_help d) > ml_help_bytes l then Some HelpLimit
      else if go_len (d_labels d) > ml_labels l then Some LabelLimit
      else if go_len (d_buckets d) > ml_buckets l then Some BucketLimit
      else if list_ex (\<lambda>x. go_len x > ml_label_name_bytes l) (d_labels d) then Some NameLimit
      else None)"

text \<open>The loop over the sorted labels, with the label before.\<close>

fun check_labels :: "MetricType \<Rightarrow> string option \<Rightarrow> string list \<Rightarrow> managed_reason option" where
  "check_labels t prev [] = None"
| "check_labels t prev (l # ls) =
     (if \<not> validLabelName l \<or> l = ''__name__'' \<or> (t = Histogram \<and> l = ''le'') then Some InvalidLabels
      else if prev = Some l then Some DuplicateLabel
      else check_labels t (Some l) ls)"

fun check_bounds :: "float64 option \<Rightarrow> float64 list \<Rightarrow> managed_reason option" where
  "check_bounds prev [] = None"
| "check_bounds prev (b # bs) =
     (if is_nan b \<or> (case prev of None \<Rightarrow> False | Some p \<Rightarrow> f64_le b p) then Some InvalidBuckets
      else check_bounds (Some b) bs)"

definition canonicalDescriptor :: "Descriptor \<Rightarrow> managed_reason + Descriptor" where
  "canonicalDescriptor d =
     (if \<not> validName (d_name d) then Inl InvalidName
      else if has_prefix (d_name d) ''metricshell_'' then Inl ReservedName
      else if d_type d \<noteq> Counter \<and> d_type d \<noteq> Gauge \<and> d_type d \<noteq> Histogram then Inl InvalidType
      else if d_type d = Counter \<and> has_suffix (d_name d) ''_total'' then Inl DerivedName
      else if d_type d = Histogram \<and> (has_suffix (d_name d) ''_bucket'' \<or> has_suffix (d_name d) ''_sum'' \<or>
                has_suffix (d_name d) ''_count'') then Inl DerivedName
      else
        let labels = sort (d_labels d) in
        case check_labels (d_type d) None labels of
          Some r \<Rightarrow> Inl r
        | None \<Rightarrow>
            if d_type d \<noteq> Histogram \<and> d_buckets d \<noteq> [] then Inl InvalidBuckets
            else if d_type d = Histogram \<and> (d_buckets d = [] \<or> \<not> is_inf_pos (last (d_buckets d))) then Inl InvalidBuckets
            else if d_type d = Histogram \<and> check_bounds None (d_buckets d) \<noteq> None then Inl InvalidBuckets
            else Inr (d\<lparr>d_labels := labels\<rparr>))"

definition Declare :: "Descriptor \<Rightarrow> Model \<Rightarrow> managed_reason + Model" where
  "Declare input m =
     (case validateDescriptorLimits (md_limits m) input of
        Some r \<Rightarrow> Inl r
      | None \<Rightarrow>
          and_then (canonicalDescriptor input) (\<lambda>d.
            case map_of (md_families m) (d_name d) of
              Some existing \<Rightarrow>
                if sameDescriptor (mf_descriptor existing) d then Inr m else Inl DescriptorConflict
            | None \<Rightarrow>
                if go_len (md_families m) \<ge> ml_families (md_limits m) then Inl FamilyLimit
                else if list_ex (\<lambda>(n, f). namesOverlap (derivedNames (mf_descriptor f)) (derivedNames d)) (md_families m)
                  then Inl DerivedName
                else Inr (m\<lparr>md_families :=
                  AList.update (d_name d) \<lparr>mf_descriptor = d, mf_series = []\<rparr> (md_families m)\<rparr>)))"

section \<open>Operations\<close>

definition label_block :: "string \<Rightarrow> string \<Rightarrow> string" where
  "label_block name val =
     itoa (length name) @ '':'' @ name @ ''='' @ itoa (length val) @ '':'' @ val @ '';''"

fun resolve_from :: "label_map \<Rightarrow> string list \<Rightarrow> managed_reason + string \<times> label_map" where
  "resolve_from input [] = Inr ([], [])"
| "resolve_from input (name # names) =
     (case map_of input name of
        None \<Rightarrow> Inl LabelSchema
      | Some val \<Rightarrow>
          and_then (resolve_from input names) (\<lambda>(key, labels). Inr (label_block name val @ key, (name, val) # labels)))"

definition resolveLabels :: "string list \<Rightarrow> label_map \<Rightarrow> managed_reason + string \<times> label_map" where
  "resolveLabels schema input =
     (if length input \<noteq> length schema then Inl LabelSchema else resolve_from input schema)"

fun check_operation_labels :: "managed_limits \<Rightarrow> label_map \<Rightarrow> managed_reason option" where
  "check_operation_labels l [] = None"
| "check_operation_labels l ((name, val) # rest) =
     (if go_len name > ml_label_name_bytes l then Some NameLimit
      else if go_len val > ml_label_value_bytes l then Some ValueLimit
      else check_operation_labels l rest)"

definition zero_series :: managed_series where
  "zero_series = \<lparr>ms_labels = [], ms_value = f64_zero, ms_count = 0, ms_sum = f64_zero, ms_bucket_counts = []\<rparr>"

definition in_bucket :: "float64 \<Rightarrow> float64 \<Rightarrow> bool" where
  "in_bucket v boundary \<longleftrightarrow> f64_le v boundary \<or> is_nan v \<and> is_inf_pos boundary"

definition put_series :: "string \<Rightarrow> managed_family \<Rightarrow> string \<Rightarrow> managed_series \<Rightarrow> bool \<Rightarrow> Model \<Rightarrow> Model" where
  "put_series name f key s is_new m =
     m\<lparr>md_families := AList.update name (f\<lparr>mf_series := AList.update key s (mf_series f)\<rparr>) (md_families m),
       md_active := md_active m + (if is_new then 1 else 0)\<rparr>"

text \<open>The switch on the kind, given the family, the key, the labels and the series if there is one.\<close>

definition apply_kind ::
  "Operation \<Rightarrow> managed_family \<Rightarrow> string \<Rightarrow> label_map \<Rightarrow> managed_series option \<Rightarrow> Model \<Rightarrow> managed_reason + Model" where
  "apply_kind operation f key labels found m =
     (let d = mf_descriptor f; v = op_value operation; name = op_name operation;
          s = (case found of None \<Rightarrow> zero_series | Some s \<Rightarrow> s); is_new = (found = None);
          s = (if is_new then s\<lparr>ms_labels := labels\<rparr> else s)
      in if op_kind operation = CounterInitialize then
           (if d_type d \<noteq> Counter then Inl WrongType
            else if \<not> is_new then Inl AlreadyInitialized
            else if \<not> counterOperand v then Inl InvalidNumber
            else Inr (put_series name f key (s\<lparr>ms_value := if f64_eq v f64_zero then f64_zero else v\<rparr>) True m))
         else if op_kind operation = CounterAdd then
           (if d_type d \<noteq> Counter then Inl WrongType
            else if \<not> counterOperand v then Inl InvalidNumber
            else Inr (put_series name f key (s\<lparr>ms_value := f64_add (ms_value s) v\<rparr>) is_new m))
         else if op_kind operation = GaugeSet then
           (if d_type d \<noteq> Gauge then Inl WrongType
            else Inr (put_series name f key (s\<lparr>ms_value := v\<rparr>) is_new m))
         else if op_kind operation = HistogramObserve then
           (if d_type d \<noteq> Histogram then Inl WrongType
            else if ms_count s = max_uint64 then Inl Overflow
            else
              let counts = (if is_new then replicate (length (d_buckets d)) 0 else ms_bucket_counts s) in
              if list_ex (\<lambda>(b, c). in_bucket v b \<and> c = max_uint64) (zip (d_buckets d) counts) then Inl Overflow
              else Inr (put_series name f key
                (s\<lparr>ms_count := ms_count s + 1, ms_sum := f64_add (ms_sum s) v,
                   ms_bucket_counts := map (\<lambda>(b, c). if in_bucket v b then c + 1 else c) (zip (d_buckets d) counts)\<rparr>) is_new m))
         else Inl Unsupported)"

definition apply_operation :: "Operation \<Rightarrow> Model \<Rightarrow> managed_reason + Model" where
  "apply_operation operation m =
     (if go_len (op_name operation) > ml_metric_name_bytes (md_limits m) then Inl NameLimit
      else if go_len (op_labels operation) > ml_labels (md_limits m) then Inl LabelLimit
      else case check_operation_labels (md_limits m) (op_labels operation) of
        Some r \<Rightarrow> Inl r
      | None \<Rightarrow>
          (case map_of (md_families m) (op_name operation) of
             None \<Rightarrow> Inl Undeclared
           | Some f \<Rightarrow>
               and_then (resolveLabels (d_labels (mf_descriptor f)) (op_labels operation)) (\<lambda>(key, labels).
                 let found = map_of (mf_series f) key in
                 if found = None \<and> md_active m \<ge> ml_series (md_limits m) then Inl TooManySeries
                 else apply_kind operation f key labels found m)))"

definition Apply :: "Operation \<Rightarrow> Model \<Rightarrow> managed_reason + Model" where
  "Apply operation m = apply_operation operation m"

fun apply_all :: "Operation list \<Rightarrow> Model \<Rightarrow> managed_reason + Model" where
  "apply_all [] m = Inr m"
| "apply_all (operation # rest) m = and_then (apply_operation operation m) (apply_all rest)"

definition ApplyBatch :: "Operation list \<Rightarrow> Model \<Rightarrow> managed_reason + Model" where
  "ApplyBatch operations m =
     (if operations = [] then Inl Unsupported
      else if go_len operations > ml_batch (md_limits m) then Inl BatchLimit
      else apply_all operations m)"

end
