(* ===== verification/Managed_Facts.thy ===== *)
theory Managed_Facts
  imports Managed_Model Snapshot_Facts
begin

text \<open>
  What the managed model guarantees: an invariant that every operation keeps (limits, exact series
  count, disjoint derived names, well-formed series with cumulative histogram buckets), counters
  that never decrease, and series keys that determine their labels.
\<close>

section \<open>Association lists\<close>

lemma alist_sum_update:
  "map_of xs k = Some old \<Longrightarrow>
     sum_list (map (\<lambda>(n, v). g v) (AList.update k new xs)) + g old = sum_list (map (\<lambda>(n, v). g v) xs) + (g new :: int)"
proof (induction xs)
  case (Cons x xs)
  obtain n v where "x = (n, v)" by fastforce
  with Cons show ?case by (auto split: if_splits)
qed simp

lemma alist_sum_new:
  "map_of xs k = None \<Longrightarrow>
     sum_list (map (\<lambda>(n, v). g v) (AList.update k new xs)) = sum_list (map (\<lambda>(n, v). g v) xs) + (g new :: int)"
  by (induction xs) (auto split: if_splits)

lemma alist_length_update:
  "length (AList.update k v xs) = (if map_of xs k = None then Suc (length xs) else length xs)"
  by (induction xs) auto

section \<open>Series keys\<close>

definition series_key :: "label_map \<Rightarrow> string" where
  "series_key labels = concat (map (\<lambda>(n, v). label_block n v) labels)"

lemma label_block_netstr: "label_block n v = netstr n @ ''='' @ netstr v @ '';''"
  by (simp add: label_block_def netstr_def)

lemma series_key_inject: "series_key ls = series_key ms \<longleftrightarrow> ls = ms"
proof
  assume "series_key ls = series_key ms"
  then show "ls = ms"
  proof (induction ls arbitrary: ms)
    case Nil
    then show ?case by (cases ms) (auto simp: series_key_def label_block_netstr)
  next
    case (Cons l ls)
    obtain n v where l: "l = (n, v)" by fastforce
    from Cons.prems obtain m ms' where ms: "ms = m # ms'"
      by (cases ms) (auto simp: series_key_def label_block_netstr l)
    obtain n' v' where m: "m = (n', v')" by fastforce
    have "netstr n @ (''='' @ netstr v @ '';'' @ series_key ls) = netstr n' @ (''='' @ netstr v' @ '';'' @ series_key ms')"
      using Cons.prems by (simp add: series_key_def label_block_netstr l m ms)
    from netstr_append_eq [OF this] have "n = n'" and "netstr v @ ('';'' @ series_key ls) = netstr v' @ ('';'' @ series_key ms')"
      by simp_all
    with netstr_append_eq [of v "'';'' @ series_key ls" v' "'';'' @ series_key ms'"] Cons.IH [of ms'] l m ms
    show ?case by simp
  qed
qed simp

lemma resolve_from_Inr:
  "resolve_from input names = Inr (key, labels) \<Longrightarrow>
     map fst labels = names \<and> key = series_key labels \<and> (\<forall>(n, v)\<in>set labels. map_of input n = Some v)"
proof (induction names arbitrary: key labels)
  case (Cons name names)
  then obtain v key' labels' where "map_of input name = Some v" "resolve_from input names = Inr (key', labels')"
    "key = label_block name v @ key'" "labels = (name, v) # labels'"
    by (auto simp: and_then_Inr_iff split: option.splits)
  with Cons.IH show ?case by (simp add: series_key_def)
qed (simp add: series_key_def)

lemma resolveLabels_Inr:
  "resolveLabels schema input = Inr (key, labels) \<Longrightarrow>
     map fst labels = schema \<and> key = series_key labels \<and> (\<forall>(n, v)\<in>set labels. map_of input n = Some v)"
  by (auto simp: resolveLabels_def resolve_from_Inr split: if_splits)

section \<open>Buckets\<close>

lemma check_bounds_sorted:
  "check_bounds prev bs = None \<Longrightarrow>
     list_all (\<lambda>b. \<not> is_nan b) bs \<and> sorted_wrt (\<lambda>a b. \<not> f64_le b a) bs \<and>
     (case prev of None \<Rightarrow> True | Some p \<Rightarrow> is_nan p \<or> list_all (\<lambda>b. \<not> f64_le b p) bs)"
proof (induction bs arbitrary: prev)
  case (Cons b bs)
  then have b: "\<not> is_nan b" "\<not> (case prev of None \<Rightarrow> False | Some p \<Rightarrow> f64_le b p)" and r: "check_bounds (Some b) bs = None"
    by (auto split: if_splits)
  from Cons.IH [OF r] b(1) have ih: "list_all (\<lambda>b. \<not> is_nan b) bs" "sorted_wrt (\<lambda>a b. \<not> f64_le b a) bs"
    "list_all (\<lambda>c. \<not> f64_le c b) bs" by auto
  have "\<not> f64_le c p" if "c \<in> set bs" "\<not> f64_le b p" "\<not> is_nan p" for c p
  proof
    assume "f64_le c p"
    moreover have "f64_le p b" using that(2,3) b(1) f64_le_linear [of p b] by (auto simp: is_nan_def)
    ultimately have "f64_le c b" by (rule f64_le_trans)
    with ih(3) that(1) show False by (auto simp: list_all_iff)
  qed
  with b ih show ?case by (auto simp: list_all_iff split: option.splits)
qed (auto split: option.splits)

lemma f64_le_inf: "x \<noteq> NaN \<Longrightarrow> f64_le x (Inf False)"
proof (cases x)
  case (Inf b)
  then show ?thesis by (cases b) simp_all
qed simp_all

definition bounds_ok :: "float64 list \<Rightarrow> bool" where
  "bounds_ok bs \<longleftrightarrow> list_all (\<lambda>b. \<not> is_nan b) bs \<and> sorted_wrt (\<lambda>a b. \<not> f64_le b a) bs"

lemma in_bucket_mono:
  "\<not> is_nan a \<Longrightarrow> \<not> is_nan b \<Longrightarrow> \<not> f64_le b a \<Longrightarrow> in_bucket v a \<Longrightarrow> in_bucket v b"
proof -
  assume n: "\<not> is_nan a" "\<not> is_nan b" "\<not> f64_le b a" "in_bucket v a"
  have "f64_le a b" using n f64_le_linear [of a b] by (auto simp: is_nan_def)
  moreover have "\<not> is_inf_pos a" using n f64_le_inf [of b] by (auto simp: is_inf_pos_def is_nan_def)
  ultimately show ?thesis using n(4) by (auto simp: in_bucket_def intro: f64_le_trans)
qed

lemma in_bucket_inf: "in_bucket v (Inf False)"
  using f64_le_inf [of v] by (auto simp: in_bucket_def is_nan_def is_inf_pos_def)

text \<open>One observation keeps the counts cumulative.\<close>

definition bump :: "float64 \<Rightarrow> float64 list \<Rightarrow> uint64 list \<Rightarrow> uint64 list" where
  "bump v bs cs = map (\<lambda>(b, c). if in_bucket v b then c + 1 else c) (zip bs cs)"

lemma bump_sorted:
  assumes "bounds_ok bs" "sorted cs" "length cs = length bs"
    and "\<not> list_ex (\<lambda>(b, c). in_bucket v b \<and> c = max_uint64) (zip bs cs)"
  shows "sorted (bump v bs cs)"
proof -
  have safe: "c \<noteq> max_uint64" if "(b, c) \<in> set (zip bs cs)" "in_bucket v b" for b c
    using assms(4) that by (auto simp: list_ex_iff)
  have "bump v bs cs ! i \<le> bump v bs cs ! j" if "i < j" "j < length bs" for i j
  proof -
    have c: "cs ! i \<le> cs ! j" using assms(2,3) that by (simp add: sorted_nth_mono)
    have "in_bucket v (bs ! i) \<Longrightarrow> in_bucket v (bs ! j)"
      using assms(1) that in_bucket_mono [of "bs ! i" "bs ! j" v]
      by (auto simp: bounds_ok_def sorted_wrt_iff_nth_less list_all_length)
    moreover have "in_bucket v (bs ! j) \<Longrightarrow> cs ! j \<noteq> max_uint64"
      using safe [of "bs ! j" "cs ! j"] assms(3) that by (auto simp: in_set_zip)
    ultimately show ?thesis
      using c that assms(3) word_inc_mono [OF c] word_inc_ge [of "cs ! j"] by (auto simp: bump_def)
  qed
  then show ?thesis
    using assms(3) by (auto simp: sorted_iff_nth_mono_less bump_def)
qed

lemma bump_last: "length cs = length bs \<Longrightarrow> bs \<noteq> [] \<Longrightarrow> last bs = Inf False \<Longrightarrow> last (bump v bs cs) = last cs + 1"
proof -
  assume a: "length cs = length bs" "bs \<noteq> []" "last bs = Inf False"
  then have "last (zip bs cs) = (last bs, last cs)"
    by (cases bs rule: rev_cases; cases cs rule: rev_cases) auto
  moreover have "zip bs cs \<noteq> []" using a by (cases bs; cases cs) auto
  ultimately show ?thesis using a(3) in_bucket_inf by (simp add: bump_def last_map)
qed

section \<open>Invariant\<close>

definition value_inv :: "Descriptor \<Rightarrow> managed_series \<Rightarrow> bool" where
  "value_inv d s =
     (if d_type d = Counter then f64_wf (ms_value s) \<and> f64_le f64_zero (ms_value s)
      else if d_type d = Gauge then f64_wf (ms_value s)
      else f64_wf (ms_sum s) \<and> length (ms_bucket_counts s) = length (d_buckets d) \<and>
        sorted (ms_bucket_counts s) \<and> last (ms_bucket_counts s) = ms_count s)"

definition series_inv :: "Descriptor \<Rightarrow> string \<Rightarrow> managed_series \<Rightarrow> bool" where
  "series_inv d key s \<longleftrightarrow> map fst (ms_labels s) = d_labels d \<and> key = series_key (ms_labels s) \<and> value_inv d s"

definition descriptor_ok :: "managed_limits \<Rightarrow> Descriptor \<Rightarrow> bool" where
  "descriptor_ok l d \<longleftrightarrow>
     canonicalDescriptor d = Inr d \<and> validateDescriptorLimits l d = None \<and> list_all f64_wf (d_buckets d)"

definition family_inv :: "managed_limits \<Rightarrow> string \<Rightarrow> managed_family \<Rightarrow> bool" where
  "family_inv l name f \<longleftrightarrow>
     d_name (mf_descriptor f) = name \<and> descriptor_ok l (mf_descriptor f) \<and> distinct (map fst (mf_series f)) \<and>
     (\<forall>key s. map_of (mf_series f) key = Some s \<longrightarrow> series_inv (mf_descriptor f) key s \<and>
        list_all (\<lambda>(n, v). go_len v \<le> ml_label_value_bytes l) (ms_labels s))"

definition series_count :: "Model \<Rightarrow> int" where
  "series_count m = sum_list (map (\<lambda>(n, f). go_len (mf_series f)) (md_families m))"

definition model_inv :: "Model \<Rightarrow> bool" where
  "model_inv m \<longleftrightarrow>
     distinct (map fst (md_families m)) \<and>
     (\<forall>n f. map_of (md_families m) n = Some f \<longrightarrow> family_inv (md_limits m) n f) \<and>
     (\<forall>n f n' f'. map_of (md_families m) n = Some f \<and> map_of (md_families m) n' = Some f' \<and> n \<noteq> n' \<longrightarrow>
        set (derivedNames (mf_descriptor f)) \<inter> set (derivedNames (mf_descriptor f')) = {}) \<and>
     md_active m = series_count m \<and> md_active m \<le> max 0 (ml_series (md_limits m)) \<and>
     go_len (md_families m) \<le> max 0 (ml_families (md_limits m))"

lemma NewModel_inv: "model_inv (NewModelWithLimits l)"
  by (simp add: model_inv_def NewModelWithLimits_def series_count_def)

section \<open>Declarations\<close>

lemma canonicalDescriptor_Inr:
  assumes "canonicalDescriptor d = Inr d'"
  shows "d' = d\<lparr>d_labels := sort (d_labels d)\<rparr>" "canonicalDescriptor d' = Inr d'"
proof -
  from assms show d': "d' = d\<lparr>d_labels := sort (d_labels d)\<rparr>"
    by (auto simp: canonicalDescriptor_def Let_def split: if_splits option.splits)
  have "sort (sort (d_labels d)) = sort (d_labels d)" by (rule sorted_sort_id) simp
  then have "canonicalDescriptor (d\<lparr>d_labels := sort (d_labels d)\<rparr>) = canonicalDescriptor d"
    by (simp add: canonicalDescriptor_def Let_def cong: if_cong option.case_cong)
  with assms show "canonicalDescriptor d' = Inr d'" unfolding d' by simp
qed

lemma validateDescriptorLimits_sort:
  "validateDescriptorLimits l (d\<lparr>d_labels := sort (d_labels d)\<rparr>) = validateDescriptorLimits l d"
  by (simp add: validateDescriptorLimits_def list_ex_iff)

lemma Declare_Inr:
  assumes "Declare d m = Inr m'"
  obtains (known) f where "map_of (md_families m) (d_name d) = Some f" "m' = m"
      "sameDescriptor (mf_descriptor f) (d\<lparr>d_labels := sort (d_labels d)\<rparr>)"
  | (declared) d' where "canonicalDescriptor d = Inr d'" "d' = d\<lparr>d_labels := sort (d_labels d)\<rparr>"
      "validateDescriptorLimits (md_limits m) d = None"
      "map_of (md_families m) (d_name d) = None" "go_len (md_families m) < ml_families (md_limits m)"
      "\<not> list_ex (\<lambda>(n, f). namesOverlap (derivedNames (mf_descriptor f)) (derivedNames d')) (md_families m)"
      "m' = m\<lparr>md_families := AList.update (d_name d) \<lparr>mf_descriptor = d', mf_series = []\<rparr> (md_families m)\<rparr>"
proof -
  let ?rest = "\<lambda>d'. case map_of (md_families m) (d_name d') of
        Some existing \<Rightarrow> if sameDescriptor (mf_descriptor existing) d' then Inr m else Inl DescriptorConflict
      | None \<Rightarrow>
          if go_len (md_families m) \<ge> ml_families (md_limits m) then Inl FamilyLimit
          else if list_ex (\<lambda>(n, f). namesOverlap (derivedNames (mf_descriptor f)) (derivedNames d')) (md_families m)
            then Inl DerivedName
          else Inr (m\<lparr>md_families := AList.update (d_name d') \<lparr>mf_descriptor = d', mf_series = []\<rparr> (md_families m)\<rparr>)"
  have lim: "validateDescriptorLimits (md_limits m) d = None" and "and_then (canonicalDescriptor d) ?rest = Inr m'"
    using assms by (simp_all add: Declare_def split: option.splits)
  then obtain d' where c: "canonicalDescriptor d = Inr d'" and rest: "?rest d' = Inr m'"
    unfolding and_then_Inr_iff by blast
  note d' = canonicalDescriptor_Inr(1) [OF c]
  show thesis
  proof (cases "map_of (md_families m) (d_name d)")
    case None
    with rest c lim d' show thesis by (intro declared) (auto split: if_splits)
  next
    case (Some f)
    with rest d' show thesis by (intro known [of f]) (auto split: if_splits)
  qed
qed

lemma namesOverlap_iff: "namesOverlap l r \<longleftrightarrow> set l \<inter> set r \<noteq> {}"
  by (auto simp: namesOverlap_def list_ex_iff)

lemma Declare_inv:
  assumes inv: "model_inv m" and wf: "list_all f64_wf (d_buckets d)" and D: "Declare d m = Inr m'"
  shows "model_inv m' \<and> md_limits m' = md_limits m"
  using D
proof (cases rule: Declare_Inr)
  case known
  with inv show ?thesis by simp
next
  case (declared d')
  let ?f = "\<lparr>mf_descriptor = d', mf_series = []\<rparr>"
  let ?n = "d_name d"
  have lk: "map_of (md_families m') = (map_of (md_families m))(?n \<mapsto> ?f)"
    using declared(7) by (simp add: update_conv')
  have f: "family_inv (md_limits m) ?n ?f"
    using declared canonicalDescriptor_Inr(2) [OF declared(1)] wf
    by (simp add: family_inv_def descriptor_ok_def validateDescriptorLimits_sort)
  have apart: "set (derivedNames (mf_descriptor g)) \<inter> set (derivedNames d') = {}"
    if "map_of (md_families m) n = Some g" for n g
    using declared(6) map_of_SomeD [OF that] by (auto simp: list_ex_iff namesOverlap_iff)
  have "\<forall>n g n' g'. map_of (md_families m') n = Some g \<and> map_of (md_families m') n' = Some g' \<and> n \<noteq> n' \<longrightarrow>
      set (derivedNames (mf_descriptor g)) \<inter> set (derivedNames (mf_descriptor g')) = {}"
    using inv apart unfolding model_inv_def lk by (auto split: if_splits; blast)
  moreover have "series_count m' = series_count m"
    using alist_sum_new [OF declared(4), of "\<lambda>f. go_len (mf_series f)" ?f] declared(7) by (simp add: series_count_def)
  moreover have "go_len (md_families m') = go_len (md_families m) + 1"
    using declared(4,7) by (simp add: alist_length_update)
  ultimately show ?thesis
    using inv f declared(5,7) lk by (auto simp: model_inv_def distinct_update split: if_splits)
qed

section \<open>Operations\<close>

lemma counterOperand_iff: "counterOperand v \<longleftrightarrow> f64_le f64_zero v"
proof -
  have "\<not> f64_le f64_zero NaN" "\<not> f64_le f64_zero (Inf True)" by (simp_all add: f64_zero_def)
  then show ?thesis by (auto simp: counterOperand_def is_nan_def is_inf_neg_def)
qed

lemma f64_add_wf: "f64_wf x \<Longrightarrow> f64_wf y \<Longrightarrow> f64_wf (f64_add x y)"
  by (cases x; cases y)
     (auto simp: fin_add_def Let_def intro!: f64_round_wf, auto simp: f64_wf_def)

lemma f64_zero_facts: "f64_wf f64_zero" "f64_le f64_zero f64_zero"
  by (simp_all add: f64_zero_def f64_wf_def)

lemma descriptor_histogram:
  assumes "descriptor_ok l d" "d_type d = Histogram"
  shows "d_buckets d \<noteq> [] \<and> last (d_buckets d) = Inf False \<and> bounds_ok (d_buckets d)"
proof -
  from assms have b: "d_buckets d \<noteq> []" "is_inf_pos (last (d_buckets d))" "check_bounds None (d_buckets d) = None"
    by (auto simp: descriptor_ok_def canonicalDescriptor_def Let_def split: if_splits option.splits)
  with check_bounds_sorted [OF b(3)] show ?thesis by (simp add: bounds_ok_def is_inf_pos_def)
qed

lemma apply_kind_Inr:
  assumes f: "descriptor_ok l (mf_descriptor f)" and labels: "map fst labels = d_labels (mf_descriptor f)"
    "key = series_key labels"
    and found: "\<And>s. found = Some s \<Longrightarrow> series_inv (mf_descriptor f) key s"
    and wf: "f64_wf (op_value operation)"
    and ap: "apply_kind operation f key labels found m = Inr m'"
  obtains s' where "m' = put_series (op_name operation) f key s' (found = None) m"
    "series_inv (mf_descriptor f) key s'" "ms_labels s' = labels"
    "\<And>s. found = Some s \<Longrightarrow> d_type (mf_descriptor f) = Counter \<Longrightarrow> f64_le (ms_value s) (ms_value s')"
proof -
  let ?d = "mf_descriptor f" and ?v = "op_value operation"
  define s where "s = (case found of None \<Rightarrow> zero_series\<lparr>ms_labels := labels\<rparr> | Some s \<Rightarrow> s)"
  have lab: "ms_labels s = labels"
    using found labels by (auto simp: s_def series_inv_def series_key_inject split: option.splits)
  have kinds: "CounterInitialize \<noteq> CounterAdd" "CounterInitialize \<noteq> GaugeSet" "CounterInitialize \<noteq> HistogramObserve"
    "CounterAdd \<noteq> GaugeSet" "CounterAdd \<noteq> HistogramObserve" "GaugeSet \<noteq> HistogramObserve"
    by (simp_all add: CounterInitialize_def CounterAdd_def GaugeSet_def HistogramObserve_def)
  from ap consider
    (init) "d_type ?d = Counter" "found = None" "counterOperand ?v"
      "m' = put_series (op_name operation) f key (s\<lparr>ms_value := if f64_eq ?v f64_zero then f64_zero else ?v\<rparr>) True m"
  | (add) "d_type ?d = Counter" "counterOperand ?v"
      "m' = put_series (op_name operation) f key (s\<lparr>ms_value := f64_add (ms_value s) ?v\<rparr>) (found = None) m"
  | (gauge) "d_type ?d = Gauge" "m' = put_series (op_name operation) f key (s\<lparr>ms_value := ?v\<rparr>) (found = None) m"
  | (hist) cs where "d_type ?d = Histogram" "ms_count s \<noteq> max_uint64"
      "cs = (if found = None then replicate (length (d_buckets ?d)) 0 else ms_bucket_counts s)"
      "\<not> list_ex (\<lambda>(b, c). in_bucket ?v b \<and> c = max_uint64) (zip (d_buckets ?d) cs)"
      "m' = put_series (op_name operation) f key (s\<lparr>ms_count := ms_count s + 1, ms_sum := f64_add (ms_sum s) ?v,
         ms_bucket_counts := bump ?v (d_buckets ?d) cs\<rparr>) (found = None) m"
    by (cases found) (auto simp: apply_kind_def Let_def s_def bump_def split: if_splits)
  then show thesis
  proof cases
    case init
    show thesis
      by (rule that [of "s\<lparr>ms_value := if f64_eq ?v f64_zero then f64_zero else ?v\<rparr>"])
         (use init lab labels wf f64_zero_facts in \<open>auto simp: series_inv_def value_inv_def counterOperand_iff\<close>)
  next
    case add
    have v: "f64_wf (ms_value s)" "f64_le f64_zero (ms_value s)"
      using add(1) found f64_zero_facts
      by (auto simp: s_def zero_series_def series_inv_def value_inv_def split: option.splits)
    have ge: "f64_le (ms_value s) (f64_add (ms_value s) ?v)"
      by (rule f64_add_ge [OF v]) (use add(2) counterOperand_iff in simp)
    show thesis
    proof (rule that [of "s\<lparr>ms_value := f64_add (ms_value s) ?v\<rparr>"])
      show "series_inv ?d key (s\<lparr>ms_value := f64_add (ms_value s) ?v\<rparr>)"
        using add(1) lab labels v f64_add_wf [OF v(1) wf] f64_le_trans [OF v(2) ge]
        by (simp add: series_inv_def value_inv_def)
    qed (use add lab ge in \<open>auto simp: s_def\<close>)
  next
    case gauge
    show thesis
      by (rule that [of "s\<lparr>ms_value := ?v\<rparr>"])
         (use gauge lab labels wf in \<open>auto simp: series_inv_def value_inv_def\<close>)
  next
    case (hist cs)
    have bd: "d_buckets ?d \<noteq> []" "last (d_buckets ?d) = Inf False" "bounds_ok (d_buckets ?d)"
      using descriptor_histogram [OF f hist(1)] by blast+
    have cs: "length cs = length (d_buckets ?d)" "sorted cs" "last cs = ms_count s" "f64_wf (ms_sum s)"
      using hist(1,3) found bd(1) f64_zero_facts
      by (auto simp: s_def zero_series_def series_inv_def value_inv_def split: option.splits)
    let ?s = "s\<lparr>ms_count := ms_count s + 1, ms_sum := f64_add (ms_sum s) ?v, ms_bucket_counts := bump ?v (d_buckets ?d) cs\<rparr>"
    have "value_inv ?d ?s"
      using hist(1) cs bump_sorted [OF bd(3) cs(2,1) hist(4)] bump_last [OF cs(1) bd(1,2), of ?v] f64_add_wf [OF cs(4) wf]
      by (simp add: value_inv_def) (simp add: bump_def)
    then show thesis
      by (intro that [of ?s]) (use hist lab labels in \<open>auto simp: series_inv_def\<close>)
  qed
qed

definition series_of :: "Model \<Rightarrow> string \<Rightarrow> string \<Rightarrow> managed_series option" where
  "series_of m name key = (case map_of (md_families m) name of None \<Rightarrow> None | Some f \<Rightarrow> map_of (mf_series f) key)"

lemma put_series_lookup:
  assumes "map_of (md_families m) name = Some f"
  shows "series_of (put_series name f key s b m) n k = (if n = name \<and> k = key then Some s else series_of m n k)"
    "map_option mf_descriptor (map_of (md_families (put_series name f key s b m)) n) =
       map_option mf_descriptor (map_of (md_families m) n)"
    "md_limits (put_series name f key s b m) = md_limits m"
  using assms by (auto simp: series_of_def put_series_def update_conv')

lemma put_series_inv:
  assumes inv: "model_inv m" and f: "map_of (md_families m) name = Some f"
    and s: "series_inv (mf_descriptor f) key s" "list_all (\<lambda>(n, v). go_len v \<le> ml_label_value_bytes (md_limits m)) (ms_labels s)"
    and room: "map_of (mf_series f) key = None \<Longrightarrow> md_active m < ml_series (md_limits m)"
  shows "model_inv (put_series name f key s (map_of (mf_series f) key = None) m)"
proof -
  let ?m = "put_series name f key s (map_of (mf_series f) key = None) m"
  let ?f = "f\<lparr>mf_series := AList.update key s (mf_series f)\<rparr>"
  have fi: "family_inv (md_limits m) name f" using inv f by (auto simp: model_inv_def)
  have lk: "map_of (md_families ?m) = (map_of (md_families m))(name \<mapsto> ?f)"
    by (simp add: put_series_def update_conv')
  have f': "family_inv (md_limits m) name ?f"
    using fi s by (auto simp: family_inv_def update_conv' distinct_update)
  have names: "\<forall>n g n' g'. map_of (md_families ?m) n = Some g \<and> map_of (md_families ?m) n' = Some g' \<and> n \<noteq> n' \<longrightarrow>
      set (derivedNames (mf_descriptor g)) \<inter> set (derivedNames (mf_descriptor g')) = {}"
    using inv f unfolding model_inv_def lk by (auto split: if_splits; fastforce)
  have "series_count ?m + go_len (mf_series f) = series_count m + go_len (mf_series ?f)"
    using alist_sum_update [OF f, of "\<lambda>f. go_len (mf_series f)" ?f] by (simp add: series_count_def put_series_def)
  then have "md_active ?m = series_count ?m"
    using inv by (simp add: alist_length_update put_series_def model_inv_def split: if_splits)
  moreover have "md_active ?m \<le> max 0 (ml_series (md_limits m))"
    using inv room by (auto simp: model_inv_def put_series_def)
  moreover have "go_len (md_families ?m) = go_len (md_families m)"
    using f by (simp add: put_series_def alist_length_update)
  moreover have "distinct (map fst (md_families ?m))" "md_limits ?m = md_limits m"
    using inv by (auto simp: put_series_def distinct_update model_inv_def)
  ultimately show ?thesis
    using inv names f' lk unfolding model_inv_def by (auto split: if_splits)
qed

lemma check_operation_labels_None:
  "check_operation_labels l labels = None \<Longrightarrow> (n, v) \<in> set labels \<Longrightarrow> go_len v \<le> ml_label_value_bytes l"
  by (induction l labels rule: check_operation_labels.induct) (auto split: if_splits)

text \<open>
  An accepted operation writes one series, the one its labels name, and leaves all others alone.
\<close>

lemma apply_operation_Inr:
  assumes inv: "model_inv m" and wf: "f64_wf (op_value operation)" and ap: "apply_operation operation m = Inr m'"
  obtains f labels s' where "map_of (md_families m) (op_name operation) = Some f"
    "resolveLabels (d_labels (mf_descriptor f)) (op_labels operation) = Inr (series_key labels, labels)"
    "m' = put_series (op_name operation) f (series_key labels) s' (map_of (mf_series f) (series_key labels) = None) m"
    "ms_labels s' = labels" "model_inv m'"
    "\<And>s. map_of (mf_series f) (series_key labels) = Some s \<Longrightarrow> d_type (mf_descriptor f) = Counter \<Longrightarrow>
       f64_le (ms_value s) (ms_value s')"
proof -
  from ap obtain f key labels where f: "map_of (md_families m) (op_name operation) = Some f"
    and r: "resolveLabels (d_labels (mf_descriptor f)) (op_labels operation) = Inr (key, labels)"
    and room: "\<not> (map_of (mf_series f) key = None \<and> md_active m \<ge> ml_series (md_limits m))"
    and k: "apply_kind operation f key labels (map_of (mf_series f) key) m = Inr m'"
    and c: "check_operation_labels (md_limits m) (op_labels operation) = None"
    by (auto simp: apply_operation_def and_then_Inr_iff Let_def split: if_splits option.splits)
  note lab = resolveLabels_Inr [OF r]
  have fi: "family_inv (md_limits m) (op_name operation) f" using inv f by (auto simp: model_inv_def)
  have d: "descriptor_ok (md_limits m) (mf_descriptor f)" using fi by (simp add: family_inv_def)
  have key: "key = series_key labels" and ln: "map fst labels = d_labels (mf_descriptor f)" using lab by auto
  have found: "series_inv (mf_descriptor f) key s" if "map_of (mf_series f) key = Some s" for s
    using fi that by (auto simp: family_inv_def)
  show thesis
  proof (rule apply_kind_Inr [OF d ln key found wf k])
    fix s'
    assume s': "m' = put_series (op_name operation) f key s' (map_of (mf_series f) key = None) m"
      "series_inv (mf_descriptor f) key s'" "ms_labels s' = labels"
      "\<And>s. map_of (mf_series f) key = Some s \<Longrightarrow> d_type (mf_descriptor f) = Counter \<Longrightarrow> f64_le (ms_value s) (ms_value s')"
    have "list_all (\<lambda>(n, v). go_len v \<le> ml_label_value_bytes (md_limits m)) (ms_labels s')"
      using lab check_operation_labels_None [OF c] map_of_SomeD s'(3) by (fastforce simp: list_all_iff)
    with put_series_inv [OF inv f s'(2)] room s'(1) have "model_inv m'" by fastforce
    with s' f r key show thesis by (intro that) auto
  qed simp
qed

definition counters_grow :: "Model \<Rightarrow> Model \<Rightarrow> bool" where
  "counters_grow m m' \<longleftrightarrow>
     (\<forall>n f k s. map_of (md_families m) n = Some f \<and> d_type (mf_descriptor f) = Counter \<and>
        map_of (mf_series f) k = Some s \<longrightarrow>
        (\<exists>s'. series_of m' n k = Some s' \<and> ms_labels s' = ms_labels s \<and> f64_le (ms_value s) (ms_value s')))"

definition same_declarations :: "Model \<Rightarrow> Model \<Rightarrow> bool" where
  "same_declarations m m' \<longleftrightarrow> md_limits m' = md_limits m \<and>
     (\<forall>n. map_option mf_descriptor (map_of (md_families m') n) = map_option mf_descriptor (map_of (md_families m) n))"

text \<open>Declarations and series are never taken back.\<close>

definition kept_declarations :: "Model \<Rightarrow> Model \<Rightarrow> bool" where
  "kept_declarations m m' \<longleftrightarrow>
     (\<forall>n f. map_of (md_families m) n = Some f \<longrightarrow>
        (\<exists>f'. map_of (md_families m') n = Some f' \<and> mf_descriptor f' = mf_descriptor f))"

lemma same_kept_declarations: "same_declarations m m' \<Longrightarrow> kept_declarations m m'"
  unfolding same_declarations_def kept_declarations_def
  by (metis (no_types, lifting) map_option_eq_Some)

lemma kept_declarations_trans:
  assumes "kept_declarations a b" "kept_declarations b c"
  shows "kept_declarations a c"
  unfolding kept_declarations_def
proof (intro allI impI)
  fix n f assume "map_of (md_families a) n = Some f"
  with assms(1) obtain g where g: "map_of (md_families b) n = Some g" "mf_descriptor g = mf_descriptor f"
    unfolding kept_declarations_def by blast
  from assms(2) g(1) obtain h where "map_of (md_families c) n = Some h" "mf_descriptor h = mf_descriptor g"
    unfolding kept_declarations_def by blast
  with g(2) show "\<exists>f'. map_of (md_families c) n = Some f' \<and> mf_descriptor f' = mf_descriptor f" by auto
qed

lemma counter_value_le:
  "model_inv m \<Longrightarrow> map_of (md_families m) n = Some f \<Longrightarrow> d_type (mf_descriptor f) = Counter \<Longrightarrow>
     map_of (mf_series f) k = Some s \<Longrightarrow> f64_le (ms_value s) (ms_value s) \<and> k = series_key (ms_labels s)"
proof -
  assume a: "model_inv m" "map_of (md_families m) n = Some f" "d_type (mf_descriptor f) = Counter" "map_of (mf_series f) k = Some s"
  then have "family_inv (md_limits m) n f" by (auto simp: model_inv_def)
  with a have "series_inv (mf_descriptor f) k s" by (auto simp: family_inv_def)
  with a(3) have "ms_value s \<noteq> NaN" "k = series_key (ms_labels s)" by (auto simp: series_inv_def value_inv_def f64_zero_def)
  then show ?thesis using f64_le_linear [of "ms_value s" "ms_value s"] by auto
qed

lemma apply_operation_grows:
  assumes inv: "model_inv m" and wf: "f64_wf (op_value operation)" and ap: "apply_operation operation m = Inr m'"
  shows "model_inv m' \<and> counters_grow m m' \<and> same_declarations m m'"
proof -
  from apply_operation_Inr [OF assms] obtain f labels s' where
    f: "map_of (md_families m) (op_name operation) = Some f"
    and m': "m' = put_series (op_name operation) f (series_key labels) s' (map_of (mf_series f) (series_key labels) = None) m"
    and s': "ms_labels s' = labels" "model_inv m'"
      "\<And>s. map_of (mf_series f) (series_key labels) = Some s \<Longrightarrow> d_type (mf_descriptor f) = Counter \<Longrightarrow>
         f64_le (ms_value s) (ms_value s')"
    by metis
  note put = put_series_lookup [OF f, of "series_key labels" s' "map_of (mf_series f) (series_key labels) = None", folded m']
  have "\<exists>t. series_of m' n k = Some t \<and> ms_labels t = ms_labels s \<and> f64_le (ms_value s) (ms_value t)"
    if g: "map_of (md_families m) n = Some g" "d_type (mf_descriptor g) = Counter" "map_of (mf_series g) k = Some s" for n g k s
  proof (cases "n = op_name operation \<and> k = series_key labels")
    case True
    with g f have "g = f" by simp
    moreover have "ms_labels s' = ms_labels s"
      using counter_value_le [OF inv g] True s'(1) series_key_inject by auto
    ultimately show ?thesis using put(1) True s'(3) g by auto
  next
    case False
    with put(1) g counter_value_le [OF inv g] show ?thesis by (auto simp: series_of_def)
  qed
  then have "counters_grow m m'" unfolding counters_grow_def by blast
  with put s'(2) show ?thesis by (simp add: same_declarations_def)
qed

lemma counters_grow_refl: "model_inv m \<Longrightarrow> counters_grow m m"
  unfolding counters_grow_def series_of_def using counter_value_le by fastforce

lemma counters_grow_trans:
  assumes "counters_grow a b" "counters_grow b c" "kept_declarations a b"
  shows "counters_grow a c"
  unfolding counters_grow_def
proof (intro allI impI, elim conjE)
  fix n f k s
  assume f: "map_of (md_families a) n = Some f" "d_type (mf_descriptor f) = Counter" "map_of (mf_series f) k = Some s"
  then obtain s' where s': "series_of b n k = Some s'" "ms_labels s' = ms_labels s" "f64_le (ms_value s) (ms_value s')"
    using assms(1) unfolding counters_grow_def by blast
  then obtain g where g: "map_of (md_families b) n = Some g" "map_of (mf_series g) k = Some s'"
    by (auto simp: series_of_def split: option.splits)
  moreover have "mf_descriptor g = mf_descriptor f"
    using assms(3) f(1) g(1) unfolding kept_declarations_def by fastforce
  ultimately obtain s'' where "series_of c n k = Some s''" "ms_labels s'' = ms_labels s'" "f64_le (ms_value s') (ms_value s'')"
    using assms(2) f(2) unfolding counters_grow_def by metis
  with s' show "\<exists>t. series_of c n k = Some t \<and> ms_labels t = ms_labels s \<and> f64_le (ms_value s) (ms_value t)"
    using f64_le_trans by force
qed

lemma apply_all_grows:
  "model_inv m \<Longrightarrow> list_all (\<lambda>operation. f64_wf (op_value operation)) operations \<Longrightarrow> apply_all operations m = Inr m' \<Longrightarrow>
     model_inv m' \<and> counters_grow m m' \<and> same_declarations m m'"
proof (induction operations arbitrary: m)
  case Nil
  then show ?case using counters_grow_refl by (auto simp: same_declarations_def)
next
  case (Cons operation rest)
  then obtain m1 where m1: "apply_operation operation m = Inr m1" "apply_all rest m1 = Inr m'"
    by (auto simp: and_then_Inr_iff)
  with apply_operation_grows [of m operation m1] Cons
  have 1: "model_inv m1" "counters_grow m m1" "same_declarations m m1" by auto
  with Cons.IH [OF 1(1)] Cons.prems(2) m1(2) have "model_inv m' \<and> counters_grow m1 m' \<and> same_declarations m1 m'" by simp
  with 1 counters_grow_trans same_kept_declarations show ?case by (auto simp: same_declarations_def)
qed

end
