(* ===== verification/Managed_Registry.thy ===== *)
theory Managed_Registry
  imports Managed_Facts
begin

text \<open>
  The managed registry (\<^verbatim>\<open>internal/managed/registry.go\<close>): the model behind one mutex,
  with a generation that counts its committed changes and a flag that ends them. Every method runs
  under the mutex and is a function on the record, with the generation it returns and the error if
  there is one.

  \<open>versioned\<close> is what the readers of a registry rely on: a step leaves the content alone or
  increases the generation by one, so equal generations mean equal content.
\<close>

section \<open>Model\<close>

record managed_snapshot =
  sn_generation :: uint64
  sn_families :: "(string \<times> managed_family) list"

record RegistryState =
  rs_generation :: uint64
  rs_families :: int
  rs_series :: int
  rs_frozen :: bool

record Registry =
  rg_generation :: uint64
  rg_model :: Model
  rg_frozen :: bool

definition NewRegistryWithLimits :: "managed_limits \<Rightarrow> managed_reason + Registry" where
  "NewRegistryWithLimits l =
     (case limits_validate l of
        Some r \<Rightarrow> Inl r
      | None \<Rightarrow> Inr \<lparr>rg_generation = 0, rg_model = NewModelWithLimits l, rg_frozen = False\<rparr>)"

definition Registry_Declare :: "Descriptor \<Rightarrow> Registry \<Rightarrow> Registry \<times> uint64 \<times> managed_reason option" where
  "Registry_Declare descriptor r =
     (if rg_frozen r then (r, rg_generation r, Some Late)
      else
        let existed = (map_of (md_families (rg_model r)) (d_name descriptor) \<noteq> None) in
        if \<not> existed \<and> rg_generation r = max_uint64 then (r, rg_generation r, Some Overflow)
        else case Declare descriptor (rg_model r) of
               Inl e \<Rightarrow> (r, rg_generation r, Some e)
             | Inr m \<Rightarrow>
                 let g = (if \<not> existed then rg_generation r + 1 else rg_generation r)
                 in (r\<lparr>rg_model := m, rg_generation := g\<rparr>, g, None))"

definition Registry_Apply :: "Operation \<Rightarrow> Registry \<Rightarrow> Registry \<times> uint64 \<times> managed_reason option" where
  "Registry_Apply operation r =
     (if rg_frozen r then (r, rg_generation r, Some Late)
      else if rg_generation r = max_uint64 then (r, rg_generation r, Some Overflow)
      else case Apply operation (rg_model r) of
             Inl e \<Rightarrow> (r, rg_generation r, Some e)
           | Inr m \<Rightarrow>
               (r\<lparr>rg_model := m, rg_generation := rg_generation r + 1\<rparr>, rg_generation r + 1, None))"

definition Registry_ApplyBatch :: "Operation list \<Rightarrow> Registry \<Rightarrow> Registry \<times> uint64 \<times> managed_reason option" where
  "Registry_ApplyBatch operations r =
     (if rg_frozen r then (r, rg_generation r, Some Late)
      else if rg_generation r = max_uint64 then (r, rg_generation r, Some Overflow)
      else case ApplyBatch operations (rg_model r) of
             Inl e \<Rightarrow> (r, rg_generation r, Some e)
           | Inr m \<Rightarrow>
               (r\<lparr>rg_model := m, rg_generation := rg_generation r + 1\<rparr>, rg_generation r + 1, None))"

definition Registry_Read :: "Registry \<Rightarrow> managed_snapshot" where
  "Registry_Read r = \<lparr>sn_generation = rg_generation r, sn_families = md_families (rg_model r)\<rparr>"

definition Registry_Freeze :: "Registry \<Rightarrow> Registry \<times> managed_snapshot \<times> bool" where
  "Registry_Freeze r = (r\<lparr>rg_frozen := True\<rparr>, Registry_Read r, \<not> rg_frozen r)"

definition Registry_State :: "Registry \<Rightarrow> RegistryState" where
  "Registry_State r =
     \<lparr>rs_generation = rg_generation r, rs_families = go_len (md_families (rg_model r)),
      rs_series = sum_list (map (\<lambda>(n, f). go_len (mf_series f)) (md_families (rg_model r))), rs_frozen = rg_frozen r\<rparr>"

section \<open>Versioned content\<close>

text \<open>The calls, with the values a \<^verbatim>\<open>float64\<close> can take.\<close>

inductive registry_step :: "Registry \<Rightarrow> Registry \<Rightarrow> bool" where
  declare_step: "list_all f64_wf (d_buckets d) \<Longrightarrow> registry_step r (fst (Registry_Declare d r))"
| apply_step: "f64_wf (op_value operation) \<Longrightarrow> registry_step r (fst (Registry_Apply operation r))"
| batch_step: "list_all (\<lambda>operation. f64_wf (op_value operation)) operations \<Longrightarrow>
    registry_step r (fst (Registry_ApplyBatch operations r))"
| freeze_step: "registry_step r (fst (Registry_Freeze r))"

locale versioned =
  fixes step :: "'s \<Rightarrow> 's \<Rightarrow> bool"
    and version :: "'s \<Rightarrow> uint64"
    and content :: "'s \<Rightarrow> 'c"
  assumes step_version: "step s s' \<Longrightarrow>
      version s' = version s \<and> content s' = content s \<or> unat (version s') = Suc (unat (version s))"
begin

lemma steps_version:
  "step\<^sup>*\<^sup>* s s' \<Longrightarrow> version s' = version s \<and> content s' = content s \<or> unat (version s) < unat (version s')"
proof (induction rule: rtranclp_induct)
  case (step y z)
  from step_version [OF step(2)] step(3) show ?case by auto
qed simp

lemma steps_mono: "step\<^sup>*\<^sup>* s s' \<Longrightarrow> version s \<le> version s'"
  using steps_version [of s s'] by (auto simp: word_le_nat_alt)

text \<open>Equal versions of one history are equal contents, so a cache keyed by the version is sound.\<close>

lemma version_determines_content: "step\<^sup>*\<^sup>* s s' \<Longrightarrow> version s' = version s \<Longrightarrow> content s' = content s"
  using steps_version [of s s'] by auto

end

lemma Declare_existing: "Declare d m = Inr m' \<Longrightarrow> map_of (md_families m) (d_name d) = Some f \<Longrightarrow> m' = m"
  by (cases rule: Declare_Inr [of d m m']) auto

lemma registry_step_cases:
  assumes "registry_step r r'"
  obtains (same) "rg_model r' = rg_model r" "rg_generation r' = rg_generation r" "rg_frozen r \<Longrightarrow> rg_frozen r'"
  | (changed) "\<not> rg_frozen r" "rg_generation r \<noteq> max_uint64" "rg_generation r' = rg_generation r + 1" "\<not> rg_frozen r'"
      "(\<exists>d. list_all f64_wf (d_buckets d) \<and> Declare d (rg_model r) = Inr (rg_model r')) \<or>
       (\<exists>operations. list_all (\<lambda>operation. f64_wf (op_value operation)) operations \<and>
          apply_all operations (rg_model r) = Inr (rg_model r'))"
  using assms
proof cases
  case (declare_step d)
  show thesis
  proof (cases "\<not> rg_frozen r \<and> (\<exists>m. Declare d (rg_model r) = Inr m) \<and> map_of (md_families (rg_model r)) (d_name d) = None \<and> rg_generation r \<noteq> max_uint64")
    case True
    with declare_step show thesis by (intro changed) (auto simp: Registry_Declare_def Let_def)
  next
    case False
    with declare_step Declare_existing show thesis
      by (intro same) (auto simp: Registry_Declare_def Let_def split: sum.splits)
  qed
next
  case (apply_step operation)
  show thesis
  proof (cases "rg_frozen r \<or> rg_generation r = max_uint64 \<or> (\<exists>e. Apply operation (rg_model r) = Inl e)")
    case True
    with apply_step show thesis by (intro same) (auto simp: Registry_Apply_def)
  next
    case False
    then obtain m where m: "Apply operation (rg_model r) = Inr m" by (cases "Apply operation (rg_model r)") auto
    then have "apply_all [operation] (rg_model r) = Inr m" by (simp add: Apply_def)
    with m apply_step False show thesis by (intro changed) (auto simp: Registry_Apply_def intro!: exI [of _ "[operation]"])
  qed
next
  case (batch_step operations)
  show thesis
  proof (cases "rg_frozen r \<or> rg_generation r = max_uint64 \<or> (\<exists>e. ApplyBatch operations (rg_model r) = Inl e)")
    case True
    with batch_step show thesis by (intro same) (auto simp: Registry_ApplyBatch_def)
  next
    case False
    then obtain m where m: "ApplyBatch operations (rg_model r) = Inr m" by (cases "ApplyBatch operations (rg_model r)") auto
    then have "apply_all operations (rg_model r) = Inr m" by (simp add: ApplyBatch_def split: if_splits)
    with m batch_step False show thesis by (intro changed) (auto simp: Registry_ApplyBatch_def)
  qed
next
  case freeze_step
  then show thesis by (intro same) (auto simp: Registry_Freeze_def)
qed

interpretation registry: versioned registry_step rg_generation rg_model
proof unfold_locales
  fix r r' assume "registry_step r r'"
  then show "rg_generation r' = rg_generation r \<and> rg_model r' = rg_model r \<or>
    unat (rg_generation r') = Suc (unat (rg_generation r))"
    by (cases rule: registry_step_cases) (auto simp: unat_inc)
qed

section \<open>Frozen registries\<close>

lemma frozen_step: "registry_step r r' \<Longrightarrow> rg_frozen r \<Longrightarrow> r' = r"
  by (cases rule: registry_step.cases)
     (auto simp: Registry_Declare_def Registry_Apply_def Registry_ApplyBatch_def Registry_Freeze_def)

lemma frozen_steps: "registry_step\<^sup>*\<^sup>* r r' \<Longrightarrow> rg_frozen r \<Longrightarrow> r' = r"
  by (induction rule: rtranclp_induct) (auto dest: frozen_step)

section \<open>Histories\<close>

lemma Declare_grows:
  assumes "model_inv m" "Declare d m = Inr m'"
  shows "counters_grow m m' \<and> kept_declarations m m'"
  using assms(2)
proof (cases rule: Declare_Inr)
  case known
  with counters_grow_refl [OF assms(1)] show ?thesis by (simp add: kept_declarations_def)
next
  case (declared d')
  then have "map_of (md_families m') = (map_of (md_families m))(d_name d \<mapsto> \<lparr>mf_descriptor = d', mf_series = []\<rparr>)"
    by (simp add: update_conv')
  moreover from this declared(4) have "series_of m' n k = series_of m n k" for n k
    by (auto simp: series_of_def)
  ultimately show ?thesis
    using counters_grow_refl [OF assms(1)] declared(4) unfolding counters_grow_def kept_declarations_def
    by (auto simp: fun_upd_def)
qed

lemma registry_step_keeps:
  assumes "registry_step r r'" "model_inv (rg_model r)"
  shows "model_inv (rg_model r') \<and> md_limits (rg_model r') = md_limits (rg_model r) \<and>
    counters_grow (rg_model r) (rg_model r') \<and> kept_declarations (rg_model r) (rg_model r')"
  using assms(1)
proof (cases rule: registry_step_cases)
  case same
  with assms(2) counters_grow_refl show ?thesis by (simp add: kept_declarations_def)
next
  case changed
  from changed(5) show ?thesis
  proof (elim disjE exE conjE)
    fix d assume "list_all f64_wf (d_buckets d)" "Declare d (rg_model r) = Inr (rg_model r')"
    with Declare_inv [OF assms(2)] Declare_grows [OF assms(2)] show ?thesis by blast
  next
    fix operations assume "list_all (\<lambda>operation. f64_wf (op_value operation)) operations"
      "apply_all operations (rg_model r) = Inr (rg_model r')"
    with apply_all_grows [OF assms(2)] show ?thesis
      using same_kept_declarations by (auto simp: same_declarations_def)
  qed
qed

lemma registry_steps_keep:
  assumes "registry_step\<^sup>*\<^sup>* r r'" "model_inv (rg_model r)"
  shows "model_inv (rg_model r') \<and> md_limits (rg_model r') = md_limits (rg_model r) \<and>
    counters_grow (rg_model r) (rg_model r') \<and> kept_declarations (rg_model r) (rg_model r')"
  using assms(1)
proof (induction rule: rtranclp_induct)
  case base
  with assms(2) counters_grow_refl show ?case by (simp add: kept_declarations_def)
next
  case (step y z)
  have yz: "model_inv (rg_model z)" "md_limits (rg_model z) = md_limits (rg_model y)"
    "counters_grow (rg_model y) (rg_model z)" "kept_declarations (rg_model y) (rg_model z)"
    using registry_step_keeps [OF step(2)] step(3) by blast+
  with step(3) counters_grow_trans kept_declarations_trans show ?case by metis
qed

section \<open>Properties\<close>

lemma f64_eq_refl: "\<not> is_nan x \<Longrightarrow> f64_eq x x"
  using f64_le_linear [of x x] by (auto simp: f64_eq_def is_nan_def)

lemma model_inv_State:
  "model_inv (rg_model r) \<Longrightarrow>
     rs_series (Registry_State r) = md_active (rg_model r) \<and>
     rs_series (Registry_State r) \<le> max 0 (ml_series (md_limits (rg_model r))) \<and>
     rs_families (Registry_State r) \<le> max 0 (ml_families (md_limits (rg_model r)))"
  by (simp add: Registry_State_def model_inv_def series_count_def)

lemma NewRegistry_inv:
  "NewRegistryWithLimits l = Inr r \<Longrightarrow>
     model_inv (rg_model r) \<and> md_limits (rg_model r) = l \<and> 1 \<le> ml_families l \<and> 1 \<le> ml_series l"
proof -
  assume a: "NewRegistryWithLimits l = Inr r"
  then have "r = \<lparr>rg_generation = 0, rg_model = NewModelWithLimits l, rg_frozen = False\<rparr>"
    and "limits_validate l = None"
    by (auto simp: NewRegistryWithLimits_def split: option.splits)
  then show ?thesis
    using NewModel_inv [of l] by (auto simp: NewModelWithLimits_def limits_validate_def split: if_splits)
qed

definition demo_counter :: Descriptor where
  "demo_counter = \<lparr>d_name = ''jobs'', d_help = [], d_type = Counter, d_labels = [], d_buckets = []\<rparr>"

definition demo_registry :: Registry where
  "demo_registry = \<lparr>rg_generation = 0, rg_model = NewModelWithLimits managed_default_limits, rg_frozen = False\<rparr>"

lemma demo_registry_new: "NewRegistryWithLimits managed_default_limits = Inr demo_registry"
  by code_simp

lemma demo_declare_step: "registry_step demo_registry (fst (Registry_Declare demo_counter demo_registry))"
  by (rule declare_step) (simp add: demo_counter_def)

text \<open>
  C16: Whatever sequence of declarations, operations, batches and freezes a registry takes, its model
  stays well formed: distinct family names whose derived sample names never clash, canonical
  descriptors within the limits, series with exactly the declared labels under the key of these
  labels, counters that are not negative, histograms whose bucket counts are cumulative and end at
  the observation count; the series counter is the number of series, and both counts stay within
  the limits.
\<close>

theorem registry_invariant:
  assumes "NewRegistryWithLimits l = Inr r" "registry_step\<^sup>*\<^sup>* r r'"
  shows "model_inv (rg_model r') \<and> md_limits (rg_model r') = l \<and>
    rs_series (Registry_State r') = md_active (rg_model r') \<and> rs_series (Registry_State r') \<le> ml_series l \<and>
    rs_families (Registry_State r') \<le> ml_families l"
proof -
  note n = NewRegistry_inv [OF assms(1)]
  have "model_inv (rg_model r')" "md_limits (rg_model r') = l"
    using registry_steps_keep [OF assms(2)] n by auto
  with model_inv_State [of r'] n show ?thesis by auto
qed

theorem registry_invariant_witness:
  "model_inv (rg_model (fst (Registry_Declare demo_counter demo_registry))) \<and>
   rs_families (Registry_State (fst (Registry_Declare demo_counter demo_registry))) = 1"
proof -
  have "rs_families (Registry_State (fst (Registry_Declare demo_counter demo_registry))) = 1" by code_simp
  with registry_invariant [OF demo_registry_new r_into_rtranclp, OF demo_declare_step] show ?thesis by simp
qed

text \<open>
  C17: Over the life of a registry generations never decrease and equal generations mean an equal
  model; nothing changes once it is frozen; declared families keep their descriptors, and a counter
  series that exists stays under its key with its labels and a value that never decreases.
\<close>

theorem registry_history:
  assumes "NewRegistryWithLimits l = Inr r" "registry_step\<^sup>*\<^sup>* r r1" "registry_step\<^sup>*\<^sup>* r1 r2"
  shows "rg_generation r1 \<le> rg_generation r2 \<and>
    (rg_generation r1 = rg_generation r2 \<longrightarrow> rg_model r1 = rg_model r2) \<and> (rg_frozen r1 \<longrightarrow> r2 = r1) \<and>
    kept_declarations (rg_model r1) (rg_model r2) \<and> counters_grow (rg_model r1) (rg_model r2)"
proof -
  have "model_inv (rg_model r1)"
    using registry_steps_keep [OF assms(2)] NewRegistry_inv [OF assms(1)] by blast
  then have "kept_declarations (rg_model r1) (rg_model r2) \<and> counters_grow (rg_model r1) (rg_model r2)"
    using registry_steps_keep [OF assms(3)] by blast
  with registry.steps_mono [OF assms(3)] registry.version_determines_content [OF assms(3)] frozen_steps [OF assms(3)]
  show ?thesis by auto
qed

theorem registry_history_witness:
  "rg_generation demo_registry \<le> rg_generation (fst (Registry_Declare demo_counter demo_registry)) \<and>
   rg_generation demo_registry \<noteq> rg_generation (fst (Registry_Declare demo_counter demo_registry))"
proof -
  have "rg_generation demo_registry \<noteq> rg_generation (fst (Registry_Declare demo_counter demo_registry))" by code_simp
  with registry_history [OF demo_registry_new rtranclp.rtrancl_refl r_into_rtranclp, OF demo_declare_step]
  show ?thesis by simp
qed

text \<open>The operations of a batch, one call each.\<close>

fun apply_each :: "Operation list \<Rightarrow> Registry \<Rightarrow> Registry option" where
  "apply_each [] r = Some r"
| "apply_each (operation # rest) r =
     (case Registry_Apply operation r of (r', g, None) \<Rightarrow> apply_each rest r' | (r', g, Some e) \<Rightarrow> None)"

lemma apply_each_model:
  "\<not> rg_frozen r \<Longrightarrow> unat (rg_generation r) + length operations < 2 ^ 64 \<Longrightarrow>
     map_option rg_model (apply_each operations r) =
       (case apply_all operations (rg_model r) of Inl _ \<Rightarrow> None | Inr m \<Rightarrow> Some m)"
proof (induction operations arbitrary: r)
  case (Cons operation rest)
  have g: "rg_generation r \<noteq> max_uint64"
  proof
    assume "rg_generation r = max_uint64"
    with Cons.prems(2) show False by (simp add: unat_max_uint64)
  qed
  show ?case
  proof (cases "apply_operation operation (rg_model r)")
    case (Inl e)
    with Cons.prems g show ?thesis by (simp add: Registry_Apply_def Apply_def)
  next
    case (Inr m)
    let ?r = "r\<lparr>rg_model := m, rg_generation := rg_generation r + 1\<rparr>"
    have "map_option rg_model (apply_each rest ?r) = (case apply_all rest m of Inl _ \<Rightarrow> None | Inr m \<Rightarrow> Some m)"
      using Cons.IH [of ?r] Cons.prems unat_inc [OF g] by simp
    with Inr Cons.prems g show ?thesis by (simp add: Registry_Apply_def Apply_def)
  qed
qed simp

text \<open>
  C18: A batch is all or nothing, and it commits what its operations would commit one by one: it is
  accepted exactly when every single operation would be, the model is the same, and the generation
  moves by one for the whole batch; a rejected batch leaves the registry as it was.
\<close>

theorem registry_batch_equivalence:
  assumes "\<not> rg_frozen r" "unat (rg_generation r) + length operations < 2 ^ 64" "operations \<noteq> []"
    and "go_len operations \<le> ml_batch (md_limits (rg_model r))"
  shows "case Registry_ApplyBatch operations r of
      (r', g, None) \<Rightarrow> map_option rg_model (apply_each operations r) = Some (rg_model r') \<and>
        unat g = Suc (unat (rg_generation r)) \<and> rg_generation r' = g
    | (r', g, Some e) \<Rightarrow> apply_each operations r = None \<and> r' = r \<and> g = rg_generation r"
proof -
  have g: "rg_generation r \<noteq> max_uint64"
  proof
    assume "rg_generation r = max_uint64"
    with assms(2,3) show False by (cases operations) (simp_all add: unat_max_uint64)
  qed
  have "ApplyBatch operations (rg_model r) = apply_all operations (rg_model r)"
    using assms(3,4) by (simp add: ApplyBatch_def)
  with apply_each_model [OF assms(1,2)] assms(1) g show ?thesis
    by (cases "apply_all operations (rg_model r)") (simp_all add: Registry_ApplyBatch_def unat_inc)
qed

theorem registry_batch_equivalence_witness:
  "case Registry_ApplyBatch [\<lparr>op_kind = CounterAdd, op_name = ''jobs'', op_labels = [], op_value = Inf False\<rparr>]
       (fst (Registry_Declare demo_counter demo_registry)) of
     (r', g, None) \<Rightarrow> unat g = 2 | (r', g, Some e) \<Rightarrow> False"
proof -
  let ?o = "\<lparr>op_kind = CounterAdd, op_name = ''jobs'', op_labels = [], op_value = Inf False\<rparr>"
  let ?r = "fst (Registry_Declare demo_counter demo_registry)"
  have "\<not> rg_frozen ?r" "unat (rg_generation ?r) = 1" "1 \<le> ml_batch (md_limits (rg_model ?r))"
    by code_simp+
  moreover have "apply_each [?o] ?r \<noteq> None" by code_simp
  ultimately show ?thesis
    using registry_batch_equivalence [of ?r "[?o]"] by (auto split: prod.splits option.splits)
qed

text \<open>
  Declaring again what is declared, with the labels in any order, is accepted and changes
  nothing, not even the generation.
\<close>

theorem registry_declare_again:
  assumes "Registry_Declare d r = (r', g, None)" "mset labels = mset (d_labels d)"
  shows "Registry_Declare (d\<lparr>d_labels := labels\<rparr>) r' = (r', g, None)"
proof -
  let ?d = "d\<lparr>d_labels := sort (d_labels d)\<rparr>"
  have srt: "sort labels = sort (d_labels d)" using assms(2) by (metis properties_for_sort mset_sort sorted_sort)
  from assms(1) obtain m where fz: "\<not> rg_frozen r" and D: "Declare d (rg_model r) = Inr m"
    and r': "rg_model r' = m" "\<not> rg_frozen r'" "g = rg_generation r'"
    by (auto simp: Registry_Declare_def Let_def split: if_splits sum.splits)
  have canon: "canonicalDescriptor (d\<lparr>d_labels := labels\<rparr>) = canonicalDescriptor d"
    using srt by (simp add: canonicalDescriptor_def Let_def cong: if_cong option.case_cong)
  have lims: "validateDescriptorLimits l (d\<lparr>d_labels := labels\<rparr>) = validateDescriptorLimits l d" for l
    using mset_eq_setD [OF assms(2)] mset_eq_length [OF assms(2)]
    by (simp add: validateDescriptorLimits_def list_ex_iff cong: if_cong)
  have ok: "canonicalDescriptor d = Inr ?d" "validateDescriptorLimits (md_limits (rg_model r)) d = None"
    using D canonicalDescriptor_Inr(1) by (auto simp: Declare_def and_then_Inr_iff split: option.splits)
  obtain f where f: "map_of (md_families m) (d_name d) = Some f" "sameDescriptor (mf_descriptor f) ?d"
    and lm: "md_limits m = md_limits (rg_model r)"
    using D
  proof (cases rule: Declare_Inr)
    case (known f)
    with that show thesis by simp
  next
    case (declared d')
    have "check_bounds None (d_buckets d) = None \<or> d_buckets d = []"
      using declared(1) by (auto simp: canonicalDescriptor_def Let_def split: if_splits option.splits)
    then have "list_all (\<lambda>b. \<not> is_nan b) (d_buckets d)" using check_bounds_sorted by fastforce
    then have "sameDescriptor d' ?d"
      using declared(2) by (auto simp: sameDescriptor_def zip_same_conv_map list_all_iff f64_eq_refl)
    with declared that [of "\<lparr>mf_descriptor = d', mf_series = []\<rparr>"] show thesis by (simp add: update_conv')
  qed
  have "Declare (d\<lparr>d_labels := labels\<rparr>) m = Inr m"
    using canon lims ok f lm by (simp add: Declare_def)
  with r' f(1) show ?thesis by (simp add: Registry_Declare_def)
qed

theorem registry_declare_again_witness:
  "Registry_Declare (demo_counter\<lparr>d_labels := []\<rparr>) (fst (Registry_Declare demo_counter demo_registry)) =
     (fst (Registry_Declare demo_counter demo_registry), 1, None)"
proof -
  have "snd (Registry_Declare demo_counter demo_registry) = (1, None)" by code_simp
  then have "Registry_Declare demo_counter demo_registry = (fst (Registry_Declare demo_counter demo_registry), 1, None)"
    by (simp add: prod_eq_iff)
  then show ?thesis by (rule registry_declare_again) (simp add: demo_counter_def)
qed

end
