(* ===== verification/Managed_Owner.thy ===== *)
theory Managed_Owner
  imports Managed_Registry
begin

text \<open>
  The owner of a managed registry (\<^verbatim>\<open>internal/managed/owner.go\<close>): submitters put
  mutations into a bounded queue, one goroutine applies them in order and answers each submitter
  over a channel of its own.

  The queue is a list with a capacity, the goroutine's local variable is the request it holds, and
  what a submitter sees of its context is a parameter. The step relation interleaves submitters, the
  goroutine, the closing of admission and a freeze of the registry from outside. For the statements
  it also records the admitted requests, the order in which the registry was used, the answers sent
  and what was returned to whom.
\<close>

section \<open>Model\<close>

record Mutation =
  mu_descriptor :: "Descriptor option"
  mu_operations :: "Operation list"

datatype owner_outcome =
    OutcomeCommitted | OutcomeRejected | OutcomeOverloaded | OutcomeCancelled | OutcomeUnknown | OutcomeClosed

fun owner_outcome_string :: "owner_outcome \<Rightarrow> string" where
  "owner_outcome_string OutcomeCommitted = ''committed''"
| "owner_outcome_string OutcomeRejected = ''rejected''"
| "owner_outcome_string OutcomeOverloaded = ''overloaded''"
| "owner_outcome_string OutcomeCancelled = ''cancelled''"
| "owner_outcome_string OutcomeUnknown = ''unknown''"
| "owner_outcome_string OutcomeClosed = ''closed''"

record owner_result =
  or_outcome :: owner_outcome
  or_generation :: uint64
  or_commit :: uint64
  or_reason :: "managed_reason option"

record OwnerState =
  os_depth :: int
  os_capacity :: int
  os_closed :: bool

record Owner =
  ow_registry :: Registry
  ow_queue :: "(nat \<times> Mutation) list"
  ow_capacity :: nat
  ow_closed :: bool
  ow_held :: "(nat \<times> Mutation) option"
  ow_commit :: uint64
  ow_done :: bool

definition NewOwner :: "Registry \<Rightarrow> int \<Rightarrow> managed_reason + Owner" where
  "NewOwner registry capacity =
     (if capacity < 1 \<or> capacity > 1024 then Inl InvalidNumber
      else Inr \<lparr>ow_registry = registry, ow_queue = [], ow_capacity = nat capacity, ow_closed = False,
             ow_held = None, ow_commit = 0, ow_done = False\<rparr>)"

definition refused :: "owner_outcome \<Rightarrow> managed_reason option \<Rightarrow> Owner \<Rightarrow> owner_result" where
  "refused oc reason ow =
     \<lparr>or_outcome = oc, or_generation = sn_generation (Registry_Read (ow_registry ow)), or_commit = 0, or_reason = reason\<rparr>"

text \<open>\<^verbatim>\<open>Submit\<close> up to the queue: refused at once, or queued.\<close>

definition Submit :: "bool \<Rightarrow> nat \<times> Mutation \<Rightarrow> Owner \<Rightarrow> Owner \<times> owner_result option" where
  "Submit expired request ow =
     (if expired then (ow, Some (refused OutcomeCancelled None ow))
      else if ow_closed ow then (ow, Some (refused OutcomeClosed (Some Late) ow))
      else if length (ow_queue ow) < ow_capacity ow then (ow\<lparr>ow_queue := ow_queue ow @ [request]\<rparr>, None)
      else (ow, Some (refused OutcomeOverloaded None ow)))"

definition Owner_State :: "Owner \<Rightarrow> OwnerState" where
  "Owner_State ow = \<lparr>os_depth = go_len (ow_queue ow), os_capacity = int (ow_capacity ow), os_closed = ow_closed ow\<rparr>"

definition CloseAdmission :: "Owner \<Rightarrow> Owner" where
  "CloseAdmission ow = ow\<lparr>ow_closed := True\<rparr>"

definition owner_apply :: "Mutation \<Rightarrow> Registry \<Rightarrow> Registry \<times> uint64 \<times> managed_reason option" where
  "owner_apply mutation registry =
     (case mu_descriptor mutation of
        Some d \<Rightarrow>
          if mu_operations mutation \<noteq> [] then (registry, sn_generation (Registry_Read registry), Some Unsupported)
          else Registry_Declare d registry
      | None \<Rightarrow>
          (case mu_operations mutation of
             [operation] \<Rightarrow> Registry_Apply operation registry
           | operations \<Rightarrow> Registry_ApplyBatch operations registry))"

text \<open>One round of the goroutine's loop: the registry, the commit counter and the answer.\<close>

definition answer :: "Mutation \<Rightarrow> Registry \<Rightarrow> uint64 \<Rightarrow> Registry \<times> uint64 \<times> owner_result" where
  "answer mutation registry commit =
     (case owner_apply mutation registry of
        (registry', g, Some reason) \<Rightarrow>
          (registry', commit, \<lparr>or_outcome = OutcomeRejected, or_generation = g, or_commit = 0, or_reason = Some reason\<rparr>)
      | (registry', g, None) \<Rightarrow>
          (registry', commit + 1,
           \<lparr>or_outcome = OutcomeCommitted, or_generation = g, or_commit = commit + 1, or_reason = None\<rparr>))"

section \<open>Interleaving\<close>

datatype registry_use = Use_Mutation nat Mutation | Use_Freeze

record owner_system =
  sy_owner :: Owner
  sy_admitted :: "(nat \<times> Mutation) list"
  sy_uses :: "registry_use list"
  sy_answers :: "(nat \<times> owner_result) list"
  sy_returned :: "(nat \<times> owner_result) list"

definition fresh :: "nat \<Rightarrow> owner_system \<Rightarrow> bool" where
  "fresh p s \<longleftrightarrow> p \<notin> fst ` set (sy_admitted s) \<and> p \<notin> fst ` set (sy_returned s)"

inductive owner_step :: "owner_system \<Rightarrow> owner_system \<Rightarrow> bool" where
  refuse: "fresh p s \<Longrightarrow> Submit expired (p, mu) (sy_owner s) = (ow, Some r) \<Longrightarrow>
    owner_step s (s\<lparr>sy_owner := ow, sy_returned := sy_returned s @ [(p, r)]\<rparr>)"
| queue: "fresh p s \<Longrightarrow> Submit expired (p, mu) (sy_owner s) = (ow, None) \<Longrightarrow>
    owner_step s (s\<lparr>sy_owner := ow, sy_admitted := sy_admitted s @ [(p, mu)]\<rparr>)"
| take: "ow_held (sy_owner s) = None \<Longrightarrow> ow_queue (sy_owner s) = x # rest \<Longrightarrow>
    owner_step s (s\<lparr>sy_owner := (sy_owner s)\<lparr>ow_held := Some x, ow_queue := rest\<rparr>\<rparr>)"
| work: "ow_held (sy_owner s) = Some (p, mu) \<Longrightarrow>
    answer mu (ow_registry (sy_owner s)) (ow_commit (sy_owner s)) = (registry, commit, r) \<Longrightarrow>
    owner_step s (s\<lparr>sy_owner := (sy_owner s)\<lparr>ow_held := None, ow_registry := registry, ow_commit := commit\<rparr>,
      sy_uses := sy_uses s @ [Use_Mutation p mu], sy_answers := sy_answers s @ [(p, r)]\<rparr>)"
| receive: "(p, r) \<in> set (sy_answers s) \<Longrightarrow> p \<notin> fst ` set (sy_returned s) \<Longrightarrow>
    owner_step s (s\<lparr>sy_returned := sy_returned s @ [(p, r)]\<rparr>)"
| abandon: "(p, mu) \<in> set (sy_admitted s) \<Longrightarrow> p \<notin> fst ` set (sy_returned s) \<Longrightarrow>
    owner_step s (s\<lparr>sy_returned := sy_returned s @ [(p, refused OutcomeUnknown None (sy_owner s))]\<rparr>)"
| close: "owner_step s (s\<lparr>sy_owner := CloseAdmission (sy_owner s)\<rparr>)"
| freeze: "owner_step s (s\<lparr>sy_owner := (sy_owner s)\<lparr>ow_registry := fst (Registry_Freeze (ow_registry (sy_owner s)))\<rparr>,
      sy_uses := sy_uses s @ [Use_Freeze]\<rparr>)"
| finish: "ow_closed (sy_owner s) \<Longrightarrow> ow_held (sy_owner s) = None \<Longrightarrow> ow_queue (sy_owner s) = [] \<Longrightarrow>
    owner_step s (s\<lparr>sy_owner := (sy_owner s)\<lparr>ow_done := True\<rparr>\<rparr>)"

definition owner_init :: "Owner \<Rightarrow> owner_system" where
  "owner_init ow = \<lparr>sy_owner = ow, sy_admitted = [], sy_uses = [], sy_answers = [], sy_returned = []\<rparr>"

section \<open>The sequential specification\<close>

text \<open>The registry used by one client, one call after the other.\<close>

fun replay :: "registry_use list \<Rightarrow> Registry \<Rightarrow> uint64 \<Rightarrow> Registry \<times> uint64 \<times> (nat \<times> owner_result) list" where
  "replay [] registry commit = (registry, commit, [])"
| "replay (Use_Freeze # us) registry commit = replay us (fst (Registry_Freeze registry)) commit"
| "replay (Use_Mutation p mu # us) registry commit =
     (case answer mu registry commit of
        (registry', commit', r) \<Rightarrow>
          (case replay us registry' commit' of (registry'', commit'', rs) \<Rightarrow> (registry'', commit'', (p, r) # rs)))"

fun used :: "registry_use list \<Rightarrow> (nat \<times> Mutation) list" where
  "used [] = []"
| "used (Use_Freeze # us) = used us"
| "used (Use_Mutation p mu # us) = (p, mu) # used us"

lemma used_append [simp]: "used (us @ vs) = used us @ used vs"
  by (induction us rule: used.induct) auto

lemma replay_append:
  "replay us registry commit = (registry', commit', rs) \<Longrightarrow>
     replay (us @ vs) registry commit =
       (case replay vs registry' commit' of (registry'', commit'', rs') \<Rightarrow> (registry'', commit'', rs @ rs'))"
  by (induction us registry commit arbitrary: rs rule: replay.induct)
     (auto split: prod.splits)

lemma replay_ids: "replay us registry commit = (registry', commit', rs) \<Longrightarrow> map fst rs = map fst (used us)"
  by (induction us registry commit arbitrary: rs rule: replay.induct) (auto split: prod.splits)

lemma answer_outcome:
  "answer mu registry commit = (registry', commit', r) \<Longrightarrow>
     or_outcome r = OutcomeCommitted \<and> commit' = commit + 1 \<and> or_commit r = commit' \<or>
     or_outcome r = OutcomeRejected \<and> commit' = commit"
  by (auto simp: answer_def split: prod.splits option.splits)

abbreviation committed :: "(nat \<times> owner_result) list \<Rightarrow> owner_result list" where
  "committed rs \<equiv> filter (\<lambda>r. or_outcome r = OutcomeCommitted) (map snd rs)"

lemma replay_commits:
  "replay us registry commit = (registry', commit', rs) \<Longrightarrow>
     map or_commit (committed rs) = map (\<lambda>i. commit + 1 + of_nat i) [0..<length (committed rs)]"
proof (induction us registry commit arbitrary: rs registry' commit' rule: replay.induct)
  case (3 p mu us registry commit)
  obtain registry1 commit1 r where a: "answer mu registry commit = (registry1, commit1, r)" by (rule prod_cases3)
  obtain registry2 commit2 rs' where re: "replay us registry1 commit1 = (registry2, commit2, rs')" by (rule prod_cases3)
  from 3(2) a re have rs: "rs = (p, r) # rs'" by simp
  from 3(1) [OF a [symmetric] refl re] have ih:
    "map or_commit (committed rs') = map (\<lambda>i. commit1 + 1 + of_nat i) [0..<length (committed rs')]" .
  have up: "[0..<Suc n] = 0 # map Suc [0..<n]" for n by (simp add: map_Suc_upt upt_conv_Cons del: upt_Suc)
  from answer_outcome [OF a] show ?case
    by (elim disjE) (use rs ih in \<open>auto simp: up algebra_simps simp del: upt_Suc\<close>)
qed auto

section \<open>The owner is sequential\<close>

abbreviation held_list :: "Owner \<Rightarrow> (nat \<times> Mutation) list" where
  "held_list ow \<equiv> (case ow_held ow of None \<Rightarrow> [] | Some x \<Rightarrow> [x])"

definition owner_inv :: "Owner \<Rightarrow> owner_system \<Rightarrow> bool" where
  "owner_inv ow s \<longleftrightarrow>
     used (sy_uses s) @ held_list (sy_owner s) @ ow_queue (sy_owner s) = sy_admitted s \<and>
     replay (sy_uses s) (ow_registry ow) (ow_commit ow) =
       (ow_registry (sy_owner s), ow_commit (sy_owner s), sy_answers s) \<and>
     ow_capacity (sy_owner s) = ow_capacity ow \<and> length (ow_queue (sy_owner s)) \<le> ow_capacity ow \<and>
     (ow_done (sy_owner s) \<longrightarrow> ow_closed (sy_owner s) \<and> ow_queue (sy_owner s) = [] \<and> ow_held (sy_owner s) = None)"

definition result_ok :: "(nat \<times> Mutation) list \<Rightarrow> (nat \<times> owner_result) list \<Rightarrow> nat \<Rightarrow> owner_result \<Rightarrow> bool" where
  "result_ok admitted answers p r \<longleftrightarrow>
     (if or_outcome r = OutcomeUnknown then p \<in> fst ` set admitted
      else if or_outcome r \<in> {OutcomeCommitted, OutcomeRejected} then (p, r) \<in> set answers
      else p \<notin> fst ` set admitted)"

definition returned_inv :: "owner_system \<Rightarrow> bool" where
  "returned_inv s \<longleftrightarrow> distinct (map fst (sy_admitted s)) \<and> distinct (map fst (sy_returned s)) \<and>
     (\<forall>p r. (p, r) \<in> set (sy_returned s) \<longrightarrow> result_ok (sy_admitted s) (sy_answers s) p r)"

lemma result_ok_later:
  "result_ok admitted answers p r \<Longrightarrow> q \<noteq> p \<Longrightarrow> result_ok (admitted @ [(q, mu)]) answers p r"
  "result_ok admitted answers p r \<Longrightarrow> result_ok admitted (answers @ [x]) p r"
  by (auto simp: result_ok_def split: if_splits)

lemma Submit_result:
  "Submit expired x ow = (ow', out) \<Longrightarrow>
     (\<exists>oc\<in>{OutcomeCancelled, OutcomeClosed, OutcomeOverloaded}. \<exists>reason. out = Some (refused oc reason ow) \<and> ow' = ow) \<or>
     out = None \<and> ow' = ow\<lparr>ow_queue := ow_queue ow @ [x]\<rparr> \<and> \<not> ow_closed ow \<and> length (ow_queue ow) < ow_capacity ow"
  by (auto simp: Submit_def split: if_splits)

lemma owner_step_inv:
  assumes "owner_step s s'" "owner_inv ow s"
  shows "owner_inv ow s'"
  using assms
proof cases
  case (refuse p expired mu ow' r)
  with assms(2) Submit_result [OF refuse(3)] show ?thesis by (auto simp: owner_inv_def)
next
  case (queue p expired mu ow')
  with assms(2) Submit_result [OF queue(3)] show ?thesis by (auto simp: owner_inv_def)
next
  case (work p mu registry commit r)
  have "replay (sy_uses s @ [Use_Mutation p mu]) (ow_registry ow) (ow_commit ow) = (registry, commit, sy_answers s @ [(p, r)])"
    using assms(2) work(3) by (simp add: owner_inv_def replay_append)
  with work assms(2) show ?thesis by (auto simp: owner_inv_def)
next
  case freeze
  have "replay (sy_uses s @ [Use_Freeze]) (ow_registry ow) (ow_commit ow) =
      (fst (Registry_Freeze (ow_registry (sy_owner s))), ow_commit (sy_owner s), sy_answers s)"
    using assms(2) by (simp add: owner_inv_def replay_append)
  with freeze assms(2) show ?thesis by (simp add: owner_inv_def)
qed (auto simp: owner_inv_def CloseAdmission_def)

lemma refused_outcome [simp]: "or_outcome (refused oc reason ow) = oc"
  by (simp add: refused_def)

lemma owner_steps_inv: "owner_step\<^sup>*\<^sup>* s s' \<Longrightarrow> owner_inv ow s \<Longrightarrow> owner_inv ow s'"
  by (induction rule: rtranclp_induct) (auto intro: owner_step_inv)

lemma answers_admitted: "owner_inv ow s \<Longrightarrow> fst ` set (sy_answers s) \<subseteq> fst ` set (sy_admitted s)"
proof -
  assume i: "owner_inv ow s"
  then have "map fst (sy_answers s) = map fst (used (sy_uses s))" by (auto simp: owner_inv_def intro: replay_ids)
  then have "fst ` set (sy_answers s) = fst ` set (used (sy_uses s))" by (metis list.set_map)
  moreover have "set (used (sy_uses s)) \<subseteq> set (sy_admitted s)"
    using i unfolding owner_inv_def by (metis set_append sup_ge1)
  ultimately show ?thesis by auto
qed

lemma answers_final: "owner_inv ow s \<Longrightarrow> (p, r) \<in> set (sy_answers s) \<Longrightarrow> or_outcome r \<in> {OutcomeCommitted, OutcomeRejected}"
proof -
  have "replay us registry commit = (registry', commit', rs) \<Longrightarrow> (p, r) \<in> set rs \<Longrightarrow>
      or_outcome r \<in> {OutcomeCommitted, OutcomeRejected}" for us registry commit registry' commit' rs
    by (induction us registry commit arbitrary: rs rule: replay.induct)
       (auto split: prod.splits dest: answer_outcome)
  then show "owner_inv ow s \<Longrightarrow> (p, r) \<in> set (sy_answers s) \<Longrightarrow> or_outcome r \<in> {OutcomeCommitted, OutcomeRejected}"
    unfolding owner_inv_def by blast
qed

lemma owner_step_returned:
  assumes "owner_step s s'" "returned_inv s" "owner_inv ow s"
  shows "returned_inv s'"
  using assms(1)
proof cases
  case (refuse p expired mu ow' r)
  have "result_ok (sy_admitted s) (sy_answers s) p r"
    using Submit_result [OF refuse(3)] refuse(2) by (auto simp: result_ok_def fresh_def)
  with refuse assms(2) show ?thesis by (auto simp: returned_inv_def fresh_def)
next
  case (queue p expired mu ow')
  have "result_ok (sy_admitted s @ [(p, mu)]) (sy_answers s) q r" if "(q, r) \<in> set (sy_returned s)" for q r
    using that assms(2) queue(2) by (intro result_ok_later) (auto simp: returned_inv_def fresh_def image_iff)
  with queue assms(2) show ?thesis by (auto simp: returned_inv_def fresh_def)
next
  case (work p mu registry commit r)
  with assms(2) result_ok_later(2) show ?thesis by (auto simp: returned_inv_def)
next
  case (receive p r)
  have "result_ok (sy_admitted s) (sy_answers s) p r"
    using answers_final [OF assms(3) receive(2)] receive(2) by (auto simp: result_ok_def)
  with receive assms(2) show ?thesis by (auto simp: returned_inv_def)
next
  case (abandon p mu)
  have "result_ok (sy_admitted s) (sy_answers s) p (refused OutcomeUnknown None (sy_owner s))"
    using abandon(2) by (force simp: result_ok_def)
  with abandon assms(2) show ?thesis by (auto simp: returned_inv_def)
qed (use assms(2) in \<open>auto simp: returned_inv_def\<close>)

lemma owner_steps_returned:
  assumes "owner_step\<^sup>*\<^sup>* s s'" "returned_inv s" "owner_inv ow s"
  shows "returned_inv s'"
  using assms(1)
proof (induction rule: rtranclp_induct)
  case (step y z)
  with owner_steps_inv [OF step(1) assms(3)] owner_step_returned show ?case by blast
qed (rule assms(2))

lemma NewOwner_inv:
  "NewOwner registry capacity = Inr ow \<Longrightarrow> owner_inv ow (owner_init ow) \<and> returned_inv (owner_init ow) \<and>
     ow_registry ow = registry \<and> ow_commit ow = 0 \<and> ow_capacity ow = nat capacity"
  by (auto simp: NewOwner_def owner_inv_def owner_init_def returned_inv_def split: if_splits)

section \<open>Draining\<close>

lemma worker_drains:
  "ow_closed (sy_owner s) \<Longrightarrow> owner_inv ow s \<Longrightarrow>
     \<exists>s'. owner_step\<^sup>*\<^sup>* s s' \<and> ow_closed (sy_owner s') \<and> ow_queue (sy_owner s') = [] \<and> ow_held (sy_owner s') = None \<and>
       sy_admitted s' = sy_admitted s"
proof (induction "2 * length (ow_queue (sy_owner s)) + length (held_list (sy_owner s))" arbitrary: s rule: less_induct)
  case less
  show ?case
  proof (cases "ow_held (sy_owner s)")
    case (Some x)
    obtain p mu where x: "x = (p, mu)" by fastforce
    obtain registry commit r where "answer mu (ow_registry (sy_owner s)) (ow_commit (sy_owner s)) = (registry, commit, r)"
      by (rule prod_cases3)
    from owner_step.work [OF Some [unfolded x] this] obtain s1 where s1: "owner_step s s1" "ow_closed (sy_owner s1)"
      "ow_queue (sy_owner s1) = ow_queue (sy_owner s)" "ow_held (sy_owner s1) = None" "sy_admitted s1 = sy_admitted s"
      using less.prems(1) by fastforce
    have "\<exists>s'. owner_step\<^sup>*\<^sup>* s1 s' \<and> ow_closed (sy_owner s') \<and> ow_queue (sy_owner s') = [] \<and> ow_held (sy_owner s') = None \<and>
       sy_admitted s' = sy_admitted s1"
      by (rule less.hyps) (use s1 Some less.prems owner_step_inv in auto)
    with s1 show ?thesis by (metis converse_rtranclp_into_rtranclp)
  next
    case None
    show ?thesis
    proof (cases "ow_queue (sy_owner s)")
      case Nil
      with None less.prems show ?thesis by blast
    next
      case (Cons x rest)
      from owner_step.take [OF None Cons] obtain s1 where s1: "owner_step s s1" "ow_closed (sy_owner s1)"
        "ow_queue (sy_owner s1) = rest" "ow_held (sy_owner s1) = Some x" "sy_admitted s1 = sy_admitted s"
        using less.prems(1) by fastforce
      have "\<exists>s'. owner_step\<^sup>*\<^sup>* s1 s' \<and> ow_closed (sy_owner s') \<and> ow_queue (sy_owner s') = [] \<and> ow_held (sy_owner s') = None \<and>
         sy_admitted s' = sy_admitted s1"
        by (rule less.hyps) (use s1 None Cons less.prems owner_step_inv in auto)
      with s1 show ?thesis by (metis converse_rtranclp_into_rtranclp)
    qed
  qed
qed

lemma drained_answers:
  assumes "owner_inv ow s" "ow_queue (sy_owner s) = []" "ow_held (sy_owner s) = None"
  shows "map fst (sy_answers s) = map fst (sy_admitted s)"
  using assms replay_ids unfolding owner_inv_def by fastforce

section \<open>Properties\<close>

definition demo_mutation :: Mutation where
  "demo_mutation = \<lparr>mu_descriptor = Some demo_counter, mu_operations = []\<rparr>"

definition demo_owner :: Owner where
  "demo_owner = \<lparr>ow_registry = demo_registry, ow_queue = [], ow_capacity = 1, ow_closed = False,
     ow_held = None, ow_commit = 0, ow_done = False\<rparr>"

lemma demo_owner_new: "NewOwner demo_registry 1 = Inr demo_owner"
  by (simp add: NewOwner_def demo_owner_def)

lemma demo_owner_queue:
  "\<exists>s. owner_step\<^sup>*\<^sup>* (owner_init demo_owner) s \<and> sy_admitted s = [(0, demo_mutation)] \<and> \<not> ow_closed (sy_owner s) \<and>
     sy_returned s = []"
proof -
  have "Submit False (0, demo_mutation) (sy_owner (owner_init demo_owner)) =
    (demo_owner\<lparr>ow_queue := [(0, demo_mutation)]\<rparr>, None)"
    by (simp add: Submit_def owner_init_def demo_owner_def)
  from owner_step.queue [OF _ this] have "owner_step (owner_init demo_owner)
     ((owner_init demo_owner)\<lparr>sy_owner := demo_owner\<lparr>ow_queue := [(0, demo_mutation)]\<rparr>,
        sy_admitted := [(0, demo_mutation)]\<rparr>)" (is "owner_step _ ?s")
    by (simp add: fresh_def owner_init_def)
  then show ?thesis
    by (intro exI [of _ ?s] conjI r_into_rtranclp) (auto simp: owner_init_def demo_owner_def)
qed

text \<open>
  C19: However submitters, the worker, closing and freezing interleave, the owner behaves like one
  client of the registry: the mutations reach it in the order they were admitted, none is lost or
  repeated, the registry and every answer are those of the sequential replay of its uses, the
  committed answers are numbered one by one, and the queue stays within its capacity.
\<close>

theorem owner_sequential:
  assumes "NewOwner registry capacity = Inr ow" "owner_step\<^sup>*\<^sup>* (owner_init ow) s"
  shows "used (sy_uses s) @ held_list (sy_owner s) @ ow_queue (sy_owner s) = sy_admitted s \<and>
    distinct (map fst (sy_admitted s)) \<and>
    replay (sy_uses s) registry 0 = (ow_registry (sy_owner s), ow_commit (sy_owner s), sy_answers s) \<and>
    map or_commit (committed (sy_answers s)) = map (\<lambda>i. 1 + of_nat i) [0..<length (committed (sy_answers s))] \<and>
    os_depth (Owner_State (sy_owner s)) \<le> capacity"
proof -
  note n = NewOwner_inv [OF assms(1)]
  have cap: "0 \<le> capacity" using assms(1) by (simp add: NewOwner_def split: if_splits)
  have i: "owner_inv ow s" "returned_inv s"
    using owner_steps_inv [OF assms(2)] owner_steps_returned [OF assms(2)] n by blast+
  with n have r: "replay (sy_uses s) registry 0 = (ow_registry (sy_owner s), ow_commit (sy_owner s), sy_answers s)"
    by (auto simp: owner_inv_def)
  from replay_commits [OF r] r i n cap show ?thesis
    by (auto simp: owner_inv_def returned_inv_def Owner_State_def)
qed

theorem owner_sequential_witness:
  "\<exists>s. owner_step\<^sup>*\<^sup>* (owner_init demo_owner) s \<and> sy_admitted s = [(0, demo_mutation)] \<and>
     os_depth (Owner_State (sy_owner s)) \<le> 1"
proof -
  obtain s where s: "owner_step\<^sup>*\<^sup>* (owner_init demo_owner) s" "sy_admitted s = [(0, demo_mutation)]"
    using demo_owner_queue by blast
  with owner_sequential [OF demo_owner_new s(1)] show ?thesis by blast
qed

lemma returned_mono: "owner_step\<^sup>*\<^sup>* s s' \<Longrightarrow> set (sy_returned s) \<subseteq> set (sy_returned s')"
proof (induction rule: rtranclp_induct)
  case (step y z)
  from step(2) have "set (sy_returned y) \<subseteq> set (sy_returned z)" by cases auto
  with step(3) show ?case by blast
qed simp

text \<open>
  What a submitter is told is true: committed and rejected are the answer its mutation got from
  the registry, cancelled, closed and overloaded mean that the mutation was not and never will be
  applied, and only unknown, after its context ended in the queue, leaves it open. Every submitter
  is told once.
\<close>

theorem owner_outcomes:
  assumes "NewOwner registry capacity = Inr ow" "owner_step\<^sup>*\<^sup>* (owner_init ow) s" "owner_step\<^sup>*\<^sup>* s s'"
    and "(p, r) \<in> set (sy_returned s)"
  shows "(or_outcome r \<in> {OutcomeCommitted, OutcomeRejected} \<longrightarrow> (p, r) \<in> set (sy_answers s)) \<and>
    (or_outcome r \<in> {OutcomeCancelled, OutcomeClosed, OutcomeOverloaded} \<longrightarrow> p \<notin> fst ` set (used (sy_uses s'))) \<and>
    (or_outcome r = OutcomeUnknown \<longrightarrow> p \<in> fst ` set (sy_admitted s)) \<and> distinct (map fst (sy_returned s'))"
proof -
  note n = NewOwner_inv [OF assms(1)]
  have s: "owner_inv ow s" "returned_inv s"
    using owner_steps_inv [OF assms(2)] owner_steps_returned [OF assms(2)] n by blast+
  have s': "owner_inv ow s'" "returned_inv s'"
    using owner_steps_inv [OF assms(3)] owner_steps_returned [OF assms(3)] s by blast+
  have "result_ok (sy_admitted s) (sy_answers s) p r" "result_ok (sy_admitted s') (sy_answers s') p r"
    using s s' assms(4) returned_mono [OF assms(3)] by (auto simp: returned_inv_def)
  moreover have "set (used (sy_uses s')) \<subseteq> set (sy_admitted s')"
    using s' unfolding owner_inv_def by (metis set_append sup_ge1)
  ultimately show ?thesis using s' by (auto simp: result_ok_def returned_inv_def split: if_splits)
qed

theorem owner_outcomes_witness:
  "\<exists>s r. owner_step\<^sup>*\<^sup>* (owner_init demo_owner) s \<and> (7, r) \<in> set (sy_returned s) \<and>
     or_outcome r = OutcomeCancelled \<and> 7 \<notin> fst ` set (used (sy_uses s))"
proof -
  let ?r = "refused OutcomeCancelled None demo_owner"
  let ?s = "(owner_init demo_owner)\<lparr>sy_owner := demo_owner, sy_returned := [(7, ?r)]\<rparr>"
  have "Submit True (7, demo_mutation) (sy_owner (owner_init demo_owner)) = (demo_owner, Some ?r)"
    by (simp add: Submit_def owner_init_def)
  from owner_step.refuse [OF _ this] have "owner_step (owner_init demo_owner) ?s"
    by (simp add: fresh_def owner_init_def)
  then have st: "owner_step\<^sup>*\<^sup>* (owner_init demo_owner) ?s" by (rule r_into_rtranclp)
  with owner_outcomes [OF demo_owner_new st rtranclp.rtrancl_refl, of 7 ?r]
  show ?thesis by (intro exI [of _ ?s] exI [of _ ?r]) simp
qed

text \<open>
  C20: After admission is closed the owner drains: the worker can always go on until it stops, and
  then every admitted mutation has exactly one answer, in the order of admission.
\<close>

theorem owner_drains:
  assumes "NewOwner registry capacity = Inr ow" "owner_step\<^sup>*\<^sup>* (owner_init ow) s" "ow_closed (sy_owner s)"
  shows "\<exists>s'. owner_step\<^sup>*\<^sup>* s s' \<and> ow_done (sy_owner s') \<and> sy_admitted s' = sy_admitted s \<and>
    map fst (sy_answers s') = map fst (sy_admitted s)"
proof -
  have i: "owner_inv ow s" using owner_steps_inv [OF assms(2)] NewOwner_inv [OF assms(1)] by blast
  from worker_drains [OF assms(3) i] obtain s1 where s1: "owner_step\<^sup>*\<^sup>* s s1" "ow_closed (sy_owner s1)"
    "ow_queue (sy_owner s1) = []" "ow_held (sy_owner s1) = None" "sy_admitted s1 = sy_admitted s" by blast
  let ?s = "s1\<lparr>sy_owner := (sy_owner s1)\<lparr>ow_done := True\<rparr>\<rparr>"
  have "owner_step\<^sup>*\<^sup>* s ?s" using s1(1) owner_step.finish [OF s1(2,4,3)] by (rule rtranclp.rtrancl_into_rtrancl)
  moreover have "map fst (sy_answers ?s) = map fst (sy_admitted s)"
    using drained_answers [OF owner_steps_inv [OF s1(1) i] s1(3,4)] s1(5) by simp
  ultimately show ?thesis using s1(5) by (intro exI [of _ ?s]) simp
qed

theorem owner_drains_witness:
  "\<exists>s. owner_step\<^sup>*\<^sup>* (owner_init demo_owner) s \<and> ow_done (sy_owner s) \<and> map fst (sy_answers s) = [0]"
proof -
  obtain s where s: "owner_step\<^sup>*\<^sup>* (owner_init demo_owner) s" "sy_admitted s = [(0, demo_mutation)]"
    using demo_owner_queue by blast
  let ?s = "s\<lparr>sy_owner := CloseAdmission (sy_owner s)\<rparr>"
  have st: "owner_step\<^sup>*\<^sup>* (owner_init demo_owner) ?s" using s(1) owner_step.close by (rule rtranclp.rtrancl_into_rtrancl)
  from owner_drains [OF demo_owner_new st] obtain s' where "owner_step\<^sup>*\<^sup>* ?s s'" "ow_done (sy_owner s')"
    "map fst (sy_answers s') = [0]"
    using s(2) by (auto simp: CloseAdmission_def)
  with st show ?thesis by (meson rtranclp_trans)
qed

end
