(* ===== verification/Managed_Materialize.thy ===== *)
theory Managed_Materialize
  imports Managed_Registry
begin

text \<open>
  The materialization cache (\<^verbatim>\<open>internal/managedmaterialize/cache.go\<close>): the snapshot
  document of a registry's content, encoded once per generation.

  \<open>snapshot_source\<close> is the \<^verbatim>\<open>Source\<close> interface together with the law that makes
  the cache sound; the registry provides it.
\<close>

section \<open>Encoding\<close>

text \<open>
  \<^verbatim>\<open>formatFloat\<close>; the last branch is \<^verbatim>\<open>strconv.FormatFloat\<close> with format
  \<^verbatim>\<open>g\<close> and the shortest precision.
\<close>

definition formatFloat :: "float64 \<Rightarrow> string" where
  "formatFloat v =
     (if is_inf_pos v then ''+Inf'' else if is_inf_neg v then ''-Inf'' else if is_nan v then ''NaN'' else format_float v)"

text \<open>\<^verbatim>\<open>json.Marshal\<close> writes the members of a map in the order of their keys.\<close>

definition encode_labels :: "label_map \<Rightarrow> string" where
  "encode_labels labels = json_object (sort_key fst (map (\<lambda>(k, v). (k, json_string v)) labels))"

definition encode_bucket :: "float64 \<times> uint64 \<Rightarrow> string" where
  "encode_bucket bc =
     json_object [(''le'', json_string (formatFloat (fst bc))), (''count'', json_string (format_uint (snd bc)))]"

definition encode_series :: "Descriptor \<Rightarrow> managed_series \<Rightarrow> unit + string" where
  "encode_series d s =
     (if d_type d \<noteq> Histogram then
        Inr (json_object ((''labels'', encode_labels (ms_labels s)) #
          (if formatFloat (ms_value s) = [] then [] else [(''value'', json_string (formatFloat (ms_value s)))])))
      else if length (ms_bucket_counts s) \<noteq> length (d_buckets d) then Inl ()
      else
        Inr (json_object [(''labels'', encode_labels (ms_labels s)),
          (''histogram'', json_object [(''count'', json_string (format_uint (ms_count s))),
             (''sum'', json_string (formatFloat (ms_sum s))),
             (''buckets'', json_array (map encode_bucket (zip (d_buckets d) (ms_bucket_counts s))))])]))"

definition encode_family :: "managed_family \<Rightarrow> unit + string" where
  "encode_family f =
     (let d = mf_descriptor f in
      and_then (map_result (encode_series d) (map snd (sort_key fst (mf_series f)))) (\<lambda>series.
        Inr (json_object [(''name'', json_string (d_name d)), (''help'', json_string (d_help d)),
          (''type'', json_string (d_type d)), (''series'', json_array series)])))"

definition Encode :: "managed_snapshot \<Rightarrow> unit + bytes" where
  "Encode snapshot =
     and_then (map_result encode_family (map snd (sort_key fst (sn_families snapshot)))) (\<lambda>families.
       Inr (json_object [(''schema_version'', itoa 1), (''families'', json_array families)]))"

section \<open>Cache\<close>

type_synonym Encoder = "managed_snapshot \<Rightarrow> unit + bytes"

record Representation =
  rp_generation :: uint64
  rp_body :: bytes

record materialize_result =
  mr_representation :: Representation
  mr_hit :: bool

record Cache =
  ca_encode :: Encoder
  ca_cached :: "Representation option"

definition NewCache :: "Encoder option \<Rightarrow> Cache" where
  "NewCache encoder = \<lparr>ca_encode = (case encoder of None \<Rightarrow> Encode | Some e \<Rightarrow> e), ca_cached = None\<rparr>"

text \<open>\<^verbatim>\<open>Materialize\<close>, given what \<^verbatim>\<open>source.Read\<close> returns.\<close>

definition Materialize :: "managed_snapshot \<Rightarrow> Cache \<Rightarrow> Cache \<times> (unit + materialize_result)" where
  "Materialize snapshot cache =
     (let miss =
        (case ca_encode cache snapshot of
           Inl e \<Rightarrow> (cache, Inl e)
         | Inr body \<Rightarrow>
             let representation = \<lparr>rp_generation = sn_generation snapshot, rp_body = body\<rparr>
             in (cache\<lparr>ca_cached := Some representation\<rparr>,
                 Inr \<lparr>mr_representation = representation, mr_hit = False\<rparr>))
      in case ca_cached cache of
           Some cached \<Rightarrow>
             if rp_generation cached = sn_generation snapshot
             then (cache, Inr \<lparr>mr_representation = cached, mr_hit = True\<rparr>)
             else miss
         | None \<Rightarrow> miss)"

definition Cached :: "Cache \<Rightarrow> Representation option" where
  "Cached cache = ca_cached cache"

section \<open>Soundness of the cache\<close>

locale snapshot_source = versioned step version content
  for step :: "'s \<Rightarrow> 's \<Rightarrow> bool" and version :: "'s \<Rightarrow> uint64" and content :: "'s \<Rightarrow> 'c" +
  fixes read :: "'s \<Rightarrow> managed_snapshot"
  assumes read_version: "sn_generation (read s) = version s"
    and read_content: "version s = version s' \<Longrightarrow> content s = content s' \<Longrightarrow> read s = read s'"
begin

definition cache_ok :: "'s \<Rightarrow> Cache \<Rightarrow> bool" where
  "cache_ok s cache \<longleftrightarrow>
     (\<forall>rep. ca_cached cache = Some rep \<longrightarrow>
        (\<exists>s0. step\<^sup>*\<^sup>* s0 s \<and> rp_generation rep = version s0 \<and> ca_encode cache (read s0) = Inr (rp_body rep)))"

lemma cache_ok_empty: "ca_cached cache = None \<Longrightarrow> cache_ok s cache"
  by (simp add: cache_ok_def)

lemma cache_ok_step: "cache_ok s cache \<Longrightarrow> step\<^sup>*\<^sup>* s s' \<Longrightarrow> cache_ok s' cache"
  unfolding cache_ok_def by (meson rtranclp_trans)

lemma cache_hit: "cache_ok s cache \<Longrightarrow> ca_cached cache = Some rep \<Longrightarrow> rp_generation rep = version s \<Longrightarrow>
    ca_encode cache (read s) = Inr (rp_body rep)"
  unfolding cache_ok_def by (metis read_content version_determines_content)

text \<open>The cached answer is the answer of a fresh encoding, and the cache stays sound.\<close>

lemma Materialize_sound:
  assumes "cache_ok s cache" "Materialize (read s) cache = (cache', out)"
  shows "cache_ok s cache' \<and> ca_encode cache' = ca_encode cache \<and>
    (case out of Inl e \<Rightarrow> ca_encode cache (read s) = Inl e
     | Inr r \<Rightarrow> ca_encode cache (read s) = Inr (rp_body (mr_representation r)) \<and>
         rp_generation (mr_representation r) = version s)"
proof (cases "\<exists>rep. ca_cached cache = Some rep \<and> rp_generation rep = version s")
  case True
  then obtain rep where rep: "ca_cached cache = Some rep" "rp_generation rep = version s" by blast
  with assms cache_hit [OF assms(1) rep] show ?thesis
    by (auto simp: Materialize_def read_version Let_def)
next
  case False
  then have "Materialize (read s) cache =
    (case ca_encode cache (read s) of
       Inl e \<Rightarrow> (cache, Inl e)
     | Inr body \<Rightarrow> (cache\<lparr>ca_cached := Some \<lparr>rp_generation = version s, rp_body = body\<rparr>\<rparr>,
         Inr \<lparr>mr_representation = \<lparr>rp_generation = version s, rp_body = body\<rparr>, mr_hit = False\<rparr>))"
    by (auto simp: Materialize_def read_version Let_def split: option.splits sum.splits)
  with assms show ?thesis by (cases "ca_encode cache (read s)") (auto simp: cache_ok_def intro!: exI [of _ s])
qed

end

interpretation registry_source: snapshot_source registry_step rg_generation rg_model Registry_Read
  by unfold_locales (simp_all add: Registry_Read_def)

section \<open>A well-formed registry can be encoded\<close>

lemma encode_series_total: "value_inv d s \<Longrightarrow> \<exists>t. encode_series d s = Inr t"
  by (auto simp: encode_series_def value_inv_def Counter_def Gauge_def Histogram_def)

lemma encode_family_total:
  assumes "family_inv l name f"
  shows "\<exists>t. encode_family f = Inr t"
proof -
  have "\<exists>t. encode_series (mf_descriptor f) s = Inr t" if "(k, s) \<in> set (mf_series f)" for k s
  proof -
    have "map_of (mf_series f) k = Some s" using assms that by (simp add: family_inv_def)
    with assms show ?thesis by (auto simp: family_inv_def series_inv_def intro: encode_series_total)
  qed
  then have "\<exists>ys. map_result (encode_series (mf_descriptor f)) (map snd (sort_key fst (mf_series f))) = Inr ys"
    by (intro map_result_total) auto
  then show ?thesis by (auto simp: encode_family_def Let_def)
qed

lemma Encode_total:
  assumes "model_inv (rg_model r)"
  shows "\<exists>body. Encode (Registry_Read r) = Inr body"
proof -
  have "\<exists>t. encode_family f = Inr t" if "(n, f) \<in> set (md_families (rg_model r))" for n f
  proof -
    have "map_of (md_families (rg_model r)) n = Some f" using assms that by (simp add: model_inv_def)
    then have "family_inv (md_limits (rg_model r)) n f" using assms unfolding model_inv_def by blast
    then show ?thesis by (rule encode_family_total)
  qed
  then have "\<exists>ys. map_result encode_family (map snd (sort_key fst (md_families (rg_model r)))) = Inr ys"
    by (intro map_result_total) auto
  then show ?thesis by (auto simp: Encode_def Registry_Read_def)
qed

end
