(* ===== verification/Managed_Bridge.thy ===== *)
theory Managed_Bridge
  imports Managed_Materialize Publisher
begin

text \<open>
  From the registry to the core: the bridge that publishes a materialized registry
  (\<^verbatim>\<open>internal/managedbridge/bridge.go\<close>), the ticker that calls it
  (\<^verbatim>\<open>internal/managedpublish/publisher.go\<close>) and the finalizer that freezes the registry
  and publishes it a last time (\<^verbatim>\<open>internal/managedfinalize/finalizer.go\<close>).

  The bridge's mutex makes \<^verbatim>\<open>Install\<close> one step. The \<^verbatim>\<open>Publisher\<close> interface is a
  function parameter; its contract is the locale \<open>publisher\<close>, and the core keeps it. In managed mode
  the bridge is the core's only publisher, so the pipeline's steps are those of the registry, of the
  ticker and of the finalizer.
\<close>

section \<open>Bridge\<close>

type_synonym ('x, 'p) publish_fun = "'x \<Rightarrow> Transport \<Rightarrow> bytes \<Rightarrow> 'p \<Rightarrow> 'p \<times> Result"

record bridge_result =
  bres_registry_generation :: uint64
  bres_cache_hit :: bool
  bres_installed :: bool
  bres_core :: Result

record Bridge =
  br_has_installed :: bool
  br_last_registry :: uint64
  br_last_core :: Result

definition zero_result :: Result where
  "zero_result = \<lparr>r_transport = [], r_outcome = InternalError, r_generation = 0, r_reason = None\<rparr>"

definition NewBridge :: Bridge where
  "NewBridge = \<lparr>br_has_installed = False, br_last_registry = 0, br_last_core = zero_result\<rparr>"

text \<open>\<^verbatim>\<open>Install\<close> after \<^verbatim>\<open>Materialize\<close>: publish unless this generation is installed.\<close>

definition install_materialized ::
  "('x, 'p) publish_fun \<Rightarrow> 'x \<Rightarrow> materialize_result \<Rightarrow> Bridge \<Rightarrow> 'p \<Rightarrow> (Bridge \<times> 'p) \<times> bridge_result" where
  "install_materialized publish ctx m bridge core =
     (let generation = rp_generation (mr_representation m) in
      if br_has_installed bridge \<and> br_last_registry bridge = generation then
        ((bridge, core),
         \<lparr>bres_registry_generation = generation, bres_cache_hit = mr_hit m, bres_installed = False,
          bres_core = br_last_core bridge\<rparr>)
      else
        (case publish ctx Managed (rp_body (mr_representation m)) core of
           (core', result) \<Rightarrow>
             if r_outcome result = Accepted then
               ((bridge\<lparr>br_has_installed := True, br_last_registry := generation, br_last_core := result\<rparr>, core'),
                \<lparr>bres_registry_generation = generation, bres_cache_hit = mr_hit m, bres_installed = True, bres_core = result\<rparr>)
             else
               ((bridge, core'),
                \<lparr>bres_registry_generation = generation, bres_cache_hit = mr_hit m, bres_installed = False,
                 bres_core = result\<rparr>)))"

definition Bridge_Install ::
  "('x, 'p) publish_fun \<Rightarrow> 'x \<Rightarrow> managed_snapshot \<Rightarrow> Cache \<Rightarrow> Bridge \<Rightarrow> 'p \<Rightarrow>
     (Cache \<times> Bridge \<times> 'p) \<times> (unit + bridge_result)" where
  "Bridge_Install publish ctx snapshot cache bridge core =
     (case Materialize snapshot cache of
        (cache', Inl e) \<Rightarrow> ((cache', bridge, core), Inl e)
      | (cache', Inr m) \<Rightarrow>
          (case install_materialized publish ctx m bridge core of
             ((bridge', core'), result) \<Rightarrow> ((cache', bridge', core'), Inr result)))"

section \<open>The pipeline\<close>

datatype managed_observation =
    Obs_Materialized bool bool
  | Obs_Frozen bool uint64
  | Obs_FinalInstalled string uint64

record finalize_result =
  fr_registry_generation :: uint64
  fr_install :: "unit + bridge_result"

text \<open>
  The registry, the cache, the bridge, the core, the result the finalizer's once has stored, and the
  notifications; for the statements, the publications the bridge got accepted.
\<close>

record 'p pipeline =
  pl_registry :: Registry
  pl_cache :: Cache
  pl_bridge :: Bridge
  pl_core :: 'p
  pl_final :: "finalize_result option"
  pl_log :: "managed_observation list"
  pl_published :: "(uint64 \<times> bytes \<times> Result) list"

definition NewPipeline :: "Registry \<Rightarrow> 'p \<Rightarrow> 'p pipeline" where
  "NewPipeline registry core =
     \<lparr>pl_registry = registry, pl_cache = NewCache None, pl_bridge = NewBridge, pl_core = core, pl_final = None,
      pl_log = [], pl_published = []\<rparr>"

definition pl_install :: "('x, 'p) publish_fun \<Rightarrow> 'x \<Rightarrow> 'p pipeline \<Rightarrow> 'p pipeline \<times> (unit + bridge_result)" where
  "pl_install publish ctx s =
     (case Bridge_Install publish ctx (Registry_Read (pl_registry s)) (pl_cache s) (pl_bridge s) (pl_core s) of
        ((cache, bridge, core), out) \<Rightarrow>
          (s\<lparr>pl_cache := cache, pl_bridge := bridge, pl_core := core,
             pl_published := pl_published s @
               (case out of
                  Inl _ \<Rightarrow> []
                | Inr result \<Rightarrow>
                    if bres_installed result
                    then [(bres_registry_generation result,
                           case ca_cached cache of None \<Rightarrow> [] | Some rep \<Rightarrow> rp_body rep, bres_core result)]
                    else [])\<rparr>, out))"

definition hit_of :: "unit + bridge_result \<Rightarrow> bool" where
  "hit_of out = (case out of Inl _ \<Rightarrow> False | Inr result \<Rightarrow> bres_cache_hit result)"

text \<open>One tick of the publisher's loop.\<close>

definition publisher_tick :: "('x, 'p) publish_fun \<Rightarrow> 'x \<Rightarrow> 'p pipeline \<Rightarrow> 'p pipeline" where
  "publisher_tick publish ctx s =
     (case pl_install publish ctx s of
        (s', out) \<Rightarrow> s'\<lparr>pl_log := pl_log s' @ [Obs_Materialized (hit_of out) (isl out)]\<rparr>)"

definition final_outcome :: "unit + bridge_result \<Rightarrow> string" where
  "final_outcome out =
     (case out of
        Inl _ \<Rightarrow> ''error''
      | Inr result \<Rightarrow> if r_outcome (bres_core result) = Accepted then ''accepted'' else ''rejected'')"

text \<open>
  \<^verbatim>\<open>FreezeAndInstall\<close>: the first call freezes and installs, later ones return what it stored.
\<close>

definition FreezeAndInstall :: "('x, 'p) publish_fun \<Rightarrow> 'x \<Rightarrow> 'p pipeline \<Rightarrow> 'p pipeline \<times> finalize_result \<times> bool" where
  "FreezeAndInstall publish ctx s =
     (case pl_final s of
        Some result \<Rightarrow> (s, result, False)
      | None \<Rightarrow>
          (case Registry_Freeze (pl_registry s) of
             (registry, frozen, winner) \<Rightarrow>
               (case pl_install publish ctx (s\<lparr>pl_registry := registry\<rparr>) of
                  (s', out) \<Rightarrow>
                    let result = \<lparr>fr_registry_generation = sn_generation frozen, fr_install = out\<rparr>
                    in (s'\<lparr>pl_final := Some result,
                           pl_log := pl_log s' @ [Obs_Frozen winner (sn_generation frozen),
                             Obs_Materialized (hit_of out) (isl out),
                             Obs_FinalInstalled (final_outcome out) (sn_generation frozen)]\<rparr>, result, True))))"

inductive pipeline_step :: "('x, 'p) publish_fun \<Rightarrow> 'p pipeline \<Rightarrow> 'p pipeline \<Rightarrow> bool"
  for publish :: "('x, 'p) publish_fun" where
  use_registry: "registry_step (pl_registry s) registry \<Longrightarrow> pipeline_step publish s (s\<lparr>pl_registry := registry\<rparr>)"
| tick: "pipeline_step publish s (publisher_tick publish ctx s)"
| finalize: "pipeline_step publish s (fst (FreezeAndInstall publish ctx s))"

section \<open>Invariant\<close>

text \<open>
  The published generations climb, every one is a generation the registry had, with the text of its
  content then; the last is the one the bridge remembers and what the core has active.
\<close>

context publisher
begin

definition published_ok :: "Registry \<Rightarrow> 'p \<Rightarrow> uint64 \<times> bytes \<times> Result \<Rightarrow> bool" where
  "published_ok registry core pub =
     (case pub of (g, body, result) \<Rightarrow>
        r_outcome result = Accepted \<and> parse core body \<noteq> None \<and>
        (\<exists>r. registry_step\<^sup>*\<^sup>* r registry \<and> rg_generation r = g \<and> Encode (Registry_Read r) = Inr body))"

definition bridge_ok :: "'p pipeline \<Rightarrow> bool" where
  "bridge_ok s \<longleftrightarrow>
     br_has_installed (pl_bridge s) = (pl_published s \<noteq> []) \<and>
     (pl_published s \<noteq> [] \<longrightarrow>
        (\<exists>body v. last (pl_published s) = (br_last_registry (pl_bridge s), body, br_last_core (pl_bridge s)) \<and>
           parse (pl_core s) body = Some v \<and> active (pl_core s) = NewActive v (r_generation (br_last_core (pl_bridge s)))))"

definition pipeline_inv :: "'p pipeline \<Rightarrow> bool" where
  "pipeline_inv s \<longleftrightarrow>
     ca_encode (pl_cache s) = Encode \<and> registry_source.cache_ok (pl_registry s) (pl_cache s) \<and>
     list_all (published_ok (pl_registry s) (pl_core s)) (pl_published s) \<and>
     sorted_wrt (<) (map fst (pl_published s)) \<and> bridge_ok s \<and>
     (pl_final s \<noteq> None \<longrightarrow> rg_frozen (pl_registry s))"

lemma published_ok_later:
  assumes "published_ok registry core pub" "registry_step\<^sup>*\<^sup>* registry registry'" "parse core' = parse core"
  shows "published_ok registry' core' pub"
proof -
  obtain g body result where pub: "pub = (g, body, result)" by (rule prod_cases3)
  with assms(1) obtain r where r: "registry_step\<^sup>*\<^sup>* r registry" "rg_generation r = g" "Encode (Registry_Read r) = Inr body"
    by (auto simp: published_ok_def)
  have "registry_step\<^sup>*\<^sup>* r registry'" using r(1) assms(2) by (rule rtranclp_trans)
  with r pub assms(1,3) show ?thesis by (auto simp: published_ok_def)
qed

lemma published_generation: "published_ok registry core pub \<Longrightarrow> fst pub \<le> rg_generation registry"
  using registry.steps_mono by (auto simp: published_ok_def split: prod.splits)

lemma use_registry_inv:
  "pipeline_inv s \<Longrightarrow> registry_step (pl_registry s) registry \<Longrightarrow> pipeline_inv (s\<lparr>pl_registry := registry\<rparr>)"
  using registry_source.cache_ok_step [of "pl_registry s" "pl_cache s" registry]
    published_ok_later [of "pl_registry s" "pl_core s" _ registry "pl_core s"] frozen_step [of "pl_registry s" registry]
  by (auto simp: pipeline_inv_def bridge_ok_def list_all_iff)

text \<open>What one call of \<^verbatim>\<open>Install\<close> does.\<close>

lemma pl_install_cases:
  assumes inv: "pipeline_inv s" and i: "pl_install publish ctx s = (s', out)"
  obtains (failed) e where "out = Inl e" "Encode (Registry_Read (pl_registry s)) = Inl e"
      "pl_core s' = pl_core s" "pl_bridge s' = pl_bridge s" "pl_published s' = pl_published s"
  | (again) result where "out = Inr result" "\<not> bres_installed result"
      "bres_core result = br_last_core (pl_bridge s)" "br_has_installed (pl_bridge s)"
      "br_last_registry (pl_bridge s) = rg_generation (pl_registry s)"
      "pl_core s' = pl_core s" "pl_bridge s' = pl_bridge s" "pl_published s' = pl_published s"
  | (declined) result where "out = Inr result" "\<not> bres_installed result" "r_outcome (bres_core result) \<noteq> Accepted"
      "active (pl_core s') = active (pl_core s)" "parse (pl_core s') = parse (pl_core s)"
      "pl_bridge s' = pl_bridge s" "pl_published s' = pl_published s"
  | (installed) result body v where "out = Inr result" "bres_installed result"
      "Encode (Registry_Read (pl_registry s)) = Inr body" "parse (pl_core s) body = Some v"
      "active (pl_core s') = NewActive v (r_generation (bres_core result))" "parse (pl_core s') = parse (pl_core s)"
      "r_outcome (bres_core result) = Accepted"
      "\<not> (br_has_installed (pl_bridge s) \<and> br_last_registry (pl_bridge s) = rg_generation (pl_registry s))"
      "pl_bridge s' = \<lparr>br_has_installed = True, br_last_registry = rg_generation (pl_registry s), br_last_core = bres_core result\<rparr>"
      "pl_published s' = pl_published s @ [(rg_generation (pl_registry s), body, bres_core result)]"
proof -
  obtain cache mo where m: "Materialize (Registry_Read (pl_registry s)) (pl_cache s) = (cache, mo)" by fastforce
  have ok: "registry_source.cache_ok (pl_registry s) (pl_cache s)" "ca_encode (pl_cache s) = Encode"
    using inv by (auto simp: pipeline_inv_def)
  note ms = registry_source.Materialize_sound [OF ok(1) m, unfolded ok(2)]
  show thesis
  proof (cases mo)
    case (Inl e)
    with m ms i show thesis by (intro failed [of e]) (auto simp: pl_install_def Bridge_Install_def)
  next
    case (Inr mr)
    have g: "rp_generation (mr_representation mr) = rg_generation (pl_registry s)"
      and body: "Encode (Registry_Read (pl_registry s)) = Inr (rp_body (mr_representation mr))"
      using ms Inr by auto
    have cached: "ca_cached cache = Some (mr_representation mr)"
      using m Inr by (auto simp: Materialize_def Let_def split: option.splits if_splits sum.splits)
    show thesis
    proof (cases "br_has_installed (pl_bridge s) \<and> br_last_registry (pl_bridge s) = rg_generation (pl_registry s)")
      case True
      with m Inr i g show thesis
        by (intro again) (auto simp: pl_install_def Bridge_Install_def install_materialized_def)
    next
      case fresh: False
      obtain core r where p: "publish ctx Managed (rp_body (mr_representation mr)) (pl_core s) = (core, r)" by fastforce
      show thesis
      proof (cases "r_outcome r = Accepted")
        case True
        from accepted_active [OF p True] obtain v where "parse (pl_core s) (rp_body (mr_representation mr)) = Some v"
          "active core = NewActive v (r_generation r)" by blast
        with m Inr i g body cached p True fresh parse_stable [OF p] show thesis
          by (intro installed) (auto simp: pl_install_def Bridge_Install_def install_materialized_def Let_def)
      next
        case False
        with m Inr i g p fresh declined_active [OF p False] parse_stable [OF p] show thesis
          by (intro declined) (auto simp: pl_install_def Bridge_Install_def install_materialized_def Let_def)
      qed
    qed
  qed
qed

lemma last_published:
  "pipeline_inv s \<Longrightarrow> br_has_installed (pl_bridge s) \<Longrightarrow> list_all (\<lambda>pub. fst pub \<le> br_last_registry (pl_bridge s)) (pl_published s)"
proof -
  assume inv: "pipeline_inv s" "br_has_installed (pl_bridge s)"
  then obtain ps p where ps: "pl_published s = ps @ [p]" by (cases "pl_published s" rule: rev_cases) (auto simp: pipeline_inv_def bridge_ok_def)
  with inv have "fst p = br_last_registry (pl_bridge s)" by (auto simp: pipeline_inv_def bridge_ok_def)
  with inv ps show ?thesis by (auto simp: pipeline_inv_def list_all_iff sorted_wrt_append less_imp_le)
qed

lemma pl_install_inv:
  assumes inv: "pipeline_inv s" and i: "pl_install publish ctx s = (s', out)"
  shows "pipeline_inv s' \<and> pl_registry s' = pl_registry s \<and> pl_final s' = pl_final s"
proof -
  have c: "ca_encode (pl_cache s') = Encode" "registry_source.cache_ok (pl_registry s) (pl_cache s')"
  proof -
    obtain cache mo where m: "Materialize (Registry_Read (pl_registry s)) (pl_cache s) = (cache, mo)" by fastforce
    then have "pl_cache s' = cache"
      using i by (auto simp: pl_install_def Bridge_Install_def split: sum.splits prod.splits)
    with registry_source.Materialize_sound [OF _ m] inv
    show "ca_encode (pl_cache s') = Encode" "registry_source.cache_ok (pl_registry s) (pl_cache s')"
      by (auto simp: pipeline_inv_def)
  qed
  have frame: "pl_registry s' = pl_registry s" "pl_final s' = pl_final s"
    using i by (auto simp: pl_install_def split: prod.splits)
  have keep: "list_all (published_ok (pl_registry s) core') (pl_published s)" if "parse core' = parse (pl_core s)" for core'
    using inv that published_ok_later [of "pl_registry s" "pl_core s" _ "pl_registry s" core']
    by (auto simp: pipeline_inv_def list_all_iff)
  from inv i show ?thesis
  proof (cases rule: pl_install_cases)
    case (failed e)
    with inv c frame show ?thesis by (simp add: pipeline_inv_def bridge_ok_def)
  next
    case (again result)
    with inv c frame show ?thesis by (simp add: pipeline_inv_def bridge_ok_def)
  next
    case (declined result)
    with inv c frame keep [OF declined(5)] show ?thesis by (simp add: pipeline_inv_def bridge_ok_def)
  next
    case (installed result body v)
    let ?new = "(rg_generation (pl_registry s), body, bres_core result)"
    have "published_ok (pl_registry s) (pl_core s') ?new"
      using installed by (auto simp: published_ok_def)
    moreover have "fst p < rg_generation (pl_registry s)" if "p \<in> set (pl_published s)" for p
    proof -
      have "br_has_installed (pl_bridge s)" using that inv by (auto simp: pipeline_inv_def bridge_ok_def)
      with that last_published [OF inv] have le: "fst p \<le> br_last_registry (pl_bridge s)" by (auto simp: list_all_iff)
      have "last (pl_published s) \<in> set (pl_published s)" using that by (intro last_in_set) auto
      then have "fst (last (pl_published s)) \<le> rg_generation (pl_registry s)"
        using inv published_generation unfolding pipeline_inv_def list_all_iff by blast
      with \<open>br_has_installed (pl_bridge s)\<close> inv have "br_last_registry (pl_bridge s) \<le> rg_generation (pl_registry s)"
        by (auto simp: pipeline_inv_def bridge_ok_def)
      with le installed(8) \<open>br_has_installed (pl_bridge s)\<close> show ?thesis by auto
    qed
    ultimately show ?thesis
      using inv c frame keep [OF installed(6)] installed
      by (auto simp: pipeline_inv_def bridge_ok_def sorted_wrt_append)
  qed
qed

lemma NewPipeline_inv: "pipeline_inv (NewPipeline registry core)"
  by (simp add: pipeline_inv_def bridge_ok_def NewPipeline_def NewCache_def NewBridge_def registry_source.cache_ok_empty)

lemma frozen_pipeline_inv: "pipeline_inv s \<Longrightarrow> pipeline_inv (s\<lparr>pl_registry := fst (Registry_Freeze (pl_registry s))\<rparr>)"
  by (rule use_registry_inv) (simp_all add: freeze_step)

text \<open>\<open>FreezeAndInstall\<close> in its first call, as freezing and installing.\<close>

lemma FreezeAndInstall_first:
  assumes "pl_final s = None" "FreezeAndInstall publish ctx s = (s', result, w)"
  obtains s1 out where "pl_install publish ctx (s\<lparr>pl_registry := fst (Registry_Freeze (pl_registry s))\<rparr>) = (s1, out)"
    "s' = s1\<lparr>pl_final := Some result, pl_log := pl_log s'\<rparr>" "fr_install result = out" "w"
    "fr_registry_generation result = rg_generation (pl_registry s)"
proof -
  obtain s1 out where i: "pl_install publish ctx (s\<lparr>pl_registry := fst (Registry_Freeze (pl_registry s))\<rparr>) = (s1, out)"
    by fastforce
  with assms show thesis
    by (intro that [OF i]) (auto simp: FreezeAndInstall_def Registry_Freeze_def Registry_Read_def Let_def)
qed

text \<open>An accepted final installation is what the core shows from then on.\<close>

definition sealed :: "'p pipeline \<Rightarrow> bool" where
  "sealed s \<longleftrightarrow> rg_frozen (pl_registry s) \<and> br_has_installed (pl_bridge s) \<and>
     br_last_registry (pl_bridge s) = rg_generation (pl_registry s)"

definition final_ok :: "'p pipeline \<Rightarrow> bool" where
  "final_ok s \<longleftrightarrow>
     (\<forall>result br. pl_final s = Some result \<longrightarrow> fr_install result = Inr br \<longrightarrow> r_outcome (bres_core br) = Accepted \<longrightarrow>
        sealed s \<and> br_last_core (pl_bridge s) = bres_core br)"

lemma sealed_install:
  assumes "pipeline_inv s" "sealed s" "pl_install publish ctx s = (s', out)"
  shows "sealed s' \<and> pl_bridge s' = pl_bridge s \<and> active (pl_core s') = active (pl_core s) \<and> pl_registry s' = pl_registry s"
proof -
  have r: "pl_registry s' = pl_registry s" using pl_install_inv [OF assms(1,3)] by blast
  from assms(1,3) show ?thesis
    by (cases rule: pl_install_cases) (use assms(2) r in \<open>auto simp: sealed_def\<close>)
qed

lemma install_accepted_seals:
  assumes "pipeline_inv s" "rg_frozen (pl_registry s)" "pl_install publish ctx s = (s', Inr br)" "r_outcome (bres_core br) = Accepted"
  shows "sealed s' \<and> br_last_core (pl_bridge s') = bres_core br"
proof -
  have r: "pl_registry s' = pl_registry s" using pl_install_inv [OF assms(1,3)] by blast
  from assms(1,3) show ?thesis
    by (cases rule: pl_install_cases) (use assms(2,4) r in \<open>auto simp: sealed_def\<close>)
qed

definition pipeline_ok :: "'p pipeline \<Rightarrow> bool" where
  "pipeline_ok s \<longleftrightarrow> pipeline_inv s \<and> final_ok s"

lemma pipeline_inv_log: "pipeline_inv s \<Longrightarrow> pipeline_inv (s\<lparr>pl_log := l\<rparr>)"
  by (simp add: pipeline_inv_def bridge_ok_def)

text \<open>
  Every step keeps the invariant, advances the registry by its own steps, and leaves a sealed
  pipeline's registry and active snapshot alone.
\<close>

lemma pipeline_step_ok:
  assumes "pipeline_step publish s s'" "pipeline_ok s"
  shows "pipeline_ok s' \<and> registry_step\<^sup>*\<^sup>* (pl_registry s) (pl_registry s') \<and>
    (sealed s \<longrightarrow> sealed s' \<and> pl_registry s' = pl_registry s \<and> active (pl_core s') = active (pl_core s))"
proof -
  have inv: "pipeline_inv s" and fin: "final_ok s" using assms(2) by (auto simp: pipeline_ok_def)
  from assms(1) show ?thesis
  proof cases
    case (use_registry registry)
    have "sealed s \<Longrightarrow> registry = pl_registry s" using frozen_step [OF use_registry(2)] by (auto simp: sealed_def)
    then show ?thesis
      using use_registry use_registry_inv [OF inv use_registry(2)] fin
      by (auto simp: pipeline_ok_def final_ok_def sealed_def)
  next
    case (tick ctx)
    obtain s1 out where i: "pl_install publish ctx s = (s1, out)" by fastforce
    then have s': "s' = s1\<lparr>pl_log := pl_log s1 @ [Obs_Materialized (hit_of out) (isl out)]\<rparr>"
      using tick by (simp add: publisher_tick_def)
    note p = pl_install_inv [OF inv i]
    have "final_ok s1" unfolding final_ok_def
      using fin p sealed_install [OF inv _ i] by (auto simp: final_ok_def)
    then show ?thesis
      using s' p sealed_install [OF inv _ i] pipeline_inv_log by (auto simp: pipeline_ok_def final_ok_def sealed_def)
  next
    case (finalize ctx)
    obtain result w where f: "FreezeAndInstall publish ctx s = (s', result, w)"
      using finalize by (metis prod.collapse)
    show ?thesis
    proof (cases "pl_final s")
      case (Some r)
      with f have "s' = s" by (simp add: FreezeAndInstall_def)
      with assms(2) show ?thesis by simp
    next
      case None
      let ?s = "s\<lparr>pl_registry := fst (Registry_Freeze (pl_registry s))\<rparr>"
      from FreezeAndInstall_first [OF None f] obtain s1 out where i: "pl_install publish ctx ?s = (s1, out)"
        and s': "s' = s1\<lparr>pl_final := Some result, pl_log := pl_log s'\<rparr>" and out: "fr_install result = out" by metis
      note inv' = frozen_pipeline_inv [OF inv]
      have fz: "rg_frozen (pl_registry ?s)" by (simp add: Registry_Freeze_def)
      note p = pl_install_inv [OF inv' i]
      have sel: "pl_registry s' = pl_registry s1" "pl_core s' = pl_core s1" "pl_bridge s' = pl_bridge s1"
        "pl_cache s' = pl_cache s1" "pl_published s' = pl_published s1" "pl_final s' = Some result"
        by (subst s', simp)+
      have "pipeline_inv s1" "rg_frozen (pl_registry s1)" using p fz by simp_all
      then have "pipeline_inv s'" unfolding pipeline_inv_def bridge_ok_def sel by blast
      moreover have "final_ok s'"
        using install_accepted_seals [OF inv' fz] i out sel by (auto simp: final_ok_def sealed_def)
      moreover have "registry_step\<^sup>*\<^sup>* (pl_registry s) (pl_registry s')"
        using freeze_step p sel by auto
      moreover have "sealed s \<longrightarrow> sealed s' \<and> pl_registry s' = pl_registry s \<and> active (pl_core s') = active (pl_core s)"
        using sealed_install [OF inv' _ i] sel frozen_step [OF freeze_step] by (auto simp: sealed_def)
      ultimately show ?thesis by (simp add: pipeline_ok_def)
    qed
  qed
qed

lemma pipeline_steps_ok:
  assumes "(pipeline_step publish)\<^sup>*\<^sup>* s s'" "pipeline_ok s"
  shows "pipeline_ok s' \<and> registry_step\<^sup>*\<^sup>* (pl_registry s) (pl_registry s') \<and>
    (sealed s \<longrightarrow> sealed s' \<and> pl_registry s' = pl_registry s \<and> active (pl_core s') = active (pl_core s))"
  using assms(1)
proof (induction rule: rtranclp_induct)
  case (step y z)
  with pipeline_step_ok [OF step(2)] show ?case by (auto intro: rtranclp_trans)
qed (use assms(2) in simp)

end

section \<open>The core behind the pipeline\<close>

abbreviation core_active :: "Core \<Rightarrow> ActiveSnapshot" where
  "core_active core \<equiv> h_active (c_holder core)"

interpretation managed_core: publisher Publish core_active core_parse
  using core_publisher.rejected_reason core_publisher.accepted_active [unfolded Active_h_active]
    core_publisher.declined_active [unfolded Active_h_active] core_publisher.parse_stable by unfold_locales blast+

lemma NewPipeline_ok: "managed_core.pipeline_ok (NewPipeline registry core)"
  using managed_core.NewPipeline_inv
  by (simp add: managed_core.pipeline_ok_def managed_core.final_ok_def NewPipeline_def)

lemma reachable_pipeline:
  assumes "NewRegistryWithLimits l = Inr registry" "(pipeline_step Publish)\<^sup>*\<^sup>* (NewPipeline registry core) s"
  shows "managed_core.pipeline_inv s \<and> managed_core.final_ok s \<and> model_inv (rg_model (pl_registry s)) \<and>
    registry_step\<^sup>*\<^sup>* registry (pl_registry s)"
proof -
  have "managed_core.pipeline_ok s" "registry_step\<^sup>*\<^sup>* registry (pl_registry s)"
    using managed_core.pipeline_steps_ok [OF assms(2) NewPipeline_ok] by (auto simp: NewPipeline_def)
  with registry_steps_keep NewRegistry_inv [OF assms(1)] show ?thesis
    by (auto simp: managed_core.pipeline_ok_def)
qed

definition demo_core :: Core where
  "demo_core = \<lparr>c_holder = NewInitialHolder, c_limits = DefaultLimits, c_parser = (\<lambda>_ _. Inr Zero), c_concurrent = 1,
     c_capacity = 2, c_executing = 0, c_admissions = 0, c_admitted = 0, c_closed = False, c_final = None, c_log = []\<rparr>"

definition in_time :: publish_ctx where
  "in_time = \<lparr>expired_on_entry = False, expired_waiting = False, expired_after_parse = False\<rparr>"

text \<open>
  Materialization through the cache is materialization: in every state the managed pipeline can
  reach, it succeeds and returns the document of the registry's present content, whether it comes
  from the cache or not.
\<close>

theorem materialize_current:
  assumes "NewRegistryWithLimits l = Inr registry" "(pipeline_step Publish)\<^sup>*\<^sup>* (NewPipeline registry core) s"
  shows "\<exists>body m. Encode (Registry_Read (pl_registry s)) = Inr body \<and>
    snd (Materialize (Registry_Read (pl_registry s)) (pl_cache s)) = Inr m \<and>
    mr_representation m = \<lparr>rp_generation = rg_generation (pl_registry s), rp_body = body\<rparr>"
proof -
  note ok = reachable_pipeline [OF assms]
  then obtain body where body: "Encode (Registry_Read (pl_registry s)) = Inr body" using Encode_total by blast
  obtain cache out where m: "Materialize (Registry_Read (pl_registry s)) (pl_cache s) = (cache, out)" by fastforce
  have c: "registry_source.cache_ok (pl_registry s) (pl_cache s)" "ca_encode (pl_cache s) = Encode"
    using ok by (auto simp: managed_core.pipeline_inv_def)
  from registry_source.Materialize_sound [OF c(1) m] body c(2) m show ?thesis
    by (cases out) auto
qed

theorem materialize_current_witness:
  "\<exists>body. Encode (Registry_Read demo_registry) = Inr body \<and>
     mr_representation (projr (snd (Materialize (Registry_Read demo_registry) (NewCache None)))) =
       \<lparr>rp_generation = 0, rp_body = body\<rparr>"
  using materialize_current [OF demo_registry_new rtranclp.rtrancl_refl, of demo_core]
  by (auto simp: NewPipeline_def demo_registry_def)

text \<open>
  C23: The core gets every registry generation at most once and in order: the registry generations of
  the accepted managed publications strictly climb, each was published with the document of the
  registry's content at that generation, and the last of them is what the core shows.
\<close>

theorem managed_publications:
  assumes "NewRegistryWithLimits l = Inr registry" "(pipeline_step Publish)\<^sup>*\<^sup>* (NewPipeline registry core) s"
  shows "sorted_wrt (<) (map fst (pl_published s)) \<and>
    (\<forall>(g, body, result)\<in>set (pl_published s). r_outcome result = Accepted \<and>
       (\<exists>r. registry_step\<^sup>*\<^sup>* r (pl_registry s) \<and> rg_generation r = g \<and> Encode (Registry_Read r) = Inr body)) \<and>
    (pl_published s \<noteq> [] \<longrightarrow>
       (case last (pl_published s) of (g, body, result) \<Rightarrow>
          \<exists>v. core_parse (pl_core s) body = Some v \<and> core_active (pl_core s) = NewActive v (r_generation result)))"
proof -
  have inv: "managed_core.pipeline_inv s" using reachable_pipeline [OF assms] by blast
  then have "\<forall>p\<in>set (pl_published s). managed_core.published_ok (pl_registry s) (pl_core s) p"
    "sorted_wrt (<) (map fst (pl_published s))" "managed_core.bridge_ok s"
    by (auto simp: managed_core.pipeline_inv_def list_all_iff)
  then show ?thesis
    unfolding managed_core.published_ok_def managed_core.bridge_ok_def by (auto split: prod.splits; fastforce)
qed

definition demo_pipeline :: "Core pipeline" where
  "demo_pipeline = NewPipeline demo_registry demo_core"

theorem managed_publications_witness:
  "let s = publisher_tick Publish in_time demo_pipeline
   in map fst (pl_published s) = [0] \<and> a_generation (core_active (pl_core s)) = 1"
proof -
  let ?s = "publisher_tick Publish in_time demo_pipeline"
  have "(pipeline_step Publish)\<^sup>*\<^sup>* (NewPipeline demo_registry demo_core) ?s"
    using pipeline_step.tick [of Publish demo_pipeline in_time] by (simp add: demo_pipeline_def r_into_rtranclp)
  from managed_publications [OF demo_registry_new this]
  have "case last (pl_published ?s) of (g, body, result) \<Rightarrow> pl_published ?s \<noteq> [] \<longrightarrow>
      a_generation (core_active (pl_core ?s)) = r_generation result"
    by (auto simp: NewActive_def split: prod.splits)
  moreover have "map fst (pl_published ?s) = [0]" "r_generation (snd (snd (last (pl_published ?s)))) = 1"
    by code_simp+
  ultimately show ?thesis by (auto simp: Let_def split: prod.splits)
qed

text \<open>
  C24: The end of managed mode: when the finalizer reports an accepted installation, in its first
  call or any later one, the registry is frozen, the core shows the snapshot parsed from the
  document of the frozen content, and neither the registry nor the active snapshot changes in any
  later step of the pipeline.
\<close>

theorem managed_final_snapshot:
  assumes "NewRegistryWithLimits l = Inr registry" "(pipeline_step Publish)\<^sup>*\<^sup>* (NewPipeline registry core) s"
    and "FreezeAndInstall Publish ctx s = (s', result, winner)"
    and "fr_install result = Inr br" "r_outcome (bres_core br) = Accepted"
    and "(pipeline_step Publish)\<^sup>*\<^sup>* s' s''"
  shows "rg_frozen (pl_registry s') \<and>
    (\<exists>body v. Encode (Registry_Read (pl_registry s')) = Inr body \<and> core_parse (pl_core s') body = Some v \<and>
       core_active (pl_core s') = NewActive v (r_generation (bres_core br))) \<and>
    pl_registry s'' = pl_registry s' \<and> core_active (pl_core s'') = core_active (pl_core s')"
proof -
  have st: "(pipeline_step Publish)\<^sup>*\<^sup>* (NewPipeline registry core) s'"
    using assms(2) pipeline_step.finalize [of Publish s ctx] assms(3) by (metis fst_conv rtranclp.rtrancl_into_rtrancl)
  note ok = reachable_pipeline [OF assms(1) st]
  have "pl_final s' = Some result"
    using assms(3) by (auto simp: FreezeAndInstall_def Let_def split: option.splits prod.splits)
  with ok assms(4,5) have seal: "managed_core.sealed s'" "br_last_core (pl_bridge s') = bres_core br"
    by (auto simp: managed_core.final_ok_def)
  from ok have inv: "managed_core.pipeline_inv s'" by blast
  with seal(1) have ne: "pl_published s' \<noteq> []"
    by (auto simp: managed_core.sealed_def managed_core.pipeline_inv_def managed_core.bridge_ok_def)
  then obtain body v where b: "last (pl_published s') = (rg_generation (pl_registry s'), body, bres_core br)"
    "core_parse (pl_core s') body = Some v" "core_active (pl_core s') = NewActive v (r_generation (bres_core br))"
    using inv seal by (auto simp: managed_core.sealed_def managed_core.pipeline_inv_def managed_core.bridge_ok_def)
  have "managed_core.published_ok (pl_registry s') (pl_core s') (last (pl_published s'))"
    using inv ne last_in_set [OF ne] by (auto simp: managed_core.pipeline_inv_def list_all_iff)
  then obtain r where r: "registry_step\<^sup>*\<^sup>* r (pl_registry s')" "rg_generation r = rg_generation (pl_registry s')"
    "Encode (Registry_Read r) = Inr body"
    by (auto simp: managed_core.published_ok_def b(1))
  have "rg_model (pl_registry s') = rg_model r"
    using registry.version_determines_content [OF r(1)] r(2) by simp
  with r(2,3) have "Encode (Registry_Read (pl_registry s')) = Inr body" by (simp add: Registry_Read_def)
  with b seal managed_core.pipeline_steps_ok [OF assms(6)] ok show ?thesis
    by (auto simp: managed_core.pipeline_ok_def managed_core.sealed_def)
qed

theorem managed_final_snapshot_witness:
  "let s = fst (FreezeAndInstall Publish in_time demo_pipeline)
   in rg_frozen (pl_registry s) \<and> a_generation (core_active (pl_core s)) = 1"
proof -
  let ?f = "FreezeAndInstall Publish in_time demo_pipeline"
  obtain s result winner where f: "?f = (s, result, winner)" by (rule prod_cases3)
  have "(case fr_install (fst (snd ?f)) of Inl _ \<Rightarrow> False
      | Inr br \<Rightarrow> r_outcome (bres_core br) = Accepted \<and> r_generation (bres_core br) = 1)" by code_simp
  then obtain br where br: "fr_install result = Inr br" "r_outcome (bres_core br) = Accepted" "r_generation (bres_core br) = 1"
    using f by (auto split: sum.splits)
  have "rg_frozen (pl_registry s) \<and> (\<exists>v. core_active (pl_core s) = NewActive v (r_generation (bres_core br)))"
    using managed_final_snapshot [OF demo_registry_new rtranclp.rtrancl_refl f [unfolded demo_pipeline_def] br(1,2) rtranclp.rtrancl_refl]
    by blast
  with f br(3) show ?thesis by (auto simp: NewActive_def)
qed

end
