(* ===== verification/Exposition_Filter.thy ===== *)
theory Exposition_Filter
  imports Snapshot_Properties "HOL-Library.Product_Lexorder"
begin

text \<open>
  The family filter of the exposition (\<^verbatim>\<open>internal/exposition/filter.go\<close>): selectors
  \<^verbatim>\<open>name:...\<close> and \<^verbatim>\<open>prefix:...\<close>, their normal form, and which families pass.

  The Go map that removes duplicates is iterated in random order and sorted afterwards by a key that
  determines the selector; here the duplicates are removed from the list.
\<close>

section \<open>Selectors\<close>

type_synonym SelectorKind = string

definition SelectorName :: SelectorKind where "SelectorName = ''name''"
definition SelectorPrefix :: SelectorKind where "SelectorPrefix = ''prefix''"

record Selector =
  sel_kind :: SelectorKind
  sel_value :: string

datatype selector_error = ErrSelector

definition ParseSelector :: "string \<Rightarrow> selector_error + Selector" where
  "ParseSelector v =
     (let (kind, metric, found) = cut_at (CHR '':'') v in
      if \<not> found \<or> (kind \<noteq> SelectorName \<and> kind \<noteq> SelectorPrefix) \<or> \<not> metricNamePattern metric then Inl ErrSelector
      else Inr \<lparr>sel_kind = kind, sel_value = metric\<rparr>)"

definition normalizeSelectors :: "string list \<Rightarrow> selector_error + Selector list" where
  "normalizeSelectors vs =
     and_then (map_result ParseSelector vs)
       (\<lambda>selectors. Inr (sort_key (\<lambda>s. (sel_kind s, sel_value s)) (remdups selectors)))"

definition matchesAny :: "Selector list \<Rightarrow> string \<Rightarrow> bool" where
  "matchesAny selectors name =
     list_ex (\<lambda>s. sel_kind s = SelectorName \<and> name = sel_value s \<or>
                  sel_kind s = SelectorPrefix \<and> has_prefix name (sel_value s)) selectors"

section \<open>Filters\<close>

record Filter =
  flt_include :: "Selector list"
  flt_exclude :: "Selector list"

definition NewFilter :: "string list \<Rightarrow> string list \<Rightarrow> selector_error + Filter" where
  "NewFilter incl excl =
     and_then (normalizeSelectors incl) (\<lambda>include.
     and_then (normalizeSelectors excl) (\<lambda>exclude.
       Inr \<lparr>flt_include = include, flt_exclude = exclude\<rparr>))"

definition Includes :: "Filter \<Rightarrow> Family \<Rightarrow> bool" where
  "Includes flt family =
     (if flt_include flt \<noteq> [] \<and> \<not> matchesAny (flt_include flt) (f_name family) then False
      else \<not> matchesAny (flt_exclude flt) (f_name family))"

fun count_families :: "Filter \<Rightarrow> nat \<Rightarrow> nat \<Rightarrow> Family list \<Rightarrow> nat \<times> nat" where
  "count_families flt included excluded [] = (included, excluded)"
| "count_families flt included excluded (f # fs) =
     (if Includes flt f then count_families flt (Suc included) excluded fs
      else count_families flt included (Suc excluded) fs)"

definition Counts :: "Filter \<Rightarrow> Family list \<Rightarrow> nat \<times> nat" where
  "Counts flt families = count_families flt 0 0 families"

definition RuleCounts :: "Filter \<Rightarrow> nat \<times> nat" where
  "RuleCounts flt = (length (flt_include flt), length (flt_exclude flt))"

section \<open>Facts\<close>

text \<open>What a selector text stands for, without parsing: the name itself, or a prefix of it.\<close>

definition selects :: "string \<Rightarrow> string \<Rightarrow> bool" where
  "selects v name \<longleftrightarrow> v = ''name:'' @ name \<or> (\<exists>p rest. v = ''prefix:'' @ p \<and> name = p @ rest)"

definition selector_text :: "string \<Rightarrow> bool" where
  "selector_text v \<longleftrightarrow> (\<exists>p. metricNamePattern p \<and> (v = ''name:'' @ p \<or> v = ''prefix:'' @ p))"

lemma cut_at_colon:
  "cut_at (CHR '':'') v = (kind, metric, True) \<longleftrightarrow> v = kind @ CHR '':'' # metric \<and> CHR '':'' \<notin> set kind"
proof
  assume c: "cut_at (CHR '':'') v = (kind, metric, True)"
  then have "CHR '':'' \<in> set v" by (auto simp: cut_at_def split: if_splits)
  then obtain a b where "v = a @ CHR '':'' # b" "CHR '':'' \<notin> set a" by (meson split_list_first)
  with c cut_at_append_sep [of "CHR '':''" a b] show "v = kind @ CHR '':'' # metric \<and> CHR '':'' \<notin> set kind" by simp
qed (auto simp: cut_at_append_sep)

lemma ParseSelector_Inr_iff:
  "ParseSelector v = Inr s \<longleftrightarrow>
     (sel_kind s = SelectorName \<or> sel_kind s = SelectorPrefix) \<and> metricNamePattern (sel_value s) \<and>
     v = sel_kind s @ CHR '':'' # sel_value s"
proof -
  obtain kind metric found where c: "cut_at (CHR '':'') v = (kind, metric, found)" by (metis prod_cases3)
  have colon: "CHR '':'' \<notin> set SelectorName" "CHR '':'' \<notin> set SelectorPrefix"
    by (simp_all add: SelectorName_def SelectorPrefix_def)
  show ?thesis
  proof
    assume "ParseSelector v = Inr s"
    with c have "found" "kind = SelectorName \<or> kind = SelectorPrefix" "metricNamePattern metric"
      "s = \<lparr>sel_kind = kind, sel_value = metric\<rparr>"
      by (auto simp: ParseSelector_def split: if_splits)
    with c show "(sel_kind s = SelectorName \<or> sel_kind s = SelectorPrefix) \<and> metricNamePattern (sel_value s) \<and>
      v = sel_kind s @ CHR '':'' # sel_value s"
      by (auto simp: cut_at_colon)
  next
    assume a: "(sel_kind s = SelectorName \<or> sel_kind s = SelectorPrefix) \<and> metricNamePattern (sel_value s) \<and>
      v = sel_kind s @ CHR '':'' # sel_value s"
    with colon have "cut_at (CHR '':'') v = (sel_kind s, sel_value s, True)" by (auto simp: cut_at_colon)
    with a show "ParseSelector v = Inr s" by (auto simp: ParseSelector_def)
  qed
qed

lemma selector_text_iff: "selector_text v \<longleftrightarrow> (\<exists>s. ParseSelector v = Inr s)"
proof
  assume "selector_text v"
  then obtain p where p: "metricNamePattern p" "v = ''name:'' @ p \<or> v = ''prefix:'' @ p"
    by (auto simp: selector_text_def)
  from p(2) show "\<exists>s. ParseSelector v = Inr s"
  proof
    assume "v = ''name:'' @ p"
    with p(1) have "ParseSelector v = Inr \<lparr>sel_kind = SelectorName, sel_value = p\<rparr>"
      unfolding ParseSelector_Inr_iff by (simp add: SelectorName_def)
    then show ?thesis ..
  next
    assume "v = ''prefix:'' @ p"
    with p(1) have "ParseSelector v = Inr \<lparr>sel_kind = SelectorPrefix, sel_value = p\<rparr>"
      unfolding ParseSelector_Inr_iff by (simp add: SelectorPrefix_def)
    then show ?thesis ..
  qed
qed (auto simp: ParseSelector_Inr_iff selector_text_def SelectorName_def SelectorPrefix_def)

lemma ParseSelector_selects:
  assumes "ParseSelector v = Inr s"
  shows "(sel_kind s = SelectorName \<and> name = sel_value s \<or>
          sel_kind s = SelectorPrefix \<and> has_prefix name (sel_value s)) \<longleftrightarrow> selects v name"
  using assms by (auto simp: ParseSelector_Inr_iff selects_def has_prefix_iff SelectorName_def SelectorPrefix_def)

text \<open>The parsed set, as a list, whatever the order and the repetitions of the texts.\<close>

definition parsed :: "string list \<Rightarrow> Selector set" where
  "parsed vs = {s. \<exists>v\<in>set vs. ParseSelector v = Inr s}"

lemma map_result_ParseSelector:
  "map_result ParseSelector vs = Inr ss \<Longrightarrow> set ss = parsed vs"
  unfolding map_result_Inr_iff parsed_def list_all2_conv_all_nth by (fastforce simp: set_conv_nth)

lemma normalizeSelectors_Inr:
  assumes "normalizeSelectors vs = Inr ss"
  shows "set ss = parsed vs \<and> (\<forall>v\<in>set vs. selector_text v)"
proof -
  obtain ts where ts: "map_result ParseSelector vs = Inr ts" "set ss = set ts"
    using assms by (auto simp: normalizeSelectors_def and_then_Inr_iff)
  then have "\<forall>v\<in>set vs. selector_text v"
    by (auto simp: selector_text_iff map_result_Inr_iff list_all2_conv_all_nth in_set_conv_nth)
  with ts map_result_ParseSelector [OF ts(1)] show ?thesis by simp
qed

lemma normalizeSelectors_total:
  "\<forall>v\<in>set vs. selector_text v \<Longrightarrow> \<exists>ss. normalizeSelectors vs = Inr ss"
  using map_result_total [of vs ParseSelector] by (auto simp: normalizeSelectors_def selector_text_iff)

lemma normalizeSelectors_set_cong:
  assumes "set vs = set ws"
  shows "normalizeSelectors vs = normalizeSelectors ws"
proof (cases "\<forall>v\<in>set vs. selector_text v")
  case True
  obtain ss ts where m: "map_result ParseSelector vs = Inr ss" "map_result ParseSelector ws = Inr ts"
    using map_result_total [of vs ParseSelector] map_result_total [of ws ParseSelector] True assms
    by (auto simp: selector_text_iff)
  have "mset (remdups ss) = mset (remdups ts)"
    using map_result_ParseSelector [OF m(1)] map_result_ParseSelector [OF m(2)] assms
    by (simp add: set_eq_iff_mset_remdups_eq [symmetric] parsed_def)
  moreover have "distinct (map (\<lambda>s. (sel_kind s, sel_value s)) (remdups ss))"
    by (auto simp: distinct_map intro!: inj_onI)
  ultimately have "sort_key (\<lambda>s. (sel_kind s, sel_value s)) (remdups ss) =
      sort_key (\<lambda>s. (sel_kind s, sel_value s)) (remdups ts)"
    by (rule sort_key_mset_eq)
  with m show ?thesis by (simp add: normalizeSelectors_def)
next
  case False
  have "normalizeSelectors us = Inl ErrSelector" if "\<not> (\<forall>v\<in>set us. selector_text v)" for us
    using that normalizeSelectors_Inr [of us] by (cases "normalizeSelectors us") (auto intro: selector_error.exhaust)
  with False assms show ?thesis by simp
qed

lemma matchesAny_selects:
  assumes "normalizeSelectors vs = Inr ss"
  shows "matchesAny ss name \<longleftrightarrow> (\<exists>v\<in>set vs. selects v name)"
proof -
  note n = normalizeSelectors_Inr [OF assms]
  have "matchesAny ss name \<longleftrightarrow> (\<exists>s\<in>parsed vs. sel_kind s = SelectorName \<and> name = sel_value s \<or>
      sel_kind s = SelectorPrefix \<and> has_prefix name (sel_value s))"
    using n by (simp add: matchesAny_def list_ex_iff)
  also have "\<dots> \<longleftrightarrow> (\<exists>v\<in>set vs. \<exists>s. ParseSelector v = Inr s \<and> selects v name)"
    using ParseSelector_selects unfolding parsed_def by blast
  also have "\<dots> \<longleftrightarrow> (\<exists>v\<in>set vs. selects v name)" using n by (auto simp: selector_text_iff)
  finally show ?thesis .
qed

lemma normalizeSelectors_empty: "normalizeSelectors vs = Inr ss \<Longrightarrow> ss = [] \<longleftrightarrow> vs = []"
  using normalizeSelectors_Inr [of vs ss] by (cases vs) (auto simp: parsed_def selector_text_iff)

lemma count_families_eq:
  "count_families flt i e fs = (i + length (filter (Includes flt) fs), e + length (filter (\<lambda>f. \<not> Includes flt f) fs))"
  by (induction fs arbitrary: i e) auto

section \<open>Property\<close>

text \<open>
  C28: The filter passes exactly the families its texts say. It is built exactly when every text is
  \<^verbatim>\<open>name:\<close> or \<^verbatim>\<open>prefix:\<close> followed by a metric name; then a family passes if and only
  if no exclusion selects its name and, when there are inclusions at all, one of them does. Order and
  repetition of the texts do not matter, and the counts are those of the passing and the other families.
\<close>

theorem filter_semantics:
  "((\<exists>flt. NewFilter incl excl = Inr flt) \<longleftrightarrow> (\<forall>v\<in>set incl \<union> set excl. selector_text v)) \<and>
   (\<forall>flt f fs. NewFilter incl excl = Inr flt \<longrightarrow>
     (Includes flt f \<longleftrightarrow> (incl = [] \<or> (\<exists>v\<in>set incl. selects v (f_name f))) \<and> \<not> (\<exists>v\<in>set excl. selects v (f_name f))) \<and>
     Counts flt fs = (length (filter (Includes flt) fs), length (filter (\<lambda>f. \<not> Includes flt f) fs))) \<and>
   (\<forall>incl' excl'. set incl' = set incl \<and> set excl' = set excl \<longrightarrow> NewFilter incl' excl' = NewFilter incl excl)"
proof (intro conjI allI impI)
  show "(\<exists>flt. NewFilter incl excl = Inr flt) \<longleftrightarrow> (\<forall>v\<in>set incl \<union> set excl. selector_text v)"
    using normalizeSelectors_Inr [of incl] normalizeSelectors_Inr [of excl]
      normalizeSelectors_total [of incl] normalizeSelectors_total [of excl]
    by (fastforce simp: NewFilter_def and_then_Inr_iff)
next
  fix flt f fs
  assume "NewFilter incl excl = Inr flt"
  then have n: "normalizeSelectors incl = Inr (flt_include flt)" "normalizeSelectors excl = Inr (flt_exclude flt)"
    by (auto simp: NewFilter_def and_then_Inr_iff)
  then show "Includes flt f \<longleftrightarrow> (incl = [] \<or> (\<exists>v\<in>set incl. selects v (f_name f))) \<and> \<not> (\<exists>v\<in>set excl. selects v (f_name f))"
    by (auto simp: Includes_def matchesAny_selects normalizeSelectors_empty)
  show "Counts flt fs = (length (filter (Includes flt) fs), length (filter (\<lambda>f. \<not> Includes flt f) fs))"
    by (simp add: Counts_def count_families_eq)
next
  fix incl' excl'
  assume "set incl' = set incl \<and> set excl' = set excl"
  then show "NewFilter incl' excl' = NewFilter incl excl"
    by (simp add: NewFilter_def normalizeSelectors_set_cong [of incl' incl] normalizeSelectors_set_cong [of excl' excl])
qed

theorem filter_semantics_witness:
  "\<exists>flt. NewFilter [''prefix:app_'', ''name:up''] [''name:app_debug''] = Inr flt \<and>
     Includes flt \<lparr>f_name = ''app_requests'', f_help = [], f_type = Gauge, f_series = []\<rparr> \<and>
     \<not> Includes flt \<lparr>f_name = ''app_debug'', f_help = [], f_type = Gauge, f_series = []\<rparr>"
proof -
  have "\<forall>v\<in>set [''prefix:app_'', ''name:up''] \<union> set [''name:app_debug'']. selector_text v"
    by (auto simp: selector_text_def is_alpha_def byte_in_def is_digit_def)
  with filter_semantics [of "[''prefix:app_'', ''name:up'']" "[''name:app_debug'']"] obtain flt where
    flt: "NewFilter [''prefix:app_'', ''name:up''] [''name:app_debug''] = Inr flt" by blast
  with filter_semantics [of "[''prefix:app_'', ''name:up'']" "[''name:app_debug'']"] show ?thesis
    by (intro exI [of _ flt]) (simp add: selects_def)
qed

end
