(* ===== verification/Self_Metrics.thy ===== *)
theory Self_Metrics
  imports Lifecycle Snapshot_Facts
begin

text \<open>
  The runtime's own metrics (\<^verbatim>\<open>internal/selfmetric/registry.go\<close>): a fixed table of families
  with closed label domains, every series of which exists from the start, and the updates of gauges,
  counters and histograms.

  The registry's mutex makes every update one function on the record. Maps are association lists; an
  index past the end of a slice, which panics, is an error of its own. The update functions return
  the registry they leave, or the error.
\<close>

section \<open>Data\<close>

type_synonym self_type = string

definition SelfGauge :: self_type where "SelfGauge = ''gauge''"
definition SelfCounter :: self_type where "SelfCounter = ''counter''"
definition SelfHistogram :: self_type where "SelfHistogram = ''histogram''"

record definition_row =
  df_name :: string
  df_help :: string
  df_type :: self_type
  df_label_names :: "string list"
  df_allowed :: "string list list"
  df_buckets :: "float64 list"
  df_managed :: bool

definition mk_definition ::
  "string \<Rightarrow> string \<Rightarrow> self_type \<Rightarrow> string list \<Rightarrow> string list list \<Rightarrow> float64 list \<Rightarrow> bool \<Rightarrow> definition_row" where
  "mk_definition name help t labels allowed buckets managed =
     \<lparr>df_name = name, df_help = help, df_type = t, df_label_names = labels, df_allowed = allowed,
      df_buckets = buckets, df_managed = managed\<rparr>"

datatype self_error = ErrUnknownMetric | ErrMetricType | ErrLabels | ErrValue | ErrManaged | IndexPanic

record self_histogram =
  sh_count :: uint64
  sh_sum :: float64
  sh_buckets :: "(float64 \<times> uint64) list"

record series_value =
  sv_labels :: "(string \<times> string) list"
  sv_gauge :: float64
  sv_counter :: uint64
  sv_histogram :: self_histogram

record family_value =
  fv_definition :: definition_row
  fv_series :: "(string \<times> series_value) list"
  fv_order :: "string list"

record self_registry =
  sr_started :: int
  sr_families :: "(string \<times> family_value) list"
  sr_order :: "string list"

section \<open>The table\<close>

definition RejectionReasons :: "Reason list" where
  "RejectionReasons =
     [ReasonMalformed, ReasonNumericInvalid, ReasonSchemaVersion, ReasonEmptyPayload, ReasonPayloadLimit,
      ReasonSeriesLimit, ReasonLabelLimit, ReasonNameLimit, ReasonPolicy, ReasonDuplicateSeries, ReasonTypeConflict,
      ReasonMetadataConflict, ReasonHistogramInvalid, ReasonReservedName, ReasonFrozen, ReasonInternal]"

text \<open>The bucket bounds 0.001, 0.005, 0.01, 0.05, 0.1, 0.25, 0.5, 1, 2, 5, 10, 30 and 60, as the nearest 64-bit floats.\<close>

definition ShutdownBuckets :: "float64 list" where
  "ShutdownBuckets =
     [Fin False 4611686018427388 (- 62), Fin False 5764607523034235 (- 60),
      Fin False 5764607523034235 (- 59), Fin False 7205759403792794 (- 57),
      Fin False 7205759403792794 (- 56), Fin False 4503599627370496 (- 54),
      Fin False 4503599627370496 (- 53), Fin False 4503599627370496 (- 52),
      Fin False 4503599627370496 (- 51), Fin False 5629499534213120 (- 50),
      Fin False 5629499534213120 (- 49), Fin False 8444249301319680 (- 48),
      Fin False 8444249301319680 (- 47)]"

definition BuildInfo :: string where "BuildInfo = ''metricshell_build_info''"
definition UptimeSeconds :: string where "UptimeSeconds = ''metricshell_uptime_seconds''"
definition RuntimeState :: string where "RuntimeState = ''metricshell_runtime_state''"
definition RuntimeFailuresTotal :: string where "RuntimeFailuresTotal = ''metricshell_runtime_failures_total''"
definition WorkloadRunning :: string where "WorkloadRunning = ''metricshell_workload_running''"
definition WorkloadProcessID :: string where "WorkloadProcessID = ''metricshell_workload_process_id''"
definition WorkloadStartsTotal :: string where "WorkloadStartsTotal = ''metricshell_workload_starts_total''"
definition WorkloadExitCode :: string where "WorkloadExitCode = ''metricshell_workload_exit_code''"
definition WorkloadSignalsTotal :: string where "WorkloadSignalsTotal = ''metricshell_workload_signals_forwarded_total''"
definition WorkloadForcedTotal :: string where "WorkloadForcedTotal = ''metricshell_workload_forced_terminations_total''"
definition ChildrenReapedTotal :: string where "ChildrenReapedTotal = ''metricshell_children_reaped_total''"
definition SnapshotGeneration :: string where "SnapshotGeneration = ''metricshell_snapshot_generation''"
definition SnapshotSeries :: string where "SnapshotSeries = ''metricshell_snapshot_series''"
definition self_SnapshotBytes :: string where "self_SnapshotBytes = ''metricshell_snapshot_bytes''"
definition SnapshotPublicationsTotal :: string where "SnapshotPublicationsTotal = ''metricshell_snapshot_publications_total''"
definition SnapshotRejectionsTotal :: string where "SnapshotRejectionsTotal = ''metricshell_snapshot_rejections_total''"
definition IngestionInflight :: string where "IngestionInflight = ''metricshell_ingestion_inflight''"
definition IngestionConnections :: string where "IngestionConnections = ''metricshell_ingestion_connections''"
definition IngestionLastSuccess :: string where "IngestionLastSuccess = ''metricshell_ingestion_last_success_timestamp_seconds''"
definition FileReconciliationsTotal :: string where "FileReconciliationsTotal = ''metricshell_file_reconciliations_total''"
definition FileWatchEventsTotal :: string where "FileWatchEventsTotal = ''metricshell_file_watch_events_total''"
definition SocketTransactionsInflight :: string where "SocketTransactionsInflight = ''metricshell_socket_transactions_inflight''"
definition SocketFramesRejectedTotal :: string where "SocketFramesRejectedTotal = ''metricshell_socket_frames_rejected_total''"
definition FilterRules :: string where "FilterRules = ''metricshell_filter_rules''"
definition FilterFamilies :: string where "FilterFamilies = ''metricshell_filter_families''"
definition ExpositionRequestsTotal :: string where "ExpositionRequestsTotal = ''metricshell_exposition_requests_total''"
definition ExpositionInflight :: string where "ExpositionInflight = ''metricshell_exposition_inflight''"
definition ExpositionResponseBytes :: string where "ExpositionResponseBytes = ''metricshell_exposition_response_bytes''"
definition FinalWaitActive :: string where "FinalWaitActive = ''metricshell_final_wait_active''"
definition FinalWaitModeInfo :: string where "FinalWaitModeInfo = ''metricshell_final_wait_mode_info''"
definition FinalWaitRequiredScrapes :: string where "FinalWaitRequiredScrapes = ''metricshell_final_wait_required_scrapes''"
definition FinalWaitCompletedScrapes :: string where "FinalWaitCompletedScrapes = ''metricshell_final_wait_completed_scrapes''"
definition FinalScrapeAttemptsTotal :: string where "FinalScrapeAttemptsTotal = ''metricshell_final_scrape_attempts_total''"
definition FinalWaitCompletionsTotal :: string where "FinalWaitCompletionsTotal = ''metricshell_final_wait_completions_total''"
definition FinalWaitDeadline :: string where "FinalWaitDeadline = ''metricshell_final_wait_deadline_timestamp_seconds''"
definition ShutdownActive :: string where "ShutdownActive = ''metricshell_shutdown_active''"
definition ShutdownDeadline :: string where "ShutdownDeadline = ''metricshell_shutdown_deadline_timestamp_seconds''"
definition ShutdownPhaseDuration :: string where "ShutdownPhaseDuration = ''metricshell_shutdown_phase_duration_seconds''"
definition ManagedOperationsTotal :: string where "ManagedOperationsTotal = ''metricshell_managed_operations_total''"
definition ManagedRejectionsTotal :: string where "ManagedRejectionsTotal = ''metricshell_managed_rejections_total''"
definition ManagedProtocolTotal :: string where "ManagedProtocolTotal = ''metricshell_managed_protocol_rejections_total''"
definition ManagedQueueDepth :: string where "ManagedQueueDepth = ''metricshell_managed_queue_depth''"
definition ManagedQueueCapacity :: string where "ManagedQueueCapacity = ''metricshell_managed_queue_capacity''"
definition ManagedFamilies :: string where "ManagedFamilies = ''metricshell_managed_families''"
definition ManagedSeries :: string where "ManagedSeries = ''metricshell_managed_series''"
definition ManagedGeneration :: string where "ManagedGeneration = ''metricshell_managed_generation''"
definition ManagedMaterializations :: string where "ManagedMaterializations = ''metricshell_managed_materializations_total''"
definition ManagedFreezes :: string where "ManagedFreezes = ''metricshell_managed_freezes_total''"
definition ManagedFinalInstalls :: string where "ManagedFinalInstalls = ''metricshell_managed_final_installs_total''"

definition FinalWaitModes :: "string list" where
  "FinalWaitModes = [''immediate'', ''duration'', ''scrapes'']"
definition RuntimeFailureReasons :: "string list" where
  "RuntimeFailureReasons = [''configuration'', ''bind'', ''workload_start'', ''protocol'', ''resource'', ''internal'']"
definition WorkloadStartOutcomes :: "string list" where
  "WorkloadStartOutcomes = [''started'', ''start_failed'']"
definition Signals :: "string list" where
  "Signals = [''TERM'', ''INT'', ''HUP'', ''QUIT'', ''KILL'']"
definition SignalTargets :: "string list" where
  "SignalTargets = [''process'', ''process_group'']"
definition ChildKinds :: "string list" where
  "ChildKinds = [''direct'', ''adopted'']"
definition self_Transports :: "string list" where
  "self_Transports = [''file'', ''unix'', ''http'', ''managed'']"
definition PublicationOutcomes :: "string list" where
  "PublicationOutcomes = [''accepted'', ''rejected'', ''busy'', ''timeout'', ''internal_error'']"
definition FileTriggers :: "string list" where
  "FileTriggers = [''startup'', ''event'', ''periodic'', ''overflow'', ''watch_reinstall'']"
definition FileOutcomes :: "string list" where
  "FileOutcomes = [''accepted'', ''unchanged'', ''absent'', ''invalid'', ''error'']"
definition FileWatchEvents :: "string list" where
  "FileWatchEvents = [''overflow'', ''invalidated'', ''reinstalled'']"
definition SocketFrameReasons :: "string list" where
  "SocketFrameReasons = [''malformed'', ''protocol_version'', ''frame_limit'', ''part_limit'', ''duplicate_part'', ''missing_part'', ''transaction_invalid'', ''transaction_expired'']"
definition FilterKinds :: "string list" where
  "FilterKinds = [''include'', ''exclude'']"
definition FilterOutcomes :: "string list" where
  "FilterOutcomes = [''included'', ''excluded'']"
definition ExpositionFormats :: "string list" where
  "ExpositionFormats = [''prometheus'', ''openmetrics'']"
definition ExpositionOutcomes :: "string list" where
  "ExpositionOutcomes = [''success'', ''write_error'', ''response_limit'', ''encoding_error'', ''timeout'']"
definition FinalScrapeOutcomes :: "string list" where
  "FinalScrapeOutcomes = [''completed'', ''ineligible'', ''write_error'', ''cancelled'']"
definition FinalWaitReasons :: "string list" where
  "FinalWaitReasons = [''immediate'', ''duration_elapsed'', ''required_scrapes'', ''timeout'', ''external_termination'', ''runtime_failure'']"
definition ShutdownPhases :: "string list" where
  "ShutdownPhases = [''workload_wait'', ''forced_termination'', ''finalization'', ''http_drain'', ''total'']"
definition ManagedOutcomes :: "string list" where
  "ManagedOutcomes = [''committed'', ''rejected'', ''overloaded'', ''cancelled'', ''closed'', ''unknown'']"
definition ManagedRejectClasses :: "string list" where
  "ManagedRejectClasses = [''semantic'', ''resource'', ''overload'', ''late'', ''protocol'']"
definition ManagedProtocolCodes :: "string list" where
  "ManagedProtocolCodes = [''empty_frame'', ''partial_frame'', ''frame_too_large'', ''multiple_frames'', ''malformed_json'', ''missing_version'', ''invalid_version'', ''unsupported_version'', ''invalid_request'']"
definition ManagedMaterializeOutcomes :: "string list" where
  "ManagedMaterializeOutcomes = [''built'', ''cache_hit'', ''error'']"
definition ManagedFreezeOutcomes :: "string list" where
  "ManagedFreezeOutcomes = [''winner'', ''duplicate'']"
definition ManagedInstallOutcomes :: "string list" where
  "ManagedInstallOutcomes = [''accepted'', ''rejected'', ''error'']"

definition definitions :: "definition_row list" where
  "definitions =
   [mk_definition BuildInfo ''MetricShell build identity.'' SelfGauge [''version'', ''revision''] [] [] True,
    mk_definition UptimeSeconds ''Seconds since the MetricShell process started.'' SelfGauge [] [] [] True,
    mk_definition RuntimeState ''Current MetricShell runtime state as a one-hot vector.'' SelfGauge [''state''] [(map state_string States)] [] True,
    mk_definition RuntimeFailuresTotal ''Unrecoverable MetricShell failures.'' SelfCounter [''reason''] [RuntimeFailureReasons] [] False,
    mk_definition WorkloadRunning ''Whether the primary workload is running.'' SelfGauge [] [] [] True,
    mk_definition WorkloadProcessID ''Primary workload process identifier, or zero.'' SelfGauge [] [] [] True,
    mk_definition WorkloadStartsTotal ''Primary workload start attempts.'' SelfCounter [''outcome''] [WorkloadStartOutcomes] [] False,
    mk_definition WorkloadExitCode ''Resolved process-compatible workload exit code, or minus one.'' SelfGauge [] [] [] True,
    mk_definition WorkloadSignalsTotal ''Signals forwarded to the workload.'' SelfCounter [''signal'', ''target''] [Signals, SignalTargets] [] False,
    mk_definition WorkloadForcedTotal ''Forced workload or process-group terminations.'' SelfCounter [] [] [] False,
    mk_definition ChildrenReapedTotal ''Child processes reaped by MetricShell.'' SelfCounter [''kind''] [ChildKinds] [] False,
    mk_definition SnapshotGeneration ''Accepted application snapshot generation.'' SelfGauge [] [] [] True,
    mk_definition SnapshotSeries ''Application series in the active complete snapshot.'' SelfGauge [] [] [] True,
    mk_definition self_SnapshotBytes ''Canonical bytes in the active application snapshot.'' SelfGauge [] [] [] True,
    mk_definition SnapshotPublicationsTotal ''Complete application snapshot publication outcomes.'' SelfCounter [''transport'', ''outcome''] [self_Transports, PublicationOutcomes] [] False,
    mk_definition SnapshotRejectionsTotal ''Atomic application candidate rejections.'' SelfCounter [''transport'', ''reason''] [self_Transports, (map reason_string RejectionReasons)] [] False,
    mk_definition IngestionInflight ''Currently executing ingestion operations.'' SelfGauge [''transport''] [self_Transports] [] False,
    mk_definition IngestionConnections ''Currently accepted ingestion connections.'' SelfGauge [''transport''] [self_Transports] [] False,
    mk_definition IngestionLastSuccess ''Timestamp of the last accepted application snapshot.'' SelfGauge [''transport''] [self_Transports] [] False,
    mk_definition FileReconciliationsTotal ''File snapshot reconciliation attempts.'' SelfCounter [''trigger'', ''outcome''] [FileTriggers, FileOutcomes] [] False,
    mk_definition FileWatchEventsTotal ''File watch lifecycle events.'' SelfCounter [''event''] [FileWatchEvents] [] False,
    mk_definition SocketTransactionsInflight ''Retained multipart socket transactions.'' SelfGauge [] [] [] False,
    mk_definition SocketFramesRejectedTotal ''Rejected socket protocol frames.'' SelfCounter [''reason''] [SocketFrameReasons] [] False,
    mk_definition FilterRules ''Effective normalized metric filter rules.'' SelfGauge [''kind''] [FilterKinds] [] False,
    mk_definition FilterFamilies ''Families in the current filtered exposition view.'' SelfGauge [''outcome''] [FilterOutcomes] [] False,
    mk_definition ExpositionRequestsTotal ''Metric exposition response outcomes.'' SelfCounter [''format'', ''outcome''] [ExpositionFormats, ExpositionOutcomes] [] False,
    mk_definition ExpositionInflight ''Active metric exposition handlers.'' SelfGauge [] [] [] False,
    mk_definition ExpositionResponseBytes ''Last complete uncompressed exposition response size.'' SelfGauge [''format''] [ExpositionFormats] [] False,
    mk_definition FinalWaitActive ''Whether natural-completion final wait is active.'' SelfGauge [] [] [] False,
    mk_definition FinalWaitModeInfo ''Effective final-wait mode as a one-hot vector.'' SelfGauge [''mode''] [FinalWaitModes] [] True,
    mk_definition FinalWaitRequiredScrapes ''Effective required final scrape count.'' SelfGauge [] [] [] False,
    mk_definition FinalWaitCompletedScrapes ''Completed eligible final scrape responses.'' SelfGauge [] [] [] False,
    mk_definition FinalScrapeAttemptsTotal ''Final-state scrape attempt outcomes.'' SelfCounter [''outcome''] [FinalScrapeOutcomes] [] False,
    mk_definition FinalWaitCompletionsTotal ''Final-wait terminal reasons.'' SelfCounter [''reason''] [FinalWaitReasons] [] False,
    mk_definition FinalWaitDeadline ''Absolute final-wait deadline timestamp.'' SelfGauge [] [] [] False,
    mk_definition ShutdownActive ''Whether external termination is active.'' SelfGauge [] [] [] False,
    mk_definition ShutdownDeadline ''Effective absolute external shutdown deadline.'' SelfGauge [] [] [] False,
    mk_definition ShutdownPhaseDuration ''Completed shutdown phase durations.'' SelfHistogram [''phase''] [ShutdownPhases] ShutdownBuckets False,
    mk_definition ManagedOperationsTotal ''Managed operation outcomes.'' SelfCounter [''outcome''] [ManagedOutcomes] [] False,
    mk_definition ManagedRejectionsTotal ''Managed operation rejection classes.'' SelfCounter [''class''] [ManagedRejectClasses] [] False,
    mk_definition ManagedProtocolTotal ''Managed protocol rejection codes.'' SelfCounter [''code''] [ManagedProtocolCodes] [] False,
    mk_definition ManagedQueueDepth ''Managed owner queue depth.'' SelfGauge [] [] [] False,
    mk_definition ManagedQueueCapacity ''Managed owner queue capacity.'' SelfGauge [] [] [] False,
    mk_definition ManagedFamilies ''Managed registry family count.'' SelfGauge [] [] [] False,
    mk_definition ManagedSeries ''Managed registry active series count.'' SelfGauge [] [] [] False,
    mk_definition ManagedGeneration ''Managed committed registry generation.'' SelfGauge [] [] [] False,
    mk_definition ManagedMaterializations ''Managed materialization outcomes.'' SelfCounter [''outcome''] [ManagedMaterializeOutcomes] [] False,
    mk_definition ManagedFreezes ''Managed registry freeze outcomes.'' SelfCounter [''outcome''] [ManagedFreezeOutcomes] [] False,
    mk_definition ManagedFinalInstalls ''Managed final Core install outcomes.'' SelfCounter [''outcome''] [ManagedInstallOutcomes] [] False]"

section \<open>Construction\<close>

fun check_domains :: "string list \<Rightarrow> string list \<Rightarrow> string list list \<Rightarrow> self_error option" where
  "check_domains seen [] allowed = None"
| "check_domains seen (name # names) [] = Some IndexPanic"
| "check_domains seen (name # names) (vs # doms) =
     (if name \<in> set seen \<or> name = [] \<or> vs = [] then Some ErrLabels
      else if [] \<in> set vs \<or> \<not> distinct vs then Some ErrLabels
      else check_domains (name # seen) names doms)"

fun check_buckets :: "float64 option \<Rightarrow> float64 list \<Rightarrow> bool" where
  "check_buckets prev [] = True"
| "check_buckets prev (b # bs) =
     (\<not> (f64_le b f64_zero \<or> is_nan b \<or> is_inf b \<or> (case prev of None \<Rightarrow> False | Some p \<Rightarrow> f64_le b p)) \<and>
      check_buckets (Some b) bs)"

definition validateDefinition :: "definition_row \<Rightarrow> self_error option" where
  "validateDefinition d =
     (if \<not> has_prefix (df_name d) ''metricshell_'' \<or> \<not> metricNamePattern (df_name d) \<or> df_help d = []
        then Some ErrUnknownMetric
      else if df_type d \<noteq> SelfGauge \<and> df_type d \<noteq> SelfCounter \<and> df_type d \<noteq> SelfHistogram then Some ErrMetricType
      else if df_type d = SelfCounter \<and> \<not> has_suffix (df_name d) ''_total'' then Some ErrMetricType
      else if df_type d \<noteq> SelfCounter \<and> has_suffix (df_name d) ''_total'' then Some ErrMetricType
      else if df_name d = BuildInfo then
        (if df_type d \<noteq> SelfGauge \<or> \<not> df_managed d \<or> df_label_names d \<noteq> [''version'', ''revision''] \<or>
            df_allowed d \<noteq> [] \<or> df_buckets d \<noteq> []
         then Some ErrLabels else None)
      else if length (df_label_names d) \<noteq> length (df_allowed d) then Some ErrLabels
      else case check_domains [] (df_label_names d) (df_allowed d) of
             Some e \<Rightarrow> Some e
           | None \<Rightarrow>
               if df_type d = SelfHistogram then
                 (if df_buckets d = [] \<or> \<not> check_buckets None (df_buckets d) then Some ErrValue else None)
               else if df_buckets d \<noteq> [] then Some ErrValue else None)"

text \<open>The label lists of a family, the last label running fastest.\<close>

fun combinations :: "string list \<Rightarrow> string list list \<Rightarrow> (string \<times> string) list list" where
  "combinations (name # names) (vs # doms) =
     concat (map (\<lambda>v. map (\<lambda>ls. (name, v) # ls) (combinations names doms)) vs)"
| "combinations names allowed = [[]]"

definition labelCombinations :: "definition_row \<Rightarrow> (string \<times> string) list list" where
  "labelCombinations d = combinations (df_label_names d) (df_allowed d)"

definition labelsKey :: "(string \<times> string) list \<Rightarrow> string" where
  "labelsKey labels =
     concat (map (\<lambda>(n, v). itoa (length n) @ '':'' @ n @ itoa (length v) @ '':'' @ v) labels)"

definition new_series :: "definition_row \<Rightarrow> (string \<times> string) list \<Rightarrow> series_value" where
  "new_series d labels =
     \<lparr>sv_labels = labels, sv_gauge = f64_zero, sv_counter = 0,
      sv_histogram = \<lparr>sh_count = 0, sh_sum = f64_zero,
        sh_buckets = (if df_type d = SelfHistogram then map (\<lambda>b. (b, 0)) (df_buckets d) else [])\<rparr>\<rparr>"

definition new_family :: "definition_row \<Rightarrow> family_value" where
  "new_family d =
     (let combos = (if df_name d \<noteq> BuildInfo then labelCombinations d else [])
      in \<lparr>fv_definition = d,
          fv_series = fold (\<lambda>labels m. AList.update (labelsKey labels) (new_series d labels) m) combos [],
          fv_order = map labelsKey combos\<rparr>)"

fun add_families :: "definition_row list \<Rightarrow> self_registry \<Rightarrow> self_error + self_registry" where
  "add_families [] r = Inr r"
| "add_families (d # ds) r =
     (case validateDefinition d of
        Some e \<Rightarrow> Inl e
      | None \<Rightarrow>
          if map_of (sr_families r) (df_name d) \<noteq> None then Inl ErrUnknownMetric
          else add_families ds (r\<lparr>sr_families := AList.update (df_name d) (new_family d) (sr_families r),
                                  sr_order := sr_order r @ [df_name d]\<rparr>))"

definition newRegistry :: "definition_row list \<Rightarrow> self_error + self_registry" where
  "newRegistry ds = add_families ds \<lparr>sr_started = 0, sr_families = [], sr_order = []\<rparr>"

section \<open>Updates\<close>

text \<open>The labels in the order of the definition, each in its domain.\<close>

fun order_labels :: "string list \<Rightarrow> string list list \<Rightarrow> (string \<times> string) list \<Rightarrow> self_error + (string \<times> string) list" where
  "order_labels [] allowed labels = Inr []"
| "order_labels (name # names) allowed labels =
     (case map_of labels name of
        None \<Rightarrow> Inl ErrLabels
      | Some v \<Rightarrow>
          (case allowed of
             [] \<Rightarrow> Inl IndexPanic
           | vs # doms \<Rightarrow>
               if v \<notin> set vs then Inl ErrLabels
               else and_then (order_labels names doms labels) (\<lambda>rest. Inr ((name, v) # rest))))"

definition resolve ::
  "string \<Rightarrow> (string \<times> string) list \<Rightarrow> self_type \<Rightarrow> self_registry \<Rightarrow> self_error + family_value \<times> string \<times> series_value" where
  "resolve name labels t r =
     (case map_of (sr_families r) name of
        None \<Rightarrow> Inl ErrUnknownMetric
      | Some family \<Rightarrow>
          if df_type (fv_definition family) \<noteq> t then Inl ErrMetricType
          else if length labels \<noteq> length (df_label_names (fv_definition family)) then Inl ErrLabels
          else and_then (order_labels (df_label_names (fv_definition family)) (df_allowed (fv_definition family)) labels)
                 (\<lambda>ordered. case map_of (fv_series family) (labelsKey ordered) of
                    None \<Rightarrow> Inl ErrLabels
                  | Some series \<Rightarrow> Inr (family, labelsKey ordered, series)))"

definition put_value :: "string \<Rightarrow> family_value \<Rightarrow> string \<Rightarrow> series_value \<Rightarrow> self_registry \<Rightarrow> self_registry" where
  "put_value name family key series r =
     r\<lparr>sr_families := AList.update name (family\<lparr>fv_series := AList.update key series (fv_series family)\<rparr>) (sr_families r)\<rparr>"

definition is_zero_or_one :: "float64 \<Rightarrow> bool" where
  "is_zero_or_one v \<longleftrightarrow> f64_eq v f64_zero \<or> f64_eq v f64_one"

text \<open>\<^verbatim>\<open>math.Trunc(value) == value\<close> for a finite value.\<close>

definition is_integral :: "float64 \<Rightarrow> bool" where
  "is_integral v =
     (case v of Fin _ m e \<Rightarrow> 0 \<le> e \<or> m mod 2 ^ nat (- e) = 0 | _ \<Rightarrow> is_inf v)"

definition isBinaryGauge :: "string \<Rightarrow> bool" where
  "isBinaryGauge name \<longleftrightarrow> name = FinalWaitActive \<or> name = ShutdownActive"

definition isIntegralGauge :: "string \<Rightarrow> bool" where
  "isIntegralGauge name \<longleftrightarrow>
     name \<in> set [IngestionInflight, IngestionConnections, SocketTransactionsInflight, FilterRules, FilterFamilies,
       ExpositionInflight, ExpositionResponseBytes, FinalWaitRequiredScrapes, FinalWaitCompletedScrapes] \<or> isBinaryGauge name"

definition bad_value :: "float64 \<Rightarrow> bool" where
  "bad_value v \<longleftrightarrow> f64_less v f64_zero \<or> is_nan v \<or> is_inf v"

definition SetGauge :: "string \<Rightarrow> (string \<times> string) list \<Rightarrow> float64 \<Rightarrow> self_registry \<Rightarrow> self_error + self_registry" where
  "SetGauge name labels v r =
     (if bad_value v then Inl ErrValue
      else and_then (resolve name labels SelfGauge r) (\<lambda>(family, key, series).
        if df_managed (fv_definition family) then Inl ErrManaged
        else if isBinaryGauge name \<and> \<not> is_zero_or_one v then Inl ErrValue
        else if isIntegralGauge name \<and> \<not> is_integral v then Inl ErrValue
        else Inr (put_value name family key (series\<lparr>sv_gauge := v\<rparr>) r)))"

definition AddCounter :: "string \<Rightarrow> (string \<times> string) list \<Rightarrow> uint64 \<Rightarrow> self_registry \<Rightarrow> self_error + self_registry" where
  "AddCounter name labels delta r =
     and_then (resolve name labels SelfCounter r) (\<lambda>(family, key, series).
       if max_uint64 - sv_counter series < delta then Inl ErrValue
       else Inr (put_value name family key (series\<lparr>sv_counter := sv_counter series + delta\<rparr>) r))"

definition Observe :: "string \<Rightarrow> (string \<times> string) list \<Rightarrow> float64 \<Rightarrow> self_registry \<Rightarrow> self_error + self_registry" where
  "Observe name labels v r =
     (if bad_value v then Inl ErrValue
      else and_then (resolve name labels SelfHistogram r) (\<lambda>(family, key, series).
        let h = sv_histogram series; next_sum = f64_add (sh_sum h) v in
        if sh_count h = max_uint64 then Inl ErrValue
        else if is_inf next_sum then Inl ErrValue
        else Inr (put_value name family key (series\<lparr>sv_histogram :=
               \<lparr>sh_count = sh_count h + 1, sh_sum = next_sum,
                sh_buckets = map (\<lambda>(b, c). (b, if f64_le v b then c + 1 else c)) (sh_buckets h)\<rparr>\<rparr>) r)))"

definition one_hot_value :: "string \<Rightarrow> string \<Rightarrow> series_value \<Rightarrow> series_value" where
  "one_hot_value label_name selected s =
     s\<lparr>sv_gauge := (if sv_labels s \<noteq> [] \<and> hd (sv_labels s) = (label_name, selected) then f64_one else f64_zero)\<rparr>"

definition setOneHot :: "string \<Rightarrow> string \<Rightarrow> string \<Rightarrow> self_registry \<Rightarrow> self_registry" where
  "setOneHot name label_name selected r =
     (case map_of (sr_families r) name of
        None \<Rightarrow> r
      | Some family \<Rightarrow>
          r\<lparr>sr_families := AList.update name
             (family\<lparr>fv_series := map (\<lambda>(k, s). (k, if k \<in> set (fv_order family) then one_hot_value label_name selected s else s))
                (fv_series family)\<rparr>) (sr_families r)\<rparr>)"

definition mustSetManagedGauge :: "string \<Rightarrow> (string \<times> string) list \<Rightarrow> float64 \<Rightarrow> self_registry \<Rightarrow> self_error + self_registry" where
  "mustSetManagedGauge name labels v r =
     and_then (resolve name labels SelfGauge r) (\<lambda>(family, key, series).
       Inr (put_value name family key (series\<lparr>sv_gauge := v\<rparr>) r))"

definition SetRuntimeState :: "string \<Rightarrow> self_registry \<Rightarrow> self_error + self_registry" where
  "SetRuntimeState state r =
     (if state \<notin> set (map state_string States) then Inl ErrValue else Inr (setOneHot RuntimeState ''state'' state r))"

definition SetFinalWaitMode :: "string \<Rightarrow> self_registry \<Rightarrow> self_error + self_registry" where
  "SetFinalWaitMode mode r =
     (if mode \<notin> set FinalWaitModes then Inl ErrValue else Inr (setOneHot FinalWaitModeInfo ''mode'' mode r))"

definition f64_of_nat :: "nat \<Rightarrow> float64" where
  "f64_of_nat n = f64_round False n 1"

definition SetWorkload :: "int \<Rightarrow> bool \<Rightarrow> self_registry \<Rightarrow> self_error + self_registry" where
  "SetWorkload pid running r =
     (if pid < 0 \<or> (running \<and> pid = 0) \<or> (\<not> running \<and> pid \<noteq> 0) then Inl ErrValue
      else and_then (mustSetManagedGauge WorkloadRunning [] (if running then f64_one else f64_zero) r)
             (mustSetManagedGauge WorkloadProcessID [] (f64_of_nat (nat pid))))"

definition SetWorkloadExitCode :: "int \<Rightarrow> self_registry \<Rightarrow> self_error + self_registry" where
  "SetWorkloadExitCode code r =
     (if code < 0 \<or> code > 255 then Inl ErrValue
      else mustSetManagedGauge WorkloadExitCode [] (f64_of_nat (nat code)) r)"

definition SetActiveSnapshot :: "ActiveSnapshot \<Rightarrow> self_registry \<Rightarrow> self_error + self_registry" where
  "SetActiveSnapshot active r =
     and_then (mustSetManagedGauge SnapshotGeneration [] (f64_of_nat (unat (a_generation active))) r) (\<lambda>r.
     and_then (mustSetManagedGauge SnapshotSeries [] (f64_of_nat (nat (v_series (a_validated active)))) r)
       (mustSetManagedGauge self_SnapshotBytes [] (f64_of_nat (length (v_canonical (a_validated active))))))"

definition addSpecialSeries :: "string \<Rightarrow> (string \<times> string) list \<Rightarrow> float64 \<Rightarrow> self_registry \<Rightarrow> self_registry" where
  "addSpecialSeries name labels v r =
     (case map_of (sr_families r) name of
        None \<Rightarrow> r
      | Some family \<Rightarrow>
          let series = (new_series (fv_definition family) labels)\<lparr>sv_gauge := v\<rparr>
          in r\<lparr>sr_families := AList.update name
                (family\<lparr>fv_series := AList.update (labelsKey labels) series (fv_series family),
                        fv_order := fv_order family @ [labelsKey labels]\<rparr>) (sr_families r)\<rparr>)"

definition NewSelfRegistry :: "string \<Rightarrow> string \<Rightarrow> string \<Rightarrow> int \<Rightarrow> self_error + self_registry" where
  "NewSelfRegistry version revision mode now =
     (if mode \<notin> set FinalWaitModes then Inl ErrValue
      else and_then (newRegistry definitions) (\<lambda>r.
        let r = addSpecialSeries BuildInfo [(''version'', version), (''revision'', revision)] f64_one (r\<lparr>sr_started := now\<rparr>)
        in and_then (mustSetManagedGauge WorkloadExitCode [] (Fin True (2 ^ 52) (- 52)) r) (\<lambda>r.
           SetActiveSnapshot (NewActive Zero 0)
             (setOneHot FinalWaitModeInfo ''mode'' mode (setOneHot RuntimeState ''state'' (state_string Initializing) r)))))"

section \<open>Views\<close>

record self_sample =
  sp_labels :: "(string \<times> string) list"
  sp_gauge :: float64
  sp_counter :: uint64
  sp_histogram :: "self_histogram option"

record self_family =
  sf_name :: string
  sf_help :: string
  sf_type :: self_type
  sf_samples :: "self_sample list"

definition seconds :: "int \<Rightarrow> float64" where
  "seconds d = (if d \<le> 0 then f64_zero
     else f64_add (f64_of_nat (nat (d div 1000000000))) (f64_round False (nat (d mod 1000000000)) 1000000000))"

definition view_sample :: "string \<Rightarrow> int \<Rightarrow> definition_row \<Rightarrow> series_value \<Rightarrow> self_sample" where
  "view_sample name elapsed d s =
     \<lparr>sp_labels = sv_labels s, sp_gauge = (if name = UptimeSeconds then seconds elapsed else sv_gauge s),
      sp_counter = sv_counter s, sp_histogram = (if df_type d = SelfHistogram then Some (sv_histogram s) else None)\<rparr>"

definition View :: "int \<Rightarrow> self_registry \<Rightarrow> self_family list" where
  "View now r =
     map (\<lambda>name. case map_of (sr_families r) name of
            None \<Rightarrow> \<lparr>sf_name = [], sf_help = [], sf_type = [], sf_samples = []\<rparr>
          | Some f \<Rightarrow>
              \<lparr>sf_name = df_name (fv_definition f), sf_help = df_help (fv_definition f), sf_type = df_type (fv_definition f),
               sf_samples = List.map_filter (\<lambda>k. map_option (view_sample name (now - sr_started r) (fv_definition f))
                 (map_of (fv_series f) k)) (fv_order f)\<rparr>)
       (sr_order r)"

end
