(* ===== verification/Self_Metrics_Facts.thy ===== *)
theory Self_Metrics_Facts
  imports Self_Metrics
begin

text \<open>
  What the runtime's own metrics guarantee: the table is valid, no update adds, removes or relabels a
  series, counters never decrease, and the one-hot vectors stay one-hot.
\<close>

section \<open>The table is valid\<close>

lemmas self_names =
  BuildInfo_def UptimeSeconds_def RuntimeState_def RuntimeFailuresTotal_def WorkloadRunning_def
    WorkloadProcessID_def WorkloadStartsTotal_def WorkloadExitCode_def WorkloadSignalsTotal_def
    WorkloadForcedTotal_def ChildrenReapedTotal_def SnapshotGeneration_def SnapshotSeries_def self_SnapshotBytes_def
    SnapshotPublicationsTotal_def SnapshotRejectionsTotal_def IngestionInflight_def IngestionConnections_def
    IngestionLastSuccess_def FileReconciliationsTotal_def FileWatchEventsTotal_def SocketTransactionsInflight_def
    SocketFramesRejectedTotal_def FilterRules_def FilterFamilies_def ExpositionRequestsTotal_def
    ExpositionInflight_def ExpositionResponseBytes_def FinalWaitActive_def FinalWaitModeInfo_def
    FinalWaitRequiredScrapes_def FinalWaitCompletedScrapes_def FinalScrapeAttemptsTotal_def
    FinalWaitCompletionsTotal_def FinalWaitDeadline_def ShutdownActive_def ShutdownDeadline_def
    ShutdownPhaseDuration_def ManagedOperationsTotal_def ManagedRejectionsTotal_def ManagedProtocolTotal_def
    ManagedQueueDepth_def ManagedQueueCapacity_def ManagedFamilies_def ManagedSeries_def ManagedGeneration_def
    ManagedMaterializations_def ManagedFreezes_def ManagedFinalInstalls_def

lemmas self_domains =
  FinalWaitModes_def RuntimeFailureReasons_def WorkloadStartOutcomes_def Signals_def SignalTargets_def
    ChildKinds_def self_Transports_def PublicationOutcomes_def FileTriggers_def FileOutcomes_def FileWatchEvents_def
    SocketFrameReasons_def FilterKinds_def FilterOutcomes_def ExpositionFormats_def ExpositionOutcomes_def
    FinalScrapeOutcomes_def FinalWaitReasons_def ShutdownPhases_def ManagedOutcomes_def ManagedRejectClasses_def
    ManagedProtocolCodes_def ManagedMaterializeOutcomes_def ManagedFreezeOutcomes_def ManagedInstallOutcomes_def

lemmas self_types = SelfGauge_def SelfCounter_def SelfHistogram_def

lemma buckets_valid: "check_buckets None ShutdownBuckets"
  by (simp add: ShutdownBuckets_def f64_zero_def is_nan_def is_inf_def is_inf_pos_def is_inf_neg_def fin_int_def)

lemma definitions_valid: "list_all (\<lambda>d. validateDefinition d = None) definitions"
  by (simp add: definitions_def mk_definition_def validateDefinition_def buckets_valid self_names self_domains self_types
      has_prefix_def has_suffix_def is_alpha_def is_digit_def byte_in_def States_def RejectionReasons_def)
     (simp add: ShutdownBuckets_def)

lemma definitions_distinct: "distinct (map df_name definitions)"
  by (simp add: definitions_def mk_definition_def self_names)


section \<open>Construction\<close>

lemma alist_update_new: "map_of xs k = None \<Longrightarrow> AList.update k v xs = xs @ [(k, v)]"
  by (induction xs) (auto split: if_splits)

lemma add_families_Inr:
  "add_families ds r = Inr r' \<Longrightarrow>
     sr_families r' = sr_families r @ map (\<lambda>d. (df_name d, new_family d)) ds \<and>
     sr_order r' = sr_order r @ map df_name ds \<and> sr_started r' = sr_started r"
proof (induction ds arbitrary: r)
  case (Cons d ds)
  then have n: "map_of (sr_families r) (df_name d) = None" by (auto split: option.splits if_splits)
  let ?r = "r\<lparr>sr_families := AList.update (df_name d) (new_family d) (sr_families r), sr_order := sr_order r @ [df_name d]\<rparr>"
  from Cons.prems have "add_families ds ?r = Inr r'" by (auto split: option.splits if_splits)
  from Cons.IH [OF this] alist_update_new [OF n, of "new_family d"] show ?case by simp
qed simp

lemma add_families_total:
  "list_all (\<lambda>d. validateDefinition d = None) ds \<Longrightarrow> distinct (map df_name ds) \<Longrightarrow>
     set (map df_name ds) \<inter> fst ` set (sr_families r) = {} \<Longrightarrow> \<exists>r'. add_families ds r = Inr r'"
proof (induction ds arbitrary: r)
  case (Cons d ds)
  have n: "map_of (sr_families r) (df_name d) = None" using Cons.prems(3) by (auto simp: map_of_eq_None_iff)
  let ?r = "r\<lparr>sr_families := AList.update (df_name d) (new_family d) (sr_families r), sr_order := sr_order r @ [df_name d]\<rparr>"
  have "\<exists>r'. add_families ds ?r = Inr r'"
    by (rule Cons.IH) (use Cons.prems alist_update_new [OF n, of "new_family d"] in auto)
  with Cons.prems(1) n show ?case by simp
qed simp

definition table_families :: "(string \<times> family_value) list" where
  "table_families = map (\<lambda>d. (df_name d, new_family d)) definitions"

lemma newRegistry_table:
  "newRegistry definitions = Inr \<lparr>sr_started = 0, sr_families = table_families, sr_order = map df_name definitions\<rparr>"
proof -
  obtain r where r: "newRegistry definitions = Inr r"
    using add_families_total [OF definitions_valid definitions_distinct] unfolding newRegistry_def by fastforce
  with add_families_Inr [of definitions "\<lparr>sr_started = 0, sr_families = [], sr_order = []\<rparr>" r] show ?thesis
    by (simp add: newRegistry_def table_families_def)
qed

text \<open>The row of a name.\<close>

lemma table_lookup: "d \<in> set definitions \<Longrightarrow> map_of table_families (df_name d) = Some (new_family d)"
  unfolding table_families_def
  by (rule map_of_is_SomeI) (use definitions_distinct in \<open>auto simp: comp_def\<close>)

lemma labelsKey_netstr: "labelsKey ls = concat (map (\<lambda>(n, v). netstr n @ netstr v) ls)"
  by (simp add: labelsKey_def netstr_def)

lemma labelsKey_inject: "labelsKey ls = labelsKey ms \<longleftrightarrow> ls = ms"
proof
  assume "labelsKey ls = labelsKey ms"
  then show "ls = ms"
  proof (induction ls arbitrary: ms)
    case Nil
    then show ?case by (cases ms) (auto simp: labelsKey_netstr)
  next
    case (Cons l ls)
    obtain n v where l: "l = (n, v)" by fastforce
    from Cons.prems obtain m ms' where ms: "ms = m # ms'" by (cases ms) (auto simp: labelsKey_netstr l)
    obtain n' v' where m: "m = (n', v')" by fastforce
    have "netstr n @ (netstr v @ labelsKey ls) = netstr n' @ (netstr v' @ labelsKey ms')"
      using Cons.prems by (simp add: labelsKey_netstr l m ms)
    from netstr_append_eq [OF this] have "n = n'" and "netstr v @ labelsKey ls = netstr v' @ labelsKey ms'" by simp_all
    with netstr_append_eq [of v "labelsKey ls" v' "labelsKey ms'"] Cons.IH [of ms'] l m ms show ?case by simp
  qed
qed simp

lemma combinations_distinct:
  "list_all distinct doms \<Longrightarrow> distinct (combinations names doms)"
proof (induction names doms rule: combinations.induct)
  case (1 name names vs doms)
  show ?case
  proof (cases "vs = []")
    case False
    with 1 have ih: "distinct (combinations names doms)" by (cases vs) auto
    have "distinct (concat (map (\<lambda>v. map (\<lambda>ls. (name, v) # ls) (combinations names doms)) ws))" if "distinct ws" for ws
      using that ih by (induction ws) (auto simp: distinct_map inj_on_def)
    with 1(2) show ?thesis by simp
  qed simp
qed auto

lemma fold_update_new:
  "distinct (map f xs) \<Longrightarrow> fst ` set m \<inter> f ` set xs = {} \<Longrightarrow>
     fold (\<lambda>x m. AList.update (f x) (g x) m) xs m = m @ map (\<lambda>x. (f x, g x)) xs"
proof (induction xs arbitrary: m)
  case (Cons x xs)
  then have "map_of m (f x) = None" by (auto simp: map_of_eq_None_iff)
  with Cons show ?case by (auto simp: alist_update_new)
qed simp

lemma check_domains_distinct: "check_domains seen names doms = None \<Longrightarrow> length names = length doms \<Longrightarrow> list_all distinct doms"
  by (induction seen names doms rule: check_domains.induct) (auto split: if_splits)

lemma new_family_series:
  assumes "validateDefinition d = None"
  shows "fv_series (new_family d) = (if df_name d = BuildInfo then []
      else map (\<lambda>ls. (labelsKey ls, new_series d ls)) (labelCombinations d))"
proof (cases "df_name d = BuildInfo")
  case False
  with assms have "check_domains [] (df_label_names d) (df_allowed d) = None" "length (df_label_names d) = length (df_allowed d)"
    by (auto simp: validateDefinition_def split: if_splits option.splits)
  from combinations_distinct [OF check_domains_distinct [OF this]]
  have "distinct (map labelsKey (labelCombinations d))"
    by (simp add: labelCombinations_def distinct_map inj_on_def labelsKey_inject)
  with False show ?thesis by (simp add: new_family_def fold_update_new Let_def)
qed (simp add: new_family_def)

section \<open>Shape\<close>

text \<open>Everything but the values.\<close>

definition family_shape :: "family_value \<Rightarrow> definition_row \<times> string list \<times> (string \<times> (string \<times> string) list) list" where
  "family_shape f = (fv_definition f, fv_order f, map (\<lambda>(k, s). (k, sv_labels s)) (fv_series f))"

definition shape :: "self_registry \<Rightarrow> int \<times> string list \<times> (string \<times> definition_row \<times> string list \<times> (string \<times> (string \<times> string) list) list) list" where
  "shape r = (sr_started r, sr_order r, map (\<lambda>(n, f). (n, family_shape f)) (sr_families r))"

lemma alist_update_same_image:
  "map_of xs k = Some old \<Longrightarrow> g new = g old \<Longrightarrow> map (\<lambda>(k, v). (k, g v)) (AList.update k new xs) = map (\<lambda>(k, v). (k, g v)) xs"
  by (induction xs) (auto split: if_splits)

lemma resolve_Inr:
  "resolve name labels t r = Inr (f, key, s) \<Longrightarrow>
     map_of (sr_families r) name = Some f \<and> df_type (fv_definition f) = t \<and> map_of (fv_series f) key = Some s"
  by (auto simp: resolve_def and_then_Inr_iff split: option.splits if_splits)

lemma put_value_shape:
  assumes "resolve name labels t r = Inr (f, key, s)" "sv_labels s' = sv_labels s"
  shows "shape (put_value name f key s' r) = shape r"
proof -
  note a = resolve_Inr [OF assms(1)]
  have "family_shape (f\<lparr>fv_series := AList.update key s' (fv_series f)\<rparr>) = family_shape f"
    using alist_update_same_image [of "fv_series f" key s sv_labels s'] a assms(2) by (simp add: family_shape_def)
  with a alist_update_same_image [of "sr_families r" name f family_shape] show ?thesis
    by (simp add: shape_def put_value_def)
qed

lemma one_hot_family_shape:
  "family_shape (f\<lparr>fv_series := map (\<lambda>(k, s). (k, if k \<in> set ks then one_hot_value l selected s else s)) (fv_series f)\<rparr>) =
     family_shape f"
  by (auto simp: family_shape_def one_hot_value_def)

lemma setOneHot_shape: "shape (setOneHot name l selected r) = shape r"
proof (cases "map_of (sr_families r) name")
  case (Some f)
  let ?f = "f\<lparr>fv_series := map (\<lambda>(k, s). (k, if k \<in> set (fv_order f) then one_hot_value l selected s else s)) (fv_series f)\<rparr>"
  have "family_shape ?f = family_shape f" by (rule one_hot_family_shape)
  with Some alist_update_same_image [OF Some, of family_shape ?f] show ?thesis
    by (simp add: setOneHot_def shape_def)
qed (simp add: setOneHot_def)

lemma shape_lookup: "map_option family_shape (map_of (sr_families r) n) = map_of (snd (snd (shape r))) n"
  by (simp add: shape_def map_of_map)

section \<open>Values\<close>

definition value_at :: "self_registry \<Rightarrow> string \<Rightarrow> string \<Rightarrow> series_value option" where
  "value_at r n k = (case map_of (sr_families r) n of None \<Rightarrow> None | Some f \<Rightarrow> map_of (fv_series f) k)"

lemma put_value_at:
  "map_of (sr_families r) name = Some f \<Longrightarrow>
     value_at (put_value name f key s r) n k = (if n = name \<and> k = key then Some s else value_at r n k)"
  by (auto simp: value_at_def put_value_def update_conv')

definition grows :: "series_value \<Rightarrow> series_value \<Rightarrow> bool" where
  "grows s s' \<longleftrightarrow> sv_labels s' = sv_labels s \<and> sv_counter s \<le> sv_counter s' \<and>
     sh_count (sv_histogram s) \<le> sh_count (sv_histogram s')"

definition registry_grows :: "self_registry \<Rightarrow> self_registry \<Rightarrow> bool" where
  "registry_grows r r' \<longleftrightarrow> (\<forall>n k s. value_at r n k = Some s \<longrightarrow> (\<exists>s'. value_at r' n k = Some s' \<and> grows s s'))"

lemma grows_refl: "grows s s" by (simp add: grows_def)
lemma grows_trans: "grows a b \<Longrightarrow> grows b c \<Longrightarrow> grows a c" by (auto simp: grows_def)

lemma registry_grows_refl: "registry_grows r r"
  using grows_refl by (auto simp: registry_grows_def)

lemma registry_grows_trans: "registry_grows a b \<Longrightarrow> registry_grows b c \<Longrightarrow> registry_grows a c"
  unfolding registry_grows_def by (meson grows_trans)

lemma put_value_grows:
  assumes "resolve name labels t r = Inr (f, key, s)" "grows s s'"
  shows "registry_grows r (put_value name f key s' r)"
proof -
  note a = resolve_Inr [OF assms(1)]
  then have "value_at r name key = Some s" by (simp add: value_at_def)
  with a assms(2) grows_refl put_value_at [of r name f key s'] show ?thesis by (auto simp: registry_grows_def)
qed

lemma map_of_keyed: "map_of (map (\<lambda>(k, v). (k, h k v)) xs) k = map_option (h k) (map_of xs k)"
  by (induction xs) auto

lemma setOneHot_grows: "registry_grows r (setOneHot name l selected r)"
proof (cases "map_of (sr_families r) name")
  case (Some f)
  then show ?thesis
    by (auto simp: registry_grows_def setOneHot_def value_at_def update_conv' map_of_keyed grows_def one_hot_value_def)
qed (simp add: setOneHot_def registry_grows_refl)

section \<open>Steps\<close>

inductive self_step :: "self_registry \<Rightarrow> self_registry \<Rightarrow> bool" where
  set_gauge: "SetGauge name labels v r = Inr r' \<Longrightarrow> self_step r r'"
| add_counter: "AddCounter name labels delta r = Inr r' \<Longrightarrow> self_step r r'"
| observe_value: "Observe name labels v r = Inr r' \<Longrightarrow> self_step r r'"
| runtime_state: "SetRuntimeState state r = Inr r' \<Longrightarrow> self_step r r'"
| final_wait_mode: "SetFinalWaitMode mode r = Inr r' \<Longrightarrow> self_step r r'"
| workload: "SetWorkload pid running r = Inr r' \<Longrightarrow> self_step r r'"
| exit_code: "SetWorkloadExitCode code r = Inr r' \<Longrightarrow> self_step r r'"
| active_snapshot: "SetActiveSnapshot active r = Inr r' \<Longrightarrow> self_step r r'"

text \<open>Every update is a sequence of these writes.\<close>

datatype self_write = Write_Value string "(string \<times> string) list" self_type | Write_OneHot string string string

inductive writes :: "self_write \<Rightarrow> self_registry \<Rightarrow> self_registry \<Rightarrow> bool" where
  set_value: "resolve name labels t r = Inr (f, key, s) \<Longrightarrow> grows s s' \<Longrightarrow>
    (name = RuntimeState \<longrightarrow> \<not> df_managed (fv_definition f) \<or> t \<noteq> SelfGauge) \<Longrightarrow>
    writes (Write_Value name labels t) r (put_value name f key s' r)"
| one_hot: "name = RuntimeState \<longrightarrow> l = ''state'' \<and> selected \<in> set (map state_string States) \<Longrightarrow>
    writes (Write_OneHot name l selected) r (setOneHot name l selected r)"

lemma mustSet_writes:
  assumes "mustSetManagedGauge name labels v r = Inr r'" "name \<noteq> RuntimeState"
  shows "writes (Write_Value name labels SelfGauge) r r'"
proof -
  from assms(1) obtain f key s where "resolve name labels SelfGauge r = Inr (f, key, s)"
    "r' = put_value name f key (s\<lparr>sv_gauge := v\<rparr>) r"
    by (auto simp: mustSetManagedGauge_def and_then_Inr_iff)
  with assms(2) show ?thesis by (auto intro!: writes.set_value simp: grows_def)
qed

definition some_write :: "self_registry \<Rightarrow> self_registry \<Rightarrow> bool" where
  "some_write r r' \<longleftrightarrow> (\<exists>w. writes w r r')"

lemma mustSet_some: "mustSetManagedGauge name labels v r = Inr r' \<Longrightarrow> name \<noteq> RuntimeState \<Longrightarrow> some_write r r'"
  unfolding some_write_def using mustSet_writes by blast

lemma not_RuntimeState:
  "WorkloadRunning \<noteq> RuntimeState" "WorkloadProcessID \<noteq> RuntimeState" "WorkloadExitCode \<noteq> RuntimeState"
  "SnapshotGeneration \<noteq> RuntimeState" "SnapshotSeries \<noteq> RuntimeState" "self_SnapshotBytes \<noteq> RuntimeState"
  "FinalWaitModeInfo \<noteq> RuntimeState" "BuildInfo \<noteq> RuntimeState"
  by (simp_all add: self_names)

lemma self_step_writes: "self_step r r' \<Longrightarrow> some_write\<^sup>*\<^sup>* r r'"
proof (induction rule: self_step.induct)
  case (set_gauge name labels v r r')
  then obtain f key s where "resolve name labels SelfGauge r = Inr (f, key, s)" "\<not> df_managed (fv_definition f)"
    "r' = put_value name f key (s\<lparr>sv_gauge := v\<rparr>) r"
    by (auto simp: SetGauge_def and_then_Inr_iff split: if_splits)
  then have "writes (Write_Value name labels SelfGauge) r r'" by (auto intro!: writes.set_value simp: grows_def)
  then show ?case by (auto simp: some_write_def)
next
  case (add_counter name labels delta r r')
  then obtain f key s where a: "resolve name labels SelfCounter r = Inr (f, key, s)" "\<not> max_uint64 - sv_counter s < delta"
    "r' = put_value name f key (s\<lparr>sv_counter := sv_counter s + delta\<rparr>) r"
    by (auto simp: AddCounter_def and_then_Inr_iff split: if_splits)
  then have "writes (Write_Value name labels SelfCounter) r r'"
    using word_add_no_wrap [OF a(2)] by (auto intro!: writes.set_value simp: grows_def self_types)
  then show ?case by (auto simp: some_write_def)
next
  case (observe_value name labels v r r')
  then obtain f key s bs sm where a: "resolve name labels SelfHistogram r = Inr (f, key, s)"
    "sh_count (sv_histogram s) \<noteq> max_uint64"
    "r' = put_value name f key (s\<lparr>sv_histogram := \<lparr>sh_count = sh_count (sv_histogram s) + 1, sh_sum = sm, sh_buckets = bs\<rparr>\<rparr>) r"
    by (auto simp: Observe_def and_then_Inr_iff Let_def split: if_splits)
  then have "writes (Write_Value name labels SelfHistogram) r r'"
    using word_inc_ge [OF a(2)] by (auto intro!: writes.set_value simp: grows_def self_types)
  then show ?case by (auto simp: some_write_def)
next
  case (runtime_state state r r')
  then have "writes (Write_OneHot RuntimeState ''state'' state) r r'"
    by (auto simp: SetRuntimeState_def intro!: writes.one_hot split: if_splits)
  then show ?case by (auto simp: some_write_def)
next
  case (final_wait_mode mode r r')
  then have "writes (Write_OneHot FinalWaitModeInfo ''mode'' mode) r r'"
    by (auto simp: SetFinalWaitMode_def FinalWaitModeInfo_def RuntimeState_def intro!: writes.one_hot split: if_splits)
  then show ?case by (auto simp: some_write_def)
next
  case (workload pid running r r')
  then obtain q v v' where "mustSetManagedGauge WorkloadRunning [] v r = Inr q" "mustSetManagedGauge WorkloadProcessID [] v' q = Inr r'"
    by (auto simp: SetWorkload_def and_then_Inr_iff split: if_splits)
  then have "some_write r q" "some_write q r'"
    using mustSet_some not_RuntimeState by blast+
  then show ?case by (meson rtranclp.rtrancl_into_rtrancl r_into_rtranclp)
next
  case (exit_code code r r')
  then show ?case
    using mustSet_some not_RuntimeState by (auto simp: SetWorkloadExitCode_def split: if_splits)
next
  case (active_snapshot active r r')
  then obtain q1 q2 v1 v2 v3 where "mustSetManagedGauge SnapshotGeneration [] v1 r = Inr q1"
    "mustSetManagedGauge SnapshotSeries [] v2 q1 = Inr q2" "mustSetManagedGauge self_SnapshotBytes [] v3 q2 = Inr r'"
    by (auto simp: SetActiveSnapshot_def and_then_Inr_iff)
  then have "some_write r q1" "some_write q1 q2" "some_write q2 r'"
    using mustSet_some not_RuntimeState by blast+
  then show ?case by (meson rtranclp.rtrancl_into_rtrancl r_into_rtranclp)
qed

lemma writes_keep: "writes w r r' \<Longrightarrow> shape r' = shape r \<and> registry_grows r r'"
  by (induction rule: writes.induct)
     (auto simp: put_value_shape put_value_grows setOneHot_shape setOneHot_grows grows_def)

lemma some_writes_keep: "some_write\<^sup>*\<^sup>* r r' \<Longrightarrow> shape r' = shape r \<and> registry_grows r r'"
proof (induction rule: rtranclp_induct)
  case (step y z)
  then show ?case using writes_keep registry_grows_trans by (metis some_write_def)
qed (simp add: registry_grows_refl)

lemma self_steps_writes: "self_step\<^sup>*\<^sup>* r r' \<Longrightarrow> some_write\<^sup>*\<^sup>* r r'"
  by (induction rule: rtranclp_induct) (auto dest: self_step_writes intro: rtranclp_trans)

section \<open>One-hot vectors\<close>

definition state_row :: definition_row where
  "state_row = mk_definition RuntimeState ''Current MetricShell runtime state as a one-hot vector.'' SelfGauge [''state'']
     [map state_string States] [] True"

lemma state_row_member: "state_row \<in> set definitions"
  by (simp add: definitions_def state_row_def)

lemma state_row_sel [simp]:
  "df_name state_row = RuntimeState" "df_managed state_row" "df_type state_row = SelfGauge"
  by (simp_all add: state_row_def mk_definition_def)

lemma state_row_labels: "labelCombinations state_row = map (\<lambda>st. [(''state'', state_string st)]) States"
  by (simp add: labelCombinations_def state_row_def mk_definition_def States_def)

definition state_shape :: "definition_row \<times> string list \<times> (string \<times> (string \<times> string) list) list" where
  "state_shape =
     (state_row, map (\<lambda>st. labelsKey [(''state'', state_string st)]) States,
      map (\<lambda>st. (labelsKey [(''state'', state_string st)], [(''state'', state_string st)])) States)"

lemma new_family_shape: "family_shape (new_family state_row) = state_shape"
proof -
  have "validateDefinition state_row = None" using definitions_valid state_row_member by (auto simp: list_all_iff)
  from new_family_series [OF this] not_RuntimeState(8) show ?thesis
    by (simp add: family_shape_def state_shape_def state_row_labels new_series_def comp_def)
       (simp add: new_family_def Let_def state_row_labels comp_def)
qed

text \<open>The state family as it must be: the right series, one of them one, the others zero.\<close>

definition hot_at :: "state \<Rightarrow> self_registry \<Rightarrow> bool" where
  "hot_at st r \<longleftrightarrow>
     (\<exists>f. map_of (sr_families r) RuntimeState = Some f \<and> family_shape f = state_shape \<and>
        (\<forall>(k, s)\<in>set (fv_series f). sv_gauge s = (if sv_labels s = [(''state'', state_string st)] then f64_one else f64_zero)))"

lemma setOneHot_hot:
  assumes "map_of (sr_families r) RuntimeState = Some f" "family_shape f = state_shape"
  shows "hot_at st (setOneHot RuntimeState ''state'' (state_string st) r)"
proof -
  let ?h = "\<lambda>k s. if k \<in> set (fv_order f) then one_hot_value ''state'' (state_string st) s else s"
  let ?f = "f\<lparr>fv_series := map (\<lambda>(k, s). (k, ?h k s)) (fv_series f)\<rparr>"
  have shp: "fv_order f = map (\<lambda>st. labelsKey [(''state'', state_string st)]) States"
    "map (\<lambda>(k, s). (k, sv_labels s)) (fv_series f) =
       map (\<lambda>st. (labelsKey [(''state'', state_string st)], [(''state'', state_string st)])) States"
    using assms(2) by (auto simp: family_shape_def state_shape_def)
  have "k \<in> set (fv_order f) \<and> (\<exists>st'. sv_labels s = [(''state'', state_string st')])" if "(k, s) \<in> set (fv_series f)" for k s
  proof -
    have "(k, sv_labels s) \<in> set (map (\<lambda>(k, s). (k, sv_labels s)) (fv_series f))" using that by force
    then show ?thesis unfolding shp by auto
  qed
  then have "\<forall>(k, s)\<in>set (fv_series ?f). sv_gauge s = (if sv_labels s = [(''state'', state_string st)] then f64_one else f64_zero)"
    by (fastforce simp: one_hot_value_def)
  moreover have "family_shape ?f = state_shape"
    using assms(2) one_hot_family_shape by metis
  moreover have "map_of (sr_families (setOneHot RuntimeState ''state'' (state_string st) r)) RuntimeState = Some ?f"
    using assms(1) by (simp add: setOneHot_def update_conv')
  ultimately show ?thesis unfolding hot_at_def by blast
qed

lemma writes_hot: "writes w r r' \<Longrightarrow> hot_at st r \<Longrightarrow> \<exists>st'. hot_at st' r'"
proof (induction rule: writes.induct)
  case (set_value name labels t r f key s s')
  have "name \<noteq> RuntimeState"
  proof
    assume n: "name = RuntimeState"
    with set_value resolve_Inr [OF set_value(1)] have "fv_definition f = state_row" "df_type (fv_definition f) = t"
      by (auto simp: hot_at_def family_shape_def state_shape_def)
    with set_value(3) n show False by simp
  qed
  then have "map_of (sr_families (put_value name f key s' r)) RuntimeState = map_of (sr_families r) RuntimeState"
    by (simp add: put_value_def update_conv')
  with set_value(4) have "hot_at st (put_value name f key s' r)" by (simp add: hot_at_def)
  then show ?case by blast
next
  case (one_hot name l selected r)
  then obtain f where f: "map_of (sr_families r) RuntimeState = Some f" "family_shape f = state_shape"
    by (auto simp: hot_at_def)
  show ?case
  proof (cases "name = RuntimeState")
    case True
    with one_hot setOneHot_hot [OF f] show ?thesis by auto
  next
    case False
    then have "map_of (sr_families (setOneHot name l selected r)) RuntimeState = map_of (sr_families r) RuntimeState"
      by (simp add: setOneHot_def update_conv' split: option.splits)
    with one_hot(2) have "hot_at st (setOneHot name l selected r)" by (simp add: hot_at_def)
    then show ?thesis by blast
  qed
qed

lemma some_writes_hot: "some_write\<^sup>*\<^sup>* r r' \<Longrightarrow> hot_at st r \<Longrightarrow> \<exists>st'. hot_at st' r'"
proof (induction rule: rtranclp_induct)
  case (step y z)
  then show ?case using writes_hot unfolding some_write_def by blast
qed blast

section \<open>New registries\<close>

definition table_registry :: "int \<Rightarrow> self_registry" where
  "table_registry now = \<lparr>sr_started = now, sr_families = table_families, sr_order = map df_name definitions\<rparr>"

lemma NewSelfRegistry_Inr:
  assumes "NewSelfRegistry version revision mode now = Inr r"
  obtains q where "some_write\<^sup>*\<^sup>*
      (addSpecialSeries BuildInfo [(''version'', version), (''revision'', revision)] f64_one (table_registry now)) q"
    "some_write\<^sup>*\<^sup>* (setOneHot RuntimeState ''state'' (state_string Initializing) q) r"
proof -
  let ?r = "addSpecialSeries BuildInfo [(''version'', version), (''revision'', revision)] f64_one (table_registry now)"
  from assms obtain q where q: "mustSetManagedGauge WorkloadExitCode [] (Fin True (2 ^ 52) (- 52)) ?r = Inr q"
    and s: "SetActiveSnapshot (NewActive Zero 0)
      (setOneHot FinalWaitModeInfo ''mode'' mode (setOneHot RuntimeState ''state'' (state_string Initializing) q)) = Inr r"
    by (auto simp: NewSelfRegistry_def newRegistry_table table_registry_def and_then_Inr_iff Let_def split: if_splits)
  let ?q = "setOneHot RuntimeState ''state'' (state_string Initializing) q"
  have "some_write ?q (setOneHot FinalWaitModeInfo ''mode'' mode ?q)"
    using writes.one_hot [of FinalWaitModeInfo "''mode''" mode ?q] not_RuntimeState(7) unfolding some_write_def by blast
  moreover have "some_write\<^sup>*\<^sup>* (setOneHot FinalWaitModeInfo ''mode'' mode ?q) r"
    using self_step_writes [OF active_snapshot [OF s]] .
  ultimately have "some_write\<^sup>*\<^sup>* ?q r" by (rule converse_rtranclp_into_rtranclp)
  with mustSet_some [OF q not_RuntimeState(3)] show thesis by (intro that [of q]) auto
qed

lemma special_lookup:
  "map_of (sr_families (addSpecialSeries BuildInfo labels v r)) RuntimeState = map_of (sr_families r) RuntimeState"
  using not_RuntimeState(8) by (simp add: addSpecialSeries_def update_conv' Let_def split: option.splits)

lemma shape_state:
  assumes "shape q = shape r" "map_of (sr_families r) RuntimeState = Some f"
  obtains g where "map_of (sr_families q) RuntimeState = Some g" "family_shape g = family_shape f"
proof -
  have "map_option family_shape (map_of (sr_families q) RuntimeState) = Some (family_shape f)"
    using shape_lookup [of q RuntimeState] shape_lookup [of r RuntimeState] assms by simp
  with that show thesis by auto
qed

lemma NewSelfRegistry_hot:
  assumes "NewSelfRegistry version revision mode now = Inr r"
  shows "\<exists>st. hot_at st r"
  using assms
proof (cases rule: NewSelfRegistry_Inr)
  case (1 q)
  have "map_of table_families RuntimeState = Some (new_family state_row)"
    using table_lookup [OF state_row_member] by simp
  then have "map_of (sr_families (addSpecialSeries BuildInfo [(''version'', version), (''revision'', revision)] f64_one
      (table_registry now))) RuntimeState = Some (new_family state_row)"
    by (simp add: special_lookup) (simp add: table_registry_def)
  from shape_state [OF _ this, of q] some_writes_keep [OF 1(1)] obtain g where
    "map_of (sr_families q) RuntimeState = Some g" "family_shape g = state_shape"
    using new_family_shape by metis
  from some_writes_hot [OF 1(2) setOneHot_hot [OF this]] show ?thesis .
qed

section \<open>No update panics\<close>

text \<open>A gauge without labels whose series exists; this depends on the shape only.\<close>

definition plain :: "self_registry \<Rightarrow> string \<Rightarrow> bool" where
  "plain r n =
     (case map_of (snd (snd (shape r))) n of
        None \<Rightarrow> False
      | Some (d, order, ls) \<Rightarrow> df_type d = SelfGauge \<and> df_label_names d = [] \<and> map_of ls [] \<noteq> None)"

definition plain_names :: "string list" where
  "plain_names = [WorkloadRunning, WorkloadProcessID, WorkloadExitCode, SnapshotGeneration, SnapshotSeries, self_SnapshotBytes]"

lemma plain_alt:
  "plain r n \<longleftrightarrow> (\<exists>f s. map_of (sr_families r) n = Some f \<and> df_type (fv_definition f) = SelfGauge \<and>
     df_label_names (fv_definition f) = [] \<and> map_of (fv_series f) [] = Some s)"
  unfolding plain_def shape_lookup [symmetric]
  by (cases "map_of (sr_families r) n") (auto simp: family_shape_def map_of_map)

lemma plain_mustSet: "plain r n \<Longrightarrow> \<exists>r'. mustSetManagedGauge n [] v r = Inr r' \<and> shape r' = shape r"
proof -
  assume "plain r n"
  then obtain f s where "map_of (sr_families r) n = Some f" "df_type (fv_definition f) = SelfGauge"
    "df_label_names (fv_definition f) = []" "map_of (fv_series f) [] = Some s" by (auto simp: plain_alt)
  then have "resolve n [] SelfGauge r = Inr (f, [], s)" by (simp add: resolve_def labelsKey_def)
  with put_value_shape [OF this, of "s\<lparr>sv_gauge := v\<rparr>"] show ?thesis by (simp add: mustSetManagedGauge_def)
qed

lemma plain_cong: "shape q = shape r \<Longrightarrow> plain q n = plain r n"
  by (simp add: plain_def)

lemma plain_row:
  assumes "mk_definition n h SelfGauge [] [] [] m \<in> set definitions" "n \<noteq> BuildInfo"
  shows "plain (addSpecialSeries BuildInfo labels v (table_registry now)) n"
proof -
  let ?d = "mk_definition n h SelfGauge [] [] [] m"
  have "map_of table_families n = Some (new_family ?d)"
    using table_lookup [OF assms(1)] by (simp add: mk_definition_def)
  moreover have "map_of (sr_families (addSpecialSeries BuildInfo labels v (table_registry now))) n = map_of table_families n"
    using assms(2) by (simp add: addSpecialSeries_def table_registry_def update_conv' Let_def split: option.splits)
  moreover have "fv_series (new_family ?d) = [([], new_series ?d [])]"
    using assms(2) by (simp add: new_family_def mk_definition_def labelCombinations_def labelsKey_def)
  ultimately show ?thesis
    by (simp add: plain_alt) (simp add: new_family_def mk_definition_def Let_def)
qed

lemma table_plain: "n \<in> set plain_names \<Longrightarrow> plain (addSpecialSeries BuildInfo labels v (table_registry now)) n"
proof -
  assume n: "n \<in> set plain_names"
  have "\<exists>h. mk_definition n h SelfGauge [] [] [] True \<in> set definitions"
  proof -
    have "mk_definition WorkloadRunning ''Whether the primary workload is running.'' SelfGauge [] [] [] True \<in> set definitions"
      "mk_definition WorkloadProcessID ''Primary workload process identifier, or zero.'' SelfGauge [] [] [] True \<in> set definitions"
      "mk_definition WorkloadExitCode ''Resolved process-compatible workload exit code, or minus one.'' SelfGauge [] [] [] True
         \<in> set definitions"
      "mk_definition SnapshotGeneration ''Accepted application snapshot generation.'' SelfGauge [] [] [] True \<in> set definitions"
      "mk_definition SnapshotSeries ''Application series in the active complete snapshot.'' SelfGauge [] [] [] True
         \<in> set definitions"
      "mk_definition self_SnapshotBytes ''Canonical bytes in the active application snapshot.'' SelfGauge [] [] [] True
         \<in> set definitions"
      unfolding definitions_def by simp_all
    with n show ?thesis unfolding plain_names_def by auto
  qed
  moreover have "n \<noteq> BuildInfo" using n by (auto simp: plain_names_def self_names)
  ultimately show ?thesis using plain_row by blast
qed

lemma SetActiveSnapshot_total:
  assumes "\<forall>n\<in>set plain_names. plain r n"
  shows "\<exists>r'. SetActiveSnapshot active r = Inr r'"
proof -
  have p: "plain r SnapshotGeneration" "plain r SnapshotSeries" "plain r self_SnapshotBytes"
    using assms by (auto simp: plain_names_def)
  obtain r1 where r1: "mustSetManagedGauge SnapshotGeneration [] (f64_of_nat (unat (a_generation active))) r = Inr r1" "shape r1 = shape r"
    using plain_mustSet [OF p(1)] by blast
  with p(2) plain_cong have "plain r1 SnapshotSeries" by blast
  then obtain r2 where r2: "mustSetManagedGauge SnapshotSeries [] (f64_of_nat (nat (v_series (a_validated active)))) r1 = Inr r2"
    "shape r2 = shape r1"
    using plain_mustSet by blast
  with r1(2) p(3) plain_cong have "plain r2 self_SnapshotBytes" by metis
  then obtain r3 where "mustSetManagedGauge self_SnapshotBytes [] (f64_of_nat (length (v_canonical (a_validated active)))) r2 = Inr r3"
    using plain_mustSet by blast
  with r1(1) r2(1) show ?thesis by (simp add: SetActiveSnapshot_def)
qed

lemma SetWorkload_total:
  assumes "\<forall>n\<in>set plain_names. plain r n" "\<not> (pid < 0 \<or> running \<and> pid = 0 \<or> \<not> running \<and> pid \<noteq> 0)"
  shows "\<exists>r'. SetWorkload pid running r = Inr r'"
proof -
  have p: "plain r WorkloadRunning" "plain r WorkloadProcessID" using assms(1) by (auto simp: plain_names_def)
  obtain r1 where r1: "mustSetManagedGauge WorkloadRunning [] (if running then f64_one else f64_zero) r = Inr r1" "shape r1 = shape r"
    using plain_mustSet [OF p(1)] by blast
  with p(2) plain_cong have "plain r1 WorkloadProcessID" by blast
  then obtain r2 where "mustSetManagedGauge WorkloadProcessID [] (f64_of_nat (nat pid)) r1 = Inr r2"
    using plain_mustSet by blast
  with r1(1) assms(2) show ?thesis by (auto simp: SetWorkload_def)
qed

lemma NewSelfRegistry_total:
  assumes "mode \<in> set FinalWaitModes"
  shows "\<exists>r. NewSelfRegistry version revision mode now = Inr r \<and> (\<forall>n\<in>set plain_names. plain r n)"
proof -
  let ?r = "addSpecialSeries BuildInfo [(''version'', version), (''revision'', revision)] f64_one (table_registry now)"
  have "plain ?r WorkloadExitCode" using table_plain by (simp add: plain_names_def)
  then obtain q where q: "mustSetManagedGauge WorkloadExitCode [] (Fin True (2 ^ 52) (- 52)) ?r = Inr q" "shape q = shape ?r"
    using plain_mustSet by blast
  let ?q = "setOneHot FinalWaitModeInfo ''mode'' mode (setOneHot RuntimeState ''state'' (state_string Initializing) q)"
  have sq: "shape ?q = shape ?r" using q(2) by (simp add: setOneHot_shape)
  have "\<forall>n\<in>set plain_names. plain ?q n" unfolding plain_cong [OF sq] using table_plain by blast
  from SetActiveSnapshot_total [OF this] obtain r where r: "SetActiveSnapshot (NewActive Zero 0) ?q = Inr r" by blast
  then have sr: "shape r = shape ?r" using some_writes_keep [OF self_step_writes [OF active_snapshot [OF r]]] sq by simp
  have "\<forall>n\<in>set plain_names. plain r n" unfolding plain_cong [OF sr] using table_plain by blast
  moreover have "NewSelfRegistry version revision mode now = Inr r"
    using assms q(1) r by (simp add: NewSelfRegistry_def newRegistry_table table_registry_def Let_def)
  ultimately show ?thesis by blast
qed

text \<open>A gauge without labels that the runtime sets by name: it is not one of the managed ones.\<close>

definition free_gauge :: "self_registry \<Rightarrow> string \<Rightarrow> bool" where
  "free_gauge r n \<longleftrightarrow> plain r n \<and> (\<forall>d rest. map_of (snd (snd (shape r))) n = Some (d, rest) \<longrightarrow> \<not> df_managed d)"

lemma free_gauge_cong: "shape q = shape r \<Longrightarrow> free_gauge q n = free_gauge r n"
  by (simp add: free_gauge_def plain_def)

lemma free_gauge_row:
  assumes "mk_definition n h SelfGauge [] [] [] False \<in> set definitions" "n \<noteq> BuildInfo"
  shows "free_gauge (addSpecialSeries BuildInfo labels v (table_registry now)) n"
proof -
  let ?d = "mk_definition n h SelfGauge [] [] [] False" and ?r = "addSpecialSeries BuildInfo labels v (table_registry now)"
  have "map_of table_families n = Some (new_family ?d)"
    using table_lookup [OF assms(1)] by (simp add: mk_definition_def)
  moreover have "map_of (sr_families ?r) n = map_of table_families n"
    using assms(2) by (simp add: addSpecialSeries_def table_registry_def update_conv' Let_def split: option.splits)
  moreover have "fv_definition (new_family ?d) = ?d" by (simp add: new_family_def Let_def)
  ultimately have "map_of (snd (snd (shape ?r))) n = Some (family_shape (new_family ?d))" "fst (family_shape (new_family ?d)) = ?d"
    using shape_lookup [of ?r n] by (simp_all add: family_shape_def)
  moreover have "\<not> df_managed ?d" by (simp add: mk_definition_def)
  ultimately show ?thesis using plain_row [OF assms] unfolding free_gauge_def by (metis fst_conv option.inject)
qed

lemma free_gauge_set:
  assumes "free_gauge r n" "\<not> bad_value v" "is_integral v" "\<not> isBinaryGauge n"
  shows "\<exists>r'. SetGauge n [] v r = Inr r' \<and> shape r' = shape r"
proof -
  from assms(1) obtain f s where f: "map_of (sr_families r) n = Some f" "df_type (fv_definition f) = SelfGauge"
    "df_label_names (fv_definition f) = []" "map_of (fv_series f) [] = Some s" by (auto simp: free_gauge_def plain_alt)
  then have rs: "resolve n [] SelfGauge r = Inr (f, [], s)" by (simp add: resolve_def labelsKey_def)
  have "map_of (snd (snd (shape r))) n = Some (fv_definition f, snd (family_shape f))"
    unfolding shape_lookup [symmetric] using f(1) by (simp add: family_shape_def)
  then have "\<not> df_managed (fv_definition f)" using assms(1) unfolding free_gauge_def by blast
  with assms rs put_value_shape [OF rs, of "s\<lparr>sv_gauge := v\<rparr>"] show ?thesis by (auto simp: SetGauge_def)
qed

lemma NewSelfRegistry_shape:
  assumes "NewSelfRegistry version revision mode now = Inr r"
  shows "shape r = shape (addSpecialSeries BuildInfo [(''version'', version), (''revision'', revision)] f64_one (table_registry now))"
  using assms
proof (cases rule: NewSelfRegistry_Inr)
  case (1 q)
  with some_writes_keep [OF 1(1)] some_writes_keep [OF 1(2)] show ?thesis by (simp add: setOneHot_shape)
qed

lemma required_scrapes_free:
  assumes "NewSelfRegistry version revision mode now = Inr r" "shape q = shape r"
  shows "free_gauge q FinalWaitRequiredScrapes"
proof -
  have "mk_definition FinalWaitRequiredScrapes ''Effective required final scrape count.'' SelfGauge [] [] [] False \<in> set definitions"
    unfolding definitions_def by simp
  moreover have "FinalWaitRequiredScrapes \<noteq> BuildInfo" by (simp add: self_names)
  ultimately have "free_gauge (addSpecialSeries BuildInfo [(''version'', version), (''revision'', revision)] f64_one (table_registry now))
      FinalWaitRequiredScrapes" by (rule free_gauge_row)
  then show ?thesis unfolding free_gauge_cong [OF trans [OF assms(2) NewSelfRegistry_shape [OF assms(1)]]] .
qed

section \<open>Properties\<close>

text \<open>
  The set of self-metric series is fixed when the registry is built: no update adds, removes,
  renames, retypes or relabels a family or a series, so the number of series is bounded for the life
  of the process. A counter and the count of a histogram never decrease, an update that would
  overflow one is refused instead.
\<close>

theorem self_series_fixed:
  assumes "self_step\<^sup>*\<^sup>* r r'"
  shows "shape r' = shape r \<and>
    (\<forall>n k s. value_at r n k = Some s \<longrightarrow>
       (\<exists>s'. value_at r' n k = Some s' \<and> sv_labels s' = sv_labels s \<and> sv_counter s \<le> sv_counter s' \<and>
          sh_count (sv_histogram s) \<le> sh_count (sv_histogram s')))"
  using some_writes_keep [OF self_steps_writes [OF assms]] by (simp add: registry_grows_def grows_def)

definition demo_self :: self_registry where
  "demo_self = \<lparr>sr_started = 0, sr_families = [(ManagedQueueDepth, new_family (mk_definition ManagedQueueDepth ''Managed owner queue depth.'' SelfGauge [] [] [] False))], sr_order = [ManagedQueueDepth]\<rparr>"

theorem self_series_fixed_witness:
  "\<exists>r'. SetGauge ManagedQueueDepth [] f64_zero demo_self = Inr r' \<and> shape r' = shape demo_self"
proof -
  have "\<exists>r'. SetGauge ManagedQueueDepth [] f64_zero demo_self = Inr r'"
    by (simp add: SetGauge_def demo_self_def bad_value_def f64_less_def f64_zero_def is_nan_def is_inf_def is_inf_pos_def
        is_inf_neg_def resolve_def new_family_def mk_definition_def labelCombinations_def labelsKey_def Let_def
        isBinaryGauge_def isIntegralGauge_def self_names)
  then obtain r' where r': "SetGauge ManagedQueueDepth [] f64_zero demo_self = Inr r'" ..
  from self_series_fixed [OF r_into_rtranclp, OF set_gauge, OF r'] r' show ?thesis by blast
qed

text \<open>
  The runtime state is exposed as a one-hot vector at all times: whatever updates are made, by
  whatever callers, the state family has exactly one series per lifecycle state, one of them is one
  and all the others are zero.
\<close>

theorem self_state_one_hot:
  assumes "NewSelfRegistry version revision mode now = Inr r" "self_step\<^sup>*\<^sup>* r r'"
  shows "\<exists>st f. map_of (sr_families r') RuntimeState = Some f \<and>
    map (\<lambda>(k, s). (sv_labels s, sv_gauge s)) (fv_series f) =
      map (\<lambda>st'. ([(''state'', state_string st')], if st' = st then f64_one else f64_zero)) States"
proof -
  obtain st f where f: "map_of (sr_families r') RuntimeState = Some f" "family_shape f = state_shape"
    and g: "\<forall>(k, s)\<in>set (fv_series f). sv_gauge s = (if sv_labels s = [(''state'', state_string st)] then f64_one else f64_zero)"
    using NewSelfRegistry_hot [OF assms(1)] some_writes_hot [OF self_steps_writes [OF assms(2)]] unfolding hot_at_def by blast
  have "map (\<lambda>(k, s). (sv_labels s, sv_gauge s)) (fv_series f) =
      map (\<lambda>(k, ls). (ls, if ls = [(''state'', state_string st)] then f64_one else f64_zero)) (map (\<lambda>(k, s). (k, sv_labels s)) (fv_series f))"
    using g by auto
  also have "map (\<lambda>(k, s). (k, sv_labels s)) (fv_series f) =
      map (\<lambda>st. (labelsKey [(''state'', state_string st)], [(''state'', state_string st)])) States"
    using f(2) by (simp add: family_shape_def state_shape_def)
  also have "map (\<lambda>(k, ls). (ls, if ls = [(''state'', state_string st)] then f64_one else f64_zero)) \<dots> =
      map (\<lambda>st'. ([(''state'', state_string st')], if st' = st then f64_one else f64_zero)) States"
    by (cases st) (simp_all add: States_def)
  finally show ?thesis using f(1) by blast
qed

theorem self_state_one_hot_witness:
  "\<exists>r f. NewSelfRegistry ''1.0'' ''abc'' ''scrapes'' 0 = Inr r \<and> map_of (sr_families r) RuntimeState = Some f \<and>
     length (fv_series f) = 8"
proof -
  have "''scrapes'' \<in> set FinalWaitModes" by (simp add: FinalWaitModes_def)
  then obtain r where r: "NewSelfRegistry ''1.0'' ''abc'' ''scrapes'' 0 = Inr r" using NewSelfRegistry_total by blast
  from self_state_one_hot [OF r rtranclp.rtrancl_refl] obtain st f where
    f: "map_of (sr_families r) RuntimeState = Some f" and
    m: "map (\<lambda>(k, s). (sv_labels s, sv_gauge s)) (fv_series f) =
      map (\<lambda>st'. ([(''state'', state_string st')], if st' = st then f64_one else f64_zero)) States"
    by blast
  from arg_cong [OF m, of length] f r show ?thesis by (auto simp: States_def)
qed

text \<open>
  The table of self-metrics is sound, so building the registry succeeds for every final-wait mode
  and the updates the runtime makes without looking at an error never panic, whatever updates came
  before: publishing a snapshot's numbers always succeeds, and setting the workload succeeds for
  every process identifier that fits its state.
\<close>

theorem self_never_panics:
  assumes "mode \<in> set FinalWaitModes"
  shows "\<exists>r. NewSelfRegistry version revision mode now = Inr r \<and>
    (\<forall>r'. self_step\<^sup>*\<^sup>* r r' \<longrightarrow>
       (\<exists>r''. SetActiveSnapshot active r' = Inr r'') \<and>
       (\<exists>r''. SetWorkload 0 False r' = Inr r'') \<and> (0 < pid \<longrightarrow> (\<exists>r''. SetWorkload pid True r' = Inr r'')))"
proof -
  obtain r where r: "NewSelfRegistry version revision mode now = Inr r" "\<forall>n\<in>set plain_names. plain r n"
    using NewSelfRegistry_total [OF assms] by blast
  have "(\<exists>r''. SetActiveSnapshot active r' = Inr r'') \<and> (\<exists>r''. SetWorkload 0 False r' = Inr r'') \<and>
      (0 < pid \<longrightarrow> (\<exists>r''. SetWorkload pid True r' = Inr r''))" if "self_step\<^sup>*\<^sup>* r r'" for r'
  proof -
    have sh: "shape r' = shape r" using some_writes_keep [OF self_steps_writes [OF that]] by blast
    have p: "\<forall>n\<in>set plain_names. plain r' n" unfolding plain_cong [OF sh] by (rule r(2))
    from SetActiveSnapshot_total [OF p] SetWorkload_total [OF p] show ?thesis by auto
  qed
  with r(1) show ?thesis by blast
qed

theorem self_never_panics_witness:
  "\<exists>r. NewSelfRegistry ''1.0'' ''abc'' ''immediate'' 0 = Inr r \<and> (\<exists>r'. SetWorkload 0 False r = Inr r')"
proof -
  have "''immediate'' \<in> set FinalWaitModes" by (simp add: FinalWaitModes_def)
  from self_never_panics [OF this, of "''1.0''" "''abc''" 0] show ?thesis by blast
qed

end
