(* ===== verification/Exposition_Text.thy ===== *)
theory Exposition_Text
  imports Exposition_Filter Self_Metrics_Facts Go_Strings
begin

text \<open>
  The text exposition: \<^verbatim>\<open>internal/selfmetric/encode.go\<close> writes the runtime's own
  metrics, \<^verbatim>\<open>internal/exposition/encode.go\<close> the application's families and both together,
  \<^verbatim>\<open>internal/exposition/response.go\<close> prepares and writes the response.

  A \<^verbatim>\<open>bytes.Buffer\<close> that is written to is the text written. Compression is an argument of
  \<open>Prepare\<close>.
\<close>

section \<open>Escaping\<close>

definition escapeHelp :: "string \<Rightarrow> string" where
  "escapeHelp v = replace_byte newline [backslash, CHR ''n''] (replace_byte backslash [backslash, backslash] v)"

definition escapeLabel :: "string \<Rightarrow> string" where
  "escapeLabel v =
     replace_byte dquote [backslash, dquote]
       (replace_byte newline [backslash, CHR ''n''] (replace_byte backslash [backslash, backslash] v))"

text \<open>The package of the self metrics has its own copies.\<close>

definition self_escapeHelp :: "string \<Rightarrow> string" where
  "self_escapeHelp v = replace_byte newline [backslash, CHR ''n''] (replace_byte backslash [backslash, backslash] v)"

definition escapeLabelValue :: "string \<Rightarrow> string" where
  "escapeLabelValue v =
     replace_byte dquote [backslash, dquote]
       (replace_byte newline [backslash, CHR ''n''] (replace_byte backslash [backslash, backslash] v))"

section \<open>Self metrics\<close>

type_synonym TextFormat = string

definition PrometheusText :: TextFormat where "PrometheusText = ''prometheus''"
definition OpenMetricsText :: TextFormat where "OpenMetricsText = ''openmetrics''"

definition eof_line :: string where
  "eof_line = ''# EOF'' @ [newline]"

definition self_label :: "string \<times> string \<Rightarrow> string" where
  "self_label l = fst l @ ''='' @ [dquote] @ escapeLabelValue (snd l) @ [dquote]"

definition writeSample :: "string \<Rightarrow> (string \<times> string) list \<Rightarrow> string \<Rightarrow> string" where
  "writeSample name labels v =
     name @ (if labels \<noteq> [] then ''{'' @ commas (map self_label labels) @ ''}'' else []) @ '' '' @ v @ [newline]"

definition self_formatFloat :: "float64 \<Rightarrow> string" where
  "self_formatFloat v = format_float v"

definition encode_sample :: "self_family \<Rightarrow> self_sample \<Rightarrow> self_error + string" where
  "encode_sample family sample =
     (if sf_type family = SelfGauge then Inr (writeSample (sf_name family) (sp_labels sample) (self_formatFloat (sp_gauge sample)))
      else if sf_type family = SelfCounter then Inr (writeSample (sf_name family) (sp_labels sample) (format_uint (sp_counter sample)))
      else if sf_type family = SelfHistogram then
        (case sp_histogram sample of
           None \<Rightarrow> Inl ErrMetricType
         | Some h \<Rightarrow> Inr (
             concat (map (\<lambda>(bound, count). writeSample (sf_name family @ ''_bucket'')
               (sp_labels sample @ [(''le'', self_formatFloat bound)]) (format_uint count)) (sh_buckets h)) @
             writeSample (sf_name family @ ''_bucket'') (sp_labels sample @ [(''le'', ''+Inf'')]) (format_uint (sh_count h)) @
             writeSample (sf_name family @ ''_sum'') (sp_labels sample) (self_formatFloat (sh_sum h)) @
             writeSample (sf_name family @ ''_count'') (sp_labels sample) (format_uint (sh_count h))))
      else Inr [])"

definition self_metadata_name :: "TextFormat \<Rightarrow> self_family \<Rightarrow> string" where
  "self_metadata_name format family =
     (if format = OpenMetricsText \<and> sf_type family = SelfCounter then trim_suffix (sf_name family) ''_total'' else sf_name family)"

definition encode_self_family :: "TextFormat \<Rightarrow> self_family \<Rightarrow> self_error + string" where
  "encode_self_family format family =
     (if sf_type family \<noteq> SelfGauge \<and> sf_type family \<noteq> SelfCounter \<and> sf_type family \<noteq> SelfHistogram then Inl ErrMetricType
      else let metadata_name = self_metadata_name format family in
        and_then (map_result (encode_sample family) (sf_samples family)) (\<lambda>samples.
          Inr (''# HELP '' @ metadata_name @ '' '' @ self_escapeHelp (sf_help family) @ [newline] @
               ''# TYPE '' @ metadata_name @ '' '' @ sf_type family @ [newline] @ concat samples)))"

definition SelfEncode :: "self_family list \<Rightarrow> TextFormat \<Rightarrow> self_error + string" where
  "SelfEncode view format =
     (if format \<noteq> PrometheusText \<and> format \<noteq> OpenMetricsText then Inl ErrValue
      else and_then (map_result (encode_self_family format) view) (\<lambda>texts.
        Inr (concat texts @ (if format = OpenMetricsText then eof_line else []))))"

section \<open>Application families\<close>

type_synonym Format = string

definition Prometheus :: Format where "Prometheus = ''prometheus''"
definition OpenMetrics :: Format where "OpenMetrics = ''openmetrics''"

datatype exposition_error = EncodingErrorValue | ErrResponseLimit | SelfError self_error

definition selfMetricFormat :: "Format \<Rightarrow> exposition_error + TextFormat" where
  "selfMetricFormat format =
     (if format = Prometheus then Inr PrometheusText
      else if format = OpenMetrics then Inr OpenMetricsText
      else Inl EncodingErrorValue)"

definition app_label :: "Label \<Rightarrow> string" where
  "app_label l = l_name l @ ''='' @ [dquote] @ escapeLabel (l_value l) @ [dquote]"

definition writeApplicationSample :: "string \<Rightarrow> Label list \<Rightarrow> string \<Rightarrow> string \<Rightarrow> string \<Rightarrow> string" where
  "writeApplicationSample name labels extra_name extra_value v =
     name @
     (if labels \<noteq> [] \<or> extra_name \<noteq> [] then
        ''{'' @ commas (map app_label labels) @
        (if extra_name \<noteq> [] then
           (if labels \<noteq> [] then '','' else []) @ extra_name @ ''='' @ [dquote] @ escapeLabel extra_value @ [dquote]
         else []) @
        ''}''
      else []) @
     '' '' @ v @ [newline]"

definition openMetricsHistogramSumAllowed :: "HistogramValue \<Rightarrow> bool" where
  "openMetricsHistogramSumAllowed h =
     (case parse_float (hv_sum h) of
        None \<Rightarrow> False
      | Some total_sum \<Rightarrow>
          if is_nan total_sum \<or> f64_less total_sum f64_zero then False
          else list_all (\<lambda>b. case parse_float (b_upper_bound b) of
                               None \<Rightarrow> False
                             | Some bound \<Rightarrow> \<not> f64_less bound f64_zero) (hv_buckets h))"

definition application_series :: "Family \<Rightarrow> Format \<Rightarrow> Series \<Rightarrow> string" where
  "application_series family format series =
     (if f_type family = Counter then
        writeApplicationSample (f_name family @ ''_total'') (s_labels series) [] [] (s_value series)
      else if f_type family = Gauge then
        writeApplicationSample (f_name family) (s_labels series) [] [] (s_value series)
      else if f_type family = Histogram then
        (case s_histogram series of
           None \<Rightarrow> []
         | Some h \<Rightarrow>
             concat (map (\<lambda>b. writeApplicationSample (f_name family @ ''_bucket'') (s_labels series) ''le'' (b_upper_bound b)
               (format_uint (b_count b))) (hv_buckets h)) @
             (if format \<noteq> OpenMetrics \<or> openMetricsHistogramSumAllowed h
              then writeApplicationSample (f_name family @ ''_sum'') (s_labels series) [] [] (hv_sum h) else []) @
             writeApplicationSample (f_name family @ ''_count'') (s_labels series) [] [] (format_uint (hv_count h)))
      else [])"

definition app_metadata_name :: "Family \<Rightarrow> Format \<Rightarrow> string" where
  "app_metadata_name family format =
     (if f_type family = Counter \<and> format = Prometheus then f_name family @ ''_total'' else f_name family)"

definition writeApplicationFamily :: "Family \<Rightarrow> Format \<Rightarrow> string" where
  "writeApplicationFamily family format =
     (let metadata_name = app_metadata_name family format in
      ''# HELP '' @ metadata_name @ '' '' @ escapeHelp (f_help family) @ [newline] @
      ''# TYPE '' @ metadata_name @ '' '' @ f_type family @ [newline] @
      concat (map (application_series family format) (f_series family)))"

definition exposition_Encode ::
  "ValidatedSnapshot \<Rightarrow> self_family list \<Rightarrow> (Family \<Rightarrow> bool) option \<Rightarrow> Format \<Rightarrow> exposition_error + string" where
  "exposition_Encode application metrics flt format =
     and_then (selfMetricFormat format) (\<lambda>metric_format.
       let output = concat (map (\<lambda>family. writeApplicationFamily family format)
             (filter (\<lambda>family. \<not> (case flt of None \<Rightarrow> False | Some p \<Rightarrow> \<not> p family)) (v_families application)))
       in case SelfEncode metrics metric_format of
            Inl e \<Rightarrow> Inl (SelfError e)
          | Inr self \<Rightarrow>
              Inr (output @ (if format = OpenMetrics then trim_suffix self eof_line else self) @
                   (if format = OpenMetrics then eof_line else [])))"

section \<open>Responses\<close>

type_synonym Encoding = string

definition Identity :: Encoding where "Identity = ''identity''"
definition Gzip :: Encoding where "Gzip = ''gzip''"

record Prepared =
  pr_format :: Format
  pr_encoding :: Encoding
  pr_generation :: uint64
  pr_uncompressed_bytes :: int
  pr_body :: bytes

definition Prepare ::
  "(bytes \<Rightarrow> bytes) \<Rightarrow> ActiveSnapshot \<Rightarrow> self_family list \<Rightarrow> (Family \<Rightarrow> bool) option \<Rightarrow> Format \<Rightarrow> Encoding \<Rightarrow> int \<Rightarrow>
     exposition_error + Prepared" where
  "Prepare gzip active metrics flt format encoding lm =
     (if lm < 1 \<or> (encoding \<noteq> Identity \<and> encoding \<noteq> Gzip) then Inl EncodingErrorValue
      else and_then (exposition_Encode (a_validated active) metrics flt format) (\<lambda>body.
        if go_len body > lm then Inl ErrResponseLimit
        else Inr \<lparr>pr_format = format, pr_encoding = encoding, pr_generation = a_generation active,
                  pr_uncompressed_bytes = go_len body, pr_body = (if encoding = Gzip then gzip body else body)\<rparr>))"

datatype exposition_outcome = Success | WriteError | ResponseLimit | EncodingError | Timeout

fun exposition_outcome_string :: "exposition_outcome \<Rightarrow> string" where
  "exposition_outcome_string Success = ''success''"
| "exposition_outcome_string WriteError = ''write_error''"
| "exposition_outcome_string ResponseLimit = ''response_limit''"
| "exposition_outcome_string EncodingError = ''encoding_error''"
| "exposition_outcome_string Timeout = ''timeout''"

definition ContentType :: "Format \<Rightarrow> string" where
  "ContentType format =
     (if format = OpenMetrics then ''application/openmetrics-text; version=1.0.0; charset=utf-8''
      else ''text/plain; version=0.0.4; charset=utf-8'')"

text \<open>The digits of a length, least significant first into the end of a buffer of twenty bytes.\<close>

function integer_digits :: "int \<Rightarrow> string \<Rightarrow> string" where
  "integer_digits v buffer =
     (if v > 0 then integer_digits (v div 10) (digit_char (nat (v mod 10)) # buffer) else buffer)"
  by pat_completeness auto
termination by (relation "measure (\<lambda>(v, _). nat v)") auto

declare integer_digits.simps [simp del]

definition integerString :: "int \<Rightarrow> string" where
  "integerString v = (if v = 0 then ''0'' else integer_digits v [])"

record http_response =
  hr_status :: nat
  hr_headers :: "(string \<times> string) list"
  hr_body :: bytes

text \<open>
  What the connection and the clock do during one write: whether the context is done before, whether
  the deadline could not be set, how many bytes were written and whether that failed, and whether
  the context is done or the deadline passed afterwards.
\<close>

record write_env =
  we_ctx_before :: bool
  we_deadline_error :: bool
  we_written :: int
  we_write_error :: bool
  we_ctx_after :: bool
  we_late :: bool

definition response_headers :: "Prepared \<Rightarrow> (string \<times> string) list" where
  "response_headers prepared =
     [(''Content-Type'', ContentType (pr_format prepared)), (''Cache-Control'', ''no-store''),
      (''X-Content-Type-Options'', ''nosniff'')] @
     (if pr_encoding prepared = Gzip then [(''Content-Encoding'', ''gzip''), (''Vary'', ''Accept-Encoding'')] else []) @
     [(''Content-Length'', integerString (go_len (pr_body prepared)))]"

definition Write :: "write_env \<Rightarrow> Prepared \<Rightarrow> int \<Rightarrow> exposition_outcome \<times> http_response option" where
  "Write env prepared timeout =
     (if timeout \<le> 0 then (EncodingError, None)
      else if we_ctx_before env then (Timeout, None)
      else if we_deadline_error env then (WriteError, None)
      else
        let failed = we_write_error env \<or> we_written env \<noteq> go_len (pr_body prepared);
            response = \<lparr>hr_status = 200, hr_headers = response_headers prepared,
                        hr_body = take (nat (we_written env)) (pr_body prepared)\<rparr>
        in (if failed then (if we_ctx_after env \<or> we_late env then Timeout else WriteError)
            else if we_ctx_after env then Timeout
            else Success, Some response))"

end
