(* ===== verification/Exposition_Reading.thy ===== *)
theory Exposition_Reading
  imports Exposition_Text
begin

text \<open>
  A reader of the text format and the proof that it reads back what the encoders write: no help
  text, label value or metric value can forge a line, a label or a sample.
\<close>

section \<open>A reader of the text format\<close>

datatype exposition_line =
    HelpLine string string | TypeLine string string | SampleLine string "(string \<times> string) list" string | EofLine

fun unescape :: "string \<Rightarrow> string option" where
  "unescape [] = Some []"
| "unescape [c] = (if c = backslash then None else Some [c])"
| "unescape (c # d # cs) =
     (if c = backslash then
        (if d = CHR ''n'' then map_option ((#) newline) (unescape cs)
         else if d = backslash \<or> d = dquote then map_option ((#) d) (unescape cs)
         else None)
      else map_option ((#) c) (unescape (d # cs)))"

text \<open>A quoted value: what is before the closing quote, and what comes after it.\<close>

fun read_quoted :: "string \<Rightarrow> (string \<times> string) option" where
  "read_quoted [] = None"
| "read_quoted [c] = (if c = dquote then Some ([], []) else None)"
| "read_quoted (c # d # cs) =
     (if c = dquote then Some ([], d # cs)
      else if c = backslash then
        (if d = CHR ''n'' then map_option (\<lambda>(v, r). (newline # v, r)) (read_quoted cs)
         else if d = backslash \<or> d = dquote then map_option (\<lambda>(v, r). (d # v, r)) (read_quoted cs)
         else None)
      else map_option (\<lambda>(v, r). (c # v, r)) (read_quoted (d # cs)))"

lemma read_quoted_length: "read_quoted s = Some (v, r) \<Longrightarrow> length r < length s"
  by (induction s arbitrary: v r rule: read_quoted.induct) (auto split: if_splits simp: less_SucI)

text \<open>The labels up to the closing brace.\<close>

function read_labels :: "string \<Rightarrow> ((string \<times> string) list \<times> string) option" where
  "read_labels s =
     (let n = takeWhile (\<lambda>c. c \<noteq> CHR ''='') s; r = dropWhile (\<lambda>c. c \<noteq> CHR ''='') s in
      if length r < 2 \<or> r ! 1 \<noteq> dquote then None
      else case read_quoted (drop 2 r) of
             None \<Rightarrow> None
           | Some (v, u) \<Rightarrow>
               if u = [] then None
               else if hd u = CHR ''}'' then Some ([(n, v)], tl u)
               else if hd u = CHR '','' then map_option (\<lambda>(ls, x). ((n, v) # ls, x)) (read_labels (tl u))
               else None)"
  by pat_completeness auto
termination
proof (relation "measure length")
  fix s n r p v u
  assume a: "n = takeWhile (\<lambda>c. c \<noteq> CHR ''='') s" "r = dropWhile (\<lambda>c. c \<noteq> CHR ''='') s"
    "read_quoted (drop 2 r) = Some p" "(v, u) = p"
  then have "length u < length (drop 2 r)" using read_quoted_length by metis
  moreover have "length r \<le> length s" using a(2) by (simp add: length_dropWhile_le)
  ultimately show "(tl u, s) \<in> measure length" by simp
qed simp

declare read_labels.simps [simp del]

definition read_sample :: "string \<Rightarrow> exposition_line option" where
  "read_sample s =
     (let n = takeWhile (\<lambda>c. c \<noteq> CHR ''{'' \<and> c \<noteq> CHR '' '') s; r = dropWhile (\<lambda>c. c \<noteq> CHR ''{'' \<and> c \<noteq> CHR '' '') s in
      if r = [] then None
      else if hd r = CHR '' '' then Some (SampleLine n [] (tl r))
      else case read_labels (tl r) of
             None \<Rightarrow> None
           | Some (ls, u) \<Rightarrow> if u \<noteq> [] \<and> hd u = CHR '' '' then Some (SampleLine n ls (tl u)) else None)"

definition read_line :: "string \<Rightarrow> exposition_line option" where
  "read_line s =
     (if s = ''# EOF'' then Some EofLine
      else if has_prefix s ''# HELP '' then
        (let (n, h, found) = cut_at (CHR '' '') (drop 7 s) in if found then map_option (HelpLine n) (unescape h) else None)
      else if has_prefix s ''# TYPE '' then
        (let (n, t, found) = cut_at (CHR '' '') (drop 7 s) in if found then Some (TypeLine n t) else None)
      else read_sample s)"

fun all_lines :: "string list \<Rightarrow> exposition_line list option" where
  "all_lines [] = None"
| "all_lines [l] = (if l = [] then Some [] else None)"
| "all_lines (l # m # ls) =
     (case read_line l of None \<Rightarrow> None | Some x \<Rightarrow> map_option ((#) x) (all_lines (m # ls)))"

definition read_exposition :: "string \<Rightarrow> exposition_line list option" where
  "read_exposition text = all_lines (split_on newline text)"

section \<open>Reading back one line\<close>

definition esc :: "char \<Rightarrow> string" where
  "esc c = (if c = backslash then [backslash, backslash] else if c = newline then [backslash, CHR ''n''] else [c])"

definition esc_label :: "char \<Rightarrow> string" where
  "esc_label c = (if c = dquote then [backslash, dquote] else esc c)"

lemma bytes_distinct [simp]:
  "newline \<noteq> backslash" "backslash \<noteq> newline" "dquote \<noteq> backslash" "backslash \<noteq> dquote" "dquote \<noteq> newline" "newline \<noteq> dquote"
  "CHR ''n'' \<noteq> newline" "CHR ''n'' \<noteq> backslash" "CHR ''n'' \<noteq> dquote" "backslash \<noteq> CHR ''n''" "dquote \<noteq> CHR ''n''"
  by (simp_all add: backslash_def dquote_def)

lemma replace_byte_simps [simp]:
  "replace_byte c w [] = []" "replace_byte c w (x # xs) = (if x = c then w else [x]) @ replace_byte c w xs"
  by (simp_all add: replace_byte_def)

lemma escapeHelp_Cons [simp]: "escapeHelp [] = []" "escapeHelp (c # cs) = esc c @ escapeHelp cs"
  by (simp_all add: escapeHelp_def esc_def)

lemma escapeLabel_Cons [simp]: "escapeLabel [] = []" "escapeLabel (c # cs) = esc_label c @ escapeLabel cs"
  by (simp_all add: escapeLabel_def esc_label_def esc_def)

lemma self_escapes: "self_escapeHelp = escapeHelp" "escapeLabelValue = escapeLabel"
  by (simp_all add: fun_eq_iff self_escapeHelp_def escapeHelp_def escapeLabelValue_def escapeLabel_def)

lemma newline_notin_esc: "newline \<notin> set (escapeHelp s)" "newline \<notin> set (escapeLabel s)"
  by (induction s) (auto simp: esc_def esc_label_def)

lemma unescape_other: "c \<noteq> backslash \<Longrightarrow> unescape (c # s) = map_option ((#) c) (unescape s)"
  by (cases s) auto

lemma unescape_escapeHelp: "unescape (escapeHelp s) = Some s"
  by (induction s) (auto simp: esc_def unescape_other)

lemma read_quoted_other: "c \<noteq> backslash \<Longrightarrow> c \<noteq> dquote \<Longrightarrow> read_quoted (c # s) = map_option (\<lambda>(v, r). (c # v, r)) (read_quoted s)"
  by (cases s) auto

lemma read_quoted_close: "read_quoted (dquote # s) = Some ([], s)"
  by (cases s) auto

lemma read_quoted_escapeLabel: "read_quoted (escapeLabel s @ dquote # r) = Some (s, r)"
proof (induction s)
  case (Cons c s)
  then show ?case by (cases "c = dquote"; cases "c = backslash"; cases "c = newline")
    (simp_all add: esc_def esc_label_def read_quoted_other)
qed (simp add: read_quoted_close)

definition label_text :: "string \<times> string \<Rightarrow> string" where
  "label_text l = fst l @ ''='' @ [dquote] @ escapeLabel (snd l) @ [dquote]"

lemma takeWhile_stop: "\<forall>x\<in>set a. P x \<Longrightarrow> \<not> P b \<Longrightarrow> takeWhile P (a @ b # c) = a"
  by simp

lemma dropWhile_stop: "\<forall>x\<in>set a. P x \<Longrightarrow> \<not> P b \<Longrightarrow> dropWhile P (a @ b # c) = b # c"
  by simp

lemma read_labels_one:
  assumes "CHR ''='' \<notin> set n"
  shows "read_labels (label_text (n, v) @ c # rest) =
    (if c = CHR ''}'' then Some ([(n, v)], rest)
     else if c = CHR '','' then map_option (\<lambda>(ls, x). ((n, v) # ls, x)) (read_labels rest)
     else None)"
proof -
  let ?s = "n @ CHR ''='' # dquote # escapeLabel v @ dquote # c # rest"
  have "\<forall>x\<in>set n. x \<noteq> CHR ''=''" using assms by auto
  then have "takeWhile (\<lambda>c. c \<noteq> CHR ''='') ?s = n" "dropWhile (\<lambda>c. c \<noteq> CHR ''='') ?s = CHR ''='' # dquote # escapeLabel v @ dquote # c # rest"
    by (simp_all add: takeWhile_stop dropWhile_stop)
  moreover have "label_text (n, v) @ c # rest = ?s" by (simp add: label_text_def)
  ultimately show ?thesis using read_quoted_escapeLabel [of v "c # rest"] by (simp add: read_labels.simps [of ?s] Let_def)
qed

lemma read_labels_commas:
  "ls \<noteq> [] \<Longrightarrow> \<forall>(n, v)\<in>set ls. CHR ''='' \<notin> set n \<Longrightarrow>
     read_labels (commas (map label_text ls) @ CHR ''}'' # rest) = Some (ls, rest)"
proof (induction ls)
  case (Cons l ls)
  obtain n v where l: "l = (n, v)" by fastforce
  with Cons.prems have n: "CHR ''='' \<notin> set n" by auto
  show ?case
  proof (cases ls)
    case Nil
    with l read_labels_one [OF n, of v "CHR ''}''" rest] show ?thesis by simp
  next
    case (Cons m ms)
    with Cons.IH Cons.prems have "read_labels (commas (map label_text ls) @ CHR ''}'' # rest) = Some (ls, rest)" by auto
    with l Cons read_labels_one [OF n, of v "CHR '',''" "commas (map label_text ls) @ CHR ''}'' # rest"]
    show ?thesis by simp
  qed
qed simp

section \<open>Lines\<close>

fun print_line :: "exposition_line \<Rightarrow> string" where
  "print_line (HelpLine n h) = ''# HELP '' @ n @ '' '' @ escapeHelp h"
| "print_line (TypeLine n t) = ''# TYPE '' @ n @ '' '' @ t"
| "print_line (SampleLine n ls v) = n @ (if ls \<noteq> [] then ''{'' @ commas (map label_text ls) @ ''}'' else []) @ '' '' @ v"
| "print_line EofLine = ''# EOF''"

definition plain_name :: "string \<Rightarrow> bool" where
  "plain_name n \<longleftrightarrow> n \<noteq> [] \<and> (\<forall>c\<in>set n. c \<notin> {CHR '' '', CHR ''{'', CHR ''#'', CHR ''='', newline})"

fun line_ok :: "exposition_line \<Rightarrow> bool" where
  "line_ok (HelpLine n h) = plain_name n"
| "line_ok (TypeLine n t) = (plain_name n \<and> newline \<notin> set t)"
| "line_ok (SampleLine n ls v) = (plain_name n \<and> (\<forall>(a, b)\<in>set ls. plain_name a) \<and> newline \<notin> set v)"
| "line_ok EofLine = True"

lemma cut_at_space: "plain_name n \<Longrightarrow> cut_at (CHR '' '') (n @ CHR '' '' # r) = (n, r, True)"
  by (rule cut_at_append_sep) (auto simp: plain_name_def)

lemma read_sample_print:
  assumes "plain_name n" "\<forall>(a, b)\<in>set ls. plain_name a"
  shows "read_sample (print_line (SampleLine n ls v)) = Some (SampleLine n ls v)"
proof -
  let ?P = "\<lambda>c. c \<noteq> CHR ''{'' \<and> c \<noteq> CHR '' ''"
  have n: "\<forall>c\<in>set n. ?P c" using assms(1) by (auto simp: plain_name_def)
  show ?thesis
  proof (cases "ls = []")
    case True
    with n show ?thesis by (simp add: read_sample_def takeWhile_stop dropWhile_stop)
  next
    case False
    have "\<forall>(a, b)\<in>set ls. CHR ''='' \<notin> set a" using assms(2) by (auto simp: plain_name_def)
    from read_labels_commas [OF False this, of "CHR '' '' # v"] n False show ?thesis
      by (simp add: read_sample_def takeWhile_stop dropWhile_stop)
  qed
qed

lemma read_line_print: "line_ok l \<Longrightarrow> read_line (print_line l) = Some l"
proof (cases l)
  case (SampleLine n ls v)
  assume ok: "line_ok l"
  then obtain c cs where c: "n = c # cs" "c \<noteq> CHR ''#''" using SampleLine by (cases n) (auto simp: plain_name_def)
  then have "\<not> has_prefix (print_line l) ''# HELP ''" "\<not> has_prefix (print_line l) ''# TYPE ''" "print_line l \<noteq> ''# EOF''"
    using SampleLine by (auto simp: has_prefix_def)
  with ok SampleLine read_sample_print [of n ls v] show ?thesis by (simp add: read_line_def)
next
  case (HelpLine n h)
  assume "line_ok l"
  with HelpLine have "cut_at (CHR '' '') (drop 7 (print_line l)) = (n, escapeHelp h, True)" by (simp add: cut_at_space)
  with HelpLine show ?thesis by (simp add: read_line_def has_prefix_def unescape_escapeHelp)
next
  case (TypeLine n t)
  assume "line_ok l"
  with TypeLine have "cut_at (CHR '' '') (drop 7 (print_line l)) = (n, t, True)" by (simp add: cut_at_space)
  with TypeLine show ?thesis by (simp add: read_line_def has_prefix_def)
qed (simp add: read_line_def)

lemma newline_notin_commas: "newline \<notin> set (commas xs) \<longleftrightarrow> (\<forall>x\<in>set xs. newline \<notin> set x)"
  by (induction xs rule: commas.induct) auto

lemma newline_notin_line: "line_ok l \<Longrightarrow> newline \<notin> set (print_line l)"
proof (cases l)
  case (SampleLine n ls v)
  assume ok: "line_ok l"
  have "newline \<notin> set (label_text x)" if "x \<in> set ls" for x
    using ok SampleLine that newline_notin_esc by (cases x) (fastforce simp: label_text_def plain_name_def)
  then have "newline \<notin> set (commas (map label_text ls))" by (simp add: newline_notin_commas)
  with ok SampleLine show ?thesis by (simp add: plain_name_def) blast
next
  case (HelpLine n h)
  assume "line_ok l"
  then have "newline \<notin> set n" using HelpLine by (auto simp: plain_name_def)
  with HelpLine newline_notin_esc(1) [of h] show ?thesis by simp
next
  case (TypeLine n t)
  assume "line_ok l"
  then have "newline \<notin> set n" "newline \<notin> set t" using TypeLine by (auto simp: plain_name_def)
  with TypeLine show ?thesis by simp
qed simp

definition print_lines :: "exposition_line list \<Rightarrow> string" where
  "print_lines ls = concat (map (\<lambda>l. print_line l @ [newline]) ls)"

lemma print_lines_simps [simp]:
  "print_lines [] = []" "print_lines (l # ls) = print_line l @ newline # print_lines ls" "print_lines (a @ b) = print_lines a @ print_lines b"
  by (simp_all add: print_lines_def)

lemma print_lines_concat: "print_lines (concat lss) = concat (map print_lines lss)"
  by (induction lss) auto

lemma read_print_lines: "\<forall>l\<in>set ls. line_ok l \<Longrightarrow> read_exposition (print_lines ls) = Some ls"
proof (induction ls)
  case (Cons l ls)
  then have ih: "all_lines (split_on newline (print_lines ls)) = Some ls" by (simp add: read_exposition_def)
  moreover obtain m ms where "split_on newline (print_lines ls) = m # ms" by (meson list.exhaust split_on_nonempty)
  ultimately show ?case
    using Cons.prems read_line_print [of l] split_on_append_sep [OF newline_notin_line [of l], of "print_lines ls"]
    by (simp add: read_exposition_def)
qed (simp add: read_exposition_def)

end
