(* ===== verification/Exposition_Lines.thy ===== *)
theory Exposition_Lines
  imports Exposition_Reading
begin

text \<open>
  The lines the exposition consists of, application and runtime metrics, and that the encoders write
  exactly those, for every accepted snapshot and every view of the registry.
\<close>

section \<open>What the application part says\<close>

definition label_pairs :: "Label list \<Rightarrow> (string \<times> string) list" where
  "label_pairs = map (\<lambda>l. (l_name l, l_value l))"

definition series_lines :: "Family \<Rightarrow> Format \<Rightarrow> Series \<Rightarrow> exposition_line list" where
  "series_lines f format s =
     (if f_type f = Counter then [SampleLine (f_name f @ ''_total'') (label_pairs (s_labels s)) (s_value s)]
      else if f_type f = Gauge then [SampleLine (f_name f) (label_pairs (s_labels s)) (s_value s)]
      else if f_type f = Histogram then
        (case s_histogram s of
           None \<Rightarrow> []
         | Some h \<Rightarrow>
             map (\<lambda>b. SampleLine (f_name f @ ''_bucket'') (label_pairs (s_labels s) @ [(''le'', b_upper_bound b)])
               (format_uint (b_count b))) (hv_buckets h) @
             (if format \<noteq> OpenMetrics \<or> openMetricsHistogramSumAllowed h
              then [SampleLine (f_name f @ ''_sum'') (label_pairs (s_labels s)) (hv_sum h)] else []) @
             [SampleLine (f_name f @ ''_count'') (label_pairs (s_labels s)) (format_uint (hv_count h))])
      else [])"

definition family_lines :: "Format \<Rightarrow> Family \<Rightarrow> exposition_line list" where
  "family_lines format f =
     [HelpLine (app_metadata_name f format) (f_help f), TypeLine (app_metadata_name f format) (f_type f)] @
     concat (map (series_lines f format) (f_series f))"

lemma app_label_text: "map app_label ls = map label_text (label_pairs ls)"
  by (simp add: app_label_def label_text_def label_pairs_def)

lemma commas_snoc: "commas (xs @ [y]) = (if xs = [] then y else commas xs @ CHR '','' # y)"
  by (induction xs rule: commas.induct) auto

lemma writeApplicationSample_print:
  "writeApplicationSample n ls x y v =
     print_line (SampleLine n (label_pairs ls @ (if x = [] then [] else [(x, y)])) v) @ [newline]"
proof -
  have e: "label_pairs ls = [] \<longleftrightarrow> ls = []" by (simp add: label_pairs_def)
  show ?thesis
  proof (cases "x = []")
    case True
    with e show ?thesis by (simp add: writeApplicationSample_def app_label_text)
  next
    case False
    with e show ?thesis
      by (simp add: writeApplicationSample_def app_label_text commas_snoc) (simp add: label_text_def label_pairs_def)
  qed
qed

lemma print_lines_map: "print_lines (map f xs) = concat (map (\<lambda>x. print_line (f x) @ [newline]) xs)"
  by (simp add: print_lines_def comp_def)

lemma application_series_print: "application_series f format s = print_lines (series_lines f format s)"
  by (simp add: application_series_def series_lines_def writeApplicationSample_print print_lines_map
      del: print_line.simps split: option.split)

lemma writeApplicationFamily_print: "writeApplicationFamily f format = print_lines (family_lines format f)"
proof -
  have "application_series f format = (\<lambda>s. print_lines (series_lines f format s))"
    by (simp add: fun_eq_iff application_series_print)
  then show ?thesis by (simp add: writeApplicationFamily_def family_lines_def print_lines_concat comp_def Let_def)
qed

section \<open>Characters\<close>

lemma metric_name_plain: "metricNamePattern n \<Longrightarrow> plain_name n"
  by (cases n) (auto simp: plain_name_def list_all_iff is_alpha_def is_digit_def byte_in_def)

lemma label_name_plain: "labelNamePattern n \<Longrightarrow> plain_name n"
  by (cases n) (auto simp: plain_name_def list_all_iff is_alpha_def is_digit_def byte_in_def)

lemma plain_name_suffix: "plain_name n \<Longrightarrow> plain_name s \<Longrightarrow> plain_name (n @ s)"
  by (auto simp: plain_name_def)

lemma plain_suffixes: "plain_name ''_total''" "plain_name ''_bucket''" "plain_name ''_sum''" "plain_name ''_count''" "plain_name ''le''"
  by (simp_all add: plain_name_def)

lemma newline_not_numeral: "list_all numeral_char s \<Longrightarrow> newline \<notin> set s"
  by (auto simp: list_all_iff numeral_char_def is_digit_def)

lemma newline_notin_format_uint [simp]: "newline \<notin> set (format_uint w)"
  by (simp add: format_uint_def newline_not_numeral itoa_numeral)

lemma newline_notin_format_float [simp]: "newline \<notin> set (format_float x)"
  by (rule newline_not_numeral) (rule format_float_numeral)

lemmas canonical_newline = canonical_numeral [THEN newline_not_numeral]

lemma type_text: "newline \<notin> set Counter" "newline \<notin> set Gauge" "newline \<notin> set Histogram"
  by (simp_all add: Counter_def Gauge_def Histogram_def)

section \<open>Accepted families give proper lines\<close>

lemma family_ok_name: "family_ok lm f \<Longrightarrow> metricNamePattern (f_name f) \<and> \<not> has_prefix (f_name f) ''metricshell_'' \<and>
    (f_type f = Counter \<or> f_type f = Gauge \<or> f_type f = Histogram)"
  by (auto simp: family_ok_def validateFamilyMetadata_def split: if_splits)

lemma label_pairs_plain: "\<forall>l\<in>set ls. label_ok lm l \<Longrightarrow> \<forall>(a, b)\<in>set (label_pairs ls). plain_name a"
  by (auto simp: label_pairs_def label_ok_def label_name_plain)

lemma series_lines_ok:
  assumes "plain_name (f_name f)" "series_ok (f_type f) lm s"
  shows "\<forall>l\<in>set (series_lines f format s). line_ok l"
proof -
  have ls: "\<forall>(a, b)\<in>set (label_pairs (s_labels s)). plain_name a"
    by (rule label_pairs_plain [of _ lm]) (use assms(2) in \<open>simp add: series_ok_def\<close>)
  have v: "value_ok (f_type f) s" using assms(2) by (simp add: series_ok_def)
  note n = plain_name_suffix [OF assms(1)]
  show ?thesis
  proof (cases "f_type f = Histogram")
    case True
    with v obtain h where h: "s_histogram s = Some h" "canonicalPrometheusFloat (hv_sum h) = Inr (hv_sum h)"
      by (auto simp: value_ok_def histogram_ok_def)
    from canonical_newline(2) [OF h(2)] True h(1) ls n plain_suffixes show ?thesis
      by (auto simp: series_lines_def)
  next
    case False
    with v ls n plain_suffixes assms(1) show ?thesis
      by (auto simp: series_lines_def value_ok_def canonicalGauge_def canonical_newline)
  qed
qed

lemma family_lines_ok: "family_ok lm f \<Longrightarrow> \<forall>l\<in>set (family_lines format f). line_ok l"
proof -
  assume ok: "family_ok lm f"
  note n = family_ok_name [OF ok]
  have p: "plain_name (f_name f)" using n metric_name_plain by blast
  have "plain_name (app_metadata_name f format)"
    using p plain_name_suffix plain_suffixes by (simp add: app_metadata_name_def)
  moreover have "newline \<notin> set (f_type f)" using n type_text by auto
  moreover have "\<forall>s\<in>set (f_series f). series_ok (f_type f) lm s" using ok by (simp add: family_ok_def)
  ultimately show ?thesis using series_lines_ok [OF p] by (auto simp: family_lines_def)
qed


section \<open>What the self-metric part says\<close>

definition sample_lines :: "self_family \<Rightarrow> self_sample \<Rightarrow> exposition_line list" where
  "sample_lines f s =
     (if sf_type f = SelfGauge then [SampleLine (sf_name f) (sp_labels s) (format_float (sp_gauge s))]
      else if sf_type f = SelfCounter then [SampleLine (sf_name f) (sp_labels s) (format_uint (sp_counter s))]
      else case sp_histogram s of
             None \<Rightarrow> []
           | Some h \<Rightarrow>
               map (\<lambda>(bound, count). SampleLine (sf_name f @ ''_bucket'') (sp_labels s @ [(''le'', format_float bound)])
                 (format_uint count)) (sh_buckets h) @
               [SampleLine (sf_name f @ ''_bucket'') (sp_labels s @ [(''le'', ''+Inf'')]) (format_uint (sh_count h)),
                SampleLine (sf_name f @ ''_sum'') (sp_labels s) (format_float (sh_sum h)),
                SampleLine (sf_name f @ ''_count'') (sp_labels s) (format_uint (sh_count h))])"

definition self_family_lines :: "TextFormat \<Rightarrow> self_family \<Rightarrow> exposition_line list" where
  "self_family_lines format f =
     [HelpLine (self_metadata_name format f) (sf_help f), TypeLine (self_metadata_name format f) (sf_type f)] @
     concat (map (sample_lines f) (sf_samples f))"

text \<open>
  A family of a view as the registry makes it. Its name is none of those a family called
  \<^verbatim>\<open>metricshell\<close> would derive.
\<close>

definition bare_names :: "string list" where
  "bare_names = [''metricshell_total'', ''metricshell_bucket'', ''metricshell_sum'', ''metricshell_count'']"

definition view_family_ok :: "self_family \<Rightarrow> bool" where
  "view_family_ok f \<longleftrightarrow>
     metricNamePattern (sf_name f) \<and> has_prefix (sf_name f) ''metricshell_'' \<and> sf_name f \<notin> set bare_names \<and>
     (sf_type f = SelfGauge \<or> sf_type f = SelfCounter \<or> sf_type f = SelfHistogram) \<and>
     (\<forall>s\<in>set (sf_samples f). (\<forall>(a, b)\<in>set (sp_labels s). labelNamePattern a) \<and>
        (sf_type f = SelfHistogram \<longrightarrow> sp_histogram s \<noteq> None))"

lemma self_type_distinct [simp]:
  "SelfGauge \<noteq> SelfCounter" "SelfGauge \<noteq> SelfHistogram" "SelfCounter \<noteq> SelfHistogram"
  "SelfCounter \<noteq> SelfGauge" "SelfHistogram \<noteq> SelfGauge" "SelfHistogram \<noteq> SelfCounter"
  by (simp_all add: self_types)

lemma writeSample_print: "writeSample n ls v = print_line (SampleLine n ls v) @ [newline]"
proof -
  have "self_label = label_text" by (simp add: fun_eq_iff self_label_def label_text_def self_escapes)
  then show ?thesis by (simp add: writeSample_def)
qed

lemma encode_sample_print:
  assumes "sf_type f = SelfGauge \<or> sf_type f = SelfCounter \<or> sf_type f = SelfHistogram \<and> sp_histogram s \<noteq> None"
  shows "encode_sample f s = Inr (print_lines (sample_lines f s))"
proof (cases "sp_histogram s")
  case None
  with assms show ?thesis
    by (auto simp: encode_sample_def sample_lines_def writeSample_print self_formatFloat_def simp del: print_line.simps)
next
  case (Some h)
  have "concat (map (\<lambda>(bound, count). writeSample (sf_name f @ ''_bucket'') (sp_labels s @ [(''le'', self_formatFloat bound)])
      (format_uint count)) bs) =
    print_lines (map (\<lambda>(bound, count). SampleLine (sf_name f @ ''_bucket'') (sp_labels s @ [(''le'', format_float bound)])
      (format_uint count)) bs)" for bs
    by (induction bs) (auto simp: writeSample_print self_formatFloat_def simp del: print_line.simps)
  with assms Some show ?thesis
    by (auto simp: encode_sample_def sample_lines_def writeSample_print self_formatFloat_def simp del: print_line.simps)
qed

lemma encode_self_family_print:
  assumes "view_family_ok f"
  shows "encode_self_family format f = Inr (print_lines (self_family_lines format f))"
proof -
  have "\<forall>s\<in>set (sf_samples f). encode_sample f s = Inr (print_lines (sample_lines f s))"
    by (intro ballI encode_sample_print) (use assms in \<open>auto simp: view_family_ok_def\<close>)
  from map_result_map [OF this] assms show ?thesis
    by (auto simp: encode_self_family_def self_family_lines_def view_family_ok_def Let_def self_escapes print_lines_concat comp_def)
qed

lemma SelfEncode_print:
  assumes "\<forall>f\<in>set view. view_family_ok f" "format = PrometheusText \<or> format = OpenMetricsText"
  shows "SelfEncode view format =
    Inr (print_lines (concat (map (self_family_lines format) view)) @ (if format = OpenMetricsText then eof_line else []))"
proof -
  have "\<forall>f\<in>set view. encode_self_family format f = Inr (print_lines (self_family_lines format f))"
    using assms(1) encode_self_family_print by blast
  from map_result_map [OF this] assms(2) show ?thesis by (auto simp: SelfEncode_def print_lines_concat comp_def)
qed

lemma self_metadata_plain: "plain_name (sf_name f) \<Longrightarrow> has_prefix (sf_name f) ''metricshell_'' \<Longrightarrow> plain_name (self_metadata_name format f)"
proof -
  assume p: "plain_name (sf_name f)" and q: "has_prefix (sf_name f) ''metricshell_''"
  show ?thesis
  proof (cases "has_suffix (sf_name f) ''_total''")
    case True
    then obtain r where r: "sf_name f = r @ ''_total''" by (auto simp: has_suffix_iff)
    have "r \<noteq> []" using q r by (auto simp: has_prefix_def)
    with p r have "plain_name r" by (auto simp: plain_name_def)
    with r p show ?thesis by (simp add: self_metadata_name_def)
  qed (use p in \<open>simp add: self_metadata_name_def trim_suffix_def\<close>)
qed

lemma self_family_lines_ok:
  assumes "view_family_ok f"
  shows "\<forall>l\<in>set (self_family_lines format f). line_ok l"
proof -
  have p: "plain_name (sf_name f)" using assms metric_name_plain by (simp add: view_family_ok_def)
  have ty: "newline \<notin> set (sf_type f)" using assms by (auto simp: view_family_ok_def self_types)
  have ls: "\<forall>(a, b)\<in>set (sp_labels s). plain_name a" if "s \<in> set (sf_samples f)" for s
    using assms that label_name_plain unfolding view_family_ok_def by fast
  have "line_ok l" if "s \<in> set (sf_samples f)" "l \<in> set (sample_lines f s)" for s l
    using that(2) ls [OF that(1)] p plain_name_suffix [OF p] plain_suffixes
    by (auto simp: sample_lines_def split: if_splits option.splits)
  with p ty self_metadata_plain [OF p] assms show ?thesis
    by (auto simp: self_family_lines_def view_family_ok_def)
qed


section \<open>Views of the registry\<close>

definition named :: "self_registry \<Rightarrow> bool" where
  "named r \<longleftrightarrow>
     (\<forall>n\<in>set (sr_order r). \<exists>d order ls. map_of (snd (snd (shape r))) n = Some (d, order, ls) \<and> d \<in> set definitions \<and>
        (\<forall>(k, l)\<in>set ls. fst ` set l \<subseteq> set (df_label_names d)))"

lemma named_cong: "shape q = shape r \<Longrightarrow> named r \<Longrightarrow> named q"
  by (simp add: named_def) (simp add: shape_def)

lemma combinations_names: "l \<in> set (combinations names doms) \<Longrightarrow> fst ` set l \<subseteq> set names"
  by (induction names doms arbitrary: l rule: combinations.induct) (auto split: if_splits, fastforce+)

lemma new_family_names:
  assumes "d \<in> set definitions" "(k, s) \<in> set (fv_series (new_family d))"
  shows "fst ` set (sv_labels s) \<subseteq> set (df_label_names d)"
proof -
  have "validateDefinition d = None" using definitions_valid assms(1) by (auto simp: list_all_iff)
  from new_family_series [OF this] assms(2) obtain ls where "ls \<in> set (labelCombinations d)" "s = new_series d ls"
    by (auto split: if_splits)
  then show ?thesis using combinations_names by (auto simp: labelCombinations_def new_series_def)
qed

definition build_row :: definition_row where
  "build_row = mk_definition BuildInfo ''MetricShell build identity.'' SelfGauge [''version'', ''revision''] [] [] True"

lemma build_row_member: "build_row \<in> set definitions"
  by (simp add: definitions_def build_row_def)

lemma build_row_sel [simp]: "df_name build_row = BuildInfo" "df_label_names build_row = [''version'', ''revision'']"
  by (simp_all add: build_row_def mk_definition_def)

lemma row_named:
  assumes "d \<in> set definitions" "map_of (sr_families r) (df_name d) = Some f" "fv_definition f = d"
    "\<forall>(k, s)\<in>set (fv_series f). fst ` set (sv_labels s) \<subseteq> set (df_label_names d)"
  shows "\<exists>d' order ls. map_of (snd (snd (shape r))) (df_name d) = Some (d', order, ls) \<and> d' \<in> set definitions \<and>
    (\<forall>(k, l)\<in>set ls. fst ` set l \<subseteq> set (df_label_names d'))"
proof (intro exI conjI)
  show "map_of (snd (snd (shape r))) (df_name d) = Some (d, fv_order f, map (\<lambda>(k, s). (k, sv_labels s)) (fv_series f))"
    using shape_lookup [of r "df_name d"] assms(2,3) by (simp add: family_shape_def)
  show "\<forall>(k, l)\<in>set (map (\<lambda>(k, s). (k, sv_labels s)) (fv_series f)). fst ` set l \<subseteq> set (df_label_names d)"
    using assms(4) by fastforce
qed (rule assms(1))

lemma new_family_definition [simp]: "fv_definition (new_family d) = d"
  by (simp add: new_family_def Let_def)

lemma named_table:
  "named (addSpecialSeries BuildInfo [(''version'', version), (''revision'', revision)] v (table_registry now))" (is "named ?r")
proof -
  have b: "map_of table_families BuildInfo = Some (new_family build_row)" using table_lookup [OF build_row_member] by simp
  have bs: "fv_series (new_family build_row) = []" by (simp add: new_family_def)
  have "\<exists>f. map_of (sr_families ?r) (df_name d) = Some f \<and> fv_definition f = d \<and>
      (\<forall>(k, s)\<in>set (fv_series f). fst ` set (sv_labels s) \<subseteq> set (df_label_names d))" if d: "d \<in> set definitions" for d
  proof (cases "df_name d = BuildInfo")
    case True
    with d b table_lookup [OF d] have e: "new_family d = new_family build_row" by simp
    then have "d = build_row" using new_family_definition by metis
    with b bs show ?thesis by (simp add: addSpecialSeries_def table_registry_def update_conv' Let_def new_series_def)
  next
    case False
    then have "map_of (sr_families ?r) (df_name d) = Some (new_family d)"
      using table_lookup [OF d] by (simp add: addSpecialSeries_def table_registry_def update_conv' Let_def split: option.splits)
    with new_family_names [OF d] show ?thesis by auto
  qed
  with row_named [of _ ?r] have n: "\<forall>d\<in>set definitions. \<exists>d' order ls. map_of (snd (snd (shape ?r))) (df_name d) = Some (d', order, ls) \<and>
      d' \<in> set definitions \<and> (\<forall>(k, l)\<in>set ls. fst ` set l \<subseteq> set (df_label_names d'))"
    by blast
  have "sr_order ?r = map df_name definitions"
    by (simp add: addSpecialSeries_def table_registry_def Let_def split: option.splits)
  with n show ?thesis by (auto simp: named_def)
qed

lemma named_new:
  assumes "NewSelfRegistry version revision mode now = Inr r" "self_step\<^sup>*\<^sup>* r r'"
  shows "named r'"
  using assms(1)
proof (cases rule: NewSelfRegistry_Inr)
  case (1 q)
  let ?r = "addSpecialSeries BuildInfo [(''version'', version), (''revision'', revision)] f64_one (table_registry now)"
  have "shape q = shape ?r" using some_writes_keep [OF 1(1)] by blast
  moreover have "shape r = shape q" using some_writes_keep [OF 1(2)] by (simp add: setOneHot_shape)
  moreover have "shape r' = shape r" using some_writes_keep [OF self_steps_writes [OF assms(2)]] by blast
  ultimately have "shape r' = shape ?r" by simp
  from named_cong [OF this named_table] show ?thesis .
qed

lemma definitions_label_names: "\<forall>d\<in>set definitions. \<forall>n\<in>set (df_label_names d). labelNamePattern n"
  by (simp add: definitions_def mk_definition_def is_alpha_def is_digit_def byte_in_def)

lemma definitions_not_bare: "\<forall>d\<in>set definitions. df_name d \<notin> set bare_names"
  by (simp add: definitions_def mk_definition_def self_names bare_names_def)

lemma validDefinition_name:
  "validateDefinition d = None \<Longrightarrow> metricNamePattern (df_name d) \<and> has_prefix (df_name d) ''metricshell_'' \<and>
     (df_type d = SelfGauge \<or> df_type d = SelfCounter \<or> df_type d = SelfHistogram)"
  by (auto simp: validateDefinition_def split: if_splits)

lemma View_ok:
  assumes "named r"
  shows "\<forall>f\<in>set (View now r). view_family_ok f"
proof
  fix vf
  assume "vf \<in> set (View now r)"
  then obtain n where n: "n \<in> set (sr_order r)" and vf: "vf = (case map_of (sr_families r) n of
            None \<Rightarrow> \<lparr>sf_name = [], sf_help = [], sf_type = [], sf_samples = []\<rparr>
          | Some f \<Rightarrow>
              \<lparr>sf_name = df_name (fv_definition f), sf_help = df_help (fv_definition f), sf_type = df_type (fv_definition f),
               sf_samples = List.map_filter (\<lambda>k. map_option (view_sample n (now - sr_started r) (fv_definition f))
                 (map_of (fv_series f) k)) (fv_order f)\<rparr>)"
    by (auto simp: View_def)
  obtain d order ls where "map_of (snd (snd (shape r))) n = Some (d, order, ls)" and d: "d \<in> set definitions"
    and l: "\<forall>(k, l)\<in>set ls. fst ` set l \<subseteq> set (df_label_names d)"
    using assms n unfolding named_def by blast
  then obtain f where f: "map_of (sr_families r) n = Some f" "fv_definition f = d"
    "ls = map (\<lambda>(k, s). (k, sv_labels s)) (fv_series f)"
    using shape_lookup [of r n] by (auto simp: family_shape_def)
  have names: "labelNamePattern a" if "map_of (fv_series f) k = Some s" "(a, b) \<in> set (sv_labels s)" for k s a b
  proof -
    from map_of_SomeD [OF that(1)] f(3) have "(k, sv_labels s) \<in> set ls" by force
    with l that(2) have "a \<in> set (df_label_names d)" by force
    with d definitions_label_names show ?thesis by blast
  qed
  have "validateDefinition d = None" using definitions_valid d by (auto simp: list_all_iff)
  note v = validDefinition_name [OF this]
  have "view_family_ok \<lparr>sf_name = df_name d, sf_help = df_help d, sf_type = df_type d,
      sf_samples = List.map_filter (\<lambda>k. map_option (view_sample n (now - sr_started r) d) (map_of (fv_series f) k)) (fv_order f)\<rparr>"
    using v names definitions_not_bare d by (auto simp: view_family_ok_def List.map_filter_def view_sample_def)
  with vf f show "view_family_ok vf" by simp
qed

end
