(* ===== verification/Exposition_Properties.thy ===== *)
theory Exposition_Properties
  imports Exposition_Lines
begin

text \<open>
  What a scraper can rely on: the text reads back as the lines of the passing families and the runtime
  metrics, and no sample occurs twice.
\<close>

section \<open>The whole text\<close>

definition exposition_lines :: "Format \<Rightarrow> Family list \<Rightarrow> self_family list \<Rightarrow> exposition_line list" where
  "exposition_lines format families view =
     concat (map (family_lines format) families) @ concat (map (self_family_lines format) view) @
     (if format = OpenMetrics then [EofLine] else [])"

lemma formats: "PrometheusText = Prometheus" "OpenMetricsText = OpenMetrics" "Prometheus \<noteq> OpenMetrics"
  by (simp_all add: PrometheusText_def Prometheus_def OpenMetricsText_def OpenMetrics_def)

lemma exposition_Encode_print:
  assumes "\<forall>f\<in>set view. view_family_ok f" "format = Prometheus \<or> format = OpenMetrics"
  shows "exposition_Encode v view (Some p) format = Inr (print_lines (exposition_lines format (filter p (v_families v)) view))"
proof -
  have "SelfEncode view format =
    Inr (print_lines (concat (map (self_family_lines format) view)) @ (if format = OpenMetricsText then eof_line else []))"
    using assms formats by (intro SelfEncode_print) auto
  moreover have "selfMetricFormat format = Inr format" using assms(2) formats by (auto simp: selfMetricFormat_def)
  moreover have "(\<lambda>f. writeApplicationFamily f format) = (\<lambda>f. print_lines (family_lines format f))"
    by (simp add: fun_eq_iff writeApplicationFamily_print)
  ultimately show ?thesis
    using formats by (auto simp: exposition_Encode_def exposition_lines_def print_lines_concat comp_def Let_def eof_line_def)
qed

lemma exposition_lines_ok:
  assumes "\<forall>f\<in>set families. family_ok lm f" "\<forall>f\<in>set view. view_family_ok f"
  shows "\<forall>l\<in>set (exposition_lines format families view). line_ok l"
  using family_lines_ok assms(1) self_family_lines_ok assms(2) unfolding exposition_lines_def by fastforce

text \<open>What can be exposed: nothing yet, or an accepted snapshot.\<close>

definition exposable :: "ValidatedSnapshot \<Rightarrow> bool" where
  "exposable v \<longleftrightarrow> v = Zero \<or> (\<exists>candidate lm. Validate candidate lm = Inr v)"

lemma exposable_ok:
  assumes "exposable v"
  obtains lm where "\<forall>f\<in>set (v_families v). family_ok lm f" "sorted_wrt (\<lambda>f g. f_name f < f_name g) (v_families v)"
    "pairwise (\<lambda>f g. set (encodedSampleNames (f_name f) (f_type f)) \<inter> set (encodedSampleNames (f_name g) (f_type g)) = {})
       (set (v_families v))"
  using assms unfolding exposable_def
proof
  assume "v = Zero"
  then show thesis by (intro that) (auto simp: Zero_def)
next
  assume "\<exists>candidate lm. Validate candidate lm = Inr v"
  then obtain candidate lm where "Validate candidate lm = Inr v" by blast
  from Validate_sound [OF this] show thesis by (intro that [of lm]) (auto simp: snapshot_ok_def)
qed

section \<open>No sample twice\<close>

fun sample_key :: "exposition_line \<Rightarrow> (string \<times> (string \<times> string) list) list" where
  "sample_key (SampleLine n ls v) = [(n, ls)]"
| "sample_key _ = []"

definition sample_keys :: "exposition_line list \<Rightarrow> (string \<times> (string \<times> string) list) list" where
  "sample_keys ls = concat (map sample_key ls)"

lemma sample_keys_simps [simp]:
  "sample_keys [] = []" "sample_keys (l # ls) = sample_key l @ sample_keys ls" "sample_keys (a @ b) = sample_keys a @ sample_keys b"
  "sample_keys (concat lss) = concat (map sample_keys lss)"
  by (simp_all add: sample_keys_def) (induction lss; simp add: sample_keys_def)

lemma label_pairs_inject: "label_pairs ls = label_pairs ms \<longleftrightarrow> ls = ms"
  unfolding label_pairs_def by (rule inj_map_eq_map) (auto intro!: injI)

lemma sample_keys_buckets: "sample_keys (map (\<lambda>b. SampleLine n (ls @ [(''le'', g b)]) (w b)) bs) = map (\<lambda>b. (n, ls @ [(''le'', g b)])) bs"
  by (induction bs) auto

lemma buckets_distinct: "buckets_ok bs \<Longrightarrow> distinct (map b_upper_bound bs)"
proof (induction bs)
  case (Cons b bs)
  have "b_upper_bound b \<notin> set (map b_upper_bound bs)"
  proof
    assume "b_upper_bound b \<in> set (map b_upper_bound bs)"
    then obtain c where "c \<in> set bs" "b_upper_bound c = b_upper_bound b" by auto
    with Cons.prems have "f64_less (bound_value (b_upper_bound b)) (bound_value (b_upper_bound b))"
      by (auto simp: buckets_ok_def)
    then show False by (cases "bound_value (b_upper_bound b)") (auto simp: f64_less_def)
  qed
  with Cons show ?case by (auto simp: buckets_ok_def)
qed simp

lemma series_keys:
  "set (sample_keys (series_lines f format s)) \<subseteq>
     {(n, ls). n \<in> set (encodedSampleNames (f_name f) (f_type f)) \<and>
        (ls = label_pairs (s_labels s) \<or> (\<exists>b. ls = label_pairs (s_labels s) @ [(''le'', b)]) \<and> f_type f = Histogram)}"
  by (auto simp: series_lines_def encodedSampleNames_def sample_keys_buckets split: option.splits if_splits)

lemma series_keys_distinct:
  assumes "series_ok (f_type f) lm s"
  shows "distinct (sample_keys (series_lines f format s))"
proof (cases "f_type f = Histogram")
  case True
  with assms obtain h where h: "s_histogram s = Some h" "buckets_ok (hv_buckets h)"
    by (auto simp: series_ok_def value_ok_def histogram_ok_def)
  have "distinct (map (\<lambda>b. (f_name f @ ''_bucket'', label_pairs (s_labels s) @ [(''le'', b_upper_bound b)])) (hv_buckets h))"
    using buckets_distinct [OF h(2)] by (auto simp: distinct_map inj_on_def)
  with True h(1) show ?thesis by (auto simp: series_lines_def sample_keys_buckets)
qed (auto simp: series_lines_def)

lemma distinct_concat_map:
  "\<forall>x\<in>set xs. distinct (g x) \<Longrightarrow> sorted_wrt (\<lambda>x y. set (g x) \<inter> set (g y) = {}) xs \<Longrightarrow> distinct (concat (map g xs))"
  by (induction xs) auto

lemma series_keys_apart:
  assumes "series_ok (f_type f) lm s" "series_ok (f_type f) lm t" "s_labels s \<noteq> s_labels t"
  shows "set (sample_keys (series_lines f format s)) \<inter> set (sample_keys (series_lines f format t)) = {}"
proof (rule ccontr)
  assume "set (sample_keys (series_lines f format s)) \<inter> set (sample_keys (series_lines f format t)) \<noteq> {}"
  then obtain n ls where k: "(n, ls) \<in> set (sample_keys (series_lines f format s))" "(n, ls) \<in> set (sample_keys (series_lines f format t))"
    by fastforce
  let ?s = "label_pairs (s_labels s)" and ?t = "label_pairs (s_labels t)"
  have le: "f_type f = Histogram \<Longrightarrow> ''le'' \<notin> fst ` set ?s" "f_type f = Histogram \<Longrightarrow> ''le'' \<notin> fst ` set ?t"
    using assms(1,2) by (auto simp: series_ok_def value_ok_def label_pairs_def)
  have c: "ls = ?s \<or> (\<exists>b. ls = ?s @ [(''le'', b)]) \<and> f_type f = Histogram" "ls = ?t \<or> (\<exists>b. ls = ?t @ [(''le'', b)]) \<and> f_type f = Histogram"
    using series_keys [of f format s] series_keys [of f format t] k by auto
  then have "?s = ?t" using le by (metis append1_eq_conv fst_conv image_eqI in_set_conv_decomp)
  with assms(3) show False by (simp add: label_pairs_inject)
qed

lemma family_keys_names:
  "set (sample_keys (family_lines format f)) \<subseteq> {(n, ls). n \<in> set (encodedSampleNames (f_name f) (f_type f))}"
  using series_keys [of f format] by (fastforce simp: family_lines_def)

lemma family_keys_distinct:
  assumes "family_ok lm f"
  shows "distinct (sample_keys (family_lines format f))"
proof -
  have ok: "\<forall>s\<in>set (f_series f). series_ok (f_type f) lm s" and
    so: "sorted_wrt (\<lambda>s t. identity_of s < identity_of t) (f_series f)" using assms by (auto simp: family_ok_def)
  from so have "sorted_wrt (\<lambda>s t. set (sample_keys (series_lines f format s)) \<inter> set (sample_keys (series_lines f format t)) = {}) (f_series f)"
  proof (rule sorted_wrt_mono_rel [rotated])
    fix s t
    assume "s \<in> set (f_series f)" "t \<in> set (f_series f)" "identity_of s < identity_of t"
    with ok show "set (sample_keys (series_lines f format s)) \<inter> set (sample_keys (series_lines f format t)) = {}"
      by (intro series_keys_apart [where lm = lm]) auto
  qed
  with ok show ?thesis unfolding family_lines_def
    by (simp add: comp_def) (rule distinct_concat_map, auto intro: series_keys_distinct)
qed

lemma families_keys_distinct:
  assumes "\<forall>f\<in>set fs. family_ok lm f" "sorted_wrt (\<lambda>f g. f_name f < f_name g) fs"
    "pairwise (\<lambda>f g. set (encodedSampleNames (f_name f) (f_type f)) \<inter> set (encodedSampleNames (f_name g) (f_type g)) = {}) (set fs)"
  shows "distinct (sample_keys (concat (map (family_lines format) fs)))"
proof -
  from assms(2) have "sorted_wrt (\<lambda>f g. set (sample_keys (family_lines format f)) \<inter> set (sample_keys (family_lines format g)) = {}) fs"
  proof (rule sorted_wrt_mono_rel [rotated])
    fix f g
    assume fg: "f \<in> set fs" "g \<in> set fs" "f_name f < f_name g"
    then have "f \<noteq> g" by auto
    with fg assms(3) have "set (encodedSampleNames (f_name f) (f_type f)) \<inter> set (encodedSampleNames (f_name g) (f_type g)) = {}"
      by (auto simp: pairwise_def)
    with family_keys_names [of format f] family_keys_names [of format g]
    show "set (sample_keys (family_lines format f)) \<inter> set (sample_keys (family_lines format g)) = {}" by blast
  qed
  with assms(1) show ?thesis by (simp add: comp_def) (rule distinct_concat_map, auto intro: family_keys_distinct)
qed

text \<open>
  A name derived from a family's name has the reserved prefix only for the family
  \<^verbatim>\<open>metricshell\<close> itself.
\<close>

lemma derived_prefix:
  assumes "has_prefix (n @ suffix) ''metricshell_''" "\<not> has_prefix n ''metricshell_''"
    "suffix \<in> {[], ''_total'', ''_bucket'', ''_sum'', ''_count''}"
  shows "n = ''metricshell'' \<and> suffix \<noteq> []"
proof -
  from assms(1) obtain r where "n @ suffix = ''metricshell_'' @ r" by (auto simp: has_prefix_iff)
  then consider us where "n = ''metricshell_'' @ us" | us where "n @ us = ''metricshell_''" "suffix = us @ r"
    unfolding append_eq_append_conv2 by blast
  then show ?thesis
  proof cases
    case 1
    with assms(2) show ?thesis by (simp add: has_prefix_iff)
  next
    case (2 us)
    have "us \<noteq> []" using 2(1) assms(2) by (auto simp: has_prefix_iff)
    then obtain us' where us: "us = CHR ''_'' # us'" using 2(2) assms(3) by (cases us) auto
    have "''metricshell'' @ CHR ''_'' # [] = n @ CHR ''_'' # us'" using 2(1) us by simp
    from append_Cons_eq_iff [of "CHR ''_''" "''metricshell''" "[]" n us', THEN iffD1, OF _ _ this] 2(2) us
    show ?thesis by simp
  qed
qed

lemma family_key_names:
  assumes "family_ok lm f" "(n, ls) \<in> set (sample_keys (family_lines format f))"
  shows "\<not> has_prefix n ''metricshell_'' \<or> n \<in> set bare_names"
proof -
  have p: "\<not> has_prefix (f_name f) ''metricshell_''" using family_ok_name [OF assms(1)] by auto
  have "n \<in> set (encodedSampleNames (f_name f) (f_type f))" using family_keys_names assms(2) by blast
  then obtain suffix where s: "n = f_name f @ suffix" "suffix \<in> {[], ''_total'', ''_bucket'', ''_sum'', ''_count''}"
    by (auto simp: encodedSampleNames_def split: if_splits)
  with derived_prefix [OF _ p s(2)] show ?thesis by (auto simp: bare_names_def)
qed

lemma self_key_names:
  assumes "view_family_ok f" "(n, ls) \<in> set (sample_keys (self_family_lines format f))"
  shows "has_prefix n ''metricshell_'' \<and> n \<notin> set bare_names"
proof -
  obtain r where r: "sf_name f = ''metricshell_'' @ r" "sf_name f \<notin> set bare_names"
    using assms(1) by (auto simp: view_family_ok_def has_prefix_iff)
  from assms(2) obtain s where "(n, ls) \<in> set (sample_keys (sample_lines f s))" by (auto simp: self_family_lines_def)
  then have "n = sf_name f \<or> n = sf_name f @ ''_bucket'' \<or> n = sf_name f @ ''_sum'' \<or> n = sf_name f @ ''_count''"
    by (auto simp: sample_lines_def sample_keys_def split: option.splits if_splits)
  then consider "n = sf_name f" | suffix where "n = ''metricshell_'' @ r @ suffix" "CHR ''_'' \<in> set suffix" using r(1) by auto
  then show ?thesis
  proof cases
    case 1
    with r show ?thesis by (simp add: has_prefix_def)
  next
    case 2
    then have u: "CHR ''_'' \<in> set (r @ suffix)" by simp
    have "r @ suffix \<noteq> ''total'' \<and> r @ suffix \<noteq> ''bucket'' \<and> r @ suffix \<noteq> ''sum'' \<and> r @ suffix \<noteq> ''count''"
    proof -
      have "\<forall>w\<in>{''total'', ''bucket'', ''sum'', ''count''}. CHR ''_'' \<notin> set w" by simp
      with u show ?thesis by blast
    qed
    with 2 show ?thesis by (simp add: bare_names_def has_prefix_def)
  qed
qed

section \<open>Properties\<close>

text \<open>
  C29: A scrape reads exactly the metrics. For every snapshot that can be active, every filter, both
  formats and every state of the runtime's own metrics, encoding succeeds, and reading the text line
  by line gives the help, type and sample lines of the passing families in order, then those of the
  runtime metrics, and the end marker in OpenMetrics: no help text or label value, whatever bytes it
  has, can add, hide or change a line.
\<close>

theorem exposition_reads_back:
  assumes "exposable v" "NewSelfRegistry version revision mode start = Inr r" "self_step\<^sup>*\<^sup>* r r'"
    "format = Prometheus \<or> format = OpenMetrics"
  shows "\<exists>text. exposition_Encode v (View now r') (Some (Includes flt)) format = Inr text \<and>
    read_exposition text = Some (exposition_lines format (filter (Includes flt) (v_families v)) (View now r'))"
proof -
  obtain lm where ok: "\<forall>f\<in>set (v_families v). family_ok lm f" using exposable_ok [OF assms(1)] by blast
  have view: "\<forall>f\<in>set (View now r'). view_family_ok f" by (rule View_ok) (rule named_new [OF assms(2,3)])
  have "\<forall>l\<in>set (exposition_lines format (filter (Includes flt) (v_families v)) (View now r')). line_ok l"
    by (rule exposition_lines_ok [OF _ view]) (use ok in auto)
  with exposition_Encode_print [OF view assms(4)] read_print_lines show ?thesis by blast
qed

theorem exposition_reads_back_witness:
  "\<exists>r text. NewSelfRegistry ''1.0'' ''abc'' ''scrapes'' 0 = Inr r \<and>
     exposition_Encode sample_validated (View 0 r) (Some (Includes \<lparr>flt_include = [], flt_exclude = []\<rparr>)) OpenMetrics = Inr text \<and>
     read_exposition text \<noteq> None"
proof -
  have "''scrapes'' \<in> set FinalWaitModes" by (simp add: FinalWaitModes_def)
  then obtain r where r: "NewSelfRegistry ''1.0'' ''abc'' ''scrapes'' 0 = Inr r" using NewSelfRegistry_total by blast
  have "exposable sample_validated" using sample_accepted by (auto simp: exposable_def)
  from exposition_reads_back [OF this r rtranclp.rtrancl_refl, of OpenMetrics 0 "\<lparr>flt_include = [], flt_exclude = []\<rparr>"] r
  show ?thesis by auto
qed

text \<open>
  C30: No application sample is exposed twice: among all samples of the families that pass, name and
  labels together occur once, bucket boundaries included, and none of them is a sample of the runtime's
  own metrics.
\<close>

theorem exposition_samples_unique:
  assumes "exposable v" "NewSelfRegistry version revision mode start = Inr r" "self_step\<^sup>*\<^sup>* r r'"
  shows "distinct (sample_keys (concat (map (family_lines format) (filter p (v_families v))))) \<and>
    fst ` set (sample_keys (concat (map (family_lines format) (filter p (v_families v))))) \<inter>
    fst ` set (sample_keys (concat (map (self_family_lines format) (View now r')))) = {}"
proof -
  obtain lm where ok: "\<forall>f\<in>set (v_families v). family_ok lm f"
    and so: "sorted_wrt (\<lambda>f g. f_name f < f_name g) (v_families v)"
    and apart: "pairwise (\<lambda>f g. set (encodedSampleNames (f_name f) (f_type f)) \<inter> set (encodedSampleNames (f_name g) (f_type g)) = {})
       (set (v_families v))"
    using exposable_ok [OF assms(1)] by blast
  have view: "\<forall>f\<in>set (View now r'). view_family_ok f" by (rule View_ok) (rule named_new [OF assms(2,3)])
  have "distinct (sample_keys (concat (map (family_lines format) (filter p (v_families v)))))"
    by (rule families_keys_distinct [where lm = lm]) (use ok so apart in \<open>auto simp: sorted_wrt_filter pairwise_def\<close>)
  moreover have "\<not> has_prefix n ''metricshell_'' \<or> n \<in> set bare_names"
    if "n \<in> fst ` set (sample_keys (concat (map (family_lines format) (filter p (v_families v)))))" for n
    using that family_key_names ok by (auto simp del: sample_keys_simps(1-3))
  moreover have "has_prefix n ''metricshell_'' \<and> n \<notin> set bare_names"
    if "n \<in> fst ` set (sample_keys (concat (map (self_family_lines format) (View now r'))))" for n
    using that self_key_names view by (auto simp del: sample_keys_simps(1-3))
  ultimately show ?thesis by blast
qed

theorem exposition_samples_unique_witness:
  "distinct (sample_keys (concat (map (family_lines Prometheus) (v_families sample_validated))))"
proof -
  have "''scrapes'' \<in> set FinalWaitModes" by (simp add: FinalWaitModes_def)
  then obtain r where r: "NewSelfRegistry ''1.0'' ''abc'' ''scrapes'' 0 = Inr r" using NewSelfRegistry_total by blast
  have "exposable sample_validated" using sample_accepted by (auto simp: exposable_def)
  from exposition_samples_unique [OF this r rtranclp.rtrancl_refl, of Prometheus "\<lambda>_. True"] show ?thesis by simp
qed

definition reserved_candidate :: CandidateSnapshot where
  "reserved_candidate = NewCandidate 1
     [\<lparr>if_name = ''metricshell'', if_help = [], if_type = Counter, if_series =
         [\<lparr>is_labels = [], is_value = ''+Inf'', is_histogram = None\<rparr>]\<rparr>] 100"

text \<open>
  The reservation of the prefix \<^verbatim>\<open>metricshell_\<close> covers family names only: a counter
  called \<^verbatim>\<open>metricshell\<close> is accepted, and the application then exposes the sample
  \<^verbatim>\<open>metricshell_total\<close>, whose name has the reserved prefix.
\<close>

theorem derived_reserved_name_accepted:
  "\<exists>v. Validate reserved_candidate DefaultLimits = Inr v \<and>
     (''metricshell_total'', []) \<in> set (sample_keys (concat (map (family_lines Prometheus) (v_families v)))) \<and>
     has_prefix ''metricshell_total'' ''metricshell_''"
proof -
  have "\<not> isl (Validate reserved_candidate DefaultLimits)" by code_simp
  then obtain v where v: "Validate reserved_candidate DefaultLimits = Inr v"
    by (cases "Validate reserved_candidate DefaultLimits") auto
  have "map_sum (\<lambda>_. ()) v_families (Validate reserved_candidate DefaultLimits) =
      Inr [\<lparr>f_name = ''metricshell'', f_help = [], f_type = Counter, f_series =
        [\<lparr>s_labels = [], s_value = ''+Inf'', s_histogram = None\<rparr>]\<rparr>]" by code_simp
  then have "v_families v = [\<lparr>f_name = ''metricshell'', f_help = [], f_type = Counter, f_series =
        [\<lparr>s_labels = [], s_value = ''+Inf'', s_histogram = None\<rparr>]\<rparr>]" using v by simp
  with v show ?thesis by (auto simp: family_lines_def series_lines_def label_pairs_def has_prefix_def)
qed

end
