(* ===== verification/Shutdown_Budget.thy ===== *)
theory Shutdown_Budget
  imports Prelude
begin

text \<open>
  The shutdown budget (\<^verbatim>\<open>internal/shutdown/budget.go\<close>): how the total grace is divided
  between the workload and the reserve, and the deadlines of the phases.

  Instants are integers (nanoseconds), durations the integers of a signed 64-bit word: the
  difference of two instants saturates at its bounds, as \<^verbatim>\<open>Time.Sub\<close> does, and a difference of
  durations wraps. The zero \<^verbatim>\<open>Deadline\<close> of a configuration is \<open>None\<close>.
\<close>

section \<open>Model\<close>

definition int64_max :: int where "int64_max = 2 ^ 63 - 1"
definition int64_min :: int where "int64_min = - (2 ^ 63)"

definition dur_wrap :: "int \<Rightarrow> int" where
  "dur_wrap x = (x + 2 ^ 63) mod 2 ^ 64 - 2 ^ 63"

definition time_sub :: "int \<Rightarrow> int \<Rightarrow> int" where
  "time_sub t u = max int64_min (min int64_max (t - u))"

definition millisecond :: int where "millisecond = 1000000"
definition second :: int where "second = 1000 * millisecond"
definition minute :: int where "minute = 60 * second"
definition hour :: int where "hour = 60 * minute"

lemmas dur_defs = millisecond_def second_def minute_def hour_def int64_max_def int64_min_def

datatype Phase = SignalForwarding | WorkloadGrace | Finalization | HTTPDrain | ForcedCleanup

fun phase_string :: "Phase \<Rightarrow> string" where
  "phase_string SignalForwarding = ''signal_forwarding''"
| "phase_string WorkloadGrace = ''workload_grace''"
| "phase_string Finalization = ''finalization''"
| "phase_string HTTPDrain = ''http_drain''"
| "phase_string ForcedCleanup = ''forced_cleanup''"

definition Phases :: "Phase list" where
  "Phases = [SignalForwarding, WorkloadGrace, Finalization, HTTPDrain, ForcedCleanup]"

datatype CompletionReason = Completed | DeadlineExhausted | Cancelled

record budget_config =
  bc_total_grace :: int
  bc_workload_timeout :: int
  bc_reserve :: int
  bc_deadline :: "int option"

definition budget_defaults :: budget_config where
  "budget_defaults =
     \<lparr>bc_total_grace = 30 * second, bc_workload_timeout = 28 * second, bc_reserve = 2 * second, bc_deadline = None\<rparr>"

datatype budget_error = TotalGraceRange | WorkloadTimeoutRange | ReserveRange | BudgetExceeded | DeadlinePast

definition budget_validate :: "budget_config \<Rightarrow> int \<Rightarrow> budget_error option" where
  "budget_validate c now =
     (if bc_total_grace c < second \<or> bc_total_grace c > hour then Some TotalGraceRange
      else if bc_workload_timeout c < 0 \<or> bc_workload_timeout c > hour then Some WorkloadTimeoutRange
      else if bc_reserve c < 250 * millisecond \<or> bc_reserve c > minute then Some ReserveRange
      else if bc_workload_timeout c > dur_wrap (bc_total_grace c - bc_reserve c) then Some BudgetExceeded
      else case bc_deadline c of
             None \<Rightarrow> None
           | Some d \<Rightarrow> if \<not> d > now then Some DeadlinePast else None)"

record Plan =
  bp_started_at :: int
  bp_deadline :: int
  bp_workload_deadline :: int
  bp_workload_budget :: int
  bp_reserve :: int

definition Resolve :: "budget_config \<Rightarrow> int \<Rightarrow> Plan" where
  "Resolve c now =
     (let deadline = (case bc_deadline c of None \<Rightarrow> now + bc_total_grace c | Some d \<Rightarrow> now + time_sub d now);
          remaining = max (time_sub deadline now) 0;
          budget = (if remaining > bc_reserve c
                    then min (bc_workload_timeout c) (dur_wrap (remaining - bc_reserve c)) else 0)
      in \<lparr>bp_started_at = now, bp_deadline = deadline, bp_workload_deadline = now + budget,
          bp_workload_budget = budget, bp_reserve = min (bc_reserve c) remaining\<rparr>)"

definition Remaining :: "Plan \<Rightarrow> int \<Rightarrow> int" where
  "Remaining plan now = max (time_sub (bp_deadline plan) now) 0"

definition minTime :: "int \<Rightarrow> int \<Rightarrow> int" where
  "minTime left right = (if left < right then left else right)"

definition knownPhase :: "string \<Rightarrow> bool" where
  "knownPhase v \<longleftrightarrow> v \<in> set (map phase_string Phases)"

datatype phase_error = UnknownPhase | NegativeDuration

text \<open>\<^verbatim>\<open>PhaseContext\<close>: the deadline the context gets, besides its parent's.\<close>

definition PhaseDeadline :: "Plan \<Rightarrow> string \<Rightarrow> int \<Rightarrow> int \<Rightarrow> phase_error + int" where
  "PhaseDeadline plan phase requested now =
     (if \<not> knownPhase phase then Inl UnknownPhase
      else if requested < 0 then Inl NegativeDuration
      else
        let deadline = bp_deadline plan;
            deadline = (if phase = phase_string SignalForwarding \<or> phase = phase_string WorkloadGrace
                        then minTime deadline (bp_workload_deadline plan) else deadline)
        in Inr (minTime deadline (now + requested)))"

datatype ctx_error = Ctx_None | Ctx_Canceled | Ctx_DeadlineExceeded | Ctx_Other

definition completion_reason :: "Plan \<Rightarrow> int \<Rightarrow> ctx_error \<Rightarrow> CompletionReason" where
  "completion_reason plan now err =
     (if err = Ctx_Canceled then Cancelled
      else if \<not> now < bp_deadline plan \<or> err = Ctx_DeadlineExceeded then DeadlineExhausted
      else Completed)"

section \<open>Facts\<close>

lemma dur_wrap_id: "- (2 ^ 63) \<le> x \<Longrightarrow> x < 2 ^ 63 \<Longrightarrow> dur_wrap x = x"
  by (simp add: dur_wrap_def)

lemma time_sub_range: "int64_min \<le> time_sub t u \<and> time_sub t u \<le> int64_max"
  by (simp add: time_sub_def int64_min_def int64_max_def)

lemma time_sub_shift: "- (2 ^ 63) \<le> x \<Longrightarrow> x < 2 ^ 63 \<Longrightarrow> time_sub (t + x) t = x"
  by (simp add: time_sub_def int64_min_def int64_max_def)

lemma minTime_min: "minTime a b = min a b"
  by (simp add: minTime_def)

lemma validated:
  assumes "budget_validate c now = None"
  shows "second \<le> bc_total_grace c" "bc_total_grace c \<le> hour" "0 \<le> bc_workload_timeout c"
    "250 * millisecond \<le> bc_reserve c" "bc_reserve c \<le> minute"
    "bc_workload_timeout c \<le> bc_total_grace c - bc_reserve c" "\<forall>d. bc_deadline c = Some d \<longrightarrow> now < d"
proof -
  from assms show 1: "second \<le> bc_total_grace c" "bc_total_grace c \<le> hour" "0 \<le> bc_workload_timeout c"
    "250 * millisecond \<le> bc_reserve c" "bc_reserve c \<le> minute" "\<forall>d. bc_deadline c = Some d \<longrightarrow> now < d"
    by (auto simp: budget_validate_def split: if_splits option.splits)
  then have "dur_wrap (bc_total_grace c - bc_reserve c) = bc_total_grace c - bc_reserve c"
    by (intro dur_wrap_id) (simp_all add: dur_defs)
  with assms show "bc_workload_timeout c \<le> bc_total_grace c - bc_reserve c"
    by (auto simp: budget_validate_def split: if_splits)
qed

text \<open>What is left at the start, and the plan in terms of it.\<close>

definition left :: "budget_config \<Rightarrow> int \<Rightarrow> int" where
  "left c now = (case bc_deadline c of None \<Rightarrow> bc_total_grace c | Some d \<Rightarrow> min int64_max (d - now))"

lemma left_bounds:
  assumes "budget_validate c now = None"
  shows "0 < left c now \<and> left c now \<le> int64_max"
  using validated [OF assms] by (auto simp: left_def dur_defs split: option.splits)

lemma Resolve_left:
  assumes "budget_validate c now = None"
  shows "Resolve c now =
    \<lparr>bp_started_at = now, bp_deadline = now + left c now,
     bp_workload_deadline = now + max 0 (min (bc_workload_timeout c) (left c now - bc_reserve c)),
     bp_workload_budget = max 0 (min (bc_workload_timeout c) (left c now - bc_reserve c)),
     bp_reserve = min (bc_reserve c) (left c now)\<rparr>"
proof -
  note v = validated [OF assms] and l = left_bounds [OF assms]
  have d: "(case bc_deadline c of None \<Rightarrow> now + bc_total_grace c | Some d \<Rightarrow> now + time_sub d now) = now + left c now"
    using v by (auto simp: left_def time_sub_def dur_defs split: option.splits)
  have s: "time_sub (now + left c now) now = left c now"
    by (rule time_sub_shift) (use l in \<open>simp_all add: int64_max_def\<close>)
  have w: "dur_wrap (left c now - bc_reserve c) = left c now - bc_reserve c"
    by (rule dur_wrap_id) (use l v in \<open>simp_all add: dur_defs\<close>)
  show ?thesis unfolding Resolve_def d Let_def s using l v w by (auto simp: dur_defs)
qed

section \<open>Properties\<close>

text \<open>
  C25: The plan of a valid configuration never overspends: the workload gets at most its timeout and
  leaves the reserve inside what remains until the deadline, whatever the distance to an absolute
  deadline; without one, the workload gets its whole timeout and the whole reserve is left.
\<close>

theorem budget_never_overspent:
  assumes "budget_validate c now = None"
  shows "let p = Resolve c now in
    0 \<le> bp_workload_budget p \<and> bp_workload_budget p \<le> bc_workload_timeout c \<and>
    bp_workload_budget p + bp_reserve p \<le> bp_deadline p - now \<and>
    bp_started_at p \<le> bp_workload_deadline p \<and> bp_workload_deadline p \<le> bp_deadline p \<and>
    Remaining p now = bp_deadline p - now \<and>
    (bc_deadline c = None \<longrightarrow> bp_workload_budget p = bc_workload_timeout c \<and> bp_reserve p = bc_reserve c)"
proof -
  note v = validated [OF assms] and l = left_bounds [OF assms]
  have "time_sub (now + left c now) now = left c now"
    by (rule time_sub_shift) (use l in \<open>simp_all add: int64_max_def\<close>)
  moreover have "bc_deadline c = None \<Longrightarrow> left c now = bc_total_grace c" by (simp add: left_def)
  ultimately show ?thesis
    using v l by (auto simp: Resolve_left [OF assms] Let_def Remaining_def dur_defs)
qed

theorem budget_never_overspent_witness:
  "let p = Resolve budget_defaults 0 in bp_workload_budget p + bp_reserve p \<le> bp_deadline p \<and>
     bp_workload_budget p = 28 * second"
proof -
  have "budget_validate budget_defaults 0 = None"
    by (simp add: budget_validate_def budget_defaults_def dur_defs dur_wrap_def)
  from budget_never_overspent [OF this] show ?thesis
    by (simp add: Let_def) (simp add: budget_defaults_def)
qed

text \<open>Phases one after the other, each ending at the latest when its own deadline says.\<close>

fun run_phases :: "Plan \<Rightarrow> (Phase \<times> int \<times> int) list \<Rightarrow> int \<Rightarrow> bool" where
  "run_phases plan [] now = True"
| "run_phases plan ((phase, requested, finish) # rest) now =
     (case PhaseDeadline plan (phase_string phase) requested now of
        Inl _ \<Rightarrow> False
      | Inr deadline \<Rightarrow> now \<le> finish \<and> finish \<le> max now deadline \<and> run_phases plan rest finish)"

definition finished :: "(Phase \<times> int \<times> int) list \<Rightarrow> int \<Rightarrow> int" where
  "finished phases now = (if phases = [] then now else snd (snd (last phases)))"

lemma knownPhase_string: "knownPhase (phase_string p)"
  by (cases p) (simp_all add: knownPhase_def Phases_def)

lemma PhaseDeadline_Inr:
  "0 \<le> requested \<Longrightarrow> PhaseDeadline plan (phase_string phase) requested now =
     Inr (min (if phase = SignalForwarding \<or> phase = WorkloadGrace then min (bp_deadline plan) (bp_workload_deadline plan)
               else bp_deadline plan) (now + requested))"
  by (cases phase) (simp_all add: PhaseDeadline_def knownPhase_def Phases_def minTime_min Let_def)

lemma run_phases_finish:
  "run_phases plan phases now \<Longrightarrow> now \<le> bp_deadline plan \<Longrightarrow> now \<le> finished phases now \<and> finished phases now \<le> bp_deadline plan"
proof (induction plan phases now rule: run_phases.induct)
  case (2 plan phase requested finish rest now)
  from "2.prems"(1) have rq: "0 \<le> requested" by (auto simp: PhaseDeadline_def split: if_splits)
  note d = PhaseDeadline_Inr [OF rq, of plan phase now]
  with "2.prems" have f: "now \<le> finish" "finish \<le> bp_deadline plan" "run_phases plan rest finish"
    by (auto split: if_splits)
  from "2.IH" [OF d] f have "finish \<le> finished rest finish \<and> finished rest finish \<le> bp_deadline plan"
    by blast
  with f show ?case by (cases rest) (auto simp: finished_def)
qed (simp add: finished_def)

text \<open>
  C26: Whatever phases run one after the other, with whatever requests, if each stops at the deadline
  of its context then the whole shutdown ends by the plan's deadline, and as long as only the
  workload's phases run, by the workload's deadline, which leaves the reserve.
\<close>

theorem shutdown_ends_in_time:
  assumes "budget_validate c now = None" "run_phases (Resolve c now) phases now"
  shows "finished phases now \<le> bp_deadline (Resolve c now) \<and>
    ((\<forall>(phase, _)\<in>set phases. phase = SignalForwarding \<or> phase = WorkloadGrace) \<longrightarrow>
       finished phases now \<le> bp_workload_deadline (Resolve c now))"
proof -
  have now: "now \<le> bp_workload_deadline (Resolve c now)" "bp_workload_deadline (Resolve c now) \<le> bp_deadline (Resolve c now)"
    using validated [OF assms(1)] left_bounds [OF assms(1)] by (auto simp: Resolve_left [OF assms(1)] dur_defs)
  have "finished phases t \<le> bp_workload_deadline plan"
    if "run_phases plan phases t" "t \<le> bp_workload_deadline plan"
      "\<forall>(phase, _)\<in>set phases. phase = SignalForwarding \<or> phase = WorkloadGrace" for plan phases t
    using that
  proof (induction plan phases t rule: run_phases.induct)
    case (2 plan phase requested finish rest t)
    from "2.prems"(1) have rq: "0 \<le> requested" by (auto simp: PhaseDeadline_def split: if_splits)
    note d = PhaseDeadline_Inr [OF rq, of plan phase t]
    with "2.prems" have f: "finish \<le> bp_workload_deadline plan" "run_phases plan rest finish"
      by (auto split: if_splits)
    from "2.IH" [OF d f(2) f(1)] "2.prems"(3) have "finished rest finish \<le> bp_workload_deadline plan" by auto
    with f show ?case by (cases rest) (auto simp: finished_def)
  qed (simp add: finished_def)
  with assms(2) now run_phases_finish [OF assms(2)] show ?thesis by fastforce
qed

theorem shutdown_ends_in_time_witness:
  "finished [(WorkloadGrace, 40 * second, 28 * second), (HTTPDrain, 5 * second, 30 * second)] 0 \<le>
     bp_deadline (Resolve budget_defaults 0)"
proof -
  have v: "budget_validate budget_defaults 0 = None"
    by (simp add: budget_validate_def budget_defaults_def dur_defs dur_wrap_def)
  have "run_phases (Resolve budget_defaults 0) [(WorkloadGrace, 40 * second, 28 * second), (HTTPDrain, 5 * second, 30 * second)] 0"
    by code_simp
  from shutdown_ends_in_time [OF v this] show ?thesis by blast
qed

end
