(* ===== verification/Final_Wait.thy ===== *)
theory Final_Wait
  imports Shutdown_Budget
begin

text \<open>
  The final wait (\<^verbatim>\<open>internal/finalwait/wait.go\<close>): after the workload has ended the runtime
  waits for enough complete responses, for a fixed time or not at all.

  The sections under the mutex (starting, recording a completion, finishing) are functions on the
  waiter's record. Between them \<^verbatim>\<open>WaitTransition\<close> runs without the mutex: the first look at
  the context, the select, and what is checked after each of its branches. The step relation gives
  each of these its own step and interleaves them with completions, with the end of the context and
  with the timer.
\<close>

section \<open>Model\<close>

datatype wait_mode = Immediate | Duration | Scrapes | OtherMode

datatype wait_reason =
    ReasonImmediate | ReasonDurationElapsed | ReasonRequiredScrapes | ReasonTimeout
  | ReasonExternalTermination | ReasonRuntimeFailure

fun wait_reason_string :: "wait_reason \<Rightarrow> string" where
  "wait_reason_string ReasonImmediate = ''immediate''"
| "wait_reason_string ReasonDurationElapsed = ''duration_elapsed''"
| "wait_reason_string ReasonRequiredScrapes = ''required_scrapes''"
| "wait_reason_string ReasonTimeout = ''timeout''"
| "wait_reason_string ReasonExternalTermination = ''external_termination''"
| "wait_reason_string ReasonRuntimeFailure = ''runtime_failure''"

record wait_config =
  wc_mode :: wait_mode
  wc_duration :: int
  wc_timeout :: int
  wc_required_scrapes :: int
  wc_completion_grace :: int

definition wait_defaults :: wait_config where
  "wait_defaults =
     \<lparr>wc_mode = Scrapes, wc_duration = 30 * second, wc_timeout = 60 * second, wc_required_scrapes = 1,
      wc_completion_grace = 500 * millisecond\<rparr>"

definition wait_validate :: "wait_config \<Rightarrow> bool" where
  "wait_validate c \<longleftrightarrow>
     \<not> (wc_mode c \<noteq> Immediate \<and> wc_mode c \<noteq> Duration \<and> wc_mode c \<noteq> Scrapes \<or>
        wc_duration c < 0 \<or> wc_duration c > hour \<or>
        wc_timeout c < second \<or> wc_timeout c > hour \<or>
        wc_required_scrapes c < 1 \<or> wc_required_scrapes c > 16 \<or>
        wc_completion_grace c < 0 \<or> wc_completion_grace c > 5 * second)"

record wait_result =
  wr_reason :: wait_reason
  wr_generation :: uint64
  wr_completed :: int
  wr_deadline :: "int option"

record Completion =
  co_completed :: int
  co_counted :: bool
  co_threshold :: bool
  co_tracked :: bool

text \<open>The threshold channel is the flag that it is closed; the zero deadline is \<open>None\<close>.\<close>

record Waiter =
  wt_config :: wait_config
  wt_generation :: uint64
  wt_started :: bool
  wt_active :: bool
  wt_completed :: int
  wt_deadline :: "int option"
  wt_reason :: "wait_reason option"
  wt_threshold :: bool

definition newWaiter :: "wait_config \<Rightarrow> uint64 \<Rightarrow> Waiter option" where
  "newWaiter c generation =
     (if \<not> wait_validate c then None
      else Some \<lparr>wt_config = c, wt_generation = generation, wt_started = False, wt_active = False, wt_completed = 0,
             wt_deadline = None, wt_reason = None, wt_threshold = False\<rparr>)"

definition wait_time :: "wait_config \<Rightarrow> int" where
  "wait_time c = (if wc_mode c = Scrapes then wc_timeout c else wc_duration c)"

datatype wait_error = ErrAlreadyStarted | ErrTransition

text \<open>The section that starts the wait, with the outcome of the lifecycle transition.\<close>

definition wait_start :: "bool \<Rightarrow> int \<Rightarrow> Waiter \<Rightarrow> wait_error + Waiter" where
  "wait_start transition_fails now w =
     (if wt_started w then Inl ErrAlreadyStarted
      else if transition_fails then Inl ErrTransition
      else Inr (w\<lparr>wt_started := True, wt_active := True,
                  wt_deadline := (if wc_mode (wt_config w) \<noteq> Immediate then Some (now + wait_time (wt_config w))
                                  else wt_deadline w)\<rparr>))"

definition wait_finish :: "wait_reason \<Rightarrow> Waiter \<Rightarrow> Waiter \<times> wait_result" where
  "wait_finish reason w =
     (w\<lparr>wt_active := False, wt_reason := Some reason\<rparr>,
      \<lparr>wr_reason = reason, wr_generation = wt_generation w, wr_completed = wt_completed w, wr_deadline = wt_deadline w\<rparr>)"

definition Complete :: "uint64 \<Rightarrow> Waiter \<Rightarrow> Waiter \<times> Completion" where
  "Complete generation w =
     (if \<not> wt_active w \<or> wc_mode (wt_config w) \<noteq> Scrapes \<or> generation \<noteq> wt_generation w \<or>
         wt_completed w \<ge> wc_required_scrapes (wt_config w)
      then (w, \<lparr>co_completed = wt_completed w, co_counted = False, co_threshold = False, co_tracked = wt_started w\<rparr>)
      else
        let n = wt_completed w + 1; reached = (n = wc_required_scrapes (wt_config w))
        in (w\<lparr>wt_completed := n, wt_threshold := (wt_threshold w \<or> reached)\<rparr>,
            \<lparr>co_completed = n, co_counted = True, co_threshold = reached, co_tracked = True\<rparr>))"

section \<open>Interleaving\<close>

text \<open>Where the call of \<^verbatim>\<open>WaitTransition\<close> stands.\<close>

datatype wait_pc =
    Before
  | Started
  | Selecting
  | Woken_Timer
  | Woken_Threshold
  | Timer_Checked
  | Decided wait_reason
  | Returned wait_result

text \<open>
  What happens around the wait, in order, for the statements: the start and the end of the wait, every
  call of \<open>Complete\<close> with its generation (counted or not), the end of the context and of the timer,
  every look of the call at its context, and its last look at the threshold after the timer.
\<close>

datatype wait_event =
    Ev_Start | Ev_Finish | Ev_Completion uint64 | Ev_Cancel | Ev_Fire | Ev_Look | Ev_Late_Look

record wait_system =
  ws_waiter :: Waiter
  ws_pc :: wait_pc
  ws_cancelled :: bool
  ws_timer :: bool
  ws_log :: "wait_event list"

definition wait_goto :: "wait_pc \<Rightarrow> wait_event list \<Rightarrow> wait_system \<Rightarrow> wait_system" where
  "wait_goto pc evs s = s\<lparr>ws_pc := pc, ws_log := ws_log s @ evs\<rparr>"

definition first_look :: "bool \<Rightarrow> wait_mode \<Rightarrow> wait_pc" where
  "first_look cancelled mode =
     (if cancelled then Decided ReasonExternalTermination
      else if mode = Immediate then Decided ReasonImmediate
      else Selecting)"

definition after_timer :: "bool \<Rightarrow> wait_mode \<Rightarrow> wait_pc" where
  "after_timer cancelled mode =
     (if cancelled then Decided ReasonExternalTermination
      else if mode = Scrapes then Timer_Checked else Decided ReasonDurationElapsed)"

definition after_threshold :: "bool \<Rightarrow> wait_pc" where
  "after_threshold cancelled = Decided (if cancelled then ReasonExternalTermination else ReasonRequiredScrapes)"

inductive wait_step :: "wait_system \<Rightarrow> wait_system \<Rightarrow> bool" where
  start: "ws_pc s = Before \<Longrightarrow> wait_start False now (ws_waiter s) = Inr w \<Longrightarrow>
    wait_step s (wait_goto Started [Ev_Start] (s\<lparr>ws_waiter := w\<rparr>))"
| look: "ws_pc s = Started \<Longrightarrow>
    wait_step s (wait_goto (first_look (ws_cancelled s) (wc_mode (wt_config (ws_waiter s)))) [Ev_Look] s)"
| select_done: "ws_pc s = Selecting \<Longrightarrow> ws_cancelled s \<Longrightarrow>
    wait_step s (wait_goto (Decided ReasonExternalTermination) [Ev_Look] s)"
| select_timer: "ws_pc s = Selecting \<Longrightarrow> ws_timer s \<Longrightarrow> wait_step s (wait_goto Woken_Timer [] s)"
| select_threshold: "ws_pc s = Selecting \<Longrightarrow> wc_mode (wt_config (ws_waiter s)) = Scrapes \<Longrightarrow> wt_threshold (ws_waiter s) \<Longrightarrow>
    wait_step s (wait_goto Woken_Threshold [] s)"
| check_timer: "ws_pc s = Woken_Timer \<Longrightarrow>
    wait_step s (wait_goto (after_timer (ws_cancelled s) (wc_mode (wt_config (ws_waiter s)))) [Ev_Look] s)"
| check_threshold: "ws_pc s = Woken_Threshold \<Longrightarrow>
    wait_step s (wait_goto (after_threshold (ws_cancelled s)) [Ev_Look] s)"
| check_late: "ws_pc s = Timer_Checked \<Longrightarrow>
    wait_step s (wait_goto (Decided (if wt_threshold (ws_waiter s) then ReasonRequiredScrapes else ReasonTimeout)) [Ev_Late_Look] s)"
| finish: "ws_pc s = Decided reason \<Longrightarrow> wait_finish reason (ws_waiter s) = (w, result) \<Longrightarrow>
    wait_step s (wait_goto (Returned result) [Ev_Finish] (s\<lparr>ws_waiter := w\<rparr>))"
| complete: "Complete generation (ws_waiter s) = (w, c) \<Longrightarrow>
    wait_step s (s\<lparr>ws_waiter := w, ws_log := ws_log s @ [Ev_Completion generation]\<rparr>)"
| cancel: "wait_step s (s\<lparr>ws_cancelled := True, ws_log := ws_log s @ [Ev_Cancel]\<rparr>)"
| fire: "ws_pc s \<noteq> Before \<Longrightarrow> ws_pc s \<noteq> Started \<Longrightarrow> wait_step s (s\<lparr>ws_timer := True, ws_log := ws_log s @ [Ev_Fire]\<rparr>)"

definition wait_init :: "Waiter \<Rightarrow> wait_system" where
  "wait_init w = \<lparr>ws_waiter = w, ws_pc = Before, ws_cancelled = False, ws_timer = False, ws_log = []\<rparr>"

section \<open>Reading the events\<close>

text \<open>What had happened before the last occurrence of an event.\<close>

definition events_before :: "wait_event \<Rightarrow> wait_event list \<Rightarrow> wait_event list" where
  "events_before ev log = rev (drop 1 (dropWhile (\<lambda>e. e \<noteq> ev) (rev log)))"

text \<open>What happened while the wait was on.\<close>

definition events_during :: "wait_event list \<Rightarrow> wait_event list" where
  "events_during log = takeWhile (\<lambda>e. e \<noteq> Ev_Finish) (drop 1 (dropWhile (\<lambda>e. e \<noteq> Ev_Start) log))"

text \<open>The responses for the generation that completed while the wait was on.\<close>

definition eligible_responses :: "uint64 \<Rightarrow> wait_event list \<Rightarrow> nat" where
  "eligible_responses g log = length (filter (\<lambda>e. e = Ev_Completion g) (events_during log))"

lemma before_Nil [simp]: "events_before ev [] = []"
  by (simp add: events_before_def)

lemma before_snoc [simp]: "events_before ev (log @ [e]) = (if e = ev then log else events_before ev log)"
  by (simp add: events_before_def)

lemma during_early: "Ev_Start \<notin> set log \<Longrightarrow> events_during log = []"
proof -
  assume "Ev_Start \<notin> set log"
  then have "dropWhile (\<lambda>e. e \<noteq> Ev_Start) log = []" by (auto simp: dropWhile_eq_Nil_conv)
  then show ?thesis unfolding events_during_def by (simp del: dropWhile_eq_Nil_conv)
qed

lemma during_from:
  assumes "Ev_Start \<notin> set xs"
  shows "events_during (xs @ Ev_Start # ys) = takeWhile (\<lambda>e. e \<noteq> Ev_Finish) ys"
proof -
  have "dropWhile (\<lambda>e. e \<noteq> Ev_Start) (xs @ Ev_Start # ys) = Ev_Start # ys" using assms by (induction xs) auto
  then show ?thesis by (simp add: events_during_def)
qed

lemma during_on:
  assumes "Ev_Start \<in> set log" "Ev_Finish \<notin> set log"
  shows "events_during (log @ [e]) = events_during log @ (if e = Ev_Finish then [] else [e])"
proof -
  obtain xs ys where l: "log = xs @ Ev_Start # ys" "Ev_Start \<notin> set xs" using split_list_first [OF assms(1)] by blast
  with assms(2) have "takeWhile (\<lambda>e. e \<noteq> Ev_Finish) (ys @ zs) = ys @ takeWhile (\<lambda>e. e \<noteq> Ev_Finish) zs" for zs
    by (intro takeWhile_append2) auto
  from this [of "[e]"] this [of "[]"] during_from [OF l(2), of ys] during_from [OF l(2), of "ys @ [e]"] l(1)
  show ?thesis by (simp del: takeWhile_eq_all_conv)
qed

definition wait_over :: "wait_event list \<Rightarrow> bool" where
  "wait_over log \<longleftrightarrow> (\<exists>xs ys zs. log = xs @ Ev_Start # ys @ Ev_Finish # zs \<and> Ev_Start \<notin> set xs)"

lemma over_finish: "Ev_Start \<in> set log \<Longrightarrow> wait_over (log @ [Ev_Finish])"
  using split_list_first [of Ev_Start log] by (fastforce simp: wait_over_def)

lemma during_over: "wait_over log \<Longrightarrow> events_during (log @ [e]) = events_during log \<and> wait_over (log @ [e])"
proof -
  assume "wait_over log"
  then obtain xs ys zs where l: "log = xs @ Ev_Start # ys @ Ev_Finish # zs" "Ev_Start \<notin> set xs"
    unfolding wait_over_def by blast
  have "takeWhile (\<lambda>e. e \<noteq> Ev_Finish) (ys @ Ev_Finish # zs @ us) = takeWhile (\<lambda>e. e \<noteq> Ev_Finish) (ys @ Ev_Finish # zs)" for us
    by (induction ys) auto
  with during_from [OF l(2), of "ys @ Ev_Finish # zs"] during_from [OF l(2), of "ys @ Ev_Finish # zs @ [e]"] l
  show ?thesis by (auto simp: wait_over_def)
qed

lemma eligible_early: "Ev_Start \<notin> set log \<Longrightarrow> eligible_responses g log = 0"
  by (simp add: eligible_responses_def during_early)

lemma eligible_start: "Ev_Start \<notin> set log \<Longrightarrow> eligible_responses g (log @ [Ev_Start]) = 0"
  by (simp add: eligible_responses_def during_from)

lemma eligible_on:
  "Ev_Start \<in> set log \<Longrightarrow> Ev_Finish \<notin> set log \<Longrightarrow>
     eligible_responses g (log @ [e]) = eligible_responses g log + (if e = Ev_Completion g then 1 else 0)"
  by (auto simp: eligible_responses_def during_on)

lemma eligible_over: "wait_over log \<Longrightarrow> eligible_responses g (log @ [e]) = eligible_responses g log"
  by (simp add: eligible_responses_def during_over)

section \<open>Invariant\<close>

text \<open>What makes a reason true, for the events so far.\<close>

definition reason_true :: "wait_config \<Rightarrow> uint64 \<Rightarrow> wait_event list \<Rightarrow> wait_reason \<Rightarrow> bool" where
  "reason_true c g log reason \<longleftrightarrow>
     (reason = ReasonExternalTermination \<longleftrightarrow> Ev_Cancel \<in> set (events_before Ev_Look log)) \<and>
     (case reason of
        ReasonImmediate \<Rightarrow> wc_mode c = Immediate
      | ReasonDurationElapsed \<Rightarrow> wc_mode c = Duration \<and> Ev_Fire \<in> set (events_before Ev_Look log)
      | ReasonRequiredScrapes \<Rightarrow> wc_mode c = Scrapes \<and> wc_required_scrapes c \<le> int (eligible_responses g log)
      | ReasonTimeout \<Rightarrow> wc_mode c = Scrapes \<and> Ev_Fire \<in> set (events_before Ev_Look log) \<and>
          int (eligible_responses g (events_before Ev_Late_Look log)) < wc_required_scrapes c
      | ReasonExternalTermination \<Rightarrow> True
      | ReasonRuntimeFailure \<Rightarrow> False)"

definition phase_ok :: "wait_system \<Rightarrow> bool" where
  "phase_ok s \<longleftrightarrow>
     (if ws_pc s = Before then \<not> wt_started (ws_waiter s) \<and> \<not> wt_active (ws_waiter s) \<and> Ev_Start \<notin> set (ws_log s) \<and> Ev_Finish \<notin> set (ws_log s)
      else if \<exists>result. ws_pc s = Returned result then wt_started (ws_waiter s) \<and> \<not> wt_active (ws_waiter s) \<and> wait_over (ws_log s)
      else wt_started (ws_waiter s) \<and> wt_active (ws_waiter s) \<and> Ev_Start \<in> set (ws_log s) \<and> Ev_Finish \<notin> set (ws_log s))"

definition pc_ok :: "wait_config \<Rightarrow> uint64 \<Rightarrow> wait_system \<Rightarrow> bool" where
  "pc_ok c g s =
     (case ws_pc s of
        Before \<Rightarrow> True
      | Started \<Rightarrow> True
      | Selecting \<Rightarrow> wc_mode c \<noteq> Immediate
      | Woken_Timer \<Rightarrow> wc_mode c \<noteq> Immediate \<and> ws_timer s
      | Woken_Threshold \<Rightarrow> wc_mode c = Scrapes \<and> wt_threshold (ws_waiter s)
      | Timer_Checked \<Rightarrow> wc_mode c = Scrapes \<and> Ev_Cancel \<notin> set (events_before Ev_Look (ws_log s)) \<and>
          Ev_Fire \<in> set (events_before Ev_Look (ws_log s))
      | Decided reason \<Rightarrow> reason_true c g (ws_log s) reason
      | Returned result \<Rightarrow> reason_true c g (ws_log s) (wr_reason result) \<and>
          wr_completed result = wt_completed (ws_waiter s) \<and> wr_generation result = g)"

definition wait_inv :: "wait_config \<Rightarrow> uint64 \<Rightarrow> wait_system \<Rightarrow> bool" where
  "wait_inv c g s \<longleftrightarrow>
     wt_config (ws_waiter s) = c \<and> wt_generation (ws_waiter s) = g \<and> wait_validate c \<and> phase_ok s \<and> pc_ok c g s \<and>
     (ws_cancelled s \<longleftrightarrow> Ev_Cancel \<in> set (ws_log s)) \<and> (ws_timer s \<longleftrightarrow> Ev_Fire \<in> set (ws_log s)) \<and>
     wt_completed (ws_waiter s) =
       (if wc_mode c = Scrapes then min (wc_required_scrapes c) (int (eligible_responses g (ws_log s))) else 0) \<and>
     (wt_threshold (ws_waiter s) \<longleftrightarrow> wc_mode c = Scrapes \<and> wc_required_scrapes c \<le> int (eligible_responses g (ws_log s)))"

lemma goto_sel [simp]:
  "ws_waiter (wait_goto pc evs s) = ws_waiter s" "ws_pc (wait_goto pc evs s) = pc" "ws_cancelled (wait_goto pc evs s) = ws_cancelled s"
  "ws_timer (wait_goto pc evs s) = ws_timer s" "ws_log (wait_goto pc evs s) = ws_log s @ evs"
  by (simp_all add: wait_goto_def)

lemma Complete_cases:
  assumes "Complete generation w = (w', c)"
  obtains (ignored) "w' = w" "\<not> wt_active w \<or> wc_mode (wt_config w) \<noteq> Scrapes \<or> generation \<noteq> wt_generation w \<or>
        wc_required_scrapes (wt_config w) \<le> wt_completed w"
  | (counted) "w' = w\<lparr>wt_completed := wt_completed w + 1,
        wt_threshold := (wt_threshold w \<or> wt_completed w + 1 = wc_required_scrapes (wt_config w))\<rparr>"
      "generation = wt_generation w" "wt_active w" "wc_mode (wt_config w) = Scrapes"
      "wt_completed w < wc_required_scrapes (wt_config w)"
  using assms unfolding Complete_def Let_def by (auto split: if_splits)

lemma valid_mode: "wait_validate c \<Longrightarrow> wc_mode c = Immediate \<or> wc_mode c = Duration \<or> wc_mode c = Scrapes"
  by (auto simp: wait_validate_def)

text \<open>Events other than looks change nothing about a reason once it is decided.\<close>

lemma reason_true_snoc:
  assumes "reason_true c g log reason" "e \<noteq> Ev_Look" "e \<noteq> Ev_Late_Look" "eligible_responses g log \<le> eligible_responses g (log @ [e])"
  shows "reason_true c g (log @ [e]) reason"
  using assms by (auto simp: reason_true_def split: wait_reason.splits)

lemma eligible_mono: "phase_ok s \<Longrightarrow> ws_pc s \<noteq> Before \<Longrightarrow> eligible_responses g (ws_log s) \<le> eligible_responses g (ws_log s @ [e])"
  by (auto simp: phase_ok_def eligible_on eligible_over split: if_splits)

lemma pc_ok_snoc:
  assumes "pc_ok c g s" "phase_ok s" "e \<noteq> Ev_Look" "e \<noteq> Ev_Late_Look"
    and "ws_pc s' = ws_pc s" "ws_log s' = ws_log s @ [e]" "ws_timer s \<Longrightarrow> ws_timer s'"
    and "wt_threshold (ws_waiter s) \<Longrightarrow> wt_threshold (ws_waiter s')"
    and "\<And>result. ws_pc s = Returned result \<Longrightarrow> wt_completed (ws_waiter s') = wt_completed (ws_waiter s)"
  shows "pc_ok c g s'"
  using assms eligible_mono [OF assms(2), of g e] reason_true_snoc [OF _ assms(3,4), of c g "ws_log s"]
  by (cases "ws_pc s") (simp_all add: pc_ok_def)


lemma wait_inv_quiet:
  assumes inv: "wait_inv c g s" and w: "ws_waiter s' = ws_waiter s" "ws_pc s' = ws_pc s" "ws_log s' = ws_log s @ [e]"
    and e: "e \<notin> {Ev_Start, Ev_Finish, Ev_Look, Ev_Late_Look}"
    and t: "ws_cancelled s' \<longleftrightarrow> ws_cancelled s \<or> e = Ev_Cancel" "ws_timer s' \<longleftrightarrow> ws_timer s \<or> e = Ev_Fire"
    and el: "wt_active (ws_waiter s) \<Longrightarrow> wc_mode c = Scrapes \<Longrightarrow> e = Ev_Completion g \<Longrightarrow>
      wc_required_scrapes c \<le> wt_completed (ws_waiter s)"
  shows "wait_inv c g s'"
proof -
  have ph: "phase_ok s" and pc: "pc_ok c g s" using inv by (simp_all add: wait_inv_def)
  have ph': "phase_ok s'" using ph w e during_over by (auto simp: phase_ok_def split: if_splits)
  have pc': "pc_ok c g s'" by (rule pc_ok_snoc [OF pc ph _ _ w(2,3)]) (use w t e in auto)
  have "wc_mode c = Scrapes \<Longrightarrow>
      min (wc_required_scrapes c) (int (eligible_responses g (ws_log s @ [e]))) = min (wc_required_scrapes c) (int (eligible_responses g (ws_log s))) \<and>
      (wc_required_scrapes c \<le> int (eligible_responses g (ws_log s @ [e])) \<longleftrightarrow> wc_required_scrapes c \<le> int (eligible_responses g (ws_log s)))"
    using ph inv e el
    by (auto simp: phase_ok_def eligible_on eligible_over eligible_early wait_inv_def split: if_splits)
  with inv ph' pc' w t e show ?thesis by (auto simp: wait_inv_def)
qed

lemma wait_inv_goto:
  assumes inv: "wait_inv c g s" and on: "wt_active (ws_waiter s)" and ev: "set evs \<subseteq> {Ev_Look, Ev_Late_Look}" "length evs \<le> 1"
    and pc: "pc_ok c g (wait_goto pc evs s)" "pc \<noteq> Before" "\<nexists>result. pc = Returned result"
  shows "wait_inv c g (wait_goto pc evs s)"
proof -
  have ph: "phase_ok s" using inv by (simp add: wait_inv_def)
  have s: "wt_started (ws_waiter s)" "Ev_Start \<in> set (ws_log s)" "Ev_Finish \<notin> set (ws_log s)"
    using ph on by (auto simp: phase_ok_def split: if_splits)
  have "phase_ok (wait_goto pc evs s)" using s on pc ev by (auto simp: phase_ok_def)
  moreover have "eligible_responses g (ws_log s @ evs) = eligible_responses g (ws_log s)"
    using ev s by (cases evs) (auto simp: eligible_on)
  ultimately show ?thesis using inv pc(1) ev by (auto simp: wait_inv_def)
qed

lemma wait_inv_active: "wait_inv c g s \<Longrightarrow> ws_pc s \<noteq> Before \<Longrightarrow> \<nexists>result. ws_pc s = Returned result \<Longrightarrow> wt_active (ws_waiter s)"
  by (simp add: wait_inv_def phase_ok_def)


lemma wait_inv_complete:
  assumes inv: "wait_inv c g s" and step: "Complete generation (ws_waiter s) = (w, co)"
  shows "wait_inv c g (s\<lparr>ws_waiter := w, ws_log := ws_log s @ [Ev_Completion generation]\<rparr>)" (is "wait_inv c g ?s")
  using step
proof (cases rule: Complete_cases)
  case ignored
  show ?thesis
    by (rule wait_inv_quiet [OF inv, where e = "Ev_Completion generation"]) (use ignored inv in \<open>auto simp: wait_inv_def\<close>)
next
  case counted
  have ph: "phase_ok s" and pc: "pc_ok c g s" and c: "wt_config (ws_waiter s) = c" "wt_generation (ws_waiter s) = g"
    using inv by (simp_all add: wait_inv_def)
  have on: "wt_started (ws_waiter s)" "Ev_Start \<in> set (ws_log s)" "Ev_Finish \<notin> set (ws_log s)"
      "ws_pc s \<noteq> Before" "\<nexists>result. ws_pc s = Returned result"
    using ph counted(3) by (auto simp: phase_ok_def split: if_splits)
  have "pc_ok c g ?s" by (rule pc_ok_snoc [OF pc ph]) (use counted on in auto)
  moreover have "phase_ok ?s" using on counted by (simp add: phase_ok_def)
  moreover have "eligible_responses g (ws_log s @ [Ev_Completion generation]) = eligible_responses g (ws_log s) + 1"
    using on counted(2) c by (simp add: eligible_on)
  moreover have "wt_completed (ws_waiter s) = int (eligible_responses g (ws_log s))" using inv counted(4,5) c by (auto simp: wait_inv_def)
  ultimately show ?thesis using inv counted c by (auto simp: wait_inv_def)
qed

lemma wait_inv_finish:
  assumes inv: "wait_inv c g s" and pc: "ws_pc s = Decided reason" and f: "wait_finish reason (ws_waiter s) = (w, result)"
  shows "wait_inv c g (wait_goto (Returned result) [Ev_Finish] (s\<lparr>ws_waiter := w\<rparr>))"
proof -
  have on: "wt_started (ws_waiter s)" "Ev_Start \<in> set (ws_log s)" "Ev_Finish \<notin> set (ws_log s)"
    using inv pc by (auto simp: wait_inv_def phase_ok_def)
  then have el: "eligible_responses g (ws_log s @ [Ev_Finish]) = eligible_responses g (ws_log s)" by (simp add: eligible_on)
  have "reason_true c g (ws_log s) reason" using inv pc by (simp add: wait_inv_def pc_ok_def)
  then have "reason_true c g (ws_log s @ [Ev_Finish]) reason" by (rule reason_true_snoc) (use el in simp_all)
  with on el inv f over_finish [OF on(2)] show ?thesis
    by (auto simp: wait_inv_def phase_ok_def pc_ok_def wait_finish_def)
qed

lemma wait_step_inv:
  assumes "wait_step s s'" "wait_inv c g s"
  shows "wait_inv c g s'"
proof -
  have modes: "wc_mode c = Immediate \<or> wc_mode c = Duration \<or> wc_mode c = Scrapes"
    using assms(2) by (intro valid_mode) (simp add: wait_inv_def)
  note act = wait_inv_active [OF assms(2)]
  note invs = wait_inv_def pc_ok_def reason_true_def
  from assms(1) show ?thesis
  proof cases
    case (start now w)
    then show ?thesis using assms(2)
      by (auto simp: wait_inv_def phase_ok_def pc_ok_def wait_start_def eligible_early eligible_start split: if_splits)
  next
    case look
    show ?thesis unfolding look(1)
      by (rule wait_inv_goto [OF assms(2)]) (use look act assms(2) in \<open>auto simp: invs first_look_def\<close>)
  next
    case select_done
    show ?thesis unfolding select_done(1)
      by (rule wait_inv_goto [OF assms(2)]) (use select_done act assms(2) in \<open>auto simp: invs\<close>)
  next
    case select_timer
    show ?thesis unfolding select_timer(1)
      by (rule wait_inv_goto [OF assms(2)]) (use select_timer act assms(2) in \<open>auto simp: invs\<close>)
  next
    case select_threshold
    show ?thesis unfolding select_threshold(1)
      by (rule wait_inv_goto [OF assms(2)]) (use select_threshold act assms(2) in \<open>auto simp: invs\<close>)
  next
    case check_timer
    show ?thesis unfolding check_timer(1)
      by (rule wait_inv_goto [OF assms(2)]) (use check_timer act assms(2) modes in \<open>auto simp: invs after_timer_def\<close>)
  next
    case check_threshold
    have "eligible_responses g (ws_log s @ [Ev_Look]) = eligible_responses g (ws_log s)"
      using check_threshold assms(2) by (auto simp: wait_inv_def phase_ok_def eligible_on)
    then show ?thesis unfolding check_threshold(1)
      by (intro wait_inv_goto [OF assms(2)]) (use check_threshold act assms(2) in \<open>auto simp: invs after_threshold_def\<close>)
  next
    case check_late
    have "eligible_responses g (ws_log s @ [Ev_Late_Look]) = eligible_responses g (ws_log s)"
      using check_late assms(2) by (auto simp: wait_inv_def phase_ok_def eligible_on)
    then show ?thesis unfolding check_late(1)
      by (intro wait_inv_goto [OF assms(2)]) (use check_late act assms(2) in \<open>auto simp: invs\<close>)
  next
    case (finish reason w result)
    from wait_inv_finish [OF assms(2) finish(2,3)] finish(1) show ?thesis by simp
  next
    case (complete generation w co)
    from wait_inv_complete [OF assms(2) complete(2)] complete(1) show ?thesis by simp
  next
    case cancel
    show ?thesis by (rule wait_inv_quiet [OF assms(2), where e = Ev_Cancel]) (use cancel in auto)
  next
    case fire
    show ?thesis by (rule wait_inv_quiet [OF assms(2), where e = Ev_Fire]) (use fire in auto)
  qed
qed

lemma wait_steps_inv: "wait_step\<^sup>*\<^sup>* s s' \<Longrightarrow> wait_inv c g s \<Longrightarrow> wait_inv c g s'"
  by (induction rule: rtranclp_induct) (auto intro: wait_step_inv)

lemma newWaiter_inv: "newWaiter c g = Some w \<Longrightarrow> wait_inv c g (wait_init w)"
  by (auto simp: newWaiter_def wait_inv_def wait_init_def phase_ok_def pc_ok_def wait_validate_def eligible_early split: if_splits)

section \<open>Precedence and progress\<close>

definition external_only :: "wait_system \<Rightarrow> bool" where
  "external_only s \<longleftrightarrow> ws_cancelled s \<and>
     (case ws_pc s of
        Timer_Checked \<Rightarrow> False
      | Decided reason \<Rightarrow> reason = ReasonExternalTermination
      | Returned result \<Rightarrow> wr_reason result = ReasonExternalTermination
      | _ \<Rightarrow> True)"

lemma external_only_step: "wait_step s s' \<Longrightarrow> external_only s \<Longrightarrow> external_only s'"
  by (cases rule: wait_step.cases)
     (auto simp: external_only_def first_look_def after_timer_def after_threshold_def wait_finish_def)

lemma external_only_steps: "wait_step\<^sup>*\<^sup>* s s' \<Longrightarrow> external_only s \<Longrightarrow> external_only s'"
  by (induction rule: rtranclp_induct) (auto intro: external_only_step)

definition can_wake :: "wait_system \<Rightarrow> bool" where
  "can_wake s \<longleftrightarrow> ws_cancelled s \<or> ws_timer s \<or> wc_mode (wt_config (ws_waiter s)) = Immediate"

fun pc_rank :: "wait_pc \<Rightarrow> nat" where
  "pc_rank Before = 7"
| "pc_rank Started = 6"
| "pc_rank Selecting = 5"
| "pc_rank Woken_Timer = 4"
| "pc_rank Woken_Threshold = 4"
| "pc_rank Timer_Checked = 3"
| "pc_rank (Decided _) = 2"
| "pc_rank (Returned _) = 0"

text \<open>The call itself can always take its next step once something has woken it.\<close>

lemma waiter_advances:
  assumes "wait_inv c g s" "can_wake s" "ws_pc s \<noteq> Before" "\<nexists>result. ws_pc s = Returned result"
  shows "\<exists>s'. wait_step s s' \<and> pc_rank (ws_pc s') < pc_rank (ws_pc s) \<and> can_wake s' \<and> ws_pc s' \<noteq> Before"
proof -
  have adv: ?thesis if "wait_step s s1" "pc_rank (ws_pc s1) < pc_rank (ws_pc s)" "can_wake s1" "ws_pc s1 \<noteq> Before" for s1
    using that by blast
  show ?thesis
  proof (cases "ws_pc s")
    case Started
    show ?thesis
      by (rule adv [OF wait_step.look [OF Started]]) (use assms(2) Started in \<open>auto simp: first_look_def can_wake_def\<close>)
  next
    case Selecting
    show ?thesis
    proof (cases "ws_cancelled s")
      case True
      show ?thesis
      by (rule adv [OF wait_step.select_done [OF Selecting True]]) (use assms(2) Selecting in \<open>auto simp: can_wake_def\<close>)
    next
      case False
      with assms(1,2) Selecting have t: "ws_timer s" by (auto simp: can_wake_def wait_inv_def pc_ok_def)
      show ?thesis
      by (rule adv [OF wait_step.select_timer [OF Selecting t]]) (use assms(2) Selecting in \<open>auto simp: can_wake_def\<close>)
    qed
  next
    case Woken_Timer
    show ?thesis
      by (rule adv [OF wait_step.check_timer [OF Woken_Timer]]) (use assms(2) Woken_Timer in \<open>auto simp: can_wake_def after_timer_def\<close>)
  next
    case Woken_Threshold
    show ?thesis
      by (rule adv [OF wait_step.check_threshold [OF Woken_Threshold]]) (use assms(2) Woken_Threshold in \<open>auto simp: can_wake_def after_threshold_def\<close>)
  next
    case Timer_Checked
    show ?thesis
      by (rule adv [OF wait_step.check_late [OF Timer_Checked]]) (use assms(2) Timer_Checked in \<open>auto simp: can_wake_def\<close>)
  next
    case (Decided reason)
    obtain w result where f: "wait_finish reason (ws_waiter s) = (w, result)" by fastforce
    show ?thesis
      by (rule adv [OF wait_step.finish [OF Decided f]]) (use assms(2) Decided f in \<open>auto simp: can_wake_def wait_finish_def\<close>)
  qed (use assms(3,4) in auto)
qed

lemma waiter_returns:
  "wait_inv c g s \<Longrightarrow> can_wake s \<Longrightarrow> ws_pc s \<noteq> Before \<Longrightarrow> \<exists>s' result. wait_step\<^sup>*\<^sup>* s s' \<and> ws_pc s' = Returned result"
proof (induction "pc_rank (ws_pc s)" arbitrary: s rule: less_induct)
  case less
  show ?case
  proof (cases "\<exists>result. ws_pc s = Returned result")
    case False
    from waiter_advances [OF less.prems False] obtain s1 where s1: "wait_step s s1"
      "pc_rank (ws_pc s1) < pc_rank (ws_pc s)" "can_wake s1" "ws_pc s1 \<noteq> Before" by blast
    from less.hyps [OF s1(2) wait_step_inv [OF s1(1) less.prems(1)] s1(3,4)] s1(1) show ?thesis
      by (meson converse_rtranclp_into_rtranclp)
  qed blast
qed

section \<open>Properties\<close>

text \<open>
  C27: Whatever completions, cancellations and timers interleave with a final wait, what it returns
  is true of the events. The count is the number of responses for the waiter's own generation that
  completed while the wait was on, up to the requirement, in the scrapes mode, and 0 in the others.
  The reason is external termination exactly when the context was done at the call's last look at it.
  Otherwise: immediate only in that mode; an elapsed duration only in that mode and after the timer;
  required scrapes only when the count is the required one; and a timeout only when the timer had
  fired before the last look at the context and fewer eligible responses than required had completed
  when the call looked for the threshold after it.
\<close>

theorem final_wait_result:
  assumes "newWaiter c g = Some w" "wait_step\<^sup>*\<^sup>* (wait_init w) s" "ws_pc s = Returned result"
  shows "wr_generation result = g \<and>
    wr_completed result = (if wc_mode c = Scrapes then min (wc_required_scrapes c) (int (eligible_responses g (ws_log s))) else 0) \<and>
    (wr_reason result = ReasonExternalTermination \<longleftrightarrow> Ev_Cancel \<in> set (events_before Ev_Look (ws_log s))) \<and>
    (case wr_reason result of
       ReasonImmediate \<Rightarrow> wc_mode c = Immediate
     | ReasonDurationElapsed \<Rightarrow> wc_mode c = Duration \<and> Ev_Fire \<in> set (events_before Ev_Look (ws_log s))
     | ReasonRequiredScrapes \<Rightarrow> wc_mode c = Scrapes \<and> wr_completed result = wc_required_scrapes c
     | ReasonTimeout \<Rightarrow> wc_mode c = Scrapes \<and> Ev_Fire \<in> set (events_before Ev_Look (ws_log s)) \<and>
         int (eligible_responses g (events_before Ev_Late_Look (ws_log s))) < wc_required_scrapes c
     | ReasonExternalTermination \<Rightarrow> ws_cancelled s
     | ReasonRuntimeFailure \<Rightarrow> False)"
proof -
  have inv: "wait_inv c g s" using wait_steps_inv [OF assms(2) newWaiter_inv [OF assms(1)]] .
  then have r: "reason_true c g (ws_log s) (wr_reason result)" "wr_completed result = wt_completed (ws_waiter s)"
      "wr_generation result = g"
    using assms(3) by (simp_all add: wait_inv_def pc_ok_def)
  have n: "wt_completed (ws_waiter s) =
      (if wc_mode c = Scrapes then min (wc_required_scrapes c) (int (eligible_responses g (ws_log s))) else 0)"
    using inv by (simp add: wait_inv_def)
  have "set (events_before Ev_Look (ws_log s)) \<subseteq> set (ws_log s)"
    unfolding events_before_def set_rev by (metis set_drop_subset set_dropWhileD set_rev subset_iff)
  then have "Ev_Cancel \<in> set (events_before Ev_Look (ws_log s)) \<Longrightarrow> ws_cancelled s" using inv by (auto simp: wait_inv_def)
  with r n show ?thesis by (cases "wr_reason result") (simp_all add: reason_true_def)
qed

definition demo_waiter :: Waiter where
  "demo_waiter = \<lparr>wt_config = wait_defaults, wt_generation = 5, wt_started = False, wt_active = False,
     wt_completed = 0, wt_deadline = None, wt_reason = None, wt_threshold = False\<rparr>"

lemma demo_waiter_new: "newWaiter wait_defaults 5 = Some demo_waiter"
  by code_simp

text \<open>
  One scrape is required. A response for an older generation completes, then one for the waiter's,
  and the call finds the threshold reached.
\<close>

definition demo_started :: wait_system where
  "demo_started = wait_goto Started [Ev_Start] ((wait_init demo_waiter)
     \<lparr>ws_waiter := demo_waiter\<lparr>wt_started := True, wt_active := True, wt_deadline := Some (60 * second)\<rparr>\<rparr>)"

lemma demo_wait_started: "wait_step\<^sup>*\<^sup>* (wait_init demo_waiter) demo_started"
  unfolding demo_started_def
  by (rule r_into_rtranclp, rule wait_step.start [where now = 0])
     (simp_all add: wait_init_def demo_waiter_def wait_start_def wait_defaults_def wait_time_def)

definition demo_completed :: wait_system where
  "demo_completed =
     (let s = wait_goto Selecting [Ev_Look] demo_started;
          s = s\<lparr>ws_waiter := fst (Complete 4 (ws_waiter s)), ws_log := ws_log s @ [Ev_Completion 4]\<rparr>
      in s\<lparr>ws_waiter := fst (Complete 5 (ws_waiter s)), ws_log := ws_log s @ [Ev_Completion 5]\<rparr>)"

lemma demo_wait_completed: "wait_step\<^sup>*\<^sup>* demo_started demo_completed"
proof -
  let ?a = "wait_goto Selecting [Ev_Look] demo_started"
  let ?b = "?a\<lparr>ws_waiter := fst (Complete 4 (ws_waiter ?a)), ws_log := ws_log ?a @ [Ev_Completion 4]\<rparr>"
  have "wait_step demo_started ?a"
    using wait_step.look [of demo_started]
    by (simp add: demo_started_def wait_init_def demo_waiter_def wait_defaults_def first_look_def)
  moreover have "wait_step ?a ?b" by (rule wait_step.complete) (rule prod.collapse [symmetric])
  moreover have "wait_step ?b demo_completed"
    unfolding demo_completed_def Let_def by (rule wait_step.complete) (rule prod.collapse [symmetric])
  ultimately show ?thesis by (meson converse_rtranclp_into_rtranclp rtranclp.rtrancl_refl)
qed

definition demo_wait_result :: wait_result where
  "demo_wait_result = snd (wait_finish ReasonRequiredScrapes (ws_waiter demo_completed))"

definition demo_returned :: wait_system where
  "demo_returned = wait_goto (Returned demo_wait_result) [Ev_Finish]
     ((wait_goto (Decided ReasonRequiredScrapes) [Ev_Look] (wait_goto Woken_Threshold [] demo_completed))
       \<lparr>ws_waiter := fst (wait_finish ReasonRequiredScrapes (ws_waiter demo_completed))\<rparr>)"

lemma demo_completed_facts:
  "ws_pc demo_completed = Selecting" "wc_mode (wt_config (ws_waiter demo_completed)) = Scrapes"
  "wt_threshold (ws_waiter demo_completed)" "\<not> ws_cancelled demo_completed"
  by code_simp+

lemma demo_wait_returned: "wait_step\<^sup>*\<^sup>* (wait_init demo_waiter) demo_returned"
proof -
  let ?a = "wait_goto Woken_Threshold [] demo_completed" and ?b = "wait_goto (Decided ReasonRequiredScrapes) [Ev_Look] (wait_goto Woken_Threshold [] demo_completed)"
  have "wait_step demo_completed ?a" using demo_completed_facts(1-3) by (rule wait_step.select_threshold)
  moreover have "wait_step ?a ?b"
    using wait_step.check_threshold [of ?a] demo_completed_facts by (simp add: after_threshold_def)
  moreover have "wait_step ?b demo_returned"
    unfolding demo_returned_def by (rule wait_step.finish) (simp_all add: demo_wait_result_def prod_eq_iff)
  ultimately have "wait_step\<^sup>*\<^sup>* demo_completed demo_returned" by (meson converse_rtranclp_into_rtranclp rtranclp.rtrancl_refl)
  with demo_wait_started demo_wait_completed show ?thesis by (meson rtranclp_trans)
qed

lemma demo_events:
  "eligible_responses 5 (ws_log demo_returned) = 1" "Ev_Cancel \<notin> set (ws_log demo_returned)" "wr_reason demo_wait_result = ReasonRequiredScrapes"
  by code_simp+

theorem final_wait_result_witness:
  "wait_step\<^sup>*\<^sup>* (wait_init demo_waiter) demo_returned \<and> ws_pc demo_returned = Returned demo_wait_result \<and>
   ws_log demo_returned = [Ev_Start, Ev_Look, Ev_Completion 4, Ev_Completion 5, Ev_Look, Ev_Finish] \<and>
   wr_reason demo_wait_result = ReasonRequiredScrapes \<and> wr_generation demo_wait_result = 5 \<and> wr_completed demo_wait_result = 1"
proof -
  have pc: "ws_pc demo_returned = Returned demo_wait_result" by (simp add: demo_returned_def)
  have "ws_log demo_returned = [Ev_Start, Ev_Look, Ev_Completion 4, Ev_Completion 5, Ev_Look, Ev_Finish]" by code_simp
  with final_wait_result [OF demo_waiter_new demo_wait_returned pc] pc demo_wait_returned demo_events show ?thesis
    by (simp add: wait_defaults_def)
qed

text \<open>
  A final wait ends: once it has started, a done context, the fired timer or the immediate mode
  is enough for the call to return by its own steps. When the context is done before the call has
  looked at it for the last time, external termination is the only reason it can return.
\<close>

theorem final_wait_ends:
  assumes "newWaiter c g = Some w" "wait_step\<^sup>*\<^sup>* (wait_init w) s" "ws_pc s \<noteq> Before"
    and "ws_cancelled s \<or> ws_timer s \<or> wc_mode c = Immediate"
  shows "(\<exists>s' result. wait_step\<^sup>*\<^sup>* s s' \<and> ws_pc s' = Returned result) \<and>
    (ws_cancelled s \<and> ws_pc s \<in> {Started, Selecting, Woken_Timer, Woken_Threshold} \<longrightarrow>
       (\<forall>s' result. wait_step\<^sup>*\<^sup>* s s' \<and> ws_pc s' = Returned result \<longrightarrow> wr_reason result = ReasonExternalTermination))"
proof -
  have inv: "wait_inv c g s" using wait_steps_inv [OF assms(2) newWaiter_inv [OF assms(1)]] .
  then have "can_wake s" using assms(4) by (auto simp: can_wake_def wait_inv_def)
  from waiter_returns [OF inv this assms(3)]
  have "\<exists>s' result. wait_step\<^sup>*\<^sup>* s s' \<and> ws_pc s' = Returned result" .
  moreover have "wr_reason result = ReasonExternalTermination"
    if "ws_cancelled s" "ws_pc s \<in> {Started, Selecting, Woken_Timer, Woken_Threshold}" "wait_step\<^sup>*\<^sup>* s s'"
      "ws_pc s' = Returned result" for s' result
  proof -
    have "external_only s" using that(1,2) by (auto simp: external_only_def)
    from external_only_steps [OF that(3) this] that(4) show ?thesis by (simp add: external_only_def)
  qed
  ultimately show ?thesis by blast
qed

theorem final_wait_ends_witness:
  "\<exists>s result. wait_step\<^sup>*\<^sup>* (wait_init demo_waiter) s \<and> ws_pc s = Returned result \<and> wr_reason result = ReasonExternalTermination"
proof -
  let ?s = "demo_started\<lparr>ws_cancelled := True, ws_log := ws_log demo_started @ [Ev_Cancel]\<rparr>"
  have st: "wait_step\<^sup>*\<^sup>* (wait_init demo_waiter) ?s"
    using demo_wait_started wait_step.cancel [of demo_started] by (meson rtranclp.rtrancl_into_rtrancl)
  have "ws_pc ?s = Started" "ws_cancelled ?s" by (simp_all add: demo_started_def)
  with final_wait_ends [OF demo_waiter_new st] st show ?thesis by (auto intro: rtranclp_trans)
qed

end
