(* ===== verification/Exposition_Handler.thy ===== *)
theory Exposition_Handler
  imports Exposition_Text Final_Wait
begin

text \<open>
  The HTTP handler of the exposition (\<^verbatim>\<open>internal/exposition/handler.go\<close>): content
  negotiation, the admission of metric requests, the accounting of final scrapes and the drain.

  A request runs on its own goroutine. The handler's mutex makes \<open>acceptMetric\<close>, \<open>finishMetric\<close>,
  \<open>completeFinal\<close> and the first part of \<open>Drain\<close> atomic; the limiter's channel makes \<open>Acquire\<close> and
  \<open>Release\<close> atomic. \<open>serveMetrics\<close> composes them for one request, \<open>handler_step\<close> interleaves them
  for many. The channel that \<open>Drain\<close> waits on is the flag that it is closed. Calls of observers are
  logged.
\<close>

section \<open>Configuration\<close>

definition MetricsPath :: string where "MetricsPath = ''/metrics''"
definition DebugPath :: string where "DebugPath = ''/debug/config''"

record exposition_config =
  ec_listen :: string
  ec_response_bytes :: int
  ec_concurrent :: int
  ec_write_timeout :: int
  ec_include :: "string list"
  ec_exclude :: "string list"
  ec_read_header_limit :: int

definition exposition_defaults :: exposition_config where
  "exposition_defaults =
     \<lparr>ec_listen = ''0.0.0.0:9090'', ec_response_bytes = 8 * 2 ^ 20, ec_concurrent = 32, ec_write_timeout = 30 * second,
      ec_include = [], ec_exclude = [], ec_read_header_limit = 5 * second\<rparr>"

datatype handler_error = HandlerConfiguration | HandlerSelector selector_error

definition exposition_validate :: "exposition_config \<Rightarrow> handler_error option" where
  "exposition_validate c =
     (if (case SplitHostPort (ec_listen c) of None \<Rightarrow> True | Some (host, _) \<Rightarrow> host = []) \<or> ec_response_bytes c < 1 \<or>
         ec_concurrent c < 1 \<or> ec_write_timeout c \<le> 0 \<or> ec_read_header_limit c \<le> 0
      then Some HandlerConfiguration
      else case NewFilter (ec_include c) (ec_exclude c) of
             Inl e \<Rightarrow> Some (HandlerSelector e)
           | Inr _ \<Rightarrow> None)"

section \<open>The limiter\<close>

record Limiter =
  li_capacity :: int
  li_used :: int

definition NewLimiter :: "int \<Rightarrow> handler_error + Limiter" where
  "NewLimiter concurrent =
     (if concurrent < 1 then Inl HandlerConfiguration else Inr \<lparr>li_capacity = concurrent, li_used = 0\<rparr>)"

definition Acquire :: "Limiter \<Rightarrow> Limiter option" where
  "Acquire l = (if li_used l < li_capacity l then Some (l\<lparr>li_used := li_used l + 1\<rparr>) else None)"

definition Release :: "Limiter \<Rightarrow> Limiter" where
  "Release l = l\<lparr>li_used := li_used l - 1\<rparr>"

section \<open>The handler\<close>

datatype FinalOutcome = FinalCompleted | FinalIneligible | FinalWriteError | FinalCancelled

record FinalResponse =
  fr_request :: uint64
  fr_generation :: uint64
  fr_outcome :: FinalOutcome
  fr_completed :: int
  fr_counted :: bool

record Handler =
  ha_config :: exposition_config
  ha_filter :: Filter
  ha_limiter :: Limiter
  ha_metrics :: self_registry
  ha_inflight :: int
  ha_draining :: bool
  ha_drained :: bool
  ha_waiter :: "Waiter option"
  ha_final_sequence :: uint64
  ha_final_log :: "FinalResponse list"
  ha_failure_log :: "(exposition_outcome \<times> nat) list"

text \<open>An update of a metric whose error is ignored.\<close>

definition f64_of_int :: "int \<Rightarrow> float64" where
  "f64_of_int i = f64_round (i < 0) (nat \<bar>i\<bar>) 1"

definition try_gauge :: "string \<Rightarrow> (string \<times> string) list \<Rightarrow> float64 \<Rightarrow> self_registry \<Rightarrow> self_registry" where
  "try_gauge name labels v r = (case SetGauge name labels v r of Inl _ \<Rightarrow> r | Inr r' \<Rightarrow> r')"

definition try_counter :: "string \<Rightarrow> (string \<times> string) list \<Rightarrow> uint64 \<Rightarrow> self_registry \<Rightarrow> self_registry" where
  "try_counter name labels delta r = (case AddCounter name labels delta r of Inl _ \<Rightarrow> r | Inr r' \<Rightarrow> r')"

definition NewHandler :: "exposition_config \<Rightarrow> self_registry \<Rightarrow> handler_error + Handler" where
  "NewHandler c metrics =
     (if exposition_validate c \<noteq> None then Inl HandlerConfiguration
      else case NewFilter (ec_include c) (ec_exclude c) of
             Inl e \<Rightarrow> Inl (HandlerSelector e)
           | Inr flt \<Rightarrow>
               and_then (NewLimiter (ec_concurrent c)) (\<lambda>limiter.
                 let (include, exclude) = RuleCounts flt in
                 Inr \<lparr>ha_config = c, ha_filter = flt, ha_limiter = limiter,
                      ha_metrics = try_gauge FilterRules [(''kind'', ''exclude'')] (f64_of_nat exclude)
                        (try_gauge FilterRules [(''kind'', ''include'')] (f64_of_nat include) metrics),
                      ha_inflight = 0, ha_draining = False, ha_drained = False, ha_waiter = None,
                      ha_final_sequence = 0, ha_final_log = [], ha_failure_log = []\<rparr>))"

definition SetFinalWait :: "Waiter \<Rightarrow> Handler \<Rightarrow> Handler" where
  "SetFinalWait w h = h\<lparr>ha_waiter := Some w\<rparr>"

definition acceptMetric :: "Handler \<Rightarrow> bool \<times> Handler" where
  "acceptMetric h =
     (if ha_draining h then (False, h)
      else
        let n = ha_inflight h + 1
        in (True, h\<lparr>ha_inflight := n, ha_metrics := try_gauge ExpositionInflight [] (f64_of_int n) (ha_metrics h)\<rparr>))"

definition finishMetric :: "Handler \<Rightarrow> Handler" where
  "finishMetric h =
     (let n = ha_inflight h - 1
      in h\<lparr>ha_inflight := n, ha_metrics := try_gauge ExpositionInflight [] (f64_of_int n) (ha_metrics h),
           ha_drained := (ha_drained h \<or> (ha_draining h \<and> n = 0))\<rparr>)"

text \<open>The numbering of a final response and its observers.\<close>

definition final_response :: "uint64 \<Rightarrow> FinalOutcome \<Rightarrow> int \<Rightarrow> bool \<Rightarrow> Handler \<Rightarrow> Handler" where
  "final_response generation outcome completed counted h =
     (let n = ha_final_sequence h + 1
      in h\<lparr>ha_final_sequence := n,
           ha_final_log := ha_final_log h @ [\<lparr>fr_request = n, fr_generation = generation, fr_outcome = outcome,
             fr_completed = completed, fr_counted = counted\<rparr>]\<rparr>)"

definition completeFinal :: "uint64 \<Rightarrow> exposition_outcome \<Rightarrow> Handler \<Rightarrow> Handler" where
  "completeFinal generation outcome h =
     (case ha_waiter h of
        None \<Rightarrow> h
      | Some w \<Rightarrow>
          if outcome = Success then
            (let (w', c) = Complete generation w; h' = h\<lparr>ha_waiter := Some w'\<rparr> in
             if \<not> co_tracked c then h'
             else final_response generation (if co_counted c then FinalCompleted else FinalIneligible) (co_completed c) (co_counted c)
                    (if co_threshold c then h'\<lparr>ha_draining := True\<rparr> else h'))
          else if \<not> wt_started w then h
          else final_response generation (if outcome = Timeout then FinalCancelled else FinalWriteError) (wt_completed w) False h)"

text \<open>The part of \<^verbatim>\<open>Drain\<close> under the mutex; what follows is waiting for the flag.\<close>

definition Drain :: "Handler \<Rightarrow> Handler" where
  "Drain h = h\<lparr>ha_draining := True, ha_drained := (ha_drained h \<or> ha_inflight h = 0)\<rparr>"

definition exposition_observe :: "Format \<Rightarrow> exposition_outcome \<Rightarrow> int \<Rightarrow> Handler \<Rightarrow> Handler" where
  "exposition_observe format outcome response_bytes h =
     (let r = try_counter ExpositionRequestsTotal [(''format'', format), (''outcome'', exposition_outcome_string outcome)] 1 (ha_metrics h)
      in h\<lparr>ha_metrics := (if response_bytes > 0 then try_gauge ExpositionResponseBytes [(''format'', format)] (f64_of_int response_bytes) r
                         else r)\<rparr>)"

definition notifyFailure :: "exposition_outcome \<Rightarrow> nat \<Rightarrow> Handler \<Rightarrow> Handler" where
  "notifyFailure outcome status h = h\<lparr>ha_failure_log := ha_failure_log h @ [(outcome, status)]\<rparr>"

section \<open>Negotiation\<close>

fun weigh :: "string \<Rightarrow> float64 \<Rightarrow> string list \<Rightarrow> string \<times> float64" where
  "weigh name quality [] = (name, quality)"
| "weigh name quality (parameter # ps) =
     (let (key, raw, found) = cut_at (CHR ''='') (TrimSpace parameter) in
      if found \<and> (key = ''q'' \<or> key = ''Q'') then
        (case parse_float raw of
           None \<Rightarrow> (name, f64_zero)
         | Some q \<Rightarrow> if f64_less q f64_zero \<or> f64_less f64_one q then (name, f64_zero) else weigh name q ps)
      else weigh name quality ps)"

definition parseWeightedToken :: "string \<Rightarrow> string \<times> float64" where
  "parseWeightedToken v =
     (let parts = split_on (CHR '';'') v in weigh (to_lower_ascii (TrimSpace (hd parts))) f64_one (tl parts))"

definition negotiateFormat :: "string \<Rightarrow> Format option" where
  "negotiateFormat v =
     (if TrimSpace v = [] then Some Prometheus
      else
        let items = map parseWeightedToken (split_on (CHR '','') v) in
        if list_ex (\<lambda>(media, q). \<not> f64_eq q f64_zero \<and> media = ''application/openmetrics-text'') items then Some OpenMetrics
        else if list_ex (\<lambda>(media, q). f64_less f64_zero q \<and> (media = ''text/plain'' \<or> media = ''text/*'' \<or> media = ''*/*'')) items
        then Some Prometheus
        else None)"

fun encoding_items :: "bool \<Rightarrow> (string \<times> float64) list \<Rightarrow> Encoding option" where
  "encoding_items identity_allowed [] = (if identity_allowed then Some Identity else None)"
| "encoding_items identity_allowed ((name, q) # items) =
     (if name = ''gzip'' \<and> f64_less f64_zero q then Some Gzip
      else encoding_items
        (if name = ''identity'' \<and> f64_eq q f64_zero \<or> name = ''*'' \<and> f64_eq q f64_zero then False else identity_allowed) items)"

definition negotiateEncoding :: "string \<Rightarrow> Encoding option" where
  "negotiateEncoding v =
     (if TrimSpace v = [] then Some Identity
      else encoding_items True (map parseWeightedToken (split_on (CHR '','') v)))"

section \<open>Requests\<close>

record http_request =
  rq_method :: string
  rq_path :: string
  rq_accept :: string
  rq_accept_encoding :: string

definition writeFailure :: "(string \<times> string) list \<Rightarrow> nat \<Rightarrow> string \<Rightarrow> http_response" where
  "writeFailure headers status body =
     \<lparr>hr_status = status,
      hr_headers = headers @ [(''Content-Type'', ''text/plain; charset=utf-8''), (''Cache-Control'', ''no-store''),
        (''X-Content-Type-Options'', ''nosniff'')],
      hr_body = body\<rparr>"

definition method_not_allowed :: http_response where
  "method_not_allowed = writeFailure [(''Allow'', ''GET'')] 405 (with_newline ''method not allowed'')"

definition serveDebug :: "bytes option \<Rightarrow> http_request \<Rightarrow> http_response" where
  "serveDebug debug request =
     (if rq_method request \<noteq> ''GET'' then method_not_allowed
      else \<lparr>hr_status = 200,
            hr_headers = [(''Content-Type'', ''application/json; charset=utf-8''), (''Cache-Control'', ''no-store'')],
            hr_body = (case debug of None \<Rightarrow> with_newline ''{}'' | Some content \<Rightarrow> content)\<rparr>)"

text \<open>
  The answer to an admitted request: the outcome, the size, the generation, the response and the
  status for the failure observers, if they are told.
\<close>

definition count_metrics :: "ActiveSnapshot \<Rightarrow> Handler \<Rightarrow> Handler" where
  "count_metrics active h =
     (let (included, excluded) = Counts (ha_filter h) (v_families (a_validated active))
      in h\<lparr>ha_metrics := try_gauge FilterFamilies [(''outcome'', ''excluded'')] (f64_of_nat excluded)
             (try_gauge FilterFamilies [(''outcome'', ''included'')] (f64_of_nat included) (ha_metrics h))\<rparr>)"

definition metric_answer ::
  "(bytes \<Rightarrow> bytes) \<Rightarrow> write_env \<Rightarrow> int \<Rightarrow> ActiveSnapshot \<Rightarrow> Format \<Rightarrow> Encoding \<Rightarrow> Handler \<Rightarrow>
     exposition_outcome \<times> int \<times> uint64 \<times> http_response option \<times> nat option" where
  "metric_answer gzip env now active format encoding h =
     (case Prepare gzip active (View now (ha_metrics h)) (Some (Includes (ha_filter h))) format encoding
             (ec_response_bytes (ha_config h)) of
        Inl e \<Rightarrow>
          (if e = ErrResponseLimit then ResponseLimit else EncodingError, 0, a_generation active,
           Some (writeFailure [] 503 (with_newline ''exposition unavailable'')), Some 503)
      | Inr prepared \<Rightarrow>
          (let (outcome, response) = Write env prepared (ec_write_timeout (ha_config h))
           in (outcome, pr_uncompressed_bytes prepared, pr_generation prepared, response,
               if outcome \<noteq> Success then Some 200 else None)))"

definition maybe_notify :: "exposition_outcome \<Rightarrow> nat option \<Rightarrow> Handler \<Rightarrow> Handler" where
  "maybe_notify outcome status h = (case status of None \<Rightarrow> h | Some st \<Rightarrow> notifyFailure outcome st h)"

definition release :: "Handler \<Rightarrow> Handler" where
  "release h = h\<lparr>ha_limiter := Release (ha_limiter h)\<rparr>"

definition serveMetrics ::
  "(bytes \<Rightarrow> bytes) \<Rightarrow> write_env \<Rightarrow> int \<Rightarrow> ActiveSnapshot \<Rightarrow> http_request \<Rightarrow> Handler \<Rightarrow> Handler \<times> http_response option" where
  "serveMetrics gzip env now active request h =
     (if rq_method request \<noteq> ''GET'' then (h, Some method_not_allowed)
      else case (negotiateFormat (rq_accept request), negotiateEncoding (rq_accept_encoding request)) of
        (Some format, Some encoding) \<Rightarrow>
          (case Acquire (ha_limiter h) of
             None \<Rightarrow> (h, Some (writeFailure [] 503 (with_newline ''exposition busy'')))
           | Some limiter \<Rightarrow>
               let (accepted, h) = acceptMetric (h\<lparr>ha_limiter := limiter\<rparr>) in
               if \<not> accepted then (release h, Some (writeFailure [] 503 (with_newline ''exposition draining'')))
               else
                 let h = count_metrics active h;
                     (outcome, size, generation, response, status) = metric_answer gzip env now active format encoding h
                 in (release (finishMetric (maybe_notify outcome status
                       (completeFinal generation outcome (exposition_observe format outcome size h)))), response))
      | _ \<Rightarrow> (h, Some (writeFailure [] 406 (with_newline ''not acceptable''))))"

definition probe_http :: "probe_response \<Rightarrow> http_response" where
  "probe_http p = \<lparr>hr_status = nat (probe_status p), hr_headers = probe_headers p, hr_body = probe_body p\<rparr>"

definition ServeHTTP ::
  "(bytes \<Rightarrow> bytes) \<Rightarrow> write_env \<Rightarrow> int \<Rightarrow> state \<Rightarrow> bytes option \<Rightarrow> ActiveSnapshot \<Rightarrow> http_request \<Rightarrow> Handler \<Rightarrow>
     Handler \<times> http_response option" where
  "ServeHTTP gzip env now lifecycle_state debug active request h =
     (if rq_path request = HealthPath \<or> rq_path request = ReadinessPath then
        (h, Some (probe_http (probe_serve lifecycle_state (rq_method request) (rq_path request))))
      else if rq_path request = DebugPath then (h, Some (serveDebug debug request))
      else if rq_path request = MetricsPath then serveMetrics gzip env now active request h
      else (h, Some (writeFailure [] 404 (with_newline ''not found''))))"

end
