(* ===== verification/Exposition_Drain.thy ===== *)
theory Exposition_Drain
  imports Exposition_Handler
begin

text \<open>
  Metric requests that run at the same time, the final wait and the drain: how the handler's
  operations interleave, and that admission and drain are exact.
\<close>

section \<open>Interleaving\<close>

text \<open>Where the goroutine of a request that took a slot of the limiter stands.\<close>

datatype request_pc =
    Rq_Acquired
  | Rq_Refused
  | Rq_Accepted
  | Rq_Counted
  | Rq_Answered Format exposition_outcome int uint64 "nat option"
  | Rq_Observed exposition_outcome uint64 "nat option"
  | Rq_Completed exposition_outcome "nat option"
  | Rq_Notified
  | Rq_Finished

record handler_system =
  hs_handler :: Handler
  hs_requests :: "nat \<rightharpoonup> request_pc"

definition moves :: "handler_system \<Rightarrow> nat \<Rightarrow> Handler \<Rightarrow> request_pc \<Rightarrow> handler_system" where
  "moves s i h pc = \<lparr>hs_handler = h, hs_requests = (hs_requests s)(i \<mapsto> pc)\<rparr>"

inductive handler_step :: "handler_system \<Rightarrow> handler_system \<Rightarrow> bool" where
  acquire: "hs_requests s i = None \<Longrightarrow> Acquire (ha_limiter (hs_handler s)) = Some l \<Longrightarrow>
    handler_step s (moves s i ((hs_handler s)\<lparr>ha_limiter := l\<rparr>) Rq_Acquired)"
| accept: "hs_requests s i = Some Rq_Acquired \<Longrightarrow> acceptMetric (hs_handler s) = (ok, h) \<Longrightarrow>
    handler_step s (moves s i h (if ok then Rq_Accepted else Rq_Refused))"
| count: "hs_requests s i = Some Rq_Accepted \<Longrightarrow>
    handler_step s (moves s i (count_metrics active (hs_handler s)) Rq_Counted)"
| answer: "hs_requests s i = Some Rq_Counted \<Longrightarrow>
    metric_answer gzip env now active format encoding (hs_handler s) = (outcome, n, generation, response, status) \<Longrightarrow>
    handler_step s (moves s i (hs_handler s) (Rq_Answered format outcome n generation status))"
| observed: "hs_requests s i = Some (Rq_Answered format outcome n generation status) \<Longrightarrow>
    handler_step s (moves s i (exposition_observe format outcome n (hs_handler s)) (Rq_Observed outcome generation status))"
| complete: "hs_requests s i = Some (Rq_Observed outcome generation status) \<Longrightarrow>
    handler_step s (moves s i (completeFinal generation outcome (hs_handler s)) (Rq_Completed outcome status))"
| notify: "hs_requests s i = Some (Rq_Completed outcome status) \<Longrightarrow>
    handler_step s (moves s i (maybe_notify outcome status (hs_handler s)) Rq_Notified)"
| finish: "hs_requests s i = Some Rq_Notified \<Longrightarrow> handler_step s (moves s i (finishMetric (hs_handler s)) Rq_Finished)"
| leave: "hs_requests s i = Some pc \<Longrightarrow> pc = Rq_Refused \<or> pc = Rq_Finished \<Longrightarrow>
    handler_step s \<lparr>hs_handler = release (hs_handler s), hs_requests = (hs_requests s)(i := None)\<rparr>"
| drain: "handler_step s (s\<lparr>hs_handler := Drain (hs_handler s)\<rparr>)"
| set_wait: "handler_step s (s\<lparr>hs_handler := SetFinalWait w (hs_handler s)\<rparr>)"
| start_wait: "ha_waiter (hs_handler s) = Some w \<Longrightarrow> wait_start fails now w = Inr w' \<Longrightarrow>
    handler_step s (s\<lparr>hs_handler := (hs_handler s)\<lparr>ha_waiter := Some w'\<rparr>\<rparr>)"
| finish_wait: "ha_waiter (hs_handler s) = Some w \<Longrightarrow> wait_finish reason w = (w', result) \<Longrightarrow>
    handler_step s (s\<lparr>hs_handler := (hs_handler s)\<lparr>ha_waiter := Some w'\<rparr>\<rparr>)"

section \<open>The invariant\<close>

definition is_open :: "request_pc \<Rightarrow> bool" where
  "is_open pc \<longleftrightarrow> pc \<notin> {Rq_Acquired, Rq_Refused, Rq_Finished}"

text \<open>The requests that were accepted and have not finished.\<close>

definition opened :: "(nat \<rightharpoonup> request_pc) \<Rightarrow> nat set" where
  "opened m = {i. \<exists>pc. m i = Some pc \<and> is_open pc}"

lemma opened_upd: "opened (m(i \<mapsto> pc)) = (if is_open pc then insert i (opened m) else opened m - {i})"
  by (auto simp: opened_def)

lemma opened_del: "opened (m(i := None)) = opened m - {i}"
  by (auto simp: opened_def)

lemma opened_dom: "opened m \<subseteq> dom m"
  by (auto simp: opened_def)

lemma opened_iff: "m i = Some pc \<Longrightarrow> i \<in> opened m \<longleftrightarrow> is_open pc"
  by (simp add: opened_def)

definition handler_inv :: "handler_system \<Rightarrow> bool" where
  "handler_inv s \<longleftrightarrow>
     finite (dom (hs_requests s)) \<and>
     li_used (ha_limiter (hs_handler s)) = int (card (dom (hs_requests s))) \<and>
     li_used (ha_limiter (hs_handler s)) \<le> li_capacity (ha_limiter (hs_handler s)) \<and>
     ha_inflight (hs_handler s) = int (card (opened (hs_requests s))) \<and>
     (ha_drained (hs_handler s) \<longleftrightarrow> ha_draining (hs_handler s) \<and> opened (hs_requests s) = {})"

lemma finite_opened: "handler_inv s \<Longrightarrow> finite (opened (hs_requests s))"
  by (rule finite_subset [OF opened_dom]) (simp add: handler_inv_def)

text \<open>What the operations between accept and finish leave alone.\<close>

definition gate :: "Handler \<Rightarrow> Limiter \<times> int \<times> bool" where
  "gate h = (ha_limiter h, ha_inflight h, ha_drained h)"

lemma gate_keeps [simp]:
  "gate (count_metrics active h) = gate h" "gate (exposition_observe format outcome n h) = gate h"
  "gate (maybe_notify outcome status h) = gate h" "gate (completeFinal generation outcome h) = gate h"
  by (simp_all add: gate_def count_metrics_def exposition_observe_def maybe_notify_def notifyFailure_def completeFinal_def final_response_def
      Let_def split: option.split prod.split)

lemma draining_keeps [simp]:
  "ha_draining (count_metrics active h) = ha_draining h" "ha_draining (exposition_observe format outcome n h) = ha_draining h"
  "ha_draining (maybe_notify outcome status h) = ha_draining h"
  by (simp_all add: count_metrics_def exposition_observe_def maybe_notify_def notifyFailure_def Let_def split: option.split prod.split)

lemma completeFinal_draining: "ha_draining h \<Longrightarrow> ha_draining (completeFinal generation outcome h)"
  by (simp add: completeFinal_def final_response_def Let_def split: option.split prod.split)

lemma inv_middle:
  assumes "handler_inv s" "hs_requests s i = Some pc" "is_open pc" "is_open pc'" "gate h = gate (hs_handler s)"
    "ha_draining (hs_handler s) \<longrightarrow> ha_draining h"
  shows "handler_inv (moves s i h pc')"
proof -
  have i: "i \<in> opened (hs_requests s)" "i \<in> dom (hs_requests s)" using assms(2,3) by (auto simp: opened_iff)
  then have "opened ((hs_requests s)(i \<mapsto> pc')) = opened (hs_requests s)" using assms(4) by (auto simp: opened_upd)
  moreover have "dom ((hs_requests s)(i \<mapsto> pc')) = dom (hs_requests s)" using i(2) by auto
  ultimately show ?thesis using assms(1,5,6) i(1) by (auto simp: handler_inv_def moves_def gate_def)
qed

lemma handler_inv_step: "handler_step s s' \<Longrightarrow> handler_inv s \<Longrightarrow> handler_inv s'"
proof (induction rule: handler_step.induct)
  case (acquire s i l)
  have "opened ((hs_requests s)(i \<mapsto> Rq_Acquired)) = opened (hs_requests s)"
    using acquire.hyps(1) by (auto simp: opened_def is_open_def)
  moreover have "i \<notin> dom (hs_requests s)" using acquire.hyps(1) by auto
  moreover have "card (dom ((hs_requests s)(i \<mapsto> Rq_Acquired))) = Suc (card (dom (hs_requests s)))"
    using calculation(2) acquire.prems by (simp add: handler_inv_def)
  ultimately show ?case using acquire.prems acquire.hyps(2)
    by (simp add: handler_inv_def moves_def Acquire_def split: if_splits) auto
next
  case (accept s i ok h)
  have i: "i \<notin> opened (hs_requests s)" "i \<in> dom (hs_requests s)" using accept.hyps(1) by (auto simp: opened_def is_open_def)
  have f: "finite (opened (hs_requests s))" using accept.prems by (rule finite_opened)
  have d: "dom ((hs_requests s)(i \<mapsto> pc)) = dom (hs_requests s)" for pc using i(2) by auto
  show ?case
  proof (cases "ha_draining (hs_handler s)")
    case True
    then have "ok = False" "h = hs_handler s" using accept.hyps(2) by (auto simp: acceptMetric_def)
    moreover have "opened ((hs_requests s)(i \<mapsto> Rq_Refused)) = opened (hs_requests s)" using i(1) by (simp add: opened_upd is_open_def)
    ultimately show ?thesis using accept.prems d [of Rq_Refused] unfolding handler_inv_def moves_def by simp
  next
    case False
    then have h: "ok" "gate h = (ha_limiter (hs_handler s), ha_inflight (hs_handler s) + 1, ha_drained (hs_handler s))" "\<not> ha_draining h"
      using accept.hyps(2) by (auto simp: acceptMetric_def Let_def gate_def)
    have o: "opened ((hs_requests s)(i \<mapsto> Rq_Accepted)) = insert i (opened (hs_requests s))" by (simp add: opened_upd is_open_def)
    have "\<not> ha_drained (hs_handler s)" using accept.prems False by (simp add: handler_inv_def)
    with h o f i(1) d [of Rq_Accepted] accept.prems show ?thesis unfolding handler_inv_def moves_def gate_def by simp
  qed
next
  case (finish s i)
  have i: "i \<in> opened (hs_requests s)" "i \<in> dom (hs_requests s)" using finish.hyps by (auto simp: opened_def is_open_def)
  have f: "finite (opened (hs_requests s))" using finish.prems by (rule finite_opened)
  have d: "dom ((hs_requests s)(i \<mapsto> Rq_Finished)) = dom (hs_requests s)" using i(2) by auto
  have o: "opened ((hs_requests s)(i \<mapsto> Rq_Finished)) = opened (hs_requests s) - {i}" by (simp add: opened_upd is_open_def)
  have c: "card (opened (hs_requests s)) = Suc (card (opened (hs_requests s) - {i}))" using f i(1) by (rule card.remove)
  have z: "card (opened (hs_requests s) - {i}) = 0 \<longleftrightarrow> opened (hs_requests s) - {i} = {}" using f by (simp add: card_eq_0_iff)
  have "\<not> ha_drained (hs_handler s)" using finish.prems i(1) by (auto simp: handler_inv_def)
  with finish.prems c z d o show ?case by (simp add: handler_inv_def moves_def finishMetric_def Let_def del: card_0_eq)
next
  case (leave s i pc)
  have i: "i \<in> dom (hs_requests s)" "i \<notin> opened (hs_requests s)" using leave.hyps by (auto simp: opened_def is_open_def)
  then have "opened ((hs_requests s)(i := None)) = opened (hs_requests s)" by (simp add: opened_del)
  moreover have "card (dom (hs_requests s)) = Suc (card (dom (hs_requests s) - {i}))"
    by (rule card.remove) (use leave.prems i(1) in \<open>simp_all add: handler_inv_def\<close>)
  ultimately show ?case using leave.prems by (simp add: handler_inv_def release_def Release_def)
next
  case (drain s)
  have "finite (opened (hs_requests s))" using drain by (rule finite_opened)
  with drain show ?case by (auto simp: handler_inv_def Drain_def card_eq_0_iff)
next
  case (count s i active)
  show ?case by (rule inv_middle [OF count.prems count.hyps]) (simp_all add: is_open_def)
next
  case (answer s i gzip env now active format encoding outcome n generation response status)
  show ?case by (rule inv_middle [OF answer.prems answer.hyps(1)]) (simp_all add: is_open_def)
next
  case (observed s i format outcome n generation status)
  show ?case by (rule inv_middle [OF observed.prems observed.hyps]) (simp_all add: is_open_def)
next
  case (complete s i outcome generation status)
  show ?case by (rule inv_middle [OF complete.prems complete.hyps]) (simp_all add: is_open_def completeFinal_draining)
next
  case (notify s i outcome status)
  show ?case by (rule inv_middle [OF notify.prems notify.hyps]) (simp_all add: is_open_def)
qed (simp_all add: handler_inv_def SetFinalWait_def)

lemma handler_inv_steps: "handler_step\<^sup>*\<^sup>* s s' \<Longrightarrow> handler_inv s \<Longrightarrow> handler_inv s'"
  by (induction rule: rtranclp_induct) (auto dest: handler_inv_step)

section \<open>Draining\<close>

definition draining :: "handler_system \<Rightarrow> bool" where
  "draining s = ha_draining (hs_handler s)"

definition in_flight :: "handler_system \<Rightarrow> nat set" where
  "in_flight s = opened (hs_requests s)"

lemma draining_step:
  "handler_step s s' \<Longrightarrow> draining s \<Longrightarrow> draining s' \<and> in_flight s' \<subseteq> in_flight s"
proof (induction rule: handler_step.induct)
  case (acquire s i l)
  then show ?case by (auto simp: draining_def in_flight_def moves_def opened_upd is_open_def)
next
  case (accept s i ok h)
  then have "\<not> ok" "h = hs_handler s" by (auto simp: acceptMetric_def draining_def)
  with accept.prems show ?case by (auto simp: draining_def in_flight_def moves_def opened_upd is_open_def)
next
  case (count s i active)
  then show ?case by (auto simp: draining_def in_flight_def moves_def opened_upd opened_iff is_open_def)
next
  case (answer s i gzip env now active format encoding outcome n generation response status)
  then show ?case by (auto simp: draining_def in_flight_def moves_def opened_upd opened_iff is_open_def)
next
  case (observed s i format outcome n generation status)
  then show ?case by (auto simp: draining_def in_flight_def moves_def opened_upd opened_iff is_open_def)
next
  case (complete s i outcome generation status)
  then show ?case by (auto simp: draining_def in_flight_def moves_def opened_upd opened_iff is_open_def completeFinal_draining)
next
  case (notify s i outcome status)
  then show ?case by (auto simp: draining_def in_flight_def moves_def opened_upd opened_iff is_open_def)
next
  case (finish s i)
  then show ?case by (auto simp: draining_def in_flight_def moves_def opened_upd is_open_def finishMetric_def Let_def)
next
  case (leave s i pc)
  then show ?case by (auto simp: draining_def in_flight_def opened_del release_def)
qed (auto simp: draining_def in_flight_def Drain_def SetFinalWait_def)

lemma draining_steps: "handler_step\<^sup>*\<^sup>* s s' \<Longrightarrow> draining s \<Longrightarrow> draining s' \<and> in_flight s' \<subseteq> in_flight s"
  by (induction rule: rtranclp_induct) (auto dest: draining_step)

section \<open>An accepted request can finish\<close>

fun request_rank :: "request_pc \<Rightarrow> nat" where
  "request_rank Rq_Accepted = 6"
| "request_rank Rq_Counted = 5"
| "request_rank (Rq_Answered _ _ _ _ _) = 4"
| "request_rank (Rq_Observed _ _ _) = 3"
| "request_rank (Rq_Completed _ _) = 2"
| "request_rank Rq_Notified = 1"
| "request_rank _ = 0"

lemma request_moves:
  assumes "hs_requests s i = Some pc" "is_open pc"
  shows "\<exists>h pc'. handler_step s (moves s i h pc') \<and> request_rank pc' < request_rank pc \<and> (pc' = Rq_Finished \<or> is_open pc')"
proof (cases pc)
  case Rq_Counted
  obtain outcome n generation response status where
    "metric_answer id undefined 0 (NewActive Zero 0) Prometheus Identity (hs_handler s) = (outcome, n, generation, response, status)"
    by (metis prod_cases5)
  from handler_step.answer [OF _ this] assms Rq_Counted show ?thesis by (fastforce simp: is_open_def)
next
  case Rq_Accepted
  with assms show ?thesis using handler_step.count [of s i] by (fastforce simp: is_open_def)
next
  case (Rq_Answered x1 x2 x3 x4 x5)
  with assms show ?thesis using handler_step.observed [of s i] by (fastforce simp: is_open_def)
next
  case (Rq_Observed x1 x2 x3)
  with assms show ?thesis using handler_step.complete [of s i] by (fastforce simp: is_open_def)
next
  case (Rq_Completed x1 x2)
  with assms show ?thesis using handler_step.notify [of s i] by (fastforce simp: is_open_def)
next
  case Rq_Notified
  with assms show ?thesis using handler_step.finish [of s i] by fastforce
qed (use assms(2) in \<open>simp_all add: is_open_def\<close>)

lemma request_finishes:
  "hs_requests s i = Some pc \<Longrightarrow> is_open pc \<Longrightarrow> \<exists>s'. handler_step\<^sup>*\<^sup>* s s' \<and> i \<notin> in_flight s'"
proof (induction "request_rank pc" arbitrary: s pc rule: less_induct)
  case less
  obtain h pc' where st: "handler_step s (moves s i h pc')" "request_rank pc' < request_rank pc" "pc' = Rq_Finished \<or> is_open pc'"
    using request_moves [OF less.prems] by blast
  have i: "hs_requests (moves s i h pc') i = Some pc'" by (simp add: moves_def)
  from st(3) show ?case
  proof
    assume "pc' = Rq_Finished"
    with i have "i \<notin> in_flight (moves s i h pc')" by (auto simp: in_flight_def opened_def is_open_def)
    with st(1) show ?thesis by blast
  next
    assume "is_open pc'"
    from less.hyps [OF st(2) i this] st(1) show ?thesis by (meson converse_rtranclp_into_rtranclp)
  qed
qed

lemma drains:
  "handler_inv s \<Longrightarrow> draining s \<Longrightarrow> \<exists>s'. handler_step\<^sup>*\<^sup>* s s' \<and> in_flight s' = {}"
proof (induction "card (in_flight s)" arbitrary: s rule: less_induct)
  case less
  show ?case
  proof (cases "in_flight s = {}")
    case False
    then obtain i pc where i: "hs_requests s i = Some pc" "is_open pc" "i \<in> in_flight s"
      by (auto simp: in_flight_def opened_def)
    obtain t where t: "handler_step\<^sup>*\<^sup>* s t" "i \<notin> in_flight t" using request_finishes [OF i(1,2)] by blast
    note d = draining_steps [OF t(1) less.prems(2)]
    have "in_flight t \<subset> in_flight s" using d t(2) i(3) by blast
    then have "card (in_flight t) < card (in_flight s)"
      using finite_opened [OF less.prems(1)] by (simp add: in_flight_def psubset_card_mono)
    from less.hyps [OF this handler_inv_steps [OF t(1) less.prems(1)]] d t(1) show ?thesis
      by (meson rtranclp_trans)
  qed blast
qed

section \<open>Property\<close>

lemma NewHandler_inv:
  assumes "NewHandler c metrics = Inr h"
  shows "handler_inv \<lparr>hs_handler = h, hs_requests = Map.empty\<rparr> \<and> li_capacity (ha_limiter h) = ec_concurrent c"
  using assms by (auto simp: NewHandler_def NewLimiter_def handler_inv_def opened_def Let_def and_then_Inr_iff
      split: if_splits sum.splits prod.splits)

lemma capacity_step:
  "handler_step s s' \<Longrightarrow> li_capacity (ha_limiter (hs_handler s')) = li_capacity (ha_limiter (hs_handler s))"
proof -
  have g: "gate h = gate h' \<Longrightarrow> ha_limiter h = ha_limiter h'" for h h' by (simp add: gate_def)
  show "handler_step s s' \<Longrightarrow> li_capacity (ha_limiter (hs_handler s')) = li_capacity (ha_limiter (hs_handler s))"
    by (induction rule: handler_step.induct)
      (auto simp: moves_def Acquire_def release_def Release_def Drain_def SetFinalWait_def finishMetric_def acceptMetric_def Let_def
        g [OF gate_keeps(1)] g [OF gate_keeps(2)] g [OF gate_keeps(3)] g [OF gate_keeps(4)] split: if_splits)
qed

lemma capacity_steps:
  "handler_step\<^sup>*\<^sup>* s s' \<Longrightarrow> li_capacity (ha_limiter (hs_handler s')) = li_capacity (ha_limiter (hs_handler s))"
  by (induction rule: rtranclp_induct) (auto dest: capacity_step)

text \<open>
  C31: The drain is exact, however requests, final waits and the drain interleave. The handler's count is
  always the number of requests accepted and not finished, never more than the configured concurrency;
  the drain is signalled exactly when admission is closed and that number is zero, so it is neither
  signalled early nor missed; once admission is closed, by a drain or by the last required final scrape,
  no further request is accepted; and from there the signal can always be reached by the accepted
  requests finishing.
\<close>

theorem handler_drain_exact:
  assumes "NewHandler c metrics = Inr h" "handler_step\<^sup>*\<^sup>* \<lparr>hs_handler = h, hs_requests = Map.empty\<rparr> s"
  shows "ha_inflight (hs_handler s) = int (card (in_flight s)) \<and> ha_inflight (hs_handler s) \<le> ec_concurrent c \<and>
    (ha_drained (hs_handler s) \<longleftrightarrow> draining s \<and> in_flight s = {}) \<and>
    (draining s \<longrightarrow>
       (\<forall>s'. handler_step\<^sup>*\<^sup>* s s' \<longrightarrow> draining s' \<and> in_flight s' \<subseteq> in_flight s) \<and>
       (\<exists>s'. handler_step\<^sup>*\<^sup>* s s' \<and> ha_drained (hs_handler s')))"
proof -
  note n = NewHandler_inv [OF assms(1)]
  have inv: "handler_inv s" using handler_inv_steps [OF assms(2)] n by blast
  have cap: "li_capacity (ha_limiter (hs_handler s)) = ec_concurrent c" using capacity_steps [OF assms(2)] n by simp
  have "card (in_flight s) \<le> card (dom (hs_requests s))"
    unfolding in_flight_def by (rule card_mono [OF _ opened_dom]) (use inv in \<open>simp add: handler_inv_def\<close>)
  then have "ha_inflight (hs_handler s) \<le> ec_concurrent c" using inv cap by (simp add: handler_inv_def in_flight_def)
  moreover have "\<exists>s'. handler_step\<^sup>*\<^sup>* s s' \<and> ha_drained (hs_handler s')" if d: "draining s"
  proof -
    obtain t where t: "handler_step\<^sup>*\<^sup>* s t" "in_flight t = {}" using drains [OF inv d] by blast
    have "ha_drained (hs_handler t)"
      using handler_inv_steps [OF t(1) inv] t(2) draining_steps [OF t(1) d] by (simp add: handler_inv_def in_flight_def draining_def)
    with t(1) show ?thesis by blast
  qed
  ultimately show ?thesis using inv draining_steps by (auto simp: handler_inv_def in_flight_def draining_def)
qed

theorem handler_drain_exact_witness:
  "\<exists>h s. NewHandler exposition_defaults demo_self = Inr h \<and>
     handler_step\<^sup>*\<^sup>* \<lparr>hs_handler = h, hs_requests = Map.empty\<rparr> s \<and> draining s \<and> ha_drained (hs_handler s)"
proof -
  have "SplitHostPort ''0.0.0.0:9090'' = Some (''0.0.0.0'', ''9090'')" by (simp add: SplitHostPort_def)
  then have "\<exists>h. NewHandler exposition_defaults demo_self = Inr h"
    by (simp add: NewHandler_def exposition_validate_def exposition_defaults_def second_def millisecond_def NewFilter_def
        normalizeSelectors_def NewLimiter_def Let_def RuleCounts_def)
  then obtain h where h: "NewHandler exposition_defaults demo_self = Inr h" ..
  let ?s = "\<lparr>hs_handler = Drain h, hs_requests = Map.empty\<rparr>"
  have st: "handler_step\<^sup>*\<^sup>* \<lparr>hs_handler = h, hs_requests = Map.empty\<rparr> ?s"
    using handler_step.drain [of "\<lparr>hs_handler = h, hs_requests = Map.empty\<rparr>"] by (simp add: r_into_rtranclp)
  have "draining ?s" "in_flight ?s = {}" by (simp_all add: draining_def Drain_def in_flight_def opened_def)
  with handler_drain_exact [OF h st] h st show ?thesis by blast
qed

end
