(* ===== verification/Managed_Protocol.thy ===== *)
theory Managed_Protocol
  imports Json_Parse_Facts Managed_Owner
begin

text \<open>
  The wire protocol of managed metrics (\<^verbatim>\<open>internal/managedprotocol/protocol.go\<close>): one JSON frame in,
  one JSON line out.

  A \<^verbatim>\<open>json.RawMessage\<close> is a part of the scanned frame, so the tree of the scan is what the decoders
  read. The label map of an operation is an association list in the order \<open>order\<close> gives it, standing
  for the order in which Go visits the map. The submitter is an argument.
\<close>

section \<open>Data\<close>

definition Version :: int where "Version = 1"

datatype Code =
    CodeEmptyFrame | CodePartialFrame | CodeFrameTooLarge | CodeMultipleFrames | CodeMalformedJSON
  | CodeMissingVersion | CodeInvalidVersion | CodeUnsupportedVersion | CodeInvalidRequest

fun code_string :: "Code \<Rightarrow> string" where
  "code_string CodeEmptyFrame = ''empty_frame''"
| "code_string CodePartialFrame = ''partial_frame''"
| "code_string CodeFrameTooLarge = ''frame_too_large''"
| "code_string CodeMultipleFrames = ''multiple_frames''"
| "code_string CodeMalformedJSON = ''malformed_json''"
| "code_string CodeMissingVersion = ''missing_version''"
| "code_string CodeInvalidVersion = ''invalid_version''"
| "code_string CodeUnsupportedVersion = ''unsupported_version''"
| "code_string CodeInvalidRequest = ''invalid_request''"

record Response =
  rp_version :: int
  rp_outcome :: string
  rp_generation :: uint64
  rp_commit :: uint64
  rp_reason :: string

section \<open>Requests\<close>

definition exactFields :: "(string \<times> json) list \<Rightarrow> string list \<Rightarrow> bool" where
  "exactFields object names \<longleftrightarrow>
     length object = length names \<and> list_all (\<lambda>name. map_of object name \<noteq> None) names"

text \<open>
  A number is a JSON string or the raw text of a value; the text of anything but a number is none that
  \<^verbatim>\<open>ParseFloat\<close> takes.
\<close>

definition parseNumber :: "json \<Rightarrow> float64 option" where
  "parseNumber raw =
     (case raw of JStr s \<Rightarrow> parse_float s | JNum s \<Rightarrow> parse_float s | _ \<Rightarrow> None)"

definition field :: "(string \<times> json) list \<Rightarrow> string \<Rightarrow> (json \<Rightarrow> 'a option) \<Rightarrow> Code + 'a" where
  "field object name decode =
     (case map_of object name of
        None \<Rightarrow> Inl CodeInvalidRequest
      | Some v \<Rightarrow> (case decode v of None \<Rightarrow> Inl CodeInvalidRequest | Some x \<Rightarrow> Inr x))"

fun all_some :: "'a option list \<Rightarrow> 'a list option" where
  "all_some [] = Some []"
| "all_some (x # xs) = (case x of None \<Rightarrow> None | Some v \<Rightarrow> map_option (Cons v) (all_some xs))"

definition unmarshal_strings :: "json \<Rightarrow> string list option" where
  "unmarshal_strings j = (case j of JArr xs \<Rightarrow> all_some (map unmarshal_string xs) | _ \<Rightarrow> None)"

definition unmarshal_string_map :: "json \<Rightarrow> label_map option" where
  "unmarshal_string_map j =
     (case j of JObj ms \<Rightarrow> all_some (map (\<lambda>(k, v). map_option (Pair k) (unmarshal_string v)) ms) | _ \<Rightarrow> None)"

definition parseDeclaration :: "(string \<times> json) list \<Rightarrow> Code + Mutation" where
  "parseDeclaration object =
     (if \<not> exactFields object [''version'', ''op'', ''name'', ''help'', ''type'', ''label_names'', ''buckets'']
      then Inl CodeInvalidRequest
      else
        and_then (field object ''name'' unmarshal_string) (\<lambda>name.
        and_then (field object ''help'' unmarshal_string) (\<lambda>help.
        and_then (field object ''type'' unmarshal_string) (\<lambda>metricType.
        and_then (field object ''label_names'' unmarshal_strings) (\<lambda>labels.
        and_then (field object ''buckets'' unmarshal_array) (\<lambda>bucketsRaw.
          case all_some (map parseNumber bucketsRaw) of
            None \<Rightarrow> Inl CodeInvalidRequest
          | Some buckets \<Rightarrow>
              Inr \<lparr>mu_descriptor = Some \<lparr>d_name = name, d_help = help, d_type = metricType, d_labels = labels, d_buckets = buckets\<rparr>,
                   mu_operations = []\<rparr>))))))"

definition parseOperation :: "(label_map \<Rightarrow> label_map) \<Rightarrow> (string \<times> json) list \<Rightarrow> OperationKind \<Rightarrow> Code + Mutation" where
  "parseOperation order object kind =
     (if \<not> exactFields object [''version'', ''op'', ''name'', ''labels'', ''value''] then Inl CodeInvalidRequest
      else
        and_then (field object ''name'' unmarshal_string) (\<lambda>name.
        and_then (field object ''labels'' unmarshal_string_map) (\<lambda>labels.
        and_then (field object ''value'' parseNumber) (\<lambda>v.
          Inr \<lparr>mu_descriptor = None,
               mu_operations = [\<lparr>op_kind = kind, op_name = name, op_labels = order labels, op_value = v\<rparr>]\<rparr>))))"

text \<open>
  \<^verbatim>\<open>validateUniqueJSON\<close> and the \<^verbatim>\<open>Unmarshal\<close> after it; the structural scan has no limit on the nesting,
  \<^verbatim>\<open>Unmarshal\<close> has.
\<close>

definition validateUniqueJSON :: "bytes \<Rightarrow> json option" where
  "validateUniqueJSON content = (case scan_document content of Inl _ \<Rightarrow> None | Inr tree \<Rightarrow> Some tree)"

definition frame_object :: "bytes \<Rightarrow> Code + (string \<times> json) list" where
  "frame_object payload =
     (case validateUniqueJSON payload of
        None \<Rightarrow> Inl CodeMalformedJSON
      | Some tree \<Rightarrow>
          if json_depth tree > max_depth then Inl CodeMalformedJSON
          else (case unmarshal_object tree of None \<Rightarrow> Inl CodeMalformedJSON | Some object \<Rightarrow> Inr object))"

definition parse_request :: "(label_map \<Rightarrow> label_map) \<Rightarrow> (string \<times> json) list \<Rightarrow> Code + Mutation" where
  "parse_request order object =
     (case map_of object ''version'' of
        None \<Rightarrow> Inl CodeMissingVersion
      | Some raw \<Rightarrow>
          (case unmarshal_int raw of
             None \<Rightarrow> Inl CodeInvalidVersion
           | Some version \<Rightarrow>
               if version \<noteq> Version then Inl CodeUnsupportedVersion
               else
                 and_then (field object ''op'' unmarshal_string) (\<lambda>operation.
                   if operation = [] then Inl CodeInvalidRequest
                   else if operation = ''declare'' then parseDeclaration object
                   else if operation \<in> {CounterInitialize, CounterAdd, GaugeSet, HistogramObserve}
                     then parseOperation order object operation
                   else Inl CodeInvalidRequest)))"

definition ParseFrame :: "(label_map \<Rightarrow> label_map) \<Rightarrow> bytes \<Rightarrow> int \<Rightarrow> Code + Mutation" where
  "ParseFrame order frame maximum =
     (if maximum < 1 then Inl CodeFrameTooLarge
      else
        let payload = takeWhile (\<lambda>c. c \<noteq> newline) frame in
        if newline \<notin> set frame then
          (if go_len frame > maximum then Inl CodeFrameTooLarge else Inl CodePartialFrame)
        else if payload = [] then Inl CodeEmptyFrame
        else if go_len payload > maximum then Inl CodeFrameTooLarge
        else if length payload \<noteq> length frame - 1 then Inl CodeMultipleFrames
        else and_then (frame_object payload) (parse_request order))"

section \<open>Responses\<close>

definition protocol_response :: "Code \<Rightarrow> Response" where
  "protocol_response code =
     \<lparr>rp_version = Version, rp_outcome = ''protocol'', rp_generation = 0, rp_commit = 0, rp_reason = code_string code\<rparr>"

definition result_response :: "owner_result \<Rightarrow> Response" where
  "result_response r =
     \<lparr>rp_version = Version, rp_outcome = owner_outcome_string (or_outcome r), rp_generation = or_generation r,
      rp_commit = or_commit r,
      rp_reason = (case or_reason r of None \<Rightarrow> [] | Some reason \<Rightarrow> managed_reason_string reason)\<rparr>"

text \<open>
  \<^verbatim>\<open>HandleObserved\<close>: the submitter's state, the response and the code reported to the observer.
\<close>

definition HandleObserved ::
  "(label_map \<Rightarrow> label_map) \<Rightarrow> (Mutation \<Rightarrow> 's \<Rightarrow> 's \<times> owner_result) \<Rightarrow> bytes \<Rightarrow> int \<Rightarrow> 's \<Rightarrow> 's \<times> Response \<times> Code list" where
  "HandleObserved order submit frame maximum s =
     (case ParseFrame order frame maximum of
        Inl code \<Rightarrow> (s, protocol_response code, [code])
      | Inr mutation \<Rightarrow> (case submit mutation s of (s, r) \<Rightarrow> (s, result_response r, [])))"

definition EncodeResponse :: "Response \<Rightarrow> bytes" where
  "EncodeResponse r =
     json_object ([(''version'', itoa (nat (rp_version r))), (''outcome'', json_string (rp_outcome r))] @
       (if rp_generation r = 0 then [] else [(''generation'', format_uint (rp_generation r))]) @
       (if rp_commit r = 0 then [] else [(''commit'', format_uint (rp_commit r))]) @
       (if rp_reason r = [] then [] else [(''reason'', json_string (rp_reason r))])) @ [newline]"

section \<open>Reading a frame\<close>

text \<open>
  A connection delivers its bytes in chunks, one for each call of \<^verbatim>\<open>Read\<close>, and then ends or fails. The
  buffered reader takes as much of a chunk as has room in its buffer.
\<close>

datatype stream_end = Stream_EOF | Stream_Failure

datatype frame_error = FrameRejected Code | FrameFailed

datatype slice = Slice bytes bytes | SliceFull | SliceEnd bytes

function ReadSlice :: "nat \<Rightarrow> bytes \<Rightarrow> bytes list \<Rightarrow> slice" where
  "ReadSlice room buffer chunks =
     (if newline \<in> set buffer then
        Slice (takeWhile (\<lambda>c. c \<noteq> newline) buffer @ [newline]) (tl (dropWhile (\<lambda>c. c \<noteq> newline) buffer))
      else if length buffer \<ge> room then SliceFull
      else if chunks = [] then SliceEnd buffer
      else
        let n = room - length buffer; c = hd chunks in
        ReadSlice room (buffer @ take n c) (if length c \<le> n then tl chunks else drop n c # tl chunks))"
  by pat_completeness auto
termination
proof (relation "measure (\<lambda>(room, buffer, chunks). sum_list (map length chunks) + length chunks)")
  show "wf (measure (\<lambda>(room, buffer, chunks). sum_list (map length chunks) + length chunks))" by simp
next
  fix room :: nat and buffer :: bytes and chunks :: "bytes list" and n c
  assume "chunks \<noteq> []" "\<not> room \<le> length buffer" "n = room - length buffer" "c = hd chunks"
  then show "((room, buffer @ take n c, if length c \<le> n then tl chunks else drop n c # tl chunks), room, buffer, chunks)
      \<in> measure (\<lambda>(room, buffer, chunks). sum_list (map length chunks) + length chunks)"
    by (cases chunks) auto
qed

declare ReadSlice.simps [simp del]

definition ReadFrame :: "bytes list \<Rightarrow> stream_end \<Rightarrow> int \<Rightarrow> frame_error + bytes" where
  "ReadFrame chunks ending maximum =
     (if maximum < 1 then Inl (FrameRejected CodeFrameTooLarge)
      else case ReadSlice (max 16 (nat maximum + 1)) [] chunks of
             SliceFull \<Rightarrow> Inl (FrameRejected CodeFrameTooLarge)
           | SliceEnd content \<Rightarrow>
               if go_len content > maximum + 1 then Inl (FrameRejected CodeFrameTooLarge)
               else (case ending of Stream_EOF \<Rightarrow> Inl (FrameRejected CodePartialFrame) | Stream_Failure \<Rightarrow> Inl FrameFailed)
           | Slice content buffered \<Rightarrow>
               if go_len content > maximum + 1 then Inl (FrameRejected CodeFrameTooLarge)
               else if buffered \<noteq> [] then Inl (FrameRejected CodeMultipleFrames)
               else Inr content)"

end
