(* ===== verification/Go_Duration.thy ===== *)
theory Go_Duration
  imports Float64 Shutdown_Budget
begin

text \<open>
  \<^verbatim>\<open>time.ParseDuration\<close>: a sequence of decimal numbers with units, as a signed 64-bit count of
  nanoseconds. The whole parts are summed in 64-bit words; a fraction is scaled in binary floating
  point, as the library does it.
\<close>

text \<open>\<^verbatim>\<open>leadingInt\<close>, with its overflow check.\<close>

fun leadingInt :: "int \<Rightarrow> string \<Rightarrow> (int \<times> string) option" where
  "leadingInt x [] = Some (x, [])"
| "leadingInt x (c # cs) =
     (if \<not> is_digit c then Some (x, c # cs)
      else if x > 2 ^ 63 div 10 \<or> x * 10 + int (digit_val c) > 2 ^ 63 then None
      else leadingInt (x * 10 + int (digit_val c)) cs)"

text \<open>\<^verbatim>\<open>leadingFraction\<close>: the digits, how many of them count, and the rest.\<close>

fun leadingFraction :: "int \<Rightarrow> nat \<Rightarrow> bool \<Rightarrow> string \<Rightarrow> int \<times> nat \<times> string" where
  "leadingFraction x k overflow [] = (x, k, [])"
| "leadingFraction x k overflow (c # cs) =
     (if \<not> is_digit c then (x, k, c # cs)
      else if overflow \<or> x > (2 ^ 63 - 1) div 10 \<or> x * 10 + int (digit_val c) > 2 ^ 63 then leadingFraction x k True cs
      else leadingFraction (x * 10 + int (digit_val c)) (Suc k) False cs)"

definition unit_value :: "string \<Rightarrow> int option" where
  "unit_value u =
     (if u = ''ns'' then Some 1
      else if u = ''us'' \<or> u = [CHR 0xC2, CHR 0xB5, CHR ''s''] \<or> u = [CHR 0xCE, CHR 0xBC, CHR ''s''] then Some (10 ^ 3)
      else if u = ''ms'' then Some (10 ^ 6)
      else if u = ''s'' then Some (10 ^ 9)
      else if u = ''m'' then Some (60 * 10 ^ 9)
      else if u = ''h'' then Some (3600 * 10 ^ 9)
      else None)"

text \<open>
  The fraction \<open>f / 10 ^ k\<close> of a unit in nanoseconds: one rounded division, one rounded product, cut
  to an integer.
\<close>

fun f64_ratio :: "float64 \<Rightarrow> nat \<times> nat" where
  "f64_ratio (Fin neg m e) = (m * 2 ^ nat e, 2 ^ nat (- e))"
| "f64_ratio _ = (0, 1)"

definition fraction_ns :: "int \<Rightarrow> nat \<Rightarrow> int \<Rightarrow> int" where
  "fraction_ns f k unit =
     (let (a, b) = f64_ratio (f64_round False (nat f) 1);
          (c, d) = f64_ratio (f64_round False (nat unit) (10 ^ k));
          (p, q) = f64_ratio (f64_round False (a * c) (b * d))
      in int (p div q))"

definition duration_part :: "string \<Rightarrow> (int \<times> string) option" where
  "duration_part s =
     (case leadingInt 0 s of
        None \<Rightarrow> None
      | Some (v, r) \<Rightarrow>
          let dotted = (r \<noteq> [] \<and> hd r = CHR ''.'');
              (f, k, r') = (if dotted then leadingFraction 0 0 False (tl r) else (0, 0, r));
              u = takeWhile (\<lambda>c. \<not> (c = CHR ''.'' \<or> is_digit c)) r';
              rest = dropWhile (\<lambda>c. \<not> (c = CHR ''.'' \<or> is_digit c)) r'
          in if length r = length s \<and> \<not> (dotted \<and> length r' \<noteq> length (tl r)) then None
             else case unit_value u of
                    None \<Rightarrow> None
                  | Some unit \<Rightarrow>
                      if v > 2 ^ 63 div unit then None
                      else
                        let w = (v * unit + (if f > 0 then fraction_ns f k unit else 0)) mod 2 ^ 64 in
                        if f > 0 \<and> w > 2 ^ 63 then None else Some (w, rest))"

function duration_parts :: "int \<Rightarrow> string \<Rightarrow> int option" where
  "duration_parts d s =
     (if s = [] then Some d
      else if \<not> (hd s = CHR ''.'' \<or> is_digit (hd s)) then None
      else case duration_part s of
             None \<Rightarrow> None
           | Some (w, rest) \<Rightarrow>
               if length rest \<ge> length s then None
               else if (d + w) mod 2 ^ 64 > 2 ^ 63 then None
               else duration_parts ((d + w) mod 2 ^ 64) rest)"
  by pat_completeness auto
termination by (relation "measure (\<lambda>(d, s). length s)") auto

declare duration_parts.simps [simp del]

definition ParseDuration :: "string \<Rightarrow> int option" where
  "ParseDuration s =
     (let neg = (s \<noteq> [] \<and> hd s = CHR ''-'');
          r = (if s \<noteq> [] \<and> hd s \<in> {CHR ''-'', CHR ''+''} then tl s else s)
      in if r = ''0'' then Some 0
         else if r = [] then None
         else case duration_parts 0 r of
                None \<Rightarrow> None
              | Some d \<Rightarrow> if neg then Some (dur_wrap (- d)) else if d > 2 ^ 63 - 1 then None else Some d)"

text \<open>The unit is never empty, so every round consumes some of the text: the length guard never holds.\<close>

lemma leadingInt_length: "leadingInt x s = Some (v, r) \<Longrightarrow> length r \<le> length s"
  by (induction x s rule: leadingInt.induct) (auto split: if_splits)

lemma leadingFraction_length: "leadingFraction x k b s = (f, k', r) \<Longrightarrow> length r \<le> length s"
  by (induction x k b s rule: leadingFraction.induct) (auto split: if_splits)

lemma duration_part_length:
  assumes "duration_part s = Some (w, rest)"
  shows "length rest < length s"
proof -
  obtain v r where v: "leadingInt 0 s = Some (v, r)" using assms by (auto simp: duration_part_def split: option.splits)
  define t where "t = (if r \<noteq> [] \<and> hd r = CHR ''.'' then leadingFraction 0 0 False (tl r) else (0, 0, r))"
  obtain f k r' where t: "t = (f, k, r')" by (rule prod_cases3)
  have "length r' \<le> length r"
    using t leadingFraction_length [of 0 0 False "tl r" f k r'] by (auto simp: t_def split: if_splits)
  then have r: "length r' \<le> length s" using leadingInt_length [OF v] by simp
  have u: "unit_value (takeWhile (\<lambda>c. \<not> (c = CHR ''.'' \<or> is_digit c)) r') \<noteq> None"
    "rest = dropWhile (\<lambda>c. \<not> (c = CHR ''.'' \<or> is_digit c)) r'"
    using assms v t by (auto simp: duration_part_def Let_def t_def split: option.splits prod.splits if_splits)
  then have "takeWhile (\<lambda>c. \<not> (c = CHR ''.'' \<or> is_digit c)) r' \<noteq> []" by (auto simp: unit_value_def)
  then have "length rest < length r'" using u(2) by (cases r') (auto simp: le_imp_less_Suc length_dropWhile_le split: if_splits)
  with r show ?thesis by simp
qed

lemma duration_parts_nonneg: "duration_parts d s = Some x \<Longrightarrow> 0 \<le> d \<Longrightarrow> 0 \<le> x"
proof (induction d s rule: duration_parts.induct)
  case (1 d s)
  from "1.prems" show ?case
    by (subst (asm) duration_parts.simps) (auto split: if_splits option.splits dest: "1.IH" [OF _ _ _ refl])
qed

lemma ParseDuration_bounds:
  assumes "ParseDuration s = Some d"
  shows "int64_min \<le> d \<and> d \<le> int64_max"
proof -
  have "- (2 ^ 63) \<le> x" if "duration_parts 0 r = Some x" for r x using duration_parts_nonneg [OF that] by simp
  with assms show ?thesis
    by (auto simp: ParseDuration_def Let_def dur_wrap_def dur_defs split: option.splits if_splits) (fastforce+)?
qed

end
