(* ===== verification/Managed_Client.thy ===== *)
theory Managed_Client
  imports Managed_Protocol Go_Duration Go_Strings
begin

text \<open>
  The client of the managed protocol (\<^verbatim>\<open>internal/managedclient\<close>): the command line, the request it
  stands for, the conversation over one connection and the exit code.

  What the network does is an argument: whether the connection and its deadline could be set up, the
  results of the successive writes, and the line that came back. A Go map built by the command line is
  an association list; \<^verbatim>\<open>json.Marshal\<close> sorts its keys.
\<close>

section \<open>Reading the response\<close>

text \<open>
  \<^verbatim>\<open>json.Unmarshal\<close> into a struct: duplicate and unknown members are allowed, the last one counts,
  null leaves the field as it is, and the names are compared up to the folding of Unicode, where two
  runes outside ASCII fold into it.
\<close>

definition read_document :: "bytes \<Rightarrow> json option" where
  "read_document s =
     (case scan_value False (Suc (2 * length s)) [] s of
        Inl _ \<Rightarrow> None
      | Inr (v, r) \<Rightarrow> if skip_ws r = [] \<and> json_depth v \<le> max_depth then Some v else None)"

function fold_key :: "string \<Rightarrow> string" where
  "fold_key [] = []"
| "fold_key (c # cs) =
     (if c = CHR 0xC5 \<and> take 1 cs = [CHR 0xBF] then CHR ''s'' # fold_key (drop 1 cs)
      else if c = CHR 0xE2 \<and> take 2 cs = [CHR 0x84, CHR 0xAA] then CHR ''k'' # fold_key (drop 2 cs)
      else ascii_lower c # fold_key cs)"
  by pat_completeness auto
termination by (relation "measure length") auto

definition store_int :: "int \<Rightarrow> json \<Rightarrow> int option" where
  "store_int old j = (case j of JNull \<Rightarrow> Some old | _ \<Rightarrow> unmarshal_int j)"

definition store_uint :: "uint64 \<Rightarrow> json \<Rightarrow> uint64 option" where
  "store_uint old j = (case j of JNull \<Rightarrow> Some old | JNum s \<Rightarrow> map_option of_nat (parse_uint 64 s) | _ \<Rightarrow> None)"

definition store_string :: "string \<Rightarrow> json \<Rightarrow> string option" where
  "store_string old j = (case j of JNull \<Rightarrow> Some old | JStr s \<Rightarrow> Some s | _ \<Rightarrow> None)"

fun store_members :: "(string \<times> json) list \<Rightarrow> Response \<Rightarrow> Response option" where
  "store_members [] r = Some r"
| "store_members ((key, v) # ms) r =
     Option.bind
       (if fold_key key = ''version'' then map_option (\<lambda>x. r\<lparr>rp_version := x\<rparr>) (store_int (rp_version r) v)
        else if fold_key key = ''outcome'' then map_option (\<lambda>x. r\<lparr>rp_outcome := x\<rparr>) (store_string (rp_outcome r) v)
        else if fold_key key = ''generation'' then map_option (\<lambda>x. r\<lparr>rp_generation := x\<rparr>) (store_uint (rp_generation r) v)
        else if fold_key key = ''commit'' then map_option (\<lambda>x. r\<lparr>rp_commit := x\<rparr>) (store_uint (rp_commit r) v)
        else if fold_key key = ''reason'' then map_option (\<lambda>x. r\<lparr>rp_reason := x\<rparr>) (store_string (rp_reason r) v)
        else Some r)
       (store_members ms)"

definition no_response :: Response where
  "no_response = \<lparr>rp_version = 0, rp_outcome = [], rp_generation = 0, rp_commit = 0, rp_reason = []\<rparr>"

definition unmarshal_response :: "bytes \<Rightarrow> Response option" where
  "unmarshal_response line =
     (case read_document line of
        None \<Rightarrow> None
      | Some JNull \<Rightarrow> Some no_response
      | Some (JObj ms) \<Rightarrow> store_members ms no_response
      | Some _ \<Rightarrow> None)"

section \<open>The conversation\<close>

datatype Category = Cat_Accepted | Cat_Rejected | Cat_Overload | Cat_Protocol | Cat_Transport | Cat_Unknown

fun category_string :: "Category \<Rightarrow> string" where
  "category_string Cat_Accepted = ''accepted''"
| "category_string Cat_Rejected = ''rejected''"
| "category_string Cat_Overload = ''overload''"
| "category_string Cat_Protocol = ''protocol''"
| "category_string Cat_Transport = ''transport''"
| "category_string Cat_Unknown = ''unknown''"

record client_config =
  cc_socket_path :: string
  cc_timeout :: int

record client_result =
  cr_category :: Category
  cr_reason :: string
  cr_generation :: uint64
  cr_commit :: uint64

definition local_result :: "Category \<Rightarrow> string \<Rightarrow> client_result" where
  "local_result category reason = \<lparr>cr_category = category, cr_reason = reason, cr_generation = 0, cr_commit = 0\<rparr>"

record network =
  nw_dialed :: bool
  nw_deadline_set :: bool
  nw_writes :: "(nat \<times> bool) list"
  nw_line :: "bytes option"

text \<open>The loop over the writes: the bytes written and whether it failed; \<open>None\<close> while it goes on.\<close>

fun write_frame :: "(nat \<times> bool) list \<Rightarrow> nat \<Rightarrow> nat \<Rightarrow> (nat \<times> bool) option" where
  "write_frame [] written n = (if written < n then None else Some (written, False))"
| "write_frame ((sent, failed) # ws) written n =
     (if \<not> written < n then Some (written, False)
      else if failed then Some (written + sent, True)
      else write_frame ws (written + sent) n)"

definition categorize :: "Response \<Rightarrow> client_result" where
  "categorize r =
     (let result = (\<lambda>category. \<lparr>cr_category = category, cr_reason = rp_reason r, cr_generation = rp_generation r, cr_commit = rp_commit r\<rparr>) in
      if rp_outcome r = owner_outcome_string OutcomeCommitted then result Cat_Accepted
      else if rp_outcome r \<in> owner_outcome_string ` {OutcomeRejected, OutcomeClosed, OutcomeCancelled} then result Cat_Rejected
      else if rp_outcome r = owner_outcome_string OutcomeOverloaded then result Cat_Overload
      else if rp_outcome r = owner_outcome_string OutcomeUnknown then result Cat_Unknown
      else if rp_outcome r = ''protocol'' then result Cat_Protocol
      else (result Cat_Protocol)\<lparr>cr_reason := ''invalid_response_outcome''\<rparr>)"

definition Send :: "network \<Rightarrow> client_config \<Rightarrow> bytes \<Rightarrow> client_result option" where
  "Send net cfg frame =
     (if cc_socket_path cfg = [] \<or> cc_timeout cfg \<le> 0 \<or> frame = [] \<or> last frame \<noteq> newline
      then Some (local_result Cat_Protocol ''invalid_client_configuration'')
      else if \<not> nw_dialed net then Some (local_result Cat_Transport ''connect'')
      else if \<not> nw_deadline_set net then Some (local_result Cat_Transport ''deadline'')
      else case write_frame (nw_writes net) 0 (length frame) of
             None \<Rightarrow> None
           | Some (written, True) \<Rightarrow>
               Some (if written = 0 then local_result Cat_Transport ''write''
                     else local_result Cat_Unknown ''write_after_submission'')
           | Some (written, False) \<Rightarrow>
               (case nw_line net of
                  None \<Rightarrow> Some (local_result Cat_Unknown ''missing_response'')
                | Some line \<Rightarrow>
                    (case unmarshal_response line of
                       None \<Rightarrow> Some (local_result Cat_Protocol ''invalid_response'')
                     | Some response \<Rightarrow>
                         if rp_version response \<noteq> Version then Some (local_result Cat_Protocol ''invalid_response'')
                         else Some (categorize response))))"

section \<open>Requests\<close>

fun marshal_order :: "json \<Rightarrow> json" where
  "marshal_order (JObj ms) = JObj (sort_key fst (map (\<lambda>(k, v). (k, marshal_order v)) ms))"
| "marshal_order (JArr xs) = JArr (map marshal_order xs)"
| "marshal_order j = j"

definition EncodeRequest :: "(string \<times> json) list \<Rightarrow> bytes option" where
  "EncodeRequest request =
     (if request = [] then None else Some (json_text (marshal_order (JObj request)) @ [newline]))"

text \<open>\<^verbatim>\<open>strings.Cut\<close> at an equals sign.\<close>

definition cut_equals :: "string \<Rightarrow> (string \<times> string) option" where
  "cut_equals s =
     (if CHR ''='' \<in> set s then Some (takeWhile (\<lambda>c. c \<noteq> CHR ''='') s, tl (dropWhile (\<lambda>c. c \<noteq> CHR ''='') s)) else None)"

fun parse_label_args :: "label_map \<Rightarrow> string list \<Rightarrow> string + label_map" where
  "parse_label_args labels [] = Inr labels"
| "parse_label_args labels (input # rest) =
     (case cut_equals input of
        None \<Rightarrow> Inl ''labels use NAME=VALUE''
      | Some (name, v) \<Rightarrow>
          if name = [] then Inl ''labels use NAME=VALUE''
          else if map_of labels name \<noteq> None then Inl ''duplicate label''
          else parse_label_args (labels @ [(name, v)]) rest)"

definition operation_names :: "string list" where
  "operation_names = [''counter_initialize'', ''counter_add'', ''gauge_set'', ''histogram_observe'']"

definition declare_labels :: "string list \<Rightarrow> string list" where
  "declare_labels args = (if length args > 4 \<and> args ! 4 \<noteq> ''-'' then split_on (CHR '','') (args ! 4) else [])"

definition parseCommand :: "string list \<Rightarrow> string + (string \<times> json) list" where
  "parseCommand args =
     (if args = [] then Inl ''managed operation is required''
      else
        let operation = replace_byte (CHR ''-'') ''_'' (args ! 0) in
        if operation = ''declare'' then
          (if length args < 4 then Inl ''usage: managed declare NAME TYPE HELP [LABELS [BUCKET ...]]''
           else Inr [(''version'', JNum ''1''), (''op'', JStr ''declare''), (''name'', JStr (args ! 1)), (''type'', JStr (args ! 2)),
                     (''help'', JStr (args ! 3)), (''label_names'', JArr (map JStr (declare_labels args))),
                     (''buckets'', JArr (map JStr (drop 5 args)))])
        else if operation \<notin> set operation_names then Inl ''unknown managed operation''
        else if length args < 3 then Inl ''usage: managed OPERATION NAME VALUE [LABEL=VALUE ...]''
        else if parse_float (args ! 2) = None then Inl ''invalid operation value''
        else
          and_then (parse_label_args [] (drop 3 args)) (\<lambda>labels.
            Inr [(''version'', JNum ''1''), (''op'', JStr operation), (''name'', JStr (args ! 1)), (''value'', JStr (args ! 2)),
                 (''labels'', JObj (map (\<lambda>(k, v). (k, JStr v)) labels))]))"

section \<open>The command line\<close>

definition ExitAccepted :: int where "ExitAccepted = 0"
definition ExitLocal :: int where "ExitLocal = 2"
definition ExitRejected :: int where "ExitRejected = 3"
definition ExitOverload :: int where "ExitOverload = 4"
definition ExitProtocol :: int where "ExitProtocol = 5"
definition ExitTransport :: int where "ExitTransport = 6"
definition ExitUnknown :: int where "ExitUnknown = 7"

fun category_exit :: "Category \<Rightarrow> int" where
  "category_exit Cat_Accepted = ExitAccepted"
| "category_exit Cat_Rejected = ExitRejected"
| "category_exit Cat_Overload = ExitOverload"
| "category_exit Cat_Protocol = ExitProtocol"
| "category_exit Cat_Transport = ExitTransport"
| "category_exit Cat_Unknown = ExitUnknown"

definition marshal_result :: "client_result \<Rightarrow> bytes" where
  "marshal_result r =
     json_object ([(''category'', json_string (category_string (cr_category r)))] @
       (if cr_reason r = [] then [] else [(''reason'', json_string (cr_reason r))]) @
       (if cr_generation r = 0 then [] else [(''generation'', format_uint (cr_generation r))]) @
       (if cr_commit r = 0 then [] else [(''commit'', format_uint (cr_commit r))]))"

definition environment_options :: "(string \<Rightarrow> string option) \<Rightarrow> client_config \<Rightarrow> string + client_config" where
  "environment_options lookup cfg =
     (let cfg = (case lookup ''METRICSHELL_MANAGED_SOCKET_PATH'' of None \<Rightarrow> cfg | Some v \<Rightarrow> cfg\<lparr>cc_socket_path := v\<rparr>) in
      case lookup ''METRICSHELL_MANAGED_CLIENT_TIMEOUT'' of
        None \<Rightarrow> Inr cfg
      | Some v \<Rightarrow>
          (case ParseDuration v of
             None \<Rightarrow> Inl ''invalid client timeout''
           | Some d \<Rightarrow> Inr (cfg\<lparr>cc_timeout := d\<rparr>)))"

fun flag_options :: "string list \<Rightarrow> client_config \<Rightarrow> string + client_config \<times> string list" where
  "flag_options [] cfg = Inr (cfg, [])"
| "flag_options (arg # args) cfg =
     (if \<not> has_prefix arg ''--'' then Inr (cfg, arg # args)
      else case cut_equals arg of
             None \<Rightarrow> Inl ''managed client options require --name=value''
           | Some (name, v) \<Rightarrow>
               if name = ''--socket'' then flag_options args (cfg\<lparr>cc_socket_path := v\<rparr>)
               else if name = ''--timeout'' then
                 (case ParseDuration v of
                    None \<Rightarrow> Inl ''invalid client timeout''
                  | Some d \<Rightarrow> flag_options args (cfg\<lparr>cc_timeout := d\<rparr>))
               else Inl ''managed client options require --name=value'')"

definition client_defaults :: client_config where
  "client_defaults = \<lparr>cc_socket_path = ''/run/metricshell/managed.sock'', cc_timeout = 5 * second\<rparr>"

definition checked_options :: "(string \<Rightarrow> string option) \<Rightarrow> string list \<Rightarrow> string + client_config \<times> string list" where
  "checked_options lookup args =
     and_then (environment_options lookup client_defaults) (\<lambda>cfg.
     and_then (flag_options args cfg) (\<lambda>(cfg, args).
       if cc_socket_path cfg = [] \<or> cc_timeout cfg \<le> 0 \<or> cc_timeout cfg > minute
       then Inl ''invalid managed client configuration'' else Inr (cfg, args)))"

definition cli_request :: "(string \<Rightarrow> string option) \<Rightarrow> string list \<Rightarrow> string + client_config \<times> bytes" where
  "cli_request lookup args =
     and_then (checked_options lookup args) (\<lambda>(cfg, args).
     and_then (parseCommand args) (\<lambda>request.
       case EncodeRequest request of
         None \<Rightarrow> Inl ''cannot encode request''
       | Some frame \<Rightarrow> Inr (cfg, frame)))"

text \<open>The exit code and what is written to the two streams.\<close>

definition localError :: "string \<Rightarrow> int \<times> bytes \<times> bytes" where
  "localError message = (ExitLocal, [], message @ [newline])"

definition RunCLI ::
  "(client_config \<Rightarrow> bytes \<Rightarrow> network) \<Rightarrow> (string \<Rightarrow> string option) \<Rightarrow> string list \<Rightarrow> (int \<times> bytes \<times> bytes) option" where
  "RunCLI net lookup args =
     (case cli_request lookup args of
        Inl message \<Rightarrow> Some (localError message)
      | Inr (cfg, frame) \<Rightarrow>
          map_option (\<lambda>result. (category_exit (cr_category result), marshal_result result @ [newline], []))
            (Send (net cfg frame) cfg frame))"

end
