(* ===== verification/Managed_Server.thy ===== *)
theory Managed_Server
  imports Managed_Protocol
begin

text \<open>
  The Unix server of managed metrics (\<^verbatim>\<open>internal/managedserver/server.go\<close>): which connections are
  served, what each is answered, and how the server drains.

  Listening, file modes and deadlines belong to the operating system. Here a connection is a number, its
  bytes arrive in chunks, and the read deadline shows as a failing read. The mutex, the two flags, the
  semaphore, the set of active connections and the wait group are one record; every step of the relation
  below is one critical section or one operation of a connection.
\<close>

unbundle bit_operations_syntax

section \<open>Configuration\<close>

record server_config =
  sc_path :: string
  sc_mode :: "32 word"
  sc_connections :: int
  sc_frame_bytes :: int
  sc_read_timeout :: int
  sc_write_timeout :: int

definition server_validate :: "server_config \<Rightarrow> bool" where
  "server_validate cfg \<longleftrightarrow>
     \<not> (\<not> has_prefix (sc_path cfg) ''/'' \<or> sc_connections cfg < 1 \<or> sc_connections cfg > 1024 \<or>
        sc_frame_bytes cfg < 1 \<or> sc_read_timeout cfg \<le> 0 \<or> sc_write_timeout cfg \<le> 0 \<or>
        sc_mode cfg AND 0x180 \<noteq> 0x180 \<or> sc_mode cfg AND 0x4F \<noteq> 0 \<or> sc_mode cfg > 0x1B0)"

section \<open>Connections\<close>

record managed_server =
  sv_config :: server_config
  sv_slots :: nat
  sv_active :: "nat set"
  sv_admitting :: bool
  sv_closed :: bool
  sv_waiting :: nat

definition managed_listen :: "server_config \<Rightarrow> managed_server option" where
  "managed_listen cfg =
     (if server_validate cfg
      then Some \<lparr>sv_config = cfg, sv_slots = 0, sv_active = {}, sv_admitting = True, sv_closed = False, sv_waiting = 0\<rparr>
      else None)"

datatype acceptance = Served | RefusedClosed | RefusedOverloaded

text \<open>The critical section of the accept loop.\<close>

definition accept_connection :: "nat \<Rightarrow> managed_server \<Rightarrow> managed_server \<times> acceptance" where
  "accept_connection c sv =
     (if \<not> sv_admitting sv then (sv, RefusedClosed)
      else if sv_slots sv < nat (sc_connections (sv_config sv)) then
        (sv\<lparr>sv_slots := sv_slots sv + 1, sv_active := insert c (sv_active sv), sv_waiting := sv_waiting sv + 1\<rparr>, Served)
      else (sv, RefusedOverloaded))"

definition plain_response :: "owner_outcome \<Rightarrow> Response" where
  "plain_response oc =
     \<lparr>rp_version = Version, rp_outcome = owner_outcome_string oc, rp_generation = 0, rp_commit = 0, rp_reason = []\<rparr>"

definition refusal :: "acceptance \<Rightarrow> Response option" where
  "refusal a =
     (case a of Served \<Rightarrow> None
      | RefusedClosed \<Rightarrow> Some (plain_response OutcomeClosed)
      | RefusedOverloaded \<Rightarrow> Some (plain_response OutcomeOverloaded))"

definition close_server_admission :: "managed_server \<Rightarrow> managed_server" where
  "close_server_admission sv = sv\<lparr>sv_admitting := False\<rparr>"

definition server_closing :: "managed_server \<Rightarrow> managed_server" where
  "server_closing sv = close_server_admission (sv\<lparr>sv_closed := True\<rparr>)"

text \<open>The deferred function at the end of a connection.\<close>

definition leave_connection :: "nat \<Rightarrow> managed_server \<Rightarrow> managed_server" where
  "leave_connection c sv =
     sv\<lparr>sv_active := sv_active sv - {c}, sv_slots := sv_slots sv - 1, sv_waiting := sv_waiting sv - 1\<rparr>"

text \<open>What a drain waits for.\<close>

definition server_drained :: "managed_server \<Rightarrow> bool" where
  "server_drained sv \<longleftrightarrow> sv_waiting sv = 0"

text \<open>
  What \<^verbatim>\<open>serveConnection\<close> does with the outcome of reading a frame: the frame to handle when the server
  still admits, else the response to write, if any, and the code reported to the observer.
\<close>

definition check_frame :: "bool \<Rightarrow> frame_error + bytes \<Rightarrow> (Response option \<times> Code list) + bytes" where
  "check_frame admitting r =
     (case r of
        Inl (FrameRejected code) \<Rightarrow> Inl (Some (protocol_response code), [code])
      | Inl FrameFailed \<Rightarrow> Inl (None, [])
      | Inr frame \<Rightarrow> if admitting then Inr frame else Inl (Some (plain_response OutcomeClosed), []))"

text \<open>One connection by itself, with the line written back.\<close>

definition serveConnection ::
  "(label_map \<Rightarrow> label_map) \<Rightarrow> (Mutation \<Rightarrow> 's \<Rightarrow> 's \<times> owner_result) \<Rightarrow> bool \<Rightarrow> int \<Rightarrow> bytes list \<Rightarrow> stream_end \<Rightarrow> 's \<Rightarrow>
    's \<times> bytes option \<times> Code list" where
  "serveConnection order submit admitting maximum chunks ending s =
     (case check_frame admitting (ReadFrame chunks ending maximum) of
        Inl (response, codes) \<Rightarrow> (s, map_option EncodeResponse response, codes)
      | Inr frame \<Rightarrow>
          (case HandleObserved order submit frame maximum s of
             (s, response, codes) \<Rightarrow> (s, Some (EncodeResponse response), codes)))"

section \<open>Interleaving\<close>

text \<open>
  A connection is open until its frame was read and admission was checked; a checked frame is handled,
  which may be after admission was closed; an answered connection leaves. The relation records the
  responses written and the mutations submitted; the submitter answers what it likes.
\<close>

datatype connection_phase = Cn_Open | Cn_Checked bytes | Cn_Answered

record server_system =
  ss_server :: managed_server
  ss_phases :: "nat \<rightharpoonup> connection_phase"
  ss_seen :: "nat set"
  ss_answers :: "(nat \<times> Response) list"
  ss_submitted :: "(nat \<times> Mutation) list"

definition server_init :: "managed_server \<Rightarrow> server_system" where
  "server_init sv = \<lparr>ss_server = sv, ss_phases = Map.empty, ss_seen = {}, ss_answers = [], ss_submitted = []\<rparr>"

definition note_answer :: "nat \<Rightarrow> Response option \<Rightarrow> (nat \<times> Response) list \<Rightarrow> (nat \<times> Response) list" where
  "note_answer c response answers = (case response of None \<Rightarrow> answers | Some x \<Rightarrow> answers @ [(c, x)])"

inductive server_step :: "(label_map \<Rightarrow> label_map) \<Rightarrow> server_system \<Rightarrow> server_system \<Rightarrow> bool" for order where
  accept: "c \<notin> ss_seen s \<Longrightarrow> accept_connection c (ss_server s) = (sv, Served) \<Longrightarrow>
    server_step order s (s\<lparr>ss_server := sv, ss_phases := (ss_phases s)(c \<mapsto> Cn_Open), ss_seen := insert c (ss_seen s)\<rparr>)"
| refuse: "c \<notin> ss_seen s \<Longrightarrow> accept_connection c (ss_server s) = (sv, a) \<Longrightarrow> a \<noteq> Served \<Longrightarrow>
    server_step order s (s\<lparr>ss_server := sv, ss_seen := insert c (ss_seen s), ss_answers := note_answer c (refusal a) (ss_answers s)\<rparr>)"
| check: "ss_phases s c = Some Cn_Open \<Longrightarrow>
    check_frame (sv_admitting (ss_server s)) r = Inr frame \<Longrightarrow>
    server_step order s (s\<lparr>ss_phases := (ss_phases s)(c \<mapsto> Cn_Checked frame)\<rparr>)"
| turn_away: "ss_phases s c = Some Cn_Open \<Longrightarrow>
    check_frame (sv_admitting (ss_server s)) r = Inl (response, codes) \<Longrightarrow>
    server_step order s (s\<lparr>ss_phases := (ss_phases s)(c \<mapsto> Cn_Answered), ss_answers := note_answer c response (ss_answers s)\<rparr>)"
| handle: "ss_phases s c = Some (Cn_Checked frame) \<Longrightarrow>
    HandleObserved order (\<lambda>mutation ms. (ms @ [(c, mutation)], result)) frame (sc_frame_bytes (sv_config (ss_server s))) (ss_submitted s)
      = (submitted, response, codes) \<Longrightarrow>
    server_step order s (s\<lparr>ss_phases := (ss_phases s)(c \<mapsto> Cn_Answered), ss_submitted := submitted,
      ss_answers := note_answer c (Some response) (ss_answers s)\<rparr>)"
| leave: "ss_phases s c = Some Cn_Answered \<Longrightarrow>
    server_step order s (s\<lparr>ss_server := leave_connection c (ss_server s), ss_phases := (ss_phases s)(c := None)\<rparr>)"
| close_admission: "server_step order s (s\<lparr>ss_server := close_server_admission (ss_server s)\<rparr>)"
| close_server: "server_step order s (s\<lparr>ss_server := server_closing (ss_server s)\<rparr>)"

section \<open>The invariant\<close>

definition server_inv :: "server_system \<Rightarrow> bool" where
  "server_inv s \<longleftrightarrow>
     finite (dom (ss_phases s)) \<and> dom (ss_phases s) \<subseteq> ss_seen s \<and>
     sv_active (ss_server s) = dom (ss_phases s) \<and>
     sv_slots (ss_server s) = card (dom (ss_phases s)) \<and> sv_waiting (ss_server s) = card (dom (ss_phases s)) \<and>
     sv_slots (ss_server s) \<le> nat (sc_connections (sv_config (ss_server s)))"

text \<open>Answers and submissions belong to connections that are past the phase in which they are made.\<close>

definition pending :: "server_system \<Rightarrow> nat set" where
  "pending s = {c. ss_phases s c \<noteq> None \<and> ss_phases s c \<noteq> Some Cn_Answered}"

definition server_trace_inv :: "server_system \<Rightarrow> bool" where
  "server_trace_inv s \<longleftrightarrow>
     distinct (map fst (ss_answers s)) \<and> distinct (map fst (ss_submitted s)) \<and>
     fst ` set (ss_answers s) \<subseteq> ss_seen s \<and> fst ` set (ss_submitted s) \<subseteq> ss_seen s \<and>
     pending s \<inter> fst ` set (ss_answers s) = {} \<and> pending s \<inter> fst ` set (ss_submitted s) = {} \<and> pending s \<subseteq> ss_seen s"

lemma server_step_inv: "server_step order s s' \<Longrightarrow> server_inv s \<Longrightarrow> server_inv s'"
proof (induction rule: server_step.induct)
  case (accept c s sv)
  then show ?case by (auto simp: server_inv_def accept_connection_def card_insert_if split: if_splits)
next
  case (refuse c s sv a)
  then show ?case by (auto simp: server_inv_def accept_connection_def split: if_splits)
next
  case (leave s c)
  then have "c \<in> dom (ss_phases s)" "finite (dom (ss_phases s))" by (auto simp: server_inv_def)
  then have "card (dom (ss_phases s) - {c}) = card (dom (ss_phases s)) - 1" by simp
  with leave show ?case by (auto simp: server_inv_def leave_connection_def)
qed (auto simp: server_inv_def close_server_admission_def server_closing_def insert_absorb domI)

lemma note_answer_set: "fst ` set (note_answer c response answers) \<subseteq> insert c (fst ` set answers)"
  by (auto simp: note_answer_def split: option.splits)

lemma note_answer_distinct:
  "distinct (map fst answers) \<Longrightarrow> c \<notin> fst ` set answers \<Longrightarrow> distinct (map fst (note_answer c response answers))"
  by (auto simp: note_answer_def split: option.splits)

lemma HandleObserved_submits:
  "HandleObserved order (\<lambda>mutation ms. (ms @ [(c, mutation)], result)) frame maximum ms = (submitted, response, codes) \<Longrightarrow>
     submitted = (case ParseFrame order frame maximum of Inl _ \<Rightarrow> ms | Inr mutation \<Rightarrow> ms @ [(c, mutation)])"
  by (auto simp: HandleObserved_def split: sum.splits)

lemma server_step_trace: "server_step order s s' \<Longrightarrow> server_trace_inv s \<Longrightarrow> server_trace_inv s'"
proof (induction rule: server_step.induct)
  case (handle s c frame result submitted response codes)
  have c: "c \<in> pending s" using handle(1) by (simp add: pending_def)
  have p: "pending (s\<lparr>ss_phases := (ss_phases s)(c \<mapsto> Cn_Answered), ss_submitted := submitted,
      ss_answers := note_answer c (Some response) (ss_answers s)\<rparr>) = pending s - {c}"
    by (auto simp: pending_def)
  note sub = HandleObserved_submits [OF handle(2)]
  from handle(3) c show ?case
    unfolding server_trace_inv_def p by (cases "ParseFrame order frame (sc_frame_bytes (sv_config (ss_server s)))")
      (auto simp: note_answer_def sub)
next
  case (turn_away s c r response codes)
  have c: "c \<in> pending s" using turn_away(1) by (simp add: pending_def)
  have p: "pending (s\<lparr>ss_phases := (ss_phases s)(c \<mapsto> Cn_Answered), ss_answers := note_answer c response (ss_answers s)\<rparr>) = pending s - {c}"
    by (auto simp: pending_def)
  from turn_away(3) c show ?case
    unfolding server_trace_inv_def p by (auto simp: note_answer_def split: option.splits)
next
  case (accept c s sv)
  then show ?case by (auto simp: server_trace_inv_def pending_def)
next
  case (refuse c s sv a)
  then show ?case by (auto simp: server_trace_inv_def pending_def note_answer_def split: option.splits)
next
  case (check s c r frame)
  have "pending (s\<lparr>ss_phases := (ss_phases s)(c \<mapsto> Cn_Checked frame)\<rparr>) = pending s"
    using check(1) by (auto simp: pending_def)
  with check(3) show ?case by (simp add: server_trace_inv_def)
next
  case (leave s c)
  have "pending (s\<lparr>ss_server := leave_connection c (ss_server s), ss_phases := (ss_phases s)(c := None)\<rparr>) = pending s"
    using leave(1) by (auto simp: pending_def)
  with leave(2) show ?case by (simp add: server_trace_inv_def)
qed (simp_all add: server_trace_inv_def pending_def)

lemma server_init_inv: "managed_listen cfg = Some sv \<Longrightarrow> server_inv (server_init sv) \<and> server_trace_inv (server_init sv)"
  by (auto simp: managed_listen_def server_init_def server_inv_def server_trace_inv_def pending_def split: if_splits)

lemma server_steps_inv:
  assumes "(server_step order)\<^sup>*\<^sup>* s s'" "server_inv s" "server_trace_inv s"
  shows "server_inv s' \<and> server_trace_inv s'"
  using assms by (induction rule: rtranclp_induct) (auto dest: server_step_inv server_step_trace)

lemma server_step_config: "server_step order s s' \<Longrightarrow> sv_config (ss_server s') = sv_config (ss_server s)"
  by (induction rule: server_step.induct)
    (auto simp: accept_connection_def leave_connection_def close_server_admission_def server_closing_def split: if_splits)

section \<open>After closing\<close>

text \<open>
  Once admission is closed no connection is opened and none gets a frame checked; only frames that were
  checked before are still submitted.
\<close>

definition checked :: "server_system \<Rightarrow> nat set" where
  "checked s = {c. \<exists>frame. ss_phases s c = Some (Cn_Checked frame)}"

lemma server_step_closed:
  assumes "server_step order s s'" "\<not> sv_admitting (ss_server s)"
  shows "\<not> sv_admitting (ss_server s') \<and> dom (ss_phases s') \<subseteq> dom (ss_phases s) \<and> checked s' \<subseteq> checked s \<and>
    set (ss_submitted s') \<subseteq> set (ss_submitted s) \<union> checked s \<times> UNIV"
  using assms
proof (induction rule: server_step.induct)
  case (handle s c frame result submitted response codes)
  then show ?case
    using HandleObserved_submits [OF handle(2)] by (auto simp: checked_def split: sum.splits if_splits)
qed (auto simp: accept_connection_def leave_connection_def close_server_admission_def server_closing_def checked_def check_frame_def
    split: if_splits sum.splits frame_error.splits)

lemma server_steps_closed:
  assumes "(server_step order)\<^sup>*\<^sup>* s s'" "\<not> sv_admitting (ss_server s)"
  shows "\<not> sv_admitting (ss_server s') \<and> dom (ss_phases s') \<subseteq> dom (ss_phases s) \<and> checked s' \<subseteq> checked s \<and>
    set (ss_submitted s') \<subseteq> set (ss_submitted s) \<union> checked s \<times> UNIV"
  using assms
proof (induction rule: rtranclp_induct)
  case (step t u)
  then have t: "\<not> sv_admitting (ss_server t)" "dom (ss_phases t) \<subseteq> dom (ss_phases s)" "checked t \<subseteq> checked s"
    "set (ss_submitted t) \<subseteq> set (ss_submitted s) \<union> checked s \<times> UNIV" by blast+
  with server_step_closed [OF step(2) t(1)] show ?case by blast
qed simp

section \<open>Draining\<close>

text \<open>Every connection can leave by its own steps, so the server can always drain.\<close>

lemma connection_leaves:
  assumes "ss_phases s c \<noteq> None"
  shows "\<exists>s'. (server_step order)\<^sup>*\<^sup>* s s' \<and> ss_phases s' = (ss_phases s)(c := None)"
proof -
  have left: "\<exists>s'. (server_step order)\<^sup>*\<^sup>* s s' \<and> ss_phases s' = (ss_phases s)(c := None)"
    if "ss_phases s c = Some Cn_Answered" for s
    by (intro exI conjI, rule r_into_rtranclp, rule leave [OF that]) simp
  have answered: "\<exists>s'. (server_step order)\<^sup>*\<^sup>* s s' \<and> ss_phases s' = (ss_phases s)(c := None)"
    if st: "server_step order s t" and ph: "ss_phases t = (ss_phases s)(c \<mapsto> Cn_Answered)" for s t
  proof -
    obtain u where "(server_step order)\<^sup>*\<^sup>* t u" "ss_phases u = (ss_phases t)(c := None)"
      using left [of t] by (auto simp: ph)
    with st ph show ?thesis by (intro exI [of _ u]) (simp add: converse_rtranclp_into_rtranclp)
  qed
  show ?thesis
  proof (cases "ss_phases s c")
    case None
    with assms show ?thesis by simp
  next
    case (Some phase)
    show ?thesis
    proof (cases phase)
      case Cn_Open
      with Some have "ss_phases s c = Some Cn_Open" by simp
      from turn_away [OF this, of "Inl FrameFailed"] show ?thesis by (intro answered) (auto simp: check_frame_def)
    next
      case (Cn_Checked frame)
      obtain submitted response codes where "HandleObserved order (\<lambda>mutation ms. (ms @ [(c, mutation)], undefined)) frame
          (sc_frame_bytes (sv_config (ss_server s))) (ss_submitted s) = (submitted, response, codes)" by (rule prod_cases3)
      from handle [OF _ this] Some Cn_Checked show ?thesis by (intro answered) auto
    qed (use Some left in simp)
  qed
qed

lemma server_can_drain:
  assumes "finite (dom (ss_phases s))"
  shows "\<exists>s'. (server_step order)\<^sup>*\<^sup>* s s' \<and> ss_phases s' = Map.empty"
  using assms
proof (induction "card (dom (ss_phases s))" arbitrary: s)
  case 0
  then show ?case by auto
next
  case (Suc n)
  then obtain c where c: "c \<in> dom (ss_phases s)" by fastforce
  then obtain t where t: "(server_step order)\<^sup>*\<^sup>* s t" "ss_phases t = (ss_phases s)(c := None)"
    using connection_leaves [of s c order] by auto
  with Suc c have "n = card (dom (ss_phases t))" "finite (dom (ss_phases t))" by simp_all
  with Suc(1) obtain u where "(server_step order)\<^sup>*\<^sup>* t u" "ss_phases u = Map.empty" by blast
  with t(1) show ?case by (meson rtranclp_trans)
qed

section \<open>Properties\<close>

text \<open>
  C22: in every interleaving of a server that was set up, the served connections hold exactly the
  semaphore's slots and the wait group, and never more than the configured number; no connection is
  answered twice and none submits two mutations. Once admission is closed no connection is opened any
  more, and a mutation submitted later comes from a connection whose frame had been checked before.
\<close>

theorem managed_server_bounded:
  assumes "managed_listen cfg = Some sv" "(server_step order)\<^sup>*\<^sup>* (server_init sv) s"
  shows "sv_active (ss_server s) = dom (ss_phases s) \<and> sv_slots (ss_server s) = card (dom (ss_phases s)) \<and>
    (server_drained (ss_server s) \<longleftrightarrow> ss_phases s = Map.empty) \<and> int (card (dom (ss_phases s))) \<le> sc_connections cfg \<and>
    distinct (map fst (ss_answers s)) \<and> distinct (map fst (ss_submitted s)) \<and>
    (\<forall>s'. (server_step order)\<^sup>*\<^sup>* s s' \<longrightarrow> \<not> sv_admitting (ss_server s) \<longrightarrow>
       dom (ss_phases s') \<subseteq> dom (ss_phases s) \<and> set (ss_submitted s') \<subseteq> set (ss_submitted s) \<union> checked s \<times> UNIV)"
proof -
  have inv: "server_inv s" "server_trace_inv s" using server_steps_inv [OF assms(2)] server_init_inv [OF assms(1)] by auto
  have "sv_config (ss_server s) = sv_config (ss_server (server_init sv))"
    using assms(2) by (induction rule: rtranclp_induct) (auto dest: server_step_config)
  moreover have "sv_config sv = cfg" "1 \<le> sc_connections cfg"
    using assms(1) by (auto simp: managed_listen_def server_validate_def split: if_splits)
  ultimately have "int (card (dom (ss_phases s))) \<le> sc_connections cfg"
    using inv(1) by (auto simp: server_inv_def server_init_def)
  moreover have "server_drained (ss_server s) \<longleftrightarrow> ss_phases s = Map.empty"
    using inv(1) by (auto simp: server_inv_def server_drained_def)
  ultimately show ?thesis
    using inv server_steps_closed by (auto simp: server_inv_def server_trace_inv_def)
qed

definition demo_server_config :: server_config where
  "demo_server_config =
     \<lparr>sc_path = ''/run/m.sock'', sc_mode = 0x180, sc_connections = 1, sc_frame_bytes = 64, sc_read_timeout = 1, sc_write_timeout = 1\<rparr>"

definition demo_server :: managed_server where
  "demo_server = \<lparr>sv_config = demo_server_config, sv_slots = 0, sv_active = {}, sv_admitting = True, sv_closed = False, sv_waiting = 0\<rparr>"

lemma demo_server_listens: "managed_listen demo_server_config = Some demo_server"
proof -
  have "server_validate demo_server_config" by code_simp
  then show ?thesis by (simp add: managed_listen_def demo_server_def)
qed

theorem managed_server_bounded_witness:
  "\<exists>s. (server_step id)\<^sup>*\<^sup>* (server_init demo_server) s \<and> dom (ss_phases s) = {7} \<and>
     int (card (dom (ss_phases s))) \<le> sc_connections demo_server_config"
proof -
  have "accept_connection 7 demo_server = (demo_server\<lparr>sv_slots := 1, sv_active := {7}, sv_waiting := 1\<rparr>, Served)"
    by (simp add: accept_connection_def demo_server_def demo_server_config_def)
  then have st: "(server_step id)\<^sup>*\<^sup>* (server_init demo_server)
      ((server_init demo_server)\<lparr>ss_server := demo_server\<lparr>sv_slots := 1, sv_active := {7}, sv_waiting := 1\<rparr>,
        ss_phases := [7 \<mapsto> Cn_Open], ss_seen := {7}\<rparr>)"
    using accept [of 7 "server_init demo_server"] by (intro r_into_rtranclp) (simp add: server_init_def)
  from managed_server_bounded [OF demo_server_listens this] st show ?thesis by (intro exI conjI) (auto split: if_splits)
qed

text \<open>
  From every reachable state, also after admission was closed, the connections can finish by their
  own steps, and then the drain returns.
\<close>

theorem managed_server_drains:
  assumes "managed_listen cfg = Some sv" "(server_step order)\<^sup>*\<^sup>* (server_init sv) s"
  shows "\<exists>s'. (server_step order)\<^sup>*\<^sup>* s s' \<and> server_drained (ss_server s')"
proof -
  have inv: "server_inv s" "server_trace_inv s" using server_steps_inv [OF assms(2)] server_init_inv [OF assms(1)] by auto
  then obtain s' where s': "(server_step order)\<^sup>*\<^sup>* s s'" "ss_phases s' = Map.empty"
    using server_can_drain [of s order] by (auto simp: server_inv_def)
  with server_steps_inv [OF s'(1) inv] show ?thesis by (auto simp: server_inv_def server_drained_def)
qed

theorem managed_server_drains_witness:
  "\<exists>s'. (server_step id)\<^sup>*\<^sup>* (server_init demo_server) s' \<and> server_drained (ss_server s')"
  by (rule managed_server_drains [OF demo_server_listens]) simp

end
