(* ===== verification/Managed_Wire.thy ===== *)
theory Managed_Wire
  imports Json_Line Managed_Client Managed_Server
begin

text \<open>
  The managed client and server together: a command line becomes a frame, the frame arrives in pieces,
  is parsed to the mutation the command stands for, submitted once, and the submitter's answer comes
  back as the result of the client.
\<close>

declare utf8_valid.simps(2) [simp del]

section \<open>Reading a frame in pieces\<close>

lemma line_simps:
  "newline \<notin> set p \<Longrightarrow> takeWhile (\<lambda>c. c \<noteq> newline) (p @ [newline]) = p"
  "newline \<notin> set p \<Longrightarrow> dropWhile (\<lambda>c. c \<noteq> newline) (p @ [newline]) = [newline]"
  by (induction p) auto

lemma ReadSlice_found:
  "newline \<in> set buffer \<Longrightarrow> ReadSlice room buffer chunks =
     Slice (takeWhile (\<lambda>c. c \<noteq> newline) buffer @ [newline]) (tl (dropWhile (\<lambda>c. c \<noteq> newline) buffer))"
  by (subst ReadSlice.simps) simp

lemma ReadSlice_line:
  assumes "newline \<notin> set buffer" "buffer @ concat chunks = payload @ [newline]" "newline \<notin> set payload" "length payload < room"
  shows "ReadSlice room buffer chunks = Slice (payload @ [newline]) []"
  using assms
proof (induction room buffer chunks rule: ReadSlice.induct)
  case (1 room buffer chunks)
  have "chunks \<noteq> []"
  proof
    assume "chunks = []"
    with "1.prems"(2) have "buffer = payload @ [newline]" by simp
    with "1.prems"(1) show False by simp
  qed
  then obtain c cs where ch: "chunks = c # cs" by (cases chunks) auto
  have len: "length buffer + length c + length (concat cs) = Suc (length payload)"
    using arg_cong [OF "1.prems"(2), of length] ch by simp
  have short: "length buffer < room"
  proof (rule ccontr)
    assume "\<not> length buffer < room"
    with len "1.prems"(4) have "length c + length (concat cs) = 0" by linarith
    then have "concat chunks = []" using ch by simp
    with "1.prems"(1,2) show False by simp
  qed
  have fits: "length c \<le> room - length buffer" using len "1.prems"(4) by simp
  have step: "ReadSlice room buffer chunks = ReadSlice room (buffer @ c) cs"
    using "1.prems"(1) short fits ch by (subst ReadSlice.simps) (simp add: Let_def)
  show ?case
  proof (cases "newline \<in> set c")
    case False
    have "ReadSlice room (buffer @ take (room - length buffer) (hd chunks))
        (if length (hd chunks) \<le> room - length buffer then tl chunks else drop (room - length buffer) (hd chunks) # tl chunks) =
        Slice (payload @ [newline]) []"
      by (rule "1.IH") (use 1 False short fits ch in auto)
    with step fits ch show ?thesis by simp
  next
    case True
    then obtain a b where c: "c = a @ newline # b" "newline \<notin> set a" by (meson split_list_first)
    with "1.prems" ch have "payload @ newline # [] = (buffer @ a) @ newline # (b @ concat cs)" by simp
    then have eq: "buffer @ a = payload" "b @ concat cs = []"
      using append_Cons_eq_iff [of newline payload "[]" "buffer @ a" "b @ concat cs"] "1.prems"(3) by auto
    then have "buffer @ c = payload @ [newline]" using c by auto
    with step "1.prems"(3) show ?thesis using ReadSlice_found [of "payload @ [newline]" room cs]
      by (simp add: line_simps)
  qed
qed

lemma ReadFrame_line:
  assumes "concat chunks = payload @ [newline]" "newline \<notin> set payload" "1 \<le> maximum" "go_len payload \<le> maximum"
  shows "ReadFrame chunks ending maximum = Inr (payload @ [newline])"
proof -
  have "ReadSlice (max 16 (nat maximum + 1)) [] chunks = Slice (payload @ [newline]) []"
    by (rule ReadSlice_line) (use assms in auto)
  with assms(3,4) show ?thesis by (simp add: ReadFrame_def)
qed

section \<open>Responses are read back\<close>

lemma owner_outcome_utf8: "utf8_valid (owner_outcome_string oc)"
  by (rule utf8_valid_ascii) (cases oc; simp add: is_ascii_def)

lemma managed_reason_utf8: "utf8_valid (managed_reason_string reason)"
  by (rule utf8_valid_ascii) (cases reason; simp add: is_ascii_def)

lemma code_utf8: "utf8_valid (code_string code)"
  by (rule utf8_valid_ascii) (cases code; simp add: is_ascii_def)

lemma names_utf8:
  "utf8_valid ''version''" "utf8_valid ''outcome''" "utf8_valid ''generation''" "utf8_valid ''commit''" "utf8_valid ''reason''"
  "utf8_valid ''protocol''" "utf8_valid ''op''" "utf8_valid ''name''" "utf8_valid ''value''" "utf8_valid ''labels''"
  "utf8_valid ''type''" "utf8_valid ''help''" "utf8_valid ''label_names''" "utf8_valid ''buckets''" "utf8_valid ''declare''"
  by (rule utf8_valid_ascii, simp add: is_ascii_def)+

lemma itoa_number: "finitePattern (itoa n)" "list_all number_char (itoa n)"
proof -
  have d: "list_all is_digit (itoa n)" by (rule itoa_digits)
  have c: "canonical_digits (itoa n)"
  proof (cases "n = 0")
    case True
    then show ?thesis by (simp add: canonical_digits_def itoa.simps digit_char_def is_digit_def)
  next
    case False
    then show ?thesis using d by (simp add: canonical_digits_def itoa_hd_nonzero)
  qed
  have all: "takeWhile is_digit (itoa n) = itoa n" "dropWhile is_digit (itoa n) = []"
    using d by (simp_all add: list_all_iff takeWhile_eq_all_conv dropWhile_eq_Nil_conv)
  have "hd (itoa n) \<noteq> CHR ''-''" using d by (cases "itoa n") (auto simp: is_digit_def)
  then show "finitePattern (itoa n)"
    using c all by (cases "itoa n") (auto simp: finitePattern_def fraction_pattern_def)
  show "list_all number_char (itoa n)" using d by (auto simp: list_all_iff number_char_def)
qed

definition response_members :: "Response \<Rightarrow> (string \<times> json) list" where
  "response_members r =
     [(''version'', JNum (itoa (nat (rp_version r)))), (''outcome'', JStr (rp_outcome r))] @
     (if rp_generation r = 0 then [] else [(''generation'', JNum (format_uint (rp_generation r)))]) @
     (if rp_commit r = 0 then [] else [(''commit'', JNum (format_uint (rp_commit r)))]) @
     (if rp_reason r = [] then [] else [(''reason'', JStr (rp_reason r))])"

lemma EncodeResponse_text: "EncodeResponse r = json_text (JObj (response_members r)) @ [newline]"
  by (simp add: EncodeResponse_def response_members_def)

lemma store_response_members:
  assumes "rp_version r = 1"
  shows "store_members (response_members r) no_response = Some r"
proof -
  have "unmarshal_int (JNum (itoa 1)) = Some 1" by code_simp
  with assms show ?thesis
    by (cases r) (auto simp: response_members_def no_response_def store_int_def store_uint_def store_string_def parse_format_uint
        ascii_lower_def byte_in_def)
qed

lemma response_members_ok:
  assumes "utf8_valid (rp_outcome r)" "utf8_valid (rp_reason r)" "rp_version r = 1"
  shows "json_ok (JObj (response_members r))" "json_depth (JObj (response_members r)) \<le> 1"
proof -
  show "json_ok (JObj (response_members r))"
    using assms itoa_number by (auto simp: response_members_def names_utf8 format_uint_def)
  show "json_depth (JObj (response_members r)) \<le> 1"
    using json_depth_JObj [of "response_members r" 0] by (simp add: response_members_def)
qed

lemma response_read_back:
  assumes "utf8_valid (rp_outcome r)" "utf8_valid (rp_reason r)" "rp_version r = 1"
  shows "unmarshal_response (EncodeResponse r) = Some r"
proof -
  note ok = response_members_ok [OF assms]
  have "read_document (EncodeResponse r) = Some (JObj (response_members r))"
    using scan_line(1) [OF ok(1), of "[newline]" False] scan_line(2) [OF ok(1), of "[newline]"] ok(2)
    by (simp add: read_document_def EncodeResponse_text max_depth_def del: scan_value.simps json_depth.simps json_text.simps)
  then show ?thesis by (simp add: unmarshal_response_def store_response_members [OF assms(3)])
qed

section \<open>Requests are parsed\<close>

lemma sort_fst_same:
  fixes ms :: "(string \<times> 'a) list"
  assumes "distinct (map fst ms)"
  shows "map_of (sort_key fst ms) = map_of ms" "distinct (map fst (sort_key fst ms))"
proof -
  have "mset (map fst (sort_key fst ms)) = mset (map fst ms)" by simp
  with assms show d: "distinct (map fst (sort_key fst ms))" by (metis mset_eq_imp_distinct_iff)
  show "map_of (sort_key fst ms) = map_of ms" using map_of_inject_set [OF d assms] by simp
qed

lemma marshal_order_ok: "json_ok j \<Longrightarrow> json_ok (marshal_order j)"
proof (induction j rule: marshal_order.induct)
  case (1 ms)
  have d: "distinct (map fst (map (\<lambda>(k, v). (k, marshal_order v)) ms))"
    using "1.prems" by (simp add: comp_def case_prod_beta')
  have "\<forall>(k, v)\<in>set ms. utf8_valid k \<and> json_ok (marshal_order v)" using 1 by auto
  then show ?case using sort_fst_same(2) [OF d] by auto
qed auto

lemma fold_max_start: "a \<le> fold max xs (a :: nat)"
proof (induction xs arbitrary: a)
  case (Cons x xs)
  from Cons [of "max x a"] show ?case by simp
qed simp

lemma fold_max_member: "x \<in> set xs \<Longrightarrow> x \<le> fold max xs (a :: nat)"
proof (induction xs arbitrary: a)
  case (Cons y xs)
  with fold_max_start [of "max y a" xs] show ?case by auto
qed simp

lemma marshal_order_depth: "json_depth j \<le> k \<Longrightarrow> json_depth (marshal_order j) \<le> k"
proof -
  have "json_depth (marshal_order j) \<le> json_depth j"
  proof (induction j rule: marshal_order.induct)
    case (1 ms)
    have "json_depth (marshal_order v) \<le> fold max (map (\<lambda>(k, v). json_depth v) ms) 0" if "(k, v) \<in> set ms" for k v
    proof -
      have "json_depth v \<in> set (map (\<lambda>(k, v). json_depth v) ms)" using that by force
      with fold_max_member 1 [OF that refl] show ?thesis by (meson order_trans)
    qed
    then have "json_depth (marshal_order (JObj ms)) \<le> Suc (fold max (map (\<lambda>(k, v). json_depth v) ms) 0)"
      unfolding marshal_order.simps by (intro json_depth_JObj) auto
    then show ?case by simp
  next
    case (2 xs)
    have "json_depth (marshal_order x) \<le> fold max (map json_depth xs) 0" if "x \<in> set xs" for x
      using fold_max_member [of "json_depth x" "map json_depth xs" 0] 2 [OF that] that by simp
    then have "json_depth (marshal_order (JArr xs)) \<le> Suc (fold max (map json_depth xs) 0)"
      unfolding marshal_order.simps by (intro json_depth_JArr) auto
    then show ?case by simp
  qed simp_all
  then show "json_depth j \<le> k \<Longrightarrow> json_depth (marshal_order j) \<le> k" by simp
qed

lemma parse_request_cong:
  assumes "map_of a = map_of b" "length a = length b"
  shows "parse_request order a = parse_request order b"
  unfolding parse_request_def parseDeclaration_def parseOperation_def field_def exactFields_def assms by (rule refl)

lemma ParseFrame_text:
  assumes "json_ok (JObj ms)" "json_depth (JObj ms) \<le> max_depth" "go_len (json_text (marshal_order (JObj ms))) \<le> maximum"
  shows "ParseFrame order (json_text (marshal_order (JObj ms)) @ [newline]) maximum =
    parse_request order (map (\<lambda>(k, v). (k, marshal_order v)) ms)"
proof -
  let ?j = "marshal_order (JObj ms)"
  have ok: "json_ok ?j" by (rule marshal_order_ok [OF assms(1)])
  have d: "distinct (map fst (map (\<lambda>(k, v). (k, marshal_order v)) ms))"
    using assms(1) by (simp add: comp_def case_prod_beta')
  have "frame_object (json_text ?j) = Inr (sort_key fst (map (\<lambda>(k, v). (k, marshal_order v)) ms))"
    using scan_document_bare [OF ok] marshal_order_depth [OF assms(2)]
    by (simp add: frame_object_def validateUniqueJSON_def unmarshal_object_def)
  moreover have "maximum \<ge> 1" using assms(3) json_text_nonempty [OF ok] by (cases "json_text ?j") auto
  ultimately show ?thesis
    using newline_not_in_text [OF ok] json_text_nonempty [OF ok] assms(3) sort_fst_same [OF d]
    by (simp add: ParseFrame_def Let_def line_simps parse_request_cong [OF sort_fst_same(1) [OF d]] del: marshal_order.simps)
qed

section \<open>What a command stands for\<close>

definition label_args :: "string list \<Rightarrow> label_map" where
  "label_args inputs = map (\<lambda>input. the (cut_equals input)) inputs"

definition command_mutation :: "(label_map \<Rightarrow> label_map) \<Rightarrow> string list \<Rightarrow> Mutation option" where
  "command_mutation order args =
     (let operation = replace_byte (CHR ''-'') ''_'' (args ! 0) in
      if operation = ''declare'' then
        map_option (\<lambda>buckets.
          \<lparr>mu_descriptor = Some \<lparr>d_name = args ! 1, d_help = args ! 3, d_type = args ! 2, d_labels = declare_labels args, d_buckets = buckets\<rparr>,
           mu_operations = []\<rparr>) (all_some (map parse_float (drop 5 args)))
      else
        map_option (\<lambda>v.
          \<lparr>mu_descriptor = None,
           mu_operations = [\<lparr>op_kind = operation, op_name = args ! 1, op_labels = order (sort_key fst (label_args (drop 3 args))), op_value = v\<rparr>]\<rparr>)
          (parse_float (args ! 2)))"

lemma cut_equals_text:
  assumes "cut_equals s = Some (name, v)"
  shows "s = name @ CHR ''='' # v"
proof -
  have "CHR ''='' \<in> set s" using assms by (simp add: cut_equals_def split: if_splits)
  then obtain a b where s: "s = a @ CHR ''='' # b" "CHR ''='' \<notin> set a" by (meson split_list_first)
  have "takeWhile (\<lambda>c. c \<noteq> CHR ''='') s = a" "dropWhile (\<lambda>c. c \<noteq> CHR ''='') s = CHR ''='' # b"
    unfolding s(1) using s(2) by (induction a) auto
  with assms s(1) show ?thesis by (simp add: cut_equals_def split: if_splits)
qed

lemma parse_label_args_Inr:
  "parse_label_args labels inputs = Inr ls \<Longrightarrow> ls = labels @ label_args inputs \<and> (distinct (map fst labels) \<longrightarrow> distinct (map fst ls)) \<and>
     (\<forall>input\<in>set inputs. cut_equals input \<noteq> None)"
proof (induction labels inputs rule: parse_label_args.induct)
  case (2 labels input rest)
  then obtain name v where c: "cut_equals input = Some (name, v)" by (auto split: option.splits)
  with "2.prems" have n: "name \<noteq> []" "map_of labels name = None" "parse_label_args (labels @ [(name, v)]) rest = Inr ls"
    by (auto split: if_splits)
  from "2.IH" [OF c refl n(1)] n(2,3) have e: "ls = (labels @ [(name, v)]) @ label_args rest"
    "distinct (map fst (labels @ [(name, v)])) \<longrightarrow> distinct (map fst ls)" "\<forall>input\<in>set rest. cut_equals input \<noteq> None" by blast+
  show ?case
  proof (intro conjI impI)
    show "ls = labels @ label_args (input # rest)" using e(1) by (simp add: label_args_def c)
    show "distinct (map fst ls)" if "distinct (map fst labels)"
      using e(2) n(2) that by (simp add: map_of_eq_None_iff)
    show "\<forall>input\<in>set (input # rest). cut_equals input \<noteq> None" using e(3) c by simp
  qed
qed (simp add: label_args_def)

lemma label_args_utf8:
  assumes "\<forall>a\<in>set inputs. utf8_valid a" "\<forall>a\<in>set inputs. cut_equals a \<noteq> None"
  shows "\<forall>(k, v)\<in>set (label_args inputs). utf8_valid k \<and> utf8_valid v"
proof -
  have "utf8_valid k \<and> utf8_valid v" if "a \<in> set inputs" "cut_equals a = Some (k, v)" for a k v
    using utf8_valid_split [of "CHR ''=''" k v] cut_equals_text [OF that(2)] assms(1) that(1) by (auto simp: is_ascii_def)
  with assms(2) show ?thesis by (fastforce simp: label_args_def)
qed

lemma insort_key_map: "insort_key f (g x) (map g xs) = map g (insort_key (\<lambda>a. f (g a)) x xs)"
  by (induction xs) auto

lemma sort_key_map: "sort_key f (map g xs) = map g (sort_key (\<lambda>a. f (g a)) xs)"
  by (induction xs) (auto simp: insort_key_map)

lemma all_some_map: "(\<And>x. x \<in> set xs \<Longrightarrow> f x = Some (g x)) \<Longrightarrow> all_some (map f xs) = Some (map g xs)"
  by (induction xs) auto

lemma unmarshal_labels:
  "unmarshal_string_map (JObj (sort_key fst (map (\<lambda>(k, v). (k, JStr v)) ls))) = Some (sort_key fst ls)"
proof -
  have f: "(\<lambda>a. fst (case a of (k, v) \<Rightarrow> (k, JStr v))) = fst" by auto
  have "all_some (map ((\<lambda>(k, v). map_option (Pair k) (unmarshal_string v)) \<circ> (\<lambda>(k, v). (k, JStr v))) xs) = Some (map id xs)" for xs
    by (rule all_some_map) (auto simp: unmarshal_string_def)
  then show ?thesis by (simp add: unmarshal_string_map_def sort_key_map f)
qed

lemma unmarshal_names: "unmarshal_strings (JArr (map JStr xs)) = Some xs"
  using all_some_map [of xs "unmarshal_string \<circ> JStr" id] by (simp add: unmarshal_strings_def unmarshal_string_def)

lemma version_one: "unmarshal_int (JNum ''1'') = Some 1"
  by code_simp

lemma command_parsed:
  assumes "parseCommand args = Inr request"
  shows "parse_request order (map (\<lambda>(k, v). (k, marshal_order v)) request) =
    (case command_mutation order args of None \<Rightarrow> Inl CodeInvalidRequest | Some mutation \<Rightarrow> Inr mutation)"
proof (cases "replace_byte (CHR ''-'') ''_'' (args ! 0) = ''declare''")
  case True
  have b: "parseNumber \<circ> JStr = parse_float" by (auto simp: parseNumber_def)
  have "request = [(''version'', JNum ''1''), (''op'', JStr ''declare''), (''name'', JStr (args ! 1)), (''type'', JStr (args ! 2)),
      (''help'', JStr (args ! 3)), (''label_names'', JArr (map JStr (declare_labels args))), (''buckets'', JArr (map JStr (drop 5 args)))]"
    using assms True by (auto simp: parseCommand_def Let_def split: if_splits)
  then show ?thesis
    using True
    by (simp add: parse_request_def version_one Version_def field_def unmarshal_string_def parseDeclaration_def exactFields_def
        comp_def unmarshal_names unmarshal_array_def command_mutation_def parseNumber_def split: option.split)
next
  case False
  define operation where "operation = replace_byte (CHR ''-'') ''_'' (args ! 0)"
  obtain labels v where l: "parse_label_args [] (drop 3 args) = Inr labels" "parse_float (args ! 2) = Some v"
    "operation \<in> set operation_names"
    "request = [(''version'', JNum ''1''), (''op'', JStr operation), (''name'', JStr (args ! 1)), (''value'', JStr (args ! 2)),
       (''labels'', JObj (map (\<lambda>(k, v). (k, JStr v)) labels))]"
    using assms False by (auto simp: parseCommand_def Let_def and_then_Inr_iff operation_def split: if_splits)
  have labels: "labels = label_args (drop 3 args)" using parse_label_args_Inr [OF l(1)] by simp
  have o: "operation \<noteq> []" "operation \<noteq> ''declare''" "operation \<in> {CounterInitialize, CounterAdd, GaugeSet, HistogramObserve}"
    using l(3) by (auto simp: operation_names_def CounterInitialize_def CounterAdd_def GaugeSet_def HistogramObserve_def)
  have m: "marshal_order (JObj (map (\<lambda>(k, v). (k, JStr v)) ls)) = JObj (sort_key fst (map (\<lambda>(k, v). (k, JStr v)) ls))" for ls :: label_map
    by (simp add: comp_def case_prod_beta')
  show ?thesis
    using o l(2) False unfolding l(4) labels command_mutation_def
    by (simp add: parse_request_def version_one Version_def field_def unmarshal_string_def parseOperation_def exactFields_def
        m unmarshal_labels parseNumber_def Let_def operation_def [symmetric] del: marshal_order.simps(1))
qed

lemma json_depth_members: "\<forall>(n, v)\<in>set ms. json_depth v \<le> Suc 0 \<Longrightarrow> json_depth (JObj ms) \<le> 2"
  using json_depth_JObj [of ms "Suc 0"] by (simp add: numeral_2_eq_2 del: json_depth.simps)

lemma request_ok:
  assumes "parseCommand args = Inr request" "\<forall>a\<in>set args. utf8_valid a"
  shows "request \<noteq> [] \<and> json_ok (JObj request) \<and> json_depth (JObj request) \<le> 2"
proof (cases "replace_byte (CHR ''-'') ''_'' (args ! 0) = ''declare''")
  case True
  then have l: "\<not> length args < 4" and r: "request = [(''version'', JNum ''1''), (''op'', JStr ''declare''), (''name'', JStr (args ! 1)), (''type'', JStr (args ! 2)),
      (''help'', JStr (args ! 3)), (''label_names'', JArr (map JStr (declare_labels args))), (''buckets'', JArr (map JStr (drop 5 args)))]"
    using assms(1) by (auto simp: parseCommand_def Let_def split: if_splits)
  have "utf8_valid x" if "x \<in> set (declare_labels args)" for x
    using that assms(2) utf8_valid_split_on [of "CHR '',''" "args ! 4" x] by (auto simp: declare_labels_def is_ascii_def split: if_splits)
  moreover have "utf8_valid x" if "x \<in> set (drop 5 args)" for x using assms(2) that by (meson in_set_dropD)
  moreover have "json_depth (JArr (map JStr xs)) \<le> 1" for xs using json_depth_JArr [of "map JStr xs" 0] by simp
  moreover have "finitePattern ''1'' \<and> list_all number_char ''1''" by code_simp
  ultimately show ?thesis
    using l assms(2) unfolding r by (simp add: names_utf8 json_depth_members del: json_depth.simps(1,2))
next
  case False
  define operation where "operation = replace_byte (CHR ''-'') ''_'' (args ! 0)"
  obtain labels where l: "parse_label_args [] (drop 3 args) = Inr labels" "\<not> length args < 3" "operation \<in> set operation_names"
    and r: "request = [(''version'', JNum ''1''), (''op'', JStr operation), (''name'', JStr (args ! 1)), (''value'', JStr (args ! 2)),
       (''labels'', JObj (map (\<lambda>(k, v). (k, JStr v)) labels))]"
    using assms(1) False by (auto simp: parseCommand_def Let_def and_then_Inr_iff operation_def split: if_splits)
  have "utf8_valid operation"
    using l(3) by (auto simp: operation_names_def is_ascii_def intro!: utf8_valid_ascii)
  moreover have "json_ok (JObj (map (\<lambda>(k, v). (k, JStr v)) labels))"
    using parse_label_args_Inr [OF l(1)] label_args_utf8 [of "drop 3 args"] assms(2)
    by (auto simp: comp_def case_prod_beta' dest!: in_set_dropD)
  moreover have "json_depth (JObj (map (\<lambda>(k, v). (k, JStr v)) labels)) \<le> 1"
    using json_depth_JObj [of "map (\<lambda>(k, v). (k, JStr v)) labels" 0] by (simp add: case_prod_beta' del: json_depth.simps(2))
  moreover have "finitePattern ''1'' \<and> list_all number_char ''1''" by code_simp
  ultimately show ?thesis
    using l(2) assms(2) unfolding r by (simp add: names_utf8 json_depth_members del: json_depth.simps(1,2))
qed

section \<open>The conversation\<close>

fun outcome_category :: "owner_outcome \<Rightarrow> Category" where
  "outcome_category OutcomeCommitted = Cat_Accepted"
| "outcome_category OutcomeRejected = Cat_Rejected"
| "outcome_category OutcomeClosed = Cat_Rejected"
| "outcome_category OutcomeCancelled = Cat_Rejected"
| "outcome_category OutcomeOverloaded = Cat_Overload"
| "outcome_category OutcomeUnknown = Cat_Unknown"

lemma categorize_result:
  "categorize (result_response r) =
     \<lparr>cr_category = outcome_category (or_outcome r), cr_reason = (case or_reason r of None \<Rightarrow> [] | Some reason \<Rightarrow> managed_reason_string reason),
      cr_generation = or_generation r, cr_commit = or_commit r\<rparr>"
  by (cases "or_outcome r") (simp_all add: categorize_def result_response_def Let_def)

lemma categorize_protocol:
  "categorize (protocol_response code) = local_result Cat_Protocol (code_string code)"
  by (simp add: categorize_def protocol_response_def local_result_def Let_def)

lemma handled_read_back:
  assumes "HandleObserved order submit frame maximum s = (s', response, codes)"
  shows "unmarshal_response (EncodeResponse response) = Some response \<and> rp_version response = Version"
proof -
  have "rp_version response = 1 \<and> utf8_valid (rp_outcome response) \<and> utf8_valid (rp_reason response)"
    using assms by (auto simp: HandleObserved_def protocol_response_def result_response_def Version_def names_utf8 code_utf8
        owner_outcome_utf8 managed_reason_utf8 split: sum.splits prod.splits option.splits)
  then show ?thesis by (simp add: response_read_back Version_def)
qed

text \<open>The network delivers: the connection stands, the frame goes out whole, and the line comes back.\<close>

definition delivers :: "network \<Rightarrow> client_config \<Rightarrow> bytes \<Rightarrow> bytes option \<Rightarrow> bool" where
  "delivers net cfg frame line \<longleftrightarrow>
     cc_socket_path cfg \<noteq> [] \<and> 0 < cc_timeout cfg \<and> nw_dialed net \<and> nw_deadline_set net \<and>
     write_frame (nw_writes net) 0 (length frame) = Some (length frame, False) \<and> nw_line net = line"

lemma Send_delivers:
  assumes "delivers net cfg frame (Some line)" "frame \<noteq> []" "last frame = newline"
    "unmarshal_response line = Some response" "rp_version response = Version"
  shows "Send net cfg frame = Some (categorize response)"
  using assms by (auto simp: Send_def delivers_def)

lemma request_frame:
  assumes "parseCommand args = Inr request" "\<forall>a\<in>set args. utf8_valid a" "EncodeRequest request = Some frame"
    "go_len frame \<le> maximum + 1" "concat chunks = frame"
  shows "ReadFrame chunks ending maximum = Inr frame \<and> frame \<noteq> [] \<and> last frame = newline \<and>
    ParseFrame order frame maximum =
      (case command_mutation order args of None \<Rightarrow> Inl CodeInvalidRequest | Some mutation \<Rightarrow> Inr mutation)"
proof -
  let ?p = "json_text (marshal_order (JObj request))"
  note ok = request_ok [OF assms(1,2)]
  have f: "frame = ?p @ [newline]" using assms(3) by (simp add: EncodeRequest_def del: marshal_order.simps split: if_splits)
  have p: "newline \<notin> set ?p" "?p \<noteq> []"
    using marshal_order_ok ok newline_not_in_text json_text_nonempty by blast+
  have n: "go_len ?p \<le> maximum" using assms(4) by (simp add: f)
  moreover have "1 \<le> maximum" using n p(2) by (cases ?p) auto
  ultimately have "ReadFrame chunks ending maximum = Inr frame"
    using ReadFrame_line [of chunks ?p maximum ending] assms(5) p(1) f by simp
  moreover have "ParseFrame order frame maximum = parse_request order (map (\<lambda>(k, v). (k, marshal_order v)) request)"
    unfolding f by (rule ParseFrame_text) (use ok n in \<open>auto simp: max_depth_def\<close>)
  ultimately show ?thesis using command_parsed [OF assms(1)] f by simp
qed

text \<open>
  C21: a managed command from end to end. When the arguments are valid UTF-8 and the frame is within the
  limit, then however the frame is cut into pieces on its way, the server submits exactly the mutation
  the command stands for, once, and the client reports exactly the submitter's outcome, reason, generation
  and commit; a declaration whose bucket bounds are not numbers is turned away as an invalid request
  without reaching the submitter.
\<close>

theorem managed_command_end_to_end:
  assumes "parseCommand args = Inr request" "\<forall>a\<in>set args. utf8_valid a" "EncodeRequest request = Some frame"
    "go_len frame \<le> maximum + 1" "concat chunks = frame"
    "serveConnection order submit True maximum chunks ending s = (s', line, codes)" "delivers net cfg frame line"
  shows "case command_mutation order args of
      None \<Rightarrow> s' = s \<and> codes = [CodeInvalidRequest] \<and> Send net cfg frame = Some (local_result Cat_Protocol ''invalid_request'')
    | Some mutation \<Rightarrow>
        (case submit mutation s of
           (t, r) \<Rightarrow> s' = t \<and> codes = [] \<and>
             Send net cfg frame = Some
               \<lparr>cr_category = outcome_category (or_outcome r),
                cr_reason = (case or_reason r of None \<Rightarrow> [] | Some reason \<Rightarrow> managed_reason_string reason),
                cr_generation = or_generation r, cr_commit = or_commit r\<rparr>)"
proof -
  note fr = request_frame [OF assms(1-5), of ending order]
  obtain t response cs where h: "HandleObserved order submit frame maximum s = (t, response, cs)" by (rule prod_cases3)
  then have sv: "s' = t" "line = Some (EncodeResponse response)" "codes = cs"
    using assms(6) fr by (auto simp: serveConnection_def check_frame_def)
  have "Send net cfg frame = Some (categorize response)"
    using Send_delivers [of net cfg frame "EncodeResponse response" response] handled_read_back [OF h] assms(7) sv(2) fr by simp
  then show ?thesis
    using h fr sv by (auto simp: HandleObserved_def categorize_result categorize_protocol split: option.splits prod.splits)
qed

definition demo_args :: "string list" where
  "demo_args = [''gauge-set'', ''queue'', ''0'', ''b=2'', ''a=1'']"

definition demo_request :: "(string \<times> json) list" where
  "demo_request = (case parseCommand demo_args of Inr r \<Rightarrow> r | Inl _ \<Rightarrow> [])"

definition demo_frame :: bytes where
  "demo_frame = (case EncodeRequest demo_request of Some f \<Rightarrow> f | None \<Rightarrow> [])"

definition demo_result :: owner_result where
  "demo_result = \<lparr>or_outcome = OutcomeCommitted, or_generation = 3, or_commit = 2, or_reason = None\<rparr>"

lemma demo_values:
  "parseCommand demo_args = Inr demo_request" "EncodeRequest demo_request = Some demo_frame" "length demo_frame = 85"
  "list_all utf8_valid demo_args"
  "command_mutation id demo_args = Some \<lparr>mu_descriptor = None,
     mu_operations = [\<lparr>op_kind = ''gauge_set'', op_name = ''queue'', op_labels = [(''a'', ''1''), (''b'', ''2'')], op_value = Fin False 0 (- 1074)\<rparr>]\<rparr>"
  by code_simp+

theorem managed_command_end_to_end_witness:
  "\<exists>line. serveConnection id (\<lambda>mutation ms. (ms @ [mutation], demo_result)) True 100 [take 5 demo_frame, drop 5 demo_frame] Stream_EOF [] =
      ([\<lparr>mu_descriptor = None, mu_operations =
           [\<lparr>op_kind = ''gauge_set'', op_name = ''queue'', op_labels = [(''a'', ''1''), (''b'', ''2'')], op_value = Fin False 0 (- 1074)\<rparr>]\<rparr>],
       line, []) \<and>
     Send \<lparr>nw_dialed = True, nw_deadline_set = True, nw_writes = [(85, False)], nw_line = line\<rparr> client_defaults demo_frame =
       Some \<lparr>cr_category = Cat_Accepted, cr_reason = [], cr_generation = 3, cr_commit = 2\<rparr>"
proof -
  obtain s' line codes where sv: "serveConnection id (\<lambda>mutation ms. (ms @ [mutation], demo_result)) True 100
      [take 5 demo_frame, drop 5 demo_frame] Stream_EOF [] = (s', line, codes)" by (rule prod_cases3)
  let ?net = "\<lparr>nw_dialed = True, nw_deadline_set = True, nw_writes = [(85, False)], nw_line = line\<rparr>"
  have d: "delivers ?net client_defaults demo_frame line"
    by (simp add: delivers_def client_defaults_def demo_values(3) dur_defs)
  have u: "\<forall>a\<in>set demo_args. utf8_valid a" using demo_values(4) by (simp add: list_all_iff)
  from managed_command_end_to_end [OF demo_values(1) u demo_values(2) _ _ sv d] show ?thesis
    by (simp add: sv demo_values(3,5)) (simp add: demo_result_def)
qed

end
