(* ===== verification/Sha256.thy ===== *)
theory Sha256
  imports Prelude
begin

text \<open>
  \<^verbatim>\<open>sha256.Sum256\<close> of Go's \<^verbatim>\<open>crypto/sha256\<close>: the digest of FIPS 180-4 over 32-bit words, as a list
  of eight words.
\<close>

unbundle bit_operations_syntax

type_synonym word32 = "32 word"

definition sha_K :: "word32 list" where
  "sha_K =
     [0x428A2F98, 0x71374491, 0xB5C0FBCF, 0xE9B5DBA5, 0x3956C25B, 0x59F111F1, 0x923F82A4, 0xAB1C5ED5,
      0xD807AA98, 0x12835B01, 0x243185BE, 0x550C7DC3, 0x72BE5D74, 0x80DEB1FE, 0x9BDC06A7, 0xC19BF174,
      0xE49B69C1, 0xEFBE4786, 0x0FC19DC6, 0x240CA1CC, 0x2DE92C6F, 0x4A7484AA, 0x5CB0A9DC, 0x76F988DA,
      0x983E5152, 0xA831C66D, 0xB00327C8, 0xBF597FC7, 0xC6E00BF3, 0xD5A79147, 0x06CA6351, 0x14292967,
      0x27B70A85, 0x2E1B2138, 0x4D2C6DFC, 0x53380D13, 0x650A7354, 0x766A0ABB, 0x81C2C92E, 0x92722C85,
      0xA2BFE8A1, 0xA81A664B, 0xC24B8B70, 0xC76C51A3, 0xD192E819, 0xD6990624, 0xF40E3585, 0x106AA070,
      0x19A4C116, 0x1E376C08, 0x2748774C, 0x34B0BCB5, 0x391C0CB3, 0x4ED8AA4A, 0x5B9CCA4F, 0x682E6FF3,
      0x748F82EE, 0x78A5636F, 0x84C87814, 0x8CC70208, 0x90BEFFFA, 0xA4506CEB, 0xBEF9A3F7, 0xC67178F2]"

definition sha_H :: "word32 list" where
  "sha_H = [0x6A09E667, 0xBB67AE85, 0x3C6EF372, 0xA54FF53A, 0x510E527F, 0x9B05688C, 0x1F83D9AB, 0x5BE0CD19]"

definition rotr :: "nat \<Rightarrow> word32 \<Rightarrow> word32" where
  "rotr n w = word_rotr n w"

definition sigma0 :: "word32 \<Rightarrow> word32" where
  "sigma0 x = rotr 7 x XOR rotr 18 x XOR drop_bit 3 x"

definition sigma1 :: "word32 \<Rightarrow> word32" where
  "sigma1 x = rotr 17 x XOR rotr 19 x XOR drop_bit 10 x"

definition Sigma0 :: "word32 \<Rightarrow> word32" where
  "Sigma0 x = rotr 2 x XOR rotr 13 x XOR rotr 22 x"

definition Sigma1 :: "word32 \<Rightarrow> word32" where
  "Sigma1 x = rotr 6 x XOR rotr 11 x XOR rotr 25 x"

definition sha_Ch :: "word32 \<Rightarrow> word32 \<Rightarrow> word32 \<Rightarrow> word32" where
  "sha_Ch x y z = (x AND y) XOR (NOT x AND z)"

definition sha_Maj :: "word32 \<Rightarrow> word32 \<Rightarrow> word32 \<Rightarrow> word32" where
  "sha_Maj x y z = (x AND y) XOR (x AND z) XOR (y AND z)"

text \<open>The message schedule, the latest word first.\<close>

primrec sha_extend :: "nat \<Rightarrow> word32 list \<Rightarrow> word32 list" where
  "sha_extend 0 ws = ws"
| "sha_extend (Suc n) ws = sha_extend n ((sigma1 (ws ! 1) + ws ! 6 + sigma0 (ws ! 14) + ws ! 15) # ws)"

definition sha_schedule :: "word32 list \<Rightarrow> word32 list" where
  "sha_schedule block = rev (sha_extend 48 (rev block))"

fun sha_round :: "word32 \<times> word32 \<Rightarrow> word32 list \<Rightarrow> word32 list" where
  "sha_round (k, w) [a, b, c, d, e, f, g, h] =
     (let t1 = h + Sigma1 e + sha_Ch e f g + k + w; t2 = Sigma0 a + sha_Maj a b c
      in [t1 + t2, a, b, c, d + t1, e, f, g])"
| "sha_round _ hs = hs"

definition sha_compress :: "word32 list \<Rightarrow> word32 list \<Rightarrow> word32 list" where
  "sha_compress block hs = map2 (+) hs (fold sha_round (zip sha_K (sha_schedule block)) hs)"

definition be64 :: "nat \<Rightarrow> bytes" where
  "be64 n = map (\<lambda>i. char_of (n div 256 ^ (7 - i))) [0..<8]"

definition sha_pad :: "bytes \<Rightarrow> bytes" where
  "sha_pad m = m @ CHR 0x80 # replicate ((119 - length m mod 64) mod 64) (CHR 0x00) @ be64 (8 * length m)"

fun sha_words :: "bytes \<Rightarrow> word32 list" where
  "sha_words (a # b # c # d # r) =
     of_nat (((of_char a * 256 + of_char b) * 256 + of_char c) * 256 + of_char d) # sha_words r"
| "sha_words _ = []"

function sha_blocks :: "word32 list \<Rightarrow> word32 list \<Rightarrow> word32 list" where
  "sha_blocks ws hs = (if length ws < 16 then hs else sha_blocks (drop 16 ws) (sha_compress (take 16 ws) hs))"
  by pat_completeness auto
termination by (relation "measure (\<lambda>(ws, hs). length ws)") auto

declare sha_blocks.simps [simp del]

definition Sum256 :: "bytes \<Rightarrow> word32 list" where
  "Sum256 m = sha_blocks (sha_words (sha_pad m)) sha_H"

end
