(* ===== verification/File_Ingest.thy ===== *)
theory File_Ingest
  imports Publisher Sha256 Shutdown_Budget Ingestion_Facts
begin

text \<open>
  Ingestion from a file (\<^verbatim>\<open>internal/fileingest\<close>): reconciliation of a file with what was last accepted,
  and what the watcher reconciles when.

  What the operating system shows of the path is an argument of a reconciliation. Reconciliations run
  under one mutex, so they are functions on the reconciler and the publisher. The kernel's events are
  their masks and names; reading them out of the buffer is left to the system.
\<close>

unbundle bit_operations_syntax

section \<open>Reconciliation\<close>

datatype Trigger = Startup | Event | Periodic | Trigger_Overflow | WatchReinstall

datatype file_outcome = File_Accepted | File_Unchanged | File_Absent | File_Invalid | File_Error

fun trigger_string :: "Trigger \<Rightarrow> string" where
  "trigger_string Startup = ''startup''"
| "trigger_string Event = ''event''"
| "trigger_string Periodic = ''periodic''"
| "trigger_string Trigger_Overflow = ''overflow''"
| "trigger_string WatchReinstall = ''watch_reinstall''"

fun file_outcome_string :: "file_outcome \<Rightarrow> string" where
  "file_outcome_string File_Accepted = ''accepted''"
| "file_outcome_string File_Unchanged = ''unchanged''"
| "file_outcome_string File_Absent = ''absent''"
| "file_outcome_string File_Invalid = ''invalid''"
| "file_outcome_string File_Error = ''error''"

record file_result =
  fr_trigger :: Trigger
  fr_outcome :: file_outcome
  fr_publication :: "Result option"

record file_config =
  fc_path :: string
  fc_reconcile_interval :: int
  fc_decoded_bytes :: int

record Reconciler =
  rc_config :: file_config
  rc_last_hash :: "word32 list option"

definition New_Reconciler :: "file_config \<Rightarrow> Reconciler option" where
  "New_Reconciler cfg =
     (if \<not> has_prefix (fc_path cfg) ''/'' \<or> fc_reconcile_interval cfg < 100 * millisecond \<or>
         fc_reconcile_interval cfg > second \<or> fc_decoded_bytes cfg < 1
      then None else Some \<lparr>rc_config = cfg, rc_last_hash = None\<rparr>)"

text \<open>What opening, inspecting and reading the path gives.\<close>

datatype file_view =
    View_Missing | View_Symlink | View_OpenError | View_StatError | View_Irregular | View_ReadError | View_Content bytes

definition readRegular :: "file_view \<Rightarrow> int \<Rightarrow> bytes option \<times> file_outcome" where
  "readRegular view maximum =
     (case view of
        View_Missing \<Rightarrow> (None, File_Absent)
      | View_Symlink \<Rightarrow> (None, File_Invalid)
      | View_OpenError \<Rightarrow> (None, File_Error)
      | View_StatError \<Rightarrow> (None, File_Error)
      | View_Irregular \<Rightarrow> (None, File_Invalid)
      | View_ReadError \<Rightarrow> (None, File_Error)
      | View_Content data \<Rightarrow>
          (let content = take (nat (maximum + 1)) data in
           if go_len content > maximum then (None, File_Invalid) else (Some content, File_Accepted)))"

definition Reconcile ::
  "(Transport \<Rightarrow> bytes \<Rightarrow> 'p \<Rightarrow> 'p \<times> Result) \<Rightarrow> Trigger \<Rightarrow> file_view \<Rightarrow> Reconciler \<times> 'p \<Rightarrow> (Reconciler \<times> 'p) \<times> file_result" where
  "Reconcile publish trigger view st =
     (case st of (rc, p) \<Rightarrow>
      case readRegular view (fc_decoded_bytes (rc_config rc)) of
        (None, oc) \<Rightarrow> ((rc, p), \<lparr>fr_trigger = trigger, fr_outcome = oc, fr_publication = None\<rparr>)
      | (Some content, _) \<Rightarrow>
          if rc_last_hash rc = Some (Sum256 content)
          then ((rc, p), \<lparr>fr_trigger = trigger, fr_outcome = File_Unchanged, fr_publication = None\<rparr>)
          else
            (case publish File content p of
               (p, r) \<Rightarrow>
                 (case r_outcome r of
                    Accepted \<Rightarrow>
                      ((rc\<lparr>rc_last_hash := Some (Sum256 content)\<rparr>, p),
                       \<lparr>fr_trigger = trigger, fr_outcome = File_Accepted, fr_publication = Some r\<rparr>)
                  | Rejected \<Rightarrow> ((rc, p), \<lparr>fr_trigger = trigger, fr_outcome = File_Invalid, fr_publication = Some r\<rparr>)
                  | _ \<Rightarrow> ((rc, p), \<lparr>fr_trigger = trigger, fr_outcome = File_Error, fr_publication = Some r\<rparr>))))"

section \<open>The watcher\<close>

definition IN_CLOSE_WRITE :: word32 where "IN_CLOSE_WRITE = 0x8"
definition IN_MOVED_TO :: word32 where "IN_MOVED_TO = 0x80"
definition IN_CREATE :: word32 where "IN_CREATE = 0x100"
definition IN_DELETE :: word32 where "IN_DELETE = 0x200"
definition IN_DELETE_SELF :: word32 where "IN_DELETE_SELF = 0x400"
definition IN_MOVE_SELF :: word32 where "IN_MOVE_SELF = 0x800"
definition IN_Q_OVERFLOW :: word32 where "IN_Q_OVERFLOW = 0x4000"
definition IN_IGNORED :: word32 where "IN_IGNORED = 0x8000"

definition watchMask :: word32 where
  "watchMask = IN_CREATE OR IN_MOVED_TO OR IN_CLOSE_WRITE OR IN_DELETE OR IN_DELETE_SELF OR IN_MOVE_SELF"

definition eventName :: "bytes \<Rightarrow> string" where
  "eventName encoded = takeWhile (\<lambda>c. c \<noteq> CHR 0x00) encoded"

definition watch_target :: "string \<Rightarrow> string" where
  "watch_target path = rev (takeWhile (\<lambda>c. c \<noteq> CHR ''/'') (rev path))"

text \<open>
  The inputs of the loop: the context ends, the ticker fires (with what installing the watch would
  give), or the read of the descriptor returns events, nothing for now, or an error.
\<close>

datatype watch_input =
    Watch_Done | Watch_Tick bool | Watch_Events "(word32 \<times> bytes) list" | Watch_Idle | Watch_Failed

datatype watch_action = Act_Reconcile Trigger | Act_Note string

datatype run_state = Run_Watching bool | Run_Returned bool

fun handle_events :: "string \<Rightarrow> bool \<Rightarrow> (word32 \<times> bytes) list \<Rightarrow> bool \<times> watch_action list" where
  "handle_events target watching [] = (watching, [])"
| "handle_events target watching ((evmask, name) # es) =
     (let (watching, acts) =
        (if evmask AND IN_Q_OVERFLOW \<noteq> 0 then (watching, [Act_Note ''overflow'', Act_Reconcile Trigger_Overflow])
         else if evmask AND (IN_IGNORED OR IN_DELETE_SELF OR IN_MOVE_SELF) \<noteq> 0 then (False, [Act_Note ''invalidated''])
         else if eventName name = target \<and> evmask AND watchMask \<noteq> 0 then (watching, [Act_Reconcile Event])
         else (watching, []));
          (watching, acts') = handle_events target watching es
      in (watching, acts @ acts'))"

text \<open>The start of \<^verbatim>\<open>Run\<close>: a reconciliation, then the first attempt to watch.\<close>

definition run_start :: "bool \<Rightarrow> bool \<Rightarrow> run_state \<times> watch_action list" where
  "run_start initialized installed =
     (if initialized then (Run_Watching installed, [Act_Reconcile Startup]) else (Run_Returned False, [Act_Reconcile Startup]))"

definition run_input :: "string \<Rightarrow> watch_input \<Rightarrow> bool \<Rightarrow> run_state \<times> watch_action list" where
  "run_input target input watching =
     (case input of
        Watch_Done \<Rightarrow> (Run_Returned True, [])
      | Watch_Tick installed \<Rightarrow>
          if \<not> watching \<and> installed
          then (Run_Watching True, [Act_Note ''reinstalled'', Act_Reconcile WatchReinstall, Act_Reconcile Periodic])
          else (Run_Watching watching, [Act_Reconcile Periodic])
      | Watch_Idle \<Rightarrow> (Run_Watching watching, [])
      | Watch_Failed \<Rightarrow> (Run_Returned False, [])
      | Watch_Events es \<Rightarrow> (case handle_events target watching es of (watching, acts) \<Rightarrow> (Run_Watching watching, acts)))"

section \<open>What the publisher shows\<close>

text \<open>Any sequence of reconciliations, with steps of the publisher from outside in between.\<close>

inductive file_steps ::
  "('x \<Rightarrow> Transport \<Rightarrow> bytes \<Rightarrow> 'p \<Rightarrow> 'p \<times> Result) \<Rightarrow> ('p \<Rightarrow> 'p \<Rightarrow> bool) \<Rightarrow> Reconciler \<times> 'p \<Rightarrow> Reconciler \<times> 'p \<Rightarrow> bool"
  for publish outside where
  none: "file_steps publish outside st st"
| reconcile: "file_steps publish outside st st' \<Longrightarrow> Reconcile (publish x) trigger view st' = (st'', r) \<Longrightarrow>
    file_steps publish outside st st''"
| other: "file_steps publish outside st (rc, p) \<Longrightarrow> outside p p' \<Longrightarrow> file_steps publish outside st (rc, p')"

text \<open>
  What the result of a reconciliation promises: an accepted content is the active snapshot under the
  generation reported, an unchanged one has the remembered digest and nothing moves, and every other
  outcome leaves the reconciler and the active snapshot as they are.
\<close>

definition reconciled ::
  "('p \<Rightarrow> ActiveSnapshot) \<Rightarrow> ('p \<Rightarrow> bytes \<Rightarrow> ValidatedSnapshot option) \<Rightarrow> file_view \<Rightarrow> Reconciler \<times> 'p \<Rightarrow> Reconciler \<times> 'p \<Rightarrow> file_result \<Rightarrow> bool" where
  "reconciled active parse view st st' r \<longleftrightarrow>
     (case fr_outcome r of
        File_Accepted \<Rightarrow> \<exists>content v publication.
          view = View_Content content \<and> go_len content \<le> fc_decoded_bytes (rc_config (fst st)) \<and>
          parse (snd st) content = Some v \<and> fr_publication r = Some publication \<and>
          active (snd st') = NewActive v (r_generation publication) \<and> rc_last_hash (fst st') = Some (Sum256 content)
      | File_Unchanged \<Rightarrow> st' = st \<and> (\<exists>content. view = View_Content content \<and> rc_last_hash (fst st) = Some (Sum256 content))
      | _ \<Rightarrow> fst st' = fst st \<and> active (snd st') = active (snd st))"

text \<open>The remembered digest is that of a content whose snapshot is active.\<close>

definition file_inv :: "('p \<Rightarrow> ActiveSnapshot) \<Rightarrow> ('p \<Rightarrow> bytes \<Rightarrow> ValidatedSnapshot option) \<Rightarrow> Reconciler \<times> 'p \<Rightarrow> bool" where
  "file_inv active parse st \<longleftrightarrow> (\<forall>h. rc_last_hash (fst st) = Some h \<longrightarrow>
     (\<exists>d. Sum256 d = h \<and> parse (snd st) d = Some (a_validated (active (snd st)))))"

locale file_client = publisher publish active parse
  for publish :: "'x \<Rightarrow> Transport \<Rightarrow> bytes \<Rightarrow> 'p \<Rightarrow> 'p \<times> Result" and active :: "'p \<Rightarrow> ActiveSnapshot"
    and parse :: "'p \<Rightarrow> bytes \<Rightarrow> ValidatedSnapshot option" +
  fixes outside :: "'p \<Rightarrow> 'p \<Rightarrow> bool"
  assumes outside_keeps: "outside p p' \<Longrightarrow> active p' = active p \<and> parse p' = parse p"
begin

lemma Reconcile_reconciled:
  assumes "Reconcile (publish x) trigger view st = (st', r)" "1 \<le> fc_decoded_bytes (rc_config (fst st))"
  shows "reconciled active parse view st st' r \<and> parse (snd st') = parse (snd st) \<and> rc_config (fst st') = rc_config (fst st)"
proof -
  obtain rc p where st: "st = (rc, p)" by (cases st)
  show ?thesis
  proof (cases "fst (readRegular view (fc_decoded_bytes (rc_config rc)))")
    case None
    then obtain oc where oc: "readRegular view (fc_decoded_bytes (rc_config rc)) = (None, oc)" "oc \<noteq> File_Accepted" "oc \<noteq> File_Unchanged"
      by (auto simp: readRegular_def Let_def split: file_view.splits if_splits)
    with assms(1) st show ?thesis by (cases oc) (auto simp: Reconcile_def reconciled_def)
  next
    case (Some content)
    then have c: "readRegular view (fc_decoded_bytes (rc_config rc)) = (Some content, File_Accepted)"
      "view = View_Content content" "go_len content \<le> fc_decoded_bytes (rc_config rc)"
      by (auto simp: readRegular_def Let_def split: file_view.splits if_splits)
    obtain p' q where p: "publish x File content p = (p', q)" by fastforce
    note laws = accepted_active [OF p] declined_active [OF p] parse_stable [OF p]
    show ?thesis
    proof (cases "rc_last_hash rc = Some (Sum256 content)")
      case True
      with assms(1) st c show ?thesis by (auto simp: Reconcile_def reconciled_def)
    next
      case False
      with assms(1) st c p laws show ?thesis
        by (cases "r_outcome q") (auto simp: Reconcile_def reconciled_def)
    qed
  qed
qed

lemma file_inv_reconciled:
  assumes "reconciled active parse view st st' r" "parse (snd st') = parse (snd st)" "file_inv active parse st"
  shows "file_inv active parse st'"
proof (cases "fr_outcome r")
  case File_Accepted
  with assms show ?thesis by (fastforce simp: reconciled_def file_inv_def NewActive_def)
qed (use assms in \<open>auto simp: reconciled_def file_inv_def\<close>)

lemma file_steps_inv:
  assumes "file_steps publish outside (rc, p) st" "rc_last_hash rc = None" "1 \<le> fc_decoded_bytes (rc_config rc)"
  shows "file_inv active parse st \<and> rc_config (fst st) = rc_config rc \<and> parse (snd st) = parse p"
  using assms
proof (induction "(rc, p)" st rule: file_steps.induct)
  case (reconcile st' x trigger view st'' r)
  then have ih: "file_inv active parse st'" "rc_config (fst st') = rc_config rc" "parse (snd st') = parse p" by auto
  with reconcile have "reconciled active parse view st' st'' r \<and> parse (snd st'') = parse (snd st') \<and> rc_config (fst st'') = rc_config (fst st')"
    by (intro Reconcile_reconciled) auto
  with ih file_inv_reconciled [of view st' st'' r] show ?case by auto
next
  case (other rc' p' p'')
  then show ?case using outside_keeps [OF other(3)] by (auto simp: file_inv_def)
qed (auto simp: file_inv_def)

end

section \<open>The core behind the reconciler\<close>

text \<open>From outside the core may be closed or frozen.\<close>

definition core_outside :: "Core \<Rightarrow> Core \<Rightarrow> bool" where
  "core_outside k k' \<longleftrightarrow> k' = core_close k \<or> k' = core_freeze k"

interpretation core_file: file_client Publish "\<lambda>core. Active (c_holder core)" core_parse core_outside
proof (unfold_locales, goal_cases)
  case (5 p p')
  have "Active (c_holder (core_freeze p)) = Active (c_holder p)"
    by (simp add: core_freeze_def Freeze_def split: option.split)
  moreover have "core_parse (core_freeze p) = core_parse p" "core_parse (core_close p) = core_parse p"
    by (auto intro!: core_parse_cong simp: core_close_def)
  ultimately show ?case using 5 by (auto simp: core_outside_def core_close_def)
qed (use core_publisher.rejected_reason core_publisher.accepted_active core_publisher.declined_active in blast,
    use core_publisher.accepted_active in blast, use core_publisher.declined_active in blast, use core_publisher.parse_stable in metis)

section \<open>Properties\<close>

text \<open>
  C32: after any sequence of reconciliations of a new reconciler, also when the core is closed and frozen
  in between, the core shows the snapshot of a content with the digest last accepted, if there is one;
  and the next reconciliation keeps its promise: an accepted file is now the active snapshot under the
  reported generation, an unchanged one has that digest and nothing moves, and an absent, invalid or
  failing one leaves the active snapshot as it was.
\<close>

theorem file_reconciles:
  assumes "New_Reconciler cfg = Some rc" "file_steps Publish core_outside (rc, core) st"
    "Reconcile (Publish ctx) trigger view st = (st', r)"
  shows "file_inv (\<lambda>core. Active (c_holder core)) core_parse st \<and>
    reconciled (\<lambda>core. Active (c_holder core)) core_parse view st st' r"
proof -
  have rc: "rc_last_hash rc = None" "1 \<le> fc_decoded_bytes (rc_config rc)"
    using assms(1) by (auto simp: New_Reconciler_def split: if_splits)
  note inv = core_file.file_steps_inv [OF assms(2) rc]
  with rc(2) core_file.Reconcile_reconciled [OF assms(3)] show ?thesis by auto
qed

definition demo_file_config :: file_config where
  "demo_file_config = \<lparr>fc_path = ''/run/s.json'', fc_reconcile_interval = second, fc_decoded_bytes = 10\<rparr>"

definition demo_reconciler :: Reconciler where
  "demo_reconciler = \<lparr>rc_config = demo_file_config, rc_last_hash = None\<rparr>"

abbreviation calm :: publish_ctx where
  "calm \<equiv> \<lparr>expired_on_entry = False, expired_waiting = False, expired_after_parse = False\<rparr>"

lemma demo_accepted: "r_outcome (snd (Publish calm File ''{}'' (sample_core accept_zero))) = Accepted"
  by code_simp

theorem file_reconciles_witness:
  "\<exists>st' r v publication. Reconcile (Publish calm) Startup (View_Content ''{}'') (demo_reconciler, sample_core accept_zero) = (st', r) \<and>
     fr_outcome r = File_Accepted \<and> fr_publication r = Some publication \<and>
     Active (c_holder (snd st')) = NewActive v (r_generation publication) \<and> rc_last_hash (fst st') = Some (Sum256 ''{}'')"
proof -
  obtain st' r where r: "Reconcile (Publish calm) Startup (View_Content ''{}'') (demo_reconciler, sample_core accept_zero) = (st', r)"
    by fastforce
  have new: "New_Reconciler demo_file_config = Some demo_reconciler"
    by (simp add: New_Reconciler_def demo_file_config_def demo_reconciler_def has_prefix_def dur_defs)
  have "fr_outcome r = File_Accepted"
    using r demo_accepted
    by (auto simp: Reconcile_def readRegular_def demo_reconciler_def demo_file_config_def Let_def split: prod.splits)
  with file_reconciles [OF new file_steps.none r] r show ?thesis by (auto simp: reconciled_def)
qed

end
