(* ===== verification/Http_Ingest.thy ===== *)
theory Http_Ingest
  imports Publisher Json_Text Go_Strings Shutdown_Budget Ingestion_Facts
begin

text \<open>
  Ingestion over HTTP (\<^verbatim>\<open>internal/httpingest/handler.go\<close>): the checks on a request, the body within its
  limits before and after decompression, the publication and the answer.

  A request is what the handler reads of it: the body is the bytes that can be read and whether an error
  follows them. \<^verbatim>\<open>mime.ParseMediaType\<close> and \<^verbatim>\<open>compress/gzip\<close> are arguments: a media type with its
  parameters, and the bytes of a compressed text with whether an error follows them. Timeouts and the
  name resolution are the system's.
\<close>

section \<open>Configuration\<close>

definition ingest_path :: string where "ingest_path = ''/v1/metrics''"
definition ingest_media_type :: string where "ingest_media_type = ''application/vnd.metricshell.snapshot+json''"

record ingest_config =
  hi_wire_bytes :: int
  hi_decoded_bytes :: int
  hi_read_header_timeout :: int
  hi_read_timeout :: int
  hi_write_timeout :: int
  hi_idle_timeout :: int
  hi_max_header_bytes :: int

definition ingest_defaults :: ingest_config where
  "ingest_defaults =
     \<lparr>hi_wire_bytes = 2 * 2 ^ 20, hi_decoded_bytes = 2 * 2 ^ 20, hi_read_header_timeout = 2 * second,
      hi_read_timeout = 10 * second, hi_write_timeout = 30 * second, hi_idle_timeout = 30 * second,
      hi_max_header_bytes = 8 * 2 ^ 10\<rparr>"

definition ingest_validate :: "ingest_config \<Rightarrow> bool" where
  "ingest_validate c \<longleftrightarrow>
     \<not> (hi_wire_bytes c < 1 \<or> hi_decoded_bytes c < 1 \<or> hi_read_header_timeout c \<le> 0 \<or> hi_read_timeout c \<le> 0 \<or>
        hi_write_timeout c \<le> 0 \<or> hi_idle_timeout c \<le> 0 \<or> hi_max_header_bytes c < 1)"

text \<open>
  \<^verbatim>\<open>ValidateListenAddress\<close>: the resolver gives, for every address of a host, whether it is a loopback
  address, or fails.
\<close>

definition ValidateListenAddress :: "(string \<Rightarrow> bool list option) \<Rightarrow> string \<Rightarrow> bool" where
  "ValidateListenAddress resolve address =
     (case SplitHostPort address of
        None \<Rightarrow> False
      | Some (host, port) \<Rightarrow>
          host \<noteq> [] \<and> (case resolve host of None \<Rightarrow> False | Some loopbacks \<Rightarrow> loopbacks \<noteq> [] \<and> list_all id loopbacks))"

definition ingest_server_ok :: "(string \<Rightarrow> bool list option) \<Rightarrow> string \<Rightarrow> ingest_config \<Rightarrow> bool" where
  "ingest_server_ok resolve address c \<longleftrightarrow> ingest_validate c \<and> ValidateListenAddress resolve address"

section \<open>Requests and responses\<close>

record ingest_request =
  iq_method :: string
  iq_path :: string
  iq_content_type :: string
  iq_content_encoding :: string
  iq_content_length :: int
  iq_body :: bytes
  iq_body_fails :: bool
  iq_context_done :: bool

record ingest_response =
  ir_status :: int
  ir_headers :: "(string \<times> string) list"
  ir_body :: bytes

definition writeACK :: "uint64 \<Rightarrow> ingest_response" where
  "writeACK generation =
     \<lparr>ir_status = 200, ir_headers = [(''Content-Type'', ''application/json'')],
      ir_body = with_newline (json_object [(''schema_version'', ''1''), (''status'', json_string ''ack''), (''generation'', format_uint generation)])\<rparr>"

definition writeNACK :: "int \<Rightarrow> string \<Rightarrow> ingest_response" where
  "writeNACK status code =
     \<lparr>ir_status = status, ir_headers = [(''Content-Type'', ''application/json'')],
      ir_body = with_newline (json_object [(''schema_version'', ''1''), (''status'', json_string ''nack''), (''code'', json_string code)])\<rparr>"

definition http_not_found :: ingest_response where
  "http_not_found =
     \<lparr>ir_status = 404, ir_headers = [(''Content-Type'', ''text/plain; charset=utf-8''), (''X-Content-Type-Options'', ''nosniff'')],
      ir_body = with_newline ''404 page not found''\<rparr>"

definition rejectionStatus :: "Reason option \<Rightarrow> int" where
  "rejectionStatus reason =
     (if reason = Some ReasonPayloadLimit then 413
      else if reason \<in> {Some ReasonSeriesLimit, Some ReasonLabelLimit, Some ReasonNameLimit, Some ReasonPolicy} then 422
      else if reason = Some ReasonFrozen then 409
      else if reason = Some ReasonInternal then 500
      else 400)"

type_synonym media_parser = "string \<Rightarrow> (string \<times> (string \<times> string) list) option"

definition acceptedMediaType :: "media_parser \<Rightarrow> string \<Rightarrow> bool" where
  "acceptedMediaType media v =
     (case media v of
        None \<Rightarrow> False
      | Some (mediaType, parameters) \<Rightarrow>
          if to_lower_ascii mediaType = ''application/json'' then parameters = []
          else if to_lower_ascii mediaType = ingest_media_type
            then length parameters = 1 \<and> map_of parameters ''version'' = Some ''1''
          else False)"

text \<open>\<^verbatim>\<open>io.ReadAll\<close> of a reader limited to \<open>n + 1\<close> bytes: an error beyond the limit is not seen.\<close>

definition read_limited :: "int \<Rightarrow> bytes \<times> bool \<Rightarrow> bytes option" where
  "read_limited n source =
     (case source of (data, fails) \<Rightarrow>
        if go_len data \<ge> n + 1 then Some (take (nat (n + 1)) data) else if fails then None else Some data)"

type_synonym unzipper = "bytes \<Rightarrow> (bytes \<times> bool) option"

definition ingest_decode :: "unzipper \<Rightarrow> ingest_config \<Rightarrow> bytes \<Rightarrow> string \<Rightarrow> Reason + bytes" where
  "ingest_decode unzip c wire encoding =
     (case (if encoding = ''gzip'' then unzip wire else Some (wire, False)) of
        None \<Rightarrow> Inl ReasonMalformed
      | Some source \<Rightarrow>
          (case read_limited (hi_decoded_bytes c) source of
             None \<Rightarrow> Inl ReasonMalformed
           | Some decoded \<Rightarrow> if go_len decoded > hi_decoded_bytes c then Inl ReasonPayloadLimit else Inr decoded))"

definition request_encoding :: "ingest_request \<Rightarrow> string" where
  "request_encoding q =
     (let encoding = to_lower_ascii (TrimSpace (iq_content_encoding q)) in if encoding = [] then ''identity'' else encoding)"

text \<open>Everything before the publication: the response, or the candidate.\<close>

definition ingest_admit :: "media_parser \<Rightarrow> unzipper \<Rightarrow> ingest_config \<Rightarrow> ingest_request \<Rightarrow> ingest_response + bytes" where
  "ingest_admit media unzip c q =
     (if iq_path q \<noteq> ingest_path then Inl http_not_found
      else if iq_method q \<noteq> ''POST'' then
        Inl ((writeNACK 405 ''method'')\<lparr>ir_headers := [(''Allow'', ''POST''), (''Content-Type'', ''application/json'')]\<rparr>)
      else if \<not> acceptedMediaType media (iq_content_type q) then Inl (writeNACK 415 ''media_type'')
      else
        let encoding = request_encoding q in
        if encoding \<noteq> ''identity'' \<and> encoding \<noteq> ''gzip'' then Inl (writeNACK 415 ''encoding'')
        else if iq_content_length q > hi_wire_bytes c then Inl (writeNACK 413 (reason_string ReasonPayloadLimit))
        else
          case read_limited (hi_wire_bytes c) (iq_body q, iq_body_fails q) of
            None \<Rightarrow>
              if iq_context_done q then Inl (writeNACK 408 (outcome_string Timeout))
              else Inl (writeNACK 400 (reason_string ReasonMalformed))
          | Some wire \<Rightarrow>
              if go_len wire > hi_wire_bytes c then Inl (writeNACK 413 (reason_string ReasonPayloadLimit))
              else
                (case ingest_decode unzip c wire encoding of
                   Inl reason \<Rightarrow> Inl (writeNACK (if reason = ReasonPayloadLimit then 413 else 400) (reason_string reason))
                 | Inr decoded \<Rightarrow> Inr decoded))"

definition ingest_answer :: "Result \<Rightarrow> ingest_response" where
  "ingest_answer r =
     (case r_outcome r of
        Accepted \<Rightarrow> writeACK (r_generation r)
      | Rejected \<Rightarrow> writeNACK (rejectionStatus (r_reason r)) (case r_reason r of None \<Rightarrow> [] | Some reason \<Rightarrow> reason_string reason)
      | Busy \<Rightarrow> writeNACK 429 (outcome_string Busy)
      | Timeout \<Rightarrow> writeNACK 408 (outcome_string Timeout)
      | InternalError \<Rightarrow> writeNACK 500 (reason_string ReasonInternal))"

definition ingest_ServeHTTP ::
  "media_parser \<Rightarrow> unzipper \<Rightarrow> (Transport \<Rightarrow> bytes \<Rightarrow> 'p \<Rightarrow> 'p \<times> Result) \<Rightarrow> ingest_config \<Rightarrow> ingest_request \<Rightarrow> 'p \<Rightarrow> 'p \<times> ingest_response" where
  "ingest_ServeHTTP media unzip publish c q p =
     (case ingest_admit media unzip c q of
        Inl response \<Rightarrow> (p, response)
      | Inr decoded \<Rightarrow> (case publish HTTP decoded p of (p, r) \<Rightarrow> (p, ingest_answer r)))"

section \<open>What a request asks for\<close>

text \<open>The candidate of a request, said without the order of the checks.\<close>

definition request_candidate :: "media_parser \<Rightarrow> unzipper \<Rightarrow> ingest_config \<Rightarrow> ingest_request \<Rightarrow> bytes \<Rightarrow> bool" where
  "request_candidate media unzip c q candidate \<longleftrightarrow>
     iq_path q = ingest_path \<and> iq_method q = ''POST'' \<and> acceptedMediaType media (iq_content_type q) \<and>
     iq_content_length q \<le> hi_wire_bytes c \<and> go_len (iq_body q) \<le> hi_wire_bytes c \<and> \<not> iq_body_fails q \<and>
     go_len candidate \<le> hi_decoded_bytes c \<and>
     (request_encoding q = ''identity'' \<and> candidate = iq_body q \<or>
      request_encoding q = ''gzip'' \<and> unzip (iq_body q) = Some (candidate, False))"

lemma read_limited_Some:
  "0 \<le> n \<Longrightarrow> read_limited n (data, fails) = Some d \<and> go_len d \<le> n \<longleftrightarrow> d = data \<and> go_len data \<le> n \<and> \<not> fails"
  by (auto simp: read_limited_def split: if_splits)

lemma read_limited_ex:
  assumes "0 \<le> n"
  shows "(\<exists>d. read_limited n (data, fails) = Some d \<and> go_len d \<le> n \<and> P d) \<longleftrightarrow> go_len data \<le> n \<and> \<not> fails \<and> P data"
  unfolding conj_assoc [symmetric] read_limited_Some [OF assms] by auto

lemma ingest_decode_Inr:
  assumes "0 \<le> hi_decoded_bytes c"
  shows "ingest_decode unzip c wire encoding = Inr d \<longleftrightarrow>
    go_len d \<le> hi_decoded_bytes c \<and> (if encoding = ''gzip'' then unzip wire = Some (d, False) else d = wire)"
proof -
  let ?source = "if encoding = ''gzip'' then unzip wire else Some (wire, False)"
  have "ingest_decode unzip c wire encoding = Inr d \<longleftrightarrow>
      (\<exists>data fails. ?source = Some (data, fails) \<and> read_limited (hi_decoded_bytes c) (data, fails) = Some d \<and> go_len d \<le> hi_decoded_bytes c)"
    by (cases ?source) (auto simp: ingest_decode_def split: option.split)
  also have "\<dots> \<longleftrightarrow> ?source = Some (d, False) \<and> go_len d \<le> hi_decoded_bytes c"
    unfolding read_limited_Some [OF assms] by auto
  finally show ?thesis by auto
qed

lemma ingest_admit_Inr:
  assumes "ingest_validate c"
  shows "ingest_admit media unzip c q = Inr d \<longleftrightarrow> request_candidate media unzip c q d"
proof -
  have n: "0 \<le> hi_wire_bytes c" "0 \<le> hi_decoded_bytes c" using assms by (auto simp: ingest_validate_def)
  have "ingest_admit media unzip c q = Inr d \<longleftrightarrow>
      iq_path q = ingest_path \<and> iq_method q = ''POST'' \<and> acceptedMediaType media (iq_content_type q) \<and>
      (request_encoding q = ''identity'' \<or> request_encoding q = ''gzip'') \<and> iq_content_length q \<le> hi_wire_bytes c \<and>
      (\<exists>wire. read_limited (hi_wire_bytes c) (iq_body q, iq_body_fails q) = Some wire \<and> go_len wire \<le> hi_wire_bytes c \<and>
         ingest_decode unzip c wire (request_encoding q) = Inr d)"
    by (auto simp: ingest_admit_def Let_def split: option.splits sum.splits if_splits)
  then show ?thesis
    unfolding read_limited_ex [OF n(1)] ingest_decode_Inr [OF n(2)] by (auto simp: request_candidate_def)
qed

lemma ingest_admit_Inl: "ingest_admit media unzip c q = Inl response \<Longrightarrow> ir_status response \<in> {400, 404, 405, 408, 413, 415}"
  by (auto simp: ingest_admit_def Let_def writeNACK_def http_not_found_def split: option.splits sum.splits if_splits)

lemma ingest_answer_status: "ir_status (ingest_answer r) = 200 \<longleftrightarrow> r_outcome r = Accepted"
  by (cases "r_outcome r") (auto simp: ingest_answer_def writeACK_def writeNACK_def rejectionStatus_def)

locale http_client = publisher publish active parse
  for publish :: "'x \<Rightarrow> Transport \<Rightarrow> bytes \<Rightarrow> 'p \<Rightarrow> 'p \<times> Result" and active :: "'p \<Rightarrow> ActiveSnapshot"
    and parse :: "'p \<Rightarrow> bytes \<Rightarrow> ValidatedSnapshot option"
begin

lemma served:
  assumes "ingest_ServeHTTP media unzip (publish x) c q p = (p', response)" "ingest_validate c"
  shows "(ir_status response = 200 \<longleftrightarrow>
      (\<exists>candidate r. request_candidate media unzip c q candidate \<and> publish x HTTP candidate p = (p', r) \<and> r_outcome r = Accepted \<and>
         response = writeACK (r_generation r) \<and> (\<exists>v. parse p candidate = Some v \<and> active p' = NewActive v (r_generation r)))) \<and>
    (ir_status response \<noteq> 200 \<longrightarrow> active p' = active p)"
proof (cases "ingest_admit media unzip c q")
  case (Inl e)
  then have "\<not> request_candidate media unzip c q candidate" for candidate
    using ingest_admit_Inr [OF assms(2), of media unzip q candidate] by auto
  with Inl assms(1) ingest_admit_Inl [OF Inl] show ?thesis by (auto simp: ingest_ServeHTTP_def)
next
  case (Inr candidate)
  then have rc: "request_candidate media unzip c q d \<longleftrightarrow> d = candidate" for d
    using ingest_admit_Inr [OF assms(2), of media unzip q d] by auto
  obtain p'' r where p: "publish x HTTP candidate p = (p'', r)" by fastforce
  with assms(1) Inr have e: "p'' = p'" "response = ingest_answer r" by (auto simp: ingest_ServeHTTP_def)
  have ack: "r_outcome r = Accepted \<Longrightarrow> ingest_answer r = writeACK (r_generation r)" by (simp add: ingest_answer_def)
  from accepted_active [OF p] declined_active [OF p] show ?thesis
    using p e rc ack by (auto simp: ingest_answer_status)
qed

end

interpretation core_http: http_client Publish "\<lambda>core. Active (c_holder core)" core_parse
  using core_publisher.rejected_reason core_publisher.accepted_active core_publisher.declined_active core_publisher.parse_stable
  by unfold_locales metis+

section \<open>Properties\<close>

text \<open>
  C33: an HTTP publication is acknowledged exactly when the request is a POST of a known media type and
  encoding whose body, before and after decompression, is complete and within its limit, and the core
  accepts the candidate; the answer then carries the generation under which that very candidate is
  active. Any other answer leaves the active snapshot as it was.
\<close>

theorem http_ack_exact:
  assumes "ingest_ServeHTTP media unzip (Publish ctx) c q core = (core', response)" "ingest_validate c"
  shows "(ir_status response = 200 \<longleftrightarrow>
      (\<exists>candidate r. request_candidate media unzip c q candidate \<and> Publish ctx HTTP candidate core = (core', r) \<and> r_outcome r = Accepted \<and>
         response = writeACK (r_generation r) \<and>
         (\<exists>v. core_parse core candidate = Some v \<and> Active (c_holder core') = NewActive v (r_generation r)))) \<and>
    (ir_status response \<noteq> 200 \<longrightarrow> Active (c_holder core') = Active (c_holder core))"
  using core_http.served [OF assms] .

definition demo_post :: ingest_request where
  "demo_post = \<lparr>iq_method = ''POST'', iq_path = ingest_path, iq_content_type = ''application/json'', iq_content_encoding = [],
     iq_content_length = 2, iq_body = ''{}'', iq_body_fails = False, iq_context_done = False\<rparr>"

definition plain_media :: media_parser where
  "plain_media v = Some (v, [])"

theorem http_ack_exact_witness:
  "\<exists>core' response candidate. ingest_ServeHTTP plain_media (\<lambda>_. None)
       (Publish \<lparr>expired_on_entry = False, expired_waiting = False, expired_after_parse = False\<rparr>) ingest_defaults demo_post (sample_core accept_zero) =
       (core', response) \<and> ir_status response = 200 \<and>
     request_candidate plain_media (\<lambda>_. None) ingest_defaults demo_post candidate \<and> candidate = ''{}'' \<and>
     (\<exists>v. core_parse (sample_core accept_zero) candidate = Some v)"
proof -
  let ?ctx = "\<lparr>expired_on_entry = False, expired_waiting = False, expired_after_parse = False\<rparr>"
  obtain core' response where s: "ingest_ServeHTTP plain_media (\<lambda>_. None) (Publish ?ctx) ingest_defaults demo_post (sample_core accept_zero) =
      (core', response)" by fastforce
  have "ir_status (snd (ingest_ServeHTTP plain_media (\<lambda>_. None) (Publish ?ctx) ingest_defaults demo_post (sample_core accept_zero))) = 200"
    by code_simp
  then have st: "ir_status response = 200" by (simp add: s)
  have v: "ingest_validate ingest_defaults" by (simp add: ingest_validate_def ingest_defaults_def dur_defs)
  from http_ack_exact [OF s v] st obtain candidate where "request_candidate plain_media (\<lambda>_. None) ingest_defaults demo_post candidate"
    "\<exists>v. core_parse (sample_core accept_zero) candidate = Some v" by blast
  moreover from this(1) have "candidate = ''{}''" by (auto simp: request_candidate_def demo_post_def)
  ultimately show ?thesis using s st by blast
qed

end
