(* ===== verification/Config_Options.thy ===== *)
theory Config_Options
  imports Exposition_Handler Final_Wait Managed_Server Msp_Server File_Ingest Http_Ingest
begin

text \<open>
  The options of the runtime (\<^verbatim>\<open>internal/config/bootstrap.go\<close>): the tables of names, the scan of the
  command line, where the value of a property comes from, and the grammars of the values.

  The environment is an argument, a function from names to values; no lookup at all is the empty one. The
  command line is scanned by every section of the configuration; the scan is the same each time and so is
  its error, so it is done once here.
\<close>

section \<open>Tables\<close>

definition config_options :: "(string \<times> string) list" where
  "config_options =
     [(''--mode'', ''mode''),
      (''--managed-queue-capacity'', ''managed_queue_capacity''),
      (''--managed-publication-interval'', ''managed_publication_interval''),
      (''--managed-max-frame-bytes'', ''managed_frame_bytes''),
      (''--managed-socket-path'', ''managed_socket_path''),
      (''--managed-socket-mode'', ''managed_socket_mode''),
      (''--managed-max-connections'', ''managed_connections''),
      (''--managed-read-timeout'', ''managed_read_timeout''),
      (''--managed-write-timeout'', ''managed_write_timeout''),
      (''--managed-max-families'', ''managed_families''),
      (''--managed-max-series'', ''managed_series''),
      (''--managed-max-labels'', ''managed_labels''),
      (''--managed-max-buckets'', ''managed_buckets''),
      (''--managed-max-metric-name-bytes'', ''managed_metric_name_bytes''),
      (''--managed-max-label-name-bytes'', ''managed_label_name_bytes''),
      (''--managed-max-label-value-bytes'', ''managed_label_value_bytes''),
      (''--managed-max-help-bytes'', ''managed_help_bytes''),
      (''--shutdown-total-grace'', ''total_grace''),
      (''--workload-shutdown-timeout'', ''workload_timeout''),
      (''--shutdown-reserve'', ''reserve''),
      (''--shutdown-deadline'', ''deadline''),
      (''--exposition-listen'', ''exposition_listen''),
      (''--max-response-bytes'', ''response_bytes''),
      (''--max-concurrent-scrapes'', ''concurrent_scrapes''),
      (''--exposition-write-timeout'', ''exposition_write_timeout''),
      (''--metrics-include'', ''metrics_include''),
      (''--metrics-exclude'', ''metrics_exclude''),
      (''--ingestion-transport'', ''ingestion_transport''),
      (''--http-ingestion-listen'', ''http_ingestion_listen''),
      (''--unix-socket-path'', ''unix_socket_path''),
      (''--snapshot-file-path'', ''snapshot_file_path''),
      (''--file-reconcile-interval'', ''file_reconcile_interval''),
      (''--socket-max-frame-bytes'', ''socket_frame_bytes''),
      (''--socket-max-parts'', ''socket_parts''),
      (''--socket-max-connections'', ''socket_connections''),
      (''--socket-max-transactions'', ''socket_transactions''),
      (''--socket-transaction-timeout'', ''socket_transaction_timeout''),
      (''--socket-read-timeout'', ''socket_read_timeout''),
      (''--socket-write-timeout'', ''socket_write_timeout''),
      (''--http-ingestion-max-wire-bytes'', ''http_ingestion_wire_bytes''),
      (''--http-read-header-timeout'', ''http_read_header_timeout''),
      (''--http-read-timeout'', ''http_read_timeout''),
      (''--http-write-timeout'', ''http_write_timeout''),
      (''--http-idle-timeout'', ''http_idle_timeout''),
      (''--http-max-header-bytes'', ''http_max_header_bytes''),
      (''--max-snapshot-bytes'', ''snapshot_bytes''),
      (''--max-decoded-input-bytes'', ''decoded_input_bytes''),
      (''--max-series'', ''series''),
      (''--max-labels-per-series'', ''labels_per_series''),
      (''--max-metric-name-bytes'', ''metric_name_bytes''),
      (''--max-label-name-bytes'', ''label_name_bytes''),
      (''--max-label-value-bytes'', ''label_value_bytes''),
      (''--max-help-bytes'', ''help_bytes''),
      (''--max-concurrent-ingestions'', ''concurrent_ingestions''),
      (''--max-pending-ingestions'', ''pending_ingestions''),
      (''--final-wait-mode'', ''final_wait_mode''),
      (''--final-wait-duration'', ''final_wait_duration''),
      (''--final-wait-timeout'', ''final_wait_timeout''),
      (''--final-wait-required-scrapes'', ''final_wait_required_scrapes''),
      (''--final-wait-completion-grace'', ''final_wait_completion_grace''),
      (''--log-level'', ''log_level''),
      (''--log-selector-values'', ''log_selector_values'')]"

definition unsupportedSharedMemoryEnvironment :: "string list" where
  "unsupportedSharedMemoryEnvironment =
     [''METRICSHELL_MMAP_ENABLED'', ''METRICSHELL_MMAP_PATH'', ''METRICSHELL_SHARED_MEMORY_PATH'', ''METRICSHELL_SHM_PATH'']"

definition retiredManagedEnvironment :: "string list" where
  "retiredManagedEnvironment = [''METRICSHELL_MANAGED_MAX_BATCH_OPERATIONS'']"

definition managed_environment :: "(string \<times> string) list" where
  "managed_environment =
     [(''METRICSHELL_MANAGED_QUEUE_CAPACITY'', ''managed_queue_capacity''),
      (''METRICSHELL_MANAGED_PUBLICATION_INTERVAL'', ''managed_publication_interval''),
      (''METRICSHELL_MANAGED_MAX_FRAME_BYTES'', ''managed_frame_bytes''),
      (''METRICSHELL_MANAGED_SOCKET_PATH'', ''managed_socket_path''),
      (''METRICSHELL_MANAGED_SOCKET_MODE'', ''managed_socket_mode''),
      (''METRICSHELL_MANAGED_MAX_CONNECTIONS'', ''managed_connections''),
      (''METRICSHELL_MANAGED_READ_TIMEOUT'', ''managed_read_timeout''),
      (''METRICSHELL_MANAGED_WRITE_TIMEOUT'', ''managed_write_timeout''),
      (''METRICSHELL_MANAGED_MAX_FAMILIES'', ''managed_families''),
      (''METRICSHELL_MANAGED_MAX_SERIES'', ''managed_series''),
      (''METRICSHELL_MANAGED_MAX_LABELS'', ''managed_labels''),
      (''METRICSHELL_MANAGED_MAX_BUCKETS'', ''managed_buckets''),
      (''METRICSHELL_MANAGED_MAX_METRIC_NAME_BYTES'', ''managed_metric_name_bytes''),
      (''METRICSHELL_MANAGED_MAX_LABEL_NAME_BYTES'', ''managed_label_name_bytes''),
      (''METRICSHELL_MANAGED_MAX_LABEL_VALUE_BYTES'', ''managed_label_value_bytes''),
      (''METRICSHELL_MANAGED_MAX_HELP_BYTES'', ''managed_help_bytes'')]"

definition ingestion_environment :: "(string \<times> string) list" where
  "ingestion_environment =
     [(''METRICSHELL_INGESTION_TRANSPORT'', ''ingestion_transport''),
      (''METRICSHELL_HTTP_INGESTION_LISTEN'', ''http_ingestion_listen''),
      (''METRICSHELL_UNIX_SOCKET_PATH'', ''unix_socket_path''),
      (''METRICSHELL_SNAPSHOT_FILE_PATH'', ''snapshot_file_path''),
      (''METRICSHELL_FILE_RECONCILE_INTERVAL'', ''file_reconcile_interval''),
      (''METRICSHELL_SOCKET_MAX_FRAME_BYTES'', ''socket_frame_bytes''),
      (''METRICSHELL_SOCKET_MAX_PARTS'', ''socket_parts''),
      (''METRICSHELL_SOCKET_MAX_CONNECTIONS'', ''socket_connections''),
      (''METRICSHELL_SOCKET_MAX_TRANSACTIONS'', ''socket_transactions''),
      (''METRICSHELL_SOCKET_TRANSACTION_TIMEOUT'', ''socket_transaction_timeout''),
      (''METRICSHELL_SOCKET_READ_TIMEOUT'', ''socket_read_timeout''),
      (''METRICSHELL_SOCKET_WRITE_TIMEOUT'', ''socket_write_timeout''),
      (''METRICSHELL_HTTP_INGESTION_MAX_WIRE_BYTES'', ''http_ingestion_wire_bytes''),
      (''METRICSHELL_HTTP_READ_HEADER_TIMEOUT'', ''http_read_header_timeout''),
      (''METRICSHELL_HTTP_READ_TIMEOUT'', ''http_read_timeout''),
      (''METRICSHELL_HTTP_WRITE_TIMEOUT'', ''http_write_timeout''),
      (''METRICSHELL_HTTP_IDLE_TIMEOUT'', ''http_idle_timeout''),
      (''METRICSHELL_HTTP_MAX_HEADER_BYTES'', ''http_max_header_bytes''),
      (''METRICSHELL_MAX_SNAPSHOT_BYTES'', ''snapshot_bytes''),
      (''METRICSHELL_MAX_DECODED_INPUT_BYTES'', ''decoded_input_bytes''),
      (''METRICSHELL_MAX_SERIES'', ''series''),
      (''METRICSHELL_MAX_LABELS_PER_SERIES'', ''labels_per_series''),
      (''METRICSHELL_MAX_METRIC_NAME_BYTES'', ''metric_name_bytes''),
      (''METRICSHELL_MAX_LABEL_NAME_BYTES'', ''label_name_bytes''),
      (''METRICSHELL_MAX_LABEL_VALUE_BYTES'', ''label_value_bytes''),
      (''METRICSHELL_MAX_HELP_BYTES'', ''help_bytes''),
      (''METRICSHELL_MAX_CONCURRENT_INGESTIONS'', ''concurrent_ingestions''),
      (''METRICSHELL_MAX_PENDING_INGESTIONS'', ''pending_ingestions'')]"

definition final_wait_environment :: "(string \<times> string) list" where
  "final_wait_environment =
     [(''METRICSHELL_FINAL_WAIT_MODE'', ''final_wait_mode''),
      (''METRICSHELL_FINAL_WAIT_DURATION'', ''final_wait_duration''),
      (''METRICSHELL_FINAL_WAIT_TIMEOUT'', ''final_wait_timeout''),
      (''METRICSHELL_FINAL_WAIT_REQUIRED_SCRAPES'', ''final_wait_required_scrapes''),
      (''METRICSHELL_FINAL_WAIT_COMPLETION_GRACE'', ''final_wait_completion_grace'')]"

definition log_environment :: "(string \<times> string) list" where
  "log_environment =
     [(''METRICSHELL_LOG_LEVEL'', ''log_level''), (''METRICSHELL_LOG_SELECTOR_VALUES'', ''log_selector_values'')]"

definition exposition_environment :: "(string \<times> string) list" where
  "exposition_environment =
     [(''METRICSHELL_EXPOSITION_LISTEN'', ''exposition_listen''),
      (''METRICSHELL_MAX_RESPONSE_BYTES'', ''response_bytes''),
      (''METRICSHELL_MAX_CONCURRENT_SCRAPES'', ''concurrent_scrapes''),
      (''METRICSHELL_EXPOSITION_WRITE_TIMEOUT'', ''exposition_write_timeout'')]"

definition shutdown_environment :: "(string \<times> string) list" where
  "shutdown_environment =
     [(''METRICSHELL_SHUTDOWN_TOTAL_GRACE'', ''total_grace''),
      (''METRICSHELL_WORKLOAD_SHUTDOWN_TIMEOUT'', ''workload_timeout''),
      (''METRICSHELL_SHUTDOWN_RESERVE'', ''reserve''),
      (''METRICSHELL_SHUTDOWN_DEADLINE'', ''deadline'')]"

definition ingestion_properties :: "string list" where
  "ingestion_properties =
     [''ingestion_transport'', ''snapshot_file_path'', ''file_reconcile_interval'', ''unix_socket_path'',
      ''socket_frame_bytes'', ''socket_parts'', ''socket_connections'', ''socket_transactions'',
      ''socket_transaction_timeout'', ''socket_read_timeout'', ''socket_write_timeout'', ''http_ingestion_listen'',
      ''http_ingestion_wire_bytes'', ''http_read_header_timeout'', ''http_read_timeout'', ''http_write_timeout'',
      ''http_idle_timeout'', ''http_max_header_bytes'', ''snapshot_bytes'', ''decoded_input_bytes'', ''series'',
      ''labels_per_series'', ''metric_name_bytes'', ''label_name_bytes'', ''label_value_bytes'', ''help_bytes'',
      ''concurrent_ingestions'', ''pending_ingestions'']"

definition isIngestionProperty :: "string \<Rightarrow> bool" where
  "isIngestionProperty property \<longleftrightarrow> property \<in> set ingestion_properties"

definition snapshot_transport_properties :: "string list" where
  "snapshot_transport_properties =
     [''ingestion_transport'', ''snapshot_file_path'', ''file_reconcile_interval'', ''unix_socket_path'',
      ''socket_frame_bytes'', ''socket_parts'', ''socket_connections'', ''socket_transactions'',
      ''socket_transaction_timeout'', ''socket_read_timeout'', ''socket_write_timeout'', ''http_ingestion_listen'',
      ''http_ingestion_wire_bytes'', ''http_read_header_timeout'', ''http_read_timeout'', ''http_write_timeout'',
      ''http_idle_timeout'', ''http_max_header_bytes'', ''concurrent_ingestions'', ''pending_ingestions'']"

definition isSnapshotTransportProperty :: "string \<Rightarrow> bool" where
  "isSnapshotTransportProperty property \<longleftrightarrow> property \<in> set snapshot_transport_properties"

text \<open>The options of the other transports.\<close>

definition inactive_options :: "(string \<times> string list) list" where
  "inactive_options =
     [(''file'', [''unix_socket_path'', ''socket_frame_bytes'', ''socket_parts'', ''socket_connections'',
         ''socket_transactions'', ''socket_transaction_timeout'', ''socket_read_timeout'', ''socket_write_timeout'',
         ''http_ingestion_listen'', ''http_ingestion_wire_bytes'', ''http_read_header_timeout'',
         ''http_read_timeout'', ''http_write_timeout'', ''http_idle_timeout'', ''http_max_header_bytes'']),
      (''unix'', [''snapshot_file_path'', ''file_reconcile_interval'', ''http_ingestion_listen'',
         ''http_ingestion_wire_bytes'', ''http_read_header_timeout'', ''http_read_timeout'', ''http_write_timeout'',
         ''http_idle_timeout'', ''http_max_header_bytes'']),
      (''http'', [''snapshot_file_path'', ''file_reconcile_interval'', ''unix_socket_path'', ''socket_frame_bytes'',
         ''socket_parts'', ''socket_connections'', ''socket_transactions'', ''socket_transaction_timeout'',
         ''socket_read_timeout'', ''socket_write_timeout''])]"

section \<open>The scan of the command line\<close>

datatype config_error =
    SeparatorRequired | CommandRequired | UnknownOption | RequiresValue string | InvalidMode string
  | ManagedModeRequired | InvalidManaged string | InvalidShutdown | ShutdownRejected budget_error
  | InvalidExposition | ExpositionRejected handler_error | InvalidFinalWait | InvalidLogBoolean | InvalidLogLevel
  | InvalidIngestion | SnapshotOptionConflict | InactiveTransportOption string string

definition before_equals :: "string \<Rightarrow> string" where
  "before_equals s = takeWhile (\<lambda>c. c \<noteq> CHR ''='') s"

definition after_equals :: "string \<Rightarrow> string option" where
  "after_equals s = (if CHR ''='' \<in> set s then Some (tl (dropWhile (\<lambda>c. c \<noteq> CHR ''='') s)) else None)"

fun scan_options :: "string list \<Rightarrow> config_error + (string \<times> string) list" where
  "scan_options [] = Inr []"
| "scan_options [arg] =
     (case map_of config_options (before_equals arg) of
        None \<Rightarrow> Inl UnknownOption
      | Some property \<Rightarrow>
          (case after_equals arg of
             None \<Rightarrow> Inl (RequiresValue (before_equals arg))
           | Some v \<Rightarrow> Inr [(property, v)]))"
| "scan_options (arg # next # rest) =
     (case map_of config_options (before_equals arg) of
        None \<Rightarrow> Inl UnknownOption
      | Some property \<Rightarrow>
          (case after_equals arg of
             None \<Rightarrow> and_then (scan_options rest) (\<lambda>ps. Inr ((property, next) # ps))
           | Some v \<Rightarrow> and_then (scan_options (next # rest)) (\<lambda>ps. Inr ((property, v) # ps))))"

section \<open>Where a value comes from\<close>

text \<open>The last option of the command line, else the environment.\<close>

type_synonym environment = "string \<Rightarrow> string option"

definition setting :: "(string \<times> string) list \<Rightarrow> environment \<Rightarrow> (string \<times> string) list \<Rightarrow> string \<Rightarrow> string option" where
  "setting names lookup pairs property =
     (case map_of (rev pairs) property of
        Some v \<Rightarrow> Some v
      | None \<Rightarrow> (case map_of (map prod.swap names) property of None \<Rightarrow> None | Some name \<Rightarrow> lookup name))"

definition parsed_or :: "(string \<Rightarrow> 'v option) \<Rightarrow> 'e \<Rightarrow> 'v \<Rightarrow> string option \<Rightarrow> 'e + 'v" where
  "parsed_or parse e dflt v =
     (case v of None \<Rightarrow> Inr dflt | Some s \<Rightarrow> (case parse s of None \<Rightarrow> Inl e | Some x \<Rightarrow> Inr x))"

section \<open>Values\<close>

definition canonical_number :: "nat \<Rightarrow> string \<Rightarrow> nat option" where
  "canonical_number bits digits =
     (if digits = [] \<or> hd digits = CHR ''0'' then None else parse_uint bits digits)"

definition scaled :: "string \<Rightarrow> string \<Rightarrow> int \<Rightarrow> int option" where
  "scaled v suffix unit =
     (case canonical_number 64 (trim_suffix v suffix) of
        None \<Rightarrow> None
      | Some n \<Rightarrow> if int n > int64_max div unit then None else Some (int n * unit))"

definition byte_units :: "(string \<times> int) list" where
  "byte_units = [(''MiB'', 2 ^ 20), (''KiB'', 2 ^ 10), (''B'', 1)]"

definition duration_units :: "(string \<times> int) list" where
  "duration_units =
     [(''ns'', 1), (''us'', 1000), (''ms'', millisecond), (''s'', second), (''m'', minute), (''h'', hour)]"

fun first_unit :: "(string \<times> int) list \<Rightarrow> string \<Rightarrow> int option" where
  "first_unit [] v = None"
| "first_unit ((suffix, unit) # units) v =
     (if has_suffix v suffix then scaled v suffix unit else first_unit units v)"

definition parseBytes :: "string \<Rightarrow> int option" where
  "parseBytes v = first_unit byte_units v"

definition parseDuration :: "string \<Rightarrow> int option" where
  "parseDuration v = (if v = ''0'' then Some 0 else first_unit duration_units v)"

definition config_parseCount :: "string \<Rightarrow> int option" where
  "config_parseCount v = map_option int (canonical_number 31 v)"

definition parseNonNegativeCount :: "string \<Rightarrow> int option" where
  "parseNonNegativeCount v = (if v = ''0'' then Some 0 else config_parseCount v)"

definition contains_text :: "string \<Rightarrow> string \<Rightarrow> bool" where
  "contains_text s w = list_ex (\<lambda>i. take (length w) (drop i s) = w) [0..<Suc (length s)]"

definition parseBytesOrCount :: "string \<Rightarrow> string \<Rightarrow> int option" where
  "parseBytesOrCount property v =
     (if property \<in> {''labels_per_series'', ''help_bytes'', ''pending_ingestions''} then parseNonNegativeCount v
      else if contains_text property ''bytes'' then parseBytes v
      else config_parseCount v)"

definition parse_octal_mode :: "string \<Rightarrow> 32 word option" where
  "parse_octal_mode v =
     (if length v = 4 \<and> hd v = CHR ''0'' \<and> list_all (byte_in 48 55) v
      then Some (of_nat (foldl (\<lambda>n c. 8 * n + digit_val c) 0 v)) else None)"

definition splitList :: "string \<Rightarrow> string list" where
  "splitList v = map TrimSpace (split_on (CHR '','') v)"

end
