(* ===== verification/Config_Parse.thy ===== *)
theory Config_Parse
  imports Config_Options
begin

text \<open>
  The sections of the configuration and \<^verbatim>\<open>Parse\<close> (\<^verbatim>\<open>internal/config/bootstrap.go\<close>), which reads
  them one after the other and stops at the first error. Where the source visits a map of properties in
  random order, all its errors are one error here. Reading a time stamp (\<^verbatim>\<open>time.Parse\<close> with RFC 3339)
  is an argument; the zero time, which stands for no deadline, is \<open>Some None\<close>.
\<close>

unbundle bit_operations_syntax

section \<open>Data\<close>

datatype config_mode = ModeSnapshot | ModeManagedRegistry

definition mode_of :: "string \<Rightarrow> config_mode option" where
  "mode_of v = (if v = ''snapshot'' then Some ModeSnapshot else if v = ''managed-registry'' then Some ModeManagedRegistry else None)"

record ManagedConfig =
  mg_queue_capacity :: int
  mg_publish_interval :: int
  mg_frame_bytes :: int
  mg_socket_path :: string
  mg_socket_mode :: "32 word"
  mg_connections :: int
  mg_read_timeout :: int
  mg_write_timeout :: int
  mg_limits :: managed_limits

record LogConfig =
  lg_level :: string
  lg_selector_values :: bool

record IngestionConfig =
  ig_transport :: string
  ig_limits :: Limits
  ig_concurrent :: int
  ig_pending :: int
  ig_file :: file_config
  ig_unix_socket_path :: string
  ig_socket :: msp_config
  ig_http_listen :: string
  ig_http :: ingest_config

record Config =
  cg_mode :: config_mode
  cg_managed :: ManagedConfig
  cg_workload :: "string list"
  cg_shutdown :: budget_config
  cg_exposition :: exposition_config
  cg_final_wait :: wait_config
  cg_log :: LogConfig
  cg_ingestion :: IngestionConfig

section \<open>Sections\<close>

definition parseMode :: "environment \<Rightarrow> (string \<times> string) list \<Rightarrow> config_error + config_mode" where
  "parseMode lookup pairs =
     (let v = (case map_of (rev pairs) ''mode'' of
                 Some v \<Rightarrow> v
               | None \<Rightarrow> (case lookup ''METRICSHELL_MODE'' of Some v \<Rightarrow> v | None \<Rightarrow> ''snapshot''))
      in case mode_of v of None \<Rightarrow> Inl (InvalidMode v) | Some m \<Rightarrow> Inr m)"

definition managed_config_defaults :: ManagedConfig where
  "managed_config_defaults =
     \<lparr>mg_queue_capacity = 64, mg_publish_interval = second, mg_frame_bytes = 8 * 2 ^ 10,
      mg_socket_path = ''/run/metricshell/managed.sock'', mg_socket_mode = 0x1B0, mg_connections = 8,
      mg_read_timeout = 5 * second, mg_write_timeout = 5 * second, mg_limits = managed_default_limits\<rparr>"

definition managed_options_given :: "environment \<Rightarrow> (string \<times> string) list \<Rightarrow> bool" where
  "managed_options_given lookup pairs \<longleftrightarrow>
     list_ex (\<lambda>(name, property). lookup name \<noteq> None) managed_environment \<or>
     list_ex (\<lambda>(property, v). has_prefix property ''managed_'') pairs"

definition managed_resource :: "(string \<Rightarrow> string option) \<Rightarrow> (string \<Rightarrow> int option) \<Rightarrow> string \<Rightarrow> int \<Rightarrow> config_error + int" where
  "managed_resource get parse property dflt = parsed_or parse (InvalidManaged ''resource limit'') dflt (get property)"

definition parse_managed_limits :: "(string \<Rightarrow> string option) \<Rightarrow> managed_limits \<Rightarrow> config_error + managed_limits" where
  "parse_managed_limits get l =
     and_then (managed_resource get config_parseCount ''managed_families'' (ml_families l)) (\<lambda>families.
     and_then (managed_resource get config_parseCount ''managed_series'' (ml_series l)) (\<lambda>series.
     and_then (managed_resource get parseNonNegativeCount ''managed_labels'' (ml_labels l)) (\<lambda>labels.
     and_then (managed_resource get config_parseCount ''managed_buckets'' (ml_buckets l)) (\<lambda>buckets.
     and_then (managed_resource get parseBytes ''managed_metric_name_bytes'' (ml_metric_name_bytes l)) (\<lambda>metric_name.
     and_then (managed_resource get parseBytes ''managed_label_name_bytes'' (ml_label_name_bytes l)) (\<lambda>label_name.
     and_then (managed_resource get parseBytes ''managed_label_value_bytes'' (ml_label_value_bytes l)) (\<lambda>label_value.
     and_then (managed_resource get parseNonNegativeCount ''managed_help_bytes'' (ml_help_bytes l)) (\<lambda>help.
       Inr (l\<lparr>ml_families := families, ml_series := series, ml_labels := labels, ml_buckets := buckets,
              ml_metric_name_bytes := metric_name, ml_label_name_bytes := label_name, ml_label_value_bytes := label_value,
              ml_help_bytes := help\<rparr>)))))))))"

definition check_managed :: "ManagedConfig \<Rightarrow> config_error + ManagedConfig" where
  "check_managed c =
     (if mg_queue_capacity c < 1 \<or> mg_queue_capacity c > 1024 then Inl (InvalidManaged ''queue capacity'')
      else if mg_publish_interval c < 10 * millisecond \<or> mg_publish_interval c > minute then Inl (InvalidManaged ''publication interval'')
      else if mg_frame_bytes c < 2 ^ 10 \<or> mg_frame_bytes c > 64 * 2 ^ 10 then Inl (InvalidManaged ''frame size'')
      else if \<not> has_prefix (mg_socket_path c) ''/'' \<or> mg_socket_mode c AND 0x180 \<noteq> 0x180 \<or> mg_socket_mode c AND 0x4F \<noteq> 0 \<or>
              mg_socket_mode c > 0x1B0 \<or> mg_connections c < 1 \<or> mg_connections c > 1024 \<or>
              mg_read_timeout c < 100 * millisecond \<or> mg_read_timeout c > minute \<or>
              mg_write_timeout c < 100 * millisecond \<or> mg_write_timeout c > minute
        then Inl (InvalidManaged ''socket configuration'')
      else if limits_validate (mg_limits c) \<noteq> None then Inl (InvalidManaged ''resource limits'')
      else Inr c)"

definition parseManaged :: "environment \<Rightarrow> (string \<times> string) list \<Rightarrow> config_mode \<Rightarrow> config_error + ManagedConfig" where
  "parseManaged lookup pairs mode =
     (let get = setting managed_environment lookup pairs; c = managed_config_defaults in
      if managed_options_given lookup pairs \<and> mode \<noteq> ModeManagedRegistry then Inl ManagedModeRequired
      else
        and_then (parsed_or config_parseCount (InvalidManaged ''queue capacity'') (mg_queue_capacity c) (get ''managed_queue_capacity'')) (\<lambda>queue.
        and_then (parsed_or parseDuration (InvalidManaged ''publication interval'') (mg_publish_interval c) (get ''managed_publication_interval'')) (\<lambda>interval.
        and_then (parsed_or parseBytes (InvalidManaged ''frame size'') (mg_frame_bytes c) (get ''managed_frame_bytes'')) (\<lambda>frame.
        and_then (parsed_or Some (InvalidManaged ''socket path'') (mg_socket_path c) (get ''managed_socket_path'')) (\<lambda>path.
        and_then (parsed_or parse_octal_mode (InvalidManaged ''socket mode'') (mg_socket_mode c) (get ''managed_socket_mode'')) (\<lambda>smode.
        and_then (parsed_or config_parseCount (InvalidManaged ''connection limit'') (mg_connections c) (get ''managed_connections'')) (\<lambda>connections.
        and_then (parsed_or parseDuration (InvalidManaged ''read timeout'') (mg_read_timeout c) (get ''managed_read_timeout'')) (\<lambda>reading.
        and_then (parsed_or parseDuration (InvalidManaged ''write timeout'') (mg_write_timeout c) (get ''managed_write_timeout'')) (\<lambda>writing.
        and_then (parse_managed_limits get (mg_limits c)) (\<lambda>limits.
          check_managed
            \<lparr>mg_queue_capacity = queue, mg_publish_interval = interval, mg_frame_bytes = frame, mg_socket_path = path,
             mg_socket_mode = smode, mg_connections = connections, mg_read_timeout = reading, mg_write_timeout = writing,
             mg_limits = limits\<rparr>))))))))))"

text \<open>The shutdown section reads every property of the command line; only its own are used.\<close>

definition parseShutdown ::
  "(string \<Rightarrow> int option option) \<Rightarrow> int \<Rightarrow> environment \<Rightarrow> (string \<times> string) list \<Rightarrow> config_error + budget_config" where
  "parseShutdown timestamp now lookup pairs =
     (let get = setting shutdown_environment lookup pairs; c = budget_defaults in
      and_then (parsed_or parseDuration InvalidShutdown (bc_total_grace c) (get ''total_grace'')) (\<lambda>grace.
      and_then (parsed_or parseDuration InvalidShutdown (bc_workload_timeout c) (get ''workload_timeout'')) (\<lambda>timeout.
      and_then (parsed_or parseDuration InvalidShutdown (bc_reserve c) (get ''reserve'')) (\<lambda>reserve.
      and_then (parsed_or (\<lambda>v. if v = [] then Some None else timestamp v) InvalidShutdown None (get ''deadline'')) (\<lambda>deadline.
        let c = \<lparr>bc_total_grace = grace, bc_workload_timeout = timeout, bc_reserve = reserve, bc_deadline = deadline\<rparr> in
        case budget_validate c now of Some e \<Rightarrow> Inl (ShutdownRejected e) | None \<Rightarrow> Inr c)))))"

text \<open>The selectors of the command line replace those of the environment.\<close>

definition selectors :: "environment \<Rightarrow> (string \<times> string) list \<Rightarrow> string \<Rightarrow> string \<Rightarrow> string list \<Rightarrow> string list" where
  "selectors lookup pairs property name dflt =
     (let given = map snd (filter (\<lambda>(p, v). p = property) pairs) in
      if given \<noteq> [] then given
      else case lookup name of None \<Rightarrow> dflt | Some v \<Rightarrow> splitList v)"

definition parseExposition :: "environment \<Rightarrow> (string \<times> string) list \<Rightarrow> config_error + exposition_config" where
  "parseExposition lookup pairs =
     (let get = setting exposition_environment lookup pairs; c = exposition_defaults in
      and_then (parsed_or parseBytes InvalidExposition (ec_response_bytes c) (get ''response_bytes'')) (\<lambda>response_bytes.
      and_then (parsed_or config_parseCount InvalidExposition (ec_concurrent c) (get ''concurrent_scrapes'')) (\<lambda>concurrent.
      and_then (parsed_or parseDuration InvalidExposition (ec_write_timeout c) (get ''exposition_write_timeout'')) (\<lambda>write_timeout.
        if response_bytes < 64 * 2 ^ 10 \<or> response_bytes > 64 * 2 ^ 20 \<or> concurrent < 1 \<or> concurrent > 128 \<or>
           write_timeout < second \<or> write_timeout > 2 * minute
        then Inl InvalidExposition
        else
          let c = c\<lparr>ec_listen := (case get ''exposition_listen'' of None \<Rightarrow> ec_listen c | Some v \<Rightarrow> v),
                    ec_response_bytes := response_bytes, ec_concurrent := concurrent, ec_write_timeout := write_timeout,
                    ec_include := selectors lookup pairs ''metrics_include'' ''METRICSHELL_METRICS_INCLUDE'' (ec_include c),
                    ec_exclude := selectors lookup pairs ''metrics_exclude'' ''METRICSHELL_METRICS_EXCLUDE'' (ec_exclude c)\<rparr> in
          case exposition_validate c of Some e \<Rightarrow> Inl (ExpositionRejected e) | None \<Rightarrow> Inr c))))"

definition wait_mode_of :: "string \<Rightarrow> wait_mode" where
  "wait_mode_of v =
     (if v = ''immediate'' then Immediate else if v = ''duration'' then Duration else if v = ''scrapes'' then Scrapes else OtherMode)"

definition parseFinalWait :: "environment \<Rightarrow> (string \<times> string) list \<Rightarrow> config_error + wait_config" where
  "parseFinalWait lookup pairs =
     (let get = setting final_wait_environment lookup pairs; c = wait_defaults in
      and_then (parsed_or parseDuration InvalidFinalWait (wc_duration c) (get ''final_wait_duration'')) (\<lambda>duration.
      and_then (parsed_or parseDuration InvalidFinalWait (wc_timeout c) (get ''final_wait_timeout'')) (\<lambda>timeout.
      and_then (parsed_or config_parseCount InvalidFinalWait (wc_required_scrapes c) (get ''final_wait_required_scrapes'')) (\<lambda>required.
      and_then (parsed_or parseDuration InvalidFinalWait (wc_completion_grace c) (get ''final_wait_completion_grace'')) (\<lambda>grace.
        let c = \<lparr>wc_mode = (case get ''final_wait_mode'' of None \<Rightarrow> wc_mode c | Some v \<Rightarrow> wait_mode_of v),
                 wc_duration = duration, wc_timeout = timeout, wc_required_scrapes = required, wc_completion_grace = grace\<rparr> in
        if wait_validate c then Inr c else Inl InvalidFinalWait)))))"

definition parse_bool :: "string \<Rightarrow> bool option" where
  "parse_bool v = (if v = ''true'' then Some True else if v = ''false'' then Some False else None)"

definition parseLog :: "environment \<Rightarrow> (string \<times> string) list \<Rightarrow> config_error + LogConfig" where
  "parseLog lookup pairs =
     (let get = setting log_environment lookup pairs; level = (case get ''log_level'' of None \<Rightarrow> ''info'' | Some v \<Rightarrow> v) in
      and_then (parsed_or parse_bool InvalidLogBoolean False (get ''log_selector_values'')) (\<lambda>values.
        if level \<noteq> ''info'' \<and> level \<noteq> ''debug'' then Inl InvalidLogLevel
        else Inr \<lparr>lg_level = level, lg_selector_values = values\<rparr>))"

section \<open>Ingestion\<close>

definition ingestion_defaults :: IngestionConfig where
  "ingestion_defaults =
     \<lparr>ig_transport = ''unix'', ig_limits = DefaultLimits, ig_concurrent = 4, ig_pending = 0,
      ig_file = \<lparr>fc_path = ''/run/metricshell/snapshot.json'', fc_reconcile_interval = second, fc_decoded_bytes = DecodedBytes DefaultLimits\<rparr>,
      ig_unix_socket_path = ''/run/metricshell/ingest.sock'',
      ig_socket =
        \<lparr>cfg_FrameBytes = 8 * 2 ^ 10, cfg_Parts = 256, cfg_Connections = 8, cfg_Transactions = 4, cfg_TransactionTimeout = 5 * second,
         cfg_ReadTimeout = 5 * second, cfg_WriteTimeout = 5 * second, cfg_DecodedBytes = DecodedBytes DefaultLimits,
         cfg_SnapshotBytes = SnapshotBytes DefaultLimits\<rparr>,
      ig_http_listen = ''127.0.0.1:9091'',
      ig_http =
        \<lparr>hi_wire_bytes = 2 * 2 ^ 20, hi_decoded_bytes = DecodedBytes DefaultLimits, hi_read_header_timeout = 2 * second,
         hi_read_timeout = 10 * second, hi_write_timeout = 30 * second, hi_idle_timeout = 30 * second,
         hi_max_header_bytes = 8 * 2 ^ 10\<rparr>\<rparr>"

definition ingestion_count :: "(string \<Rightarrow> string option) \<Rightarrow> string \<Rightarrow> int \<Rightarrow> config_error + int" where
  "ingestion_count get property dflt = parsed_or (parseBytesOrCount property) InvalidIngestion dflt (get property)"

definition ingestion_time :: "(string \<Rightarrow> string option) \<Rightarrow> string \<Rightarrow> int \<Rightarrow> config_error + int" where
  "ingestion_time get property dflt = parsed_or parseDuration InvalidIngestion dflt (get property)"

text \<open>\<^verbatim>\<open>parseIngestionCounts\<close>, one function for each part of the configuration it fills.\<close>

definition parse_socket_options :: "(string \<Rightarrow> string option) \<Rightarrow> IngestionConfig \<Rightarrow> config_error + IngestionConfig" where
  "parse_socket_options get c =
     and_then (ingestion_count get ''socket_frame_bytes'' (cfg_FrameBytes (ig_socket c))) (\<lambda>frame.
     and_then (ingestion_count get ''socket_parts'' (cfg_Parts (ig_socket c))) (\<lambda>parts.
     and_then (ingestion_count get ''socket_connections'' (cfg_Connections (ig_socket c))) (\<lambda>connections.
     and_then (ingestion_count get ''socket_transactions'' (cfg_Transactions (ig_socket c))) (\<lambda>transactions.
     and_then (ingestion_time get ''socket_transaction_timeout'' (cfg_TransactionTimeout (ig_socket c))) (\<lambda>tx_timeout.
     and_then (ingestion_time get ''socket_read_timeout'' (cfg_ReadTimeout (ig_socket c))) (\<lambda>s_read.
     and_then (ingestion_time get ''socket_write_timeout'' (cfg_WriteTimeout (ig_socket c))) (\<lambda>s_write.
       Inr (c\<lparr>ig_socket := (ig_socket c)\<lparr>cfg_FrameBytes := frame, cfg_Parts := parts, cfg_Connections := connections, cfg_Transactions := transactions,
         cfg_TransactionTimeout := tx_timeout, cfg_ReadTimeout := s_read, cfg_WriteTimeout := s_write\<rparr>\<rparr>))))))))"

definition parse_limit_options :: "(string \<Rightarrow> string option) \<Rightarrow> IngestionConfig \<Rightarrow> config_error + IngestionConfig" where
  "parse_limit_options get c =
     and_then (ingestion_count get ''snapshot_bytes'' (SnapshotBytes (ig_limits c))) (\<lambda>snapshot.
     and_then (ingestion_count get ''decoded_input_bytes'' (DecodedBytes (ig_limits c))) (\<lambda>decoded.
     and_then (ingestion_count get ''series'' (SeriesLimit (ig_limits c))) (\<lambda>series.
     and_then (ingestion_count get ''labels_per_series'' (LabelsPerSeries (ig_limits c))) (\<lambda>labels.
     and_then (ingestion_count get ''metric_name_bytes'' (MetricNameBytes (ig_limits c))) (\<lambda>metric_name.
     and_then (ingestion_count get ''label_name_bytes'' (LabelNameBytes (ig_limits c))) (\<lambda>label_name.
     and_then (ingestion_count get ''label_value_bytes'' (LabelValueBytes (ig_limits c))) (\<lambda>label_value.
     and_then (ingestion_count get ''help_bytes'' (HelpBytes (ig_limits c))) (\<lambda>help.
       Inr (c\<lparr>ig_limits := \<lparr>SnapshotBytes = snapshot, DecodedBytes = decoded, SeriesLimit = series, LabelsPerSeries = labels,
         MetricNameBytes = metric_name, LabelNameBytes = label_name, LabelValueBytes = label_value, HelpBytes = help\<rparr>\<rparr>)))))))))"

definition parse_http_options :: "(string \<Rightarrow> string option) \<Rightarrow> IngestionConfig \<Rightarrow> config_error + IngestionConfig" where
  "parse_http_options get c =
     and_then (ingestion_count get ''http_ingestion_wire_bytes'' (hi_wire_bytes (ig_http c))) (\<lambda>wire.
     and_then (ingestion_count get ''http_max_header_bytes'' (hi_max_header_bytes (ig_http c))) (\<lambda>header.
     and_then (ingestion_time get ''http_read_header_timeout'' (hi_read_header_timeout (ig_http c))) (\<lambda>h_header.
     and_then (ingestion_time get ''http_read_timeout'' (hi_read_timeout (ig_http c))) (\<lambda>h_read.
     and_then (ingestion_time get ''http_write_timeout'' (hi_write_timeout (ig_http c))) (\<lambda>h_write.
     and_then (ingestion_time get ''http_idle_timeout'' (hi_idle_timeout (ig_http c))) (\<lambda>h_idle.
       Inr (c\<lparr>ig_http := (ig_http c)\<lparr>hi_wire_bytes := wire, hi_max_header_bytes := header, hi_read_header_timeout := h_header,
         hi_read_timeout := h_read, hi_write_timeout := h_write, hi_idle_timeout := h_idle\<rparr>\<rparr>)))))))"

definition parse_core_options :: "(string \<Rightarrow> string option) \<Rightarrow> IngestionConfig \<Rightarrow> config_error + IngestionConfig" where
  "parse_core_options get c =
     and_then (ingestion_count get ''concurrent_ingestions'' (ig_concurrent c)) (\<lambda>concurrent.
     and_then (ingestion_count get ''pending_ingestions'' (ig_pending c)) (\<lambda>pending.
       Inr (c\<lparr>ig_concurrent := concurrent, ig_pending := pending\<rparr>)))"

definition parseIngestionCounts :: "(string \<Rightarrow> string option) \<Rightarrow> IngestionConfig \<Rightarrow> config_error + IngestionConfig" where
  "parseIngestionCounts get c =
     and_then (parse_socket_options get c) (\<lambda>c.
     and_then (parse_http_options get c) (\<lambda>c.
     and_then (parse_limit_options get c) (parse_core_options get)))"

definition validIngestionTransport :: "string \<Rightarrow> bool" where
  "validIngestionTransport transport \<longleftrightarrow> transport \<in> {''file'', ''unix'', ''http''}"

definition effectiveSocketDecodedCapacity :: "int \<Rightarrow> int \<Rightarrow> int" where
  "effectiveSocketDecodedCapacity frame_bytes parts =
     sum_list (map (\<lambda>index.
       let n = frame_bytes - go_len ''MSP/1 SNAPSHOT_PART '' - 64 - 1 - go_len (itoa index) - 1 - 1
       in if n > 0 then n * 3 div 4 else 0) [0..<nat parts])"

definition rejectInactiveTransportOptions :: "string \<Rightarrow> (string \<Rightarrow> bool) \<Rightarrow> config_error option" where
  "rejectInactiveTransportOptions transport explicit =
     (case map_of inactive_options transport of
        None \<Rightarrow> None
      | Some properties \<Rightarrow>
          (case find explicit properties of None \<Rightarrow> None | Some property \<Rightarrow> Some (InactiveTransportOption property transport)))"

text \<open>The decoded limits of the transports are those of the snapshots.\<close>

definition share_limits :: "IngestionConfig \<Rightarrow> IngestionConfig" where
  "share_limits c =
     c\<lparr>ig_file := (ig_file c)\<lparr>fc_decoded_bytes := DecodedBytes (ig_limits c)\<rparr>,
       ig_socket := (ig_socket c)\<lparr>cfg_DecodedBytes := DecodedBytes (ig_limits c), cfg_SnapshotBytes := SnapshotBytes (ig_limits c)\<rparr>,
       ig_http := (ig_http c)\<lparr>hi_decoded_bytes := DecodedBytes (ig_limits c)\<rparr>\<rparr>"

definition ingestion_in_range :: "IngestionConfig \<Rightarrow> bool" where
  "ingestion_in_range c \<longleftrightarrow>
     validIngestionTransport (ig_transport c) \<and>
     100 * millisecond \<le> fc_reconcile_interval (ig_file c) \<and> fc_reconcile_interval (ig_file c) \<le> second \<and>
     1 \<le> ig_concurrent c \<and> ig_concurrent c \<le> 64 \<and> 0 \<le> ig_pending c \<and> ig_pending c \<le> 64 \<and>
     64 * 2 ^ 10 \<le> SnapshotBytes (ig_limits c) \<and> SnapshotBytes (ig_limits c) \<le> 64 * 2 ^ 20 \<and>
     64 * 2 ^ 10 \<le> DecodedBytes (ig_limits c) \<and> DecodedBytes (ig_limits c) \<le> 128 * 2 ^ 20 \<and>
     SnapshotBytes (ig_limits c) \<le> DecodedBytes (ig_limits c) \<and>
     1 \<le> SeriesLimit (ig_limits c) \<and> SeriesLimit (ig_limits c) \<le> 100000 \<and>
     0 \<le> LabelsPerSeries (ig_limits c) \<and> LabelsPerSeries (ig_limits c) \<le> 64 \<and>
     1 \<le> MetricNameBytes (ig_limits c) \<and> MetricNameBytes (ig_limits c) \<le> 1024 \<and>
     1 \<le> LabelNameBytes (ig_limits c) \<and> LabelNameBytes (ig_limits c) \<le> 1024 \<and>
     1 \<le> LabelValueBytes (ig_limits c) \<and> LabelValueBytes (ig_limits c) \<le> 16 * 2 ^ 10 \<and>
     0 \<le> HelpBytes (ig_limits c) \<and> HelpBytes (ig_limits c) \<le> 64 * 2 ^ 10 \<and>
     2 ^ 10 \<le> cfg_FrameBytes (ig_socket c) \<and> cfg_FrameBytes (ig_socket c) \<le> 64 * 2 ^ 10 \<and>
     1 \<le> cfg_Parts (ig_socket c) \<and> cfg_Parts (ig_socket c) \<le> 1024 \<and>
     1 \<le> cfg_Connections (ig_socket c) \<and> cfg_Connections (ig_socket c) \<le> 64 \<and>
     1 \<le> cfg_Transactions (ig_socket c) \<and> cfg_Transactions (ig_socket c) \<le> 32 \<and>
     100 * millisecond \<le> cfg_TransactionTimeout (ig_socket c) \<and> cfg_TransactionTimeout (ig_socket c) \<le> minute \<and>
     100 * millisecond \<le> cfg_ReadTimeout (ig_socket c) \<and> cfg_ReadTimeout (ig_socket c) \<le> minute \<and>
     100 * millisecond \<le> cfg_WriteTimeout (ig_socket c) \<and> cfg_WriteTimeout (ig_socket c) \<le> minute \<and>
     64 * 2 ^ 10 \<le> hi_wire_bytes (ig_http c) \<and> hi_wire_bytes (ig_http c) \<le> 128 * 2 ^ 20 \<and>
     100 * millisecond \<le> hi_read_header_timeout (ig_http c) \<and> hi_read_header_timeout (ig_http c) \<le> 30 * second \<and>
     100 * millisecond \<le> hi_read_timeout (ig_http c) \<and> hi_read_timeout (ig_http c) \<le> minute \<and>
     100 * millisecond \<le> hi_write_timeout (ig_http c) \<and> hi_write_timeout (ig_http c) \<le> 2 * minute \<and>
     second \<le> hi_idle_timeout (ig_http c) \<and> hi_idle_timeout (ig_http c) \<le> 5 * minute \<and>
     2 ^ 10 \<le> hi_max_header_bytes (ig_http c) \<and> hi_max_header_bytes (ig_http c) \<le> 64 * 2 ^ 10 \<and>
     SnapshotBytes (ig_limits c) \<le> effectiveSocketDecodedCapacity (cfg_FrameBytes (ig_socket c)) (cfg_Parts (ig_socket c))"

definition parseIngestion :: "environment \<Rightarrow> (string \<times> string) list \<Rightarrow> config_error + IngestionConfig" where
  "parseIngestion lookup pairs =
     (let get = (\<lambda>property. if isIngestionProperty property then setting ingestion_environment lookup pairs property else None);
          explicit = (\<lambda>property. get property \<noteq> None);
          c = ingestion_defaults;
          or_else = (\<lambda>property dflt. case get property of None \<Rightarrow> dflt | Some v \<Rightarrow> v) in
      and_then (ingestion_time get ''file_reconcile_interval'' (fc_reconcile_interval (ig_file c))) (\<lambda>interval.
      and_then (parseIngestionCounts get
          (c\<lparr>ig_transport := or_else ''ingestion_transport'' (ig_transport c),
             ig_file := (ig_file c)\<lparr>fc_path := or_else ''snapshot_file_path'' (fc_path (ig_file c)), fc_reconcile_interval := interval\<rparr>,
             ig_unix_socket_path := or_else ''unix_socket_path'' (ig_unix_socket_path c),
             ig_http_listen := or_else ''http_ingestion_listen'' (ig_http_listen c)\<rparr>)) (\<lambda>c.
      and_then (parseMode lookup pairs) (\<lambda>mode.
        if mode = ModeManagedRegistry \<and> list_ex explicit snapshot_transport_properties then Inl SnapshotOptionConflict
        else case rejectInactiveTransportOptions (ig_transport c) explicit of
               Some e \<Rightarrow> Inl e
             | None \<Rightarrow> (let c = share_limits c in if ingestion_in_range c then Inr c else Inl InvalidIngestion)))))"

section \<open>Parse\<close>

definition unsupported_environment :: "environment \<Rightarrow> bool" where
  "unsupported_environment lookup \<longleftrightarrow>
     list_ex (\<lambda>name. lookup name \<noteq> None) retiredManagedEnvironment \<or>
     list_ex (\<lambda>name. lookup name \<noteq> None) unsupportedSharedMemoryEnvironment \<or>
     lookup ''METRICSHELL_INGESTION_TRANSPORT'' \<in> {Some ''mmap'', Some ''shared_memory'', Some ''shm''}"

definition config_Parse ::
  "(string \<Rightarrow> int option option) \<Rightarrow> string list \<Rightarrow> int \<Rightarrow> environment \<Rightarrow> config_error + Config" where
  "config_Parse timestamp args now lookup =
     (let front = takeWhile (\<lambda>a. a \<noteq> ''--'') args; workload = drop (Suc (length front)) args in
      if unsupported_environment lookup then Inl UnknownOption
      else if ''--'' \<notin> set args then Inl (if args = [] then SeparatorRequired else UnknownOption)
      else if workload = [] then Inl CommandRequired
      else
        and_then (scan_options front) (\<lambda>pairs.
        and_then (parseMode lookup pairs) (\<lambda>mode.
        and_then (parseManaged lookup pairs mode) (\<lambda>mc.
        and_then (parseShutdown timestamp now lookup pairs) (\<lambda>sc.
        and_then (parseExposition lookup pairs) (\<lambda>ec.
        and_then (parseFinalWait lookup pairs) (\<lambda>wc.
        and_then (parseLog lookup pairs) (\<lambda>lc.
        and_then (parseIngestion lookup pairs) (\<lambda>ic.
          Inr \<lparr>cg_mode = mode, cg_managed = mc, cg_workload = workload, cg_shutdown = sc, cg_exposition = ec,
               cg_final_wait = wc, cg_log = lc, cg_ingestion = ic\<rparr>)))))))))"

definition RequiredNoFile :: "Config \<Rightarrow> int" where
  "RequiredNoFile c =
     16 + ec_concurrent (cg_exposition c) +
     (if cg_mode c = ModeSnapshot then ig_concurrent (cg_ingestion c) else 0) +
     (if cg_mode c = ModeSnapshot \<and> ig_transport (cg_ingestion c) = ''unix'' then cfg_Connections (ig_socket (cg_ingestion c)) else 0) +
     (if cg_mode c = ModeManagedRegistry then mg_connections (cg_managed c) else 0)"

end
