(* ===== verification/Config_Properties.thy ===== *)
theory Config_Properties
  imports Config_Parse
begin

text \<open>
  Properties of the configuration: the value grammars accept exactly the canonical numerals with a unit, in
  range and without wrap-around; an option of the command line hides its variable of the environment; and
  what an accepted configuration satisfies, section by section.
\<close>

section \<open>Numerals\<close>

lemma itoa_digits_val: "list_all is_digit s \<Longrightarrow> s \<noteq> [] \<Longrightarrow> hd s \<noteq> CHR ''0'' \<Longrightarrow> itoa (digits_val s) = s \<and> 0 < digits_val s"
proof (induction s rule: rev_induct)
  case (snoc c s)
  then have c: "is_digit c" by simp
  show ?case
  proof (cases "s = []")
    case True
    have "digit_val c \<noteq> 0"
    proof
      assume "digit_val c = 0"
      moreover have "digit_char 0 = CHR ''0''" by code_simp
      ultimately have "c = CHR ''0''" using digit_char_digit_val [OF c] by simp
      with snoc.prems True show False by simp
    qed
    then show ?thesis
      using True digit_val_less [OF c] digit_char_digit_val [OF c] by (simp add: digits_val_def itoa.simps)
  next
    case False
    with snoc have s: "itoa (digits_val s) = s" "0 < digits_val s" by (simp_all add: hd_append)
    then have "itoa (digits_val (s @ [c])) = itoa (digits_val s) @ [digit_char (digit_val c)]"
      using digit_val_less [OF c] by (subst itoa.simps) (simp add: digits_val_snoc)
    then show ?thesis using s by (simp add: digits_val_snoc digit_char_digit_val [OF c])
  qed
qed simp

lemma canonical_number_iff:
  "canonical_number bits s = Some n \<longleftrightarrow> s = itoa n \<and> 0 < n \<and> n < 2 ^ bits"
proof
  assume "canonical_number bits s = Some n"
  then show "s = itoa n \<and> 0 < n \<and> n < 2 ^ bits"
    using itoa_digits_val [of s] by (auto simp: canonical_number_def parse_uint_def split: if_splits)
qed (auto simp: canonical_number_def parse_uint_itoa itoa_hd_nonzero)

lemma last_itoa: "is_digit (last (itoa n))"
  using itoa_digits [of n] by (metis itoa_nonempty last_in_set list_all_iff)

text \<open>A suffix without digits of a numeral with a unit is a suffix of the unit.\<close>

lemma has_suffix_numeral:
  assumes "has_suffix (itoa k @ u) v" "\<not> list_ex is_digit v"
  shows "has_suffix u v"
proof -
  from assms(1) obtain r where r: "itoa k @ u = r @ v" by (auto simp: has_suffix_iff)
  then obtain t where "itoa k = r @ t \<and> t @ u = v \<or> itoa k @ t = r \<and> u = t @ v"
    by (auto simp: append_eq_append_conv2)
  then show ?thesis
  proof
    assume t: "itoa k = r @ t \<and> t @ u = v"
    have "t = []"
    proof (rule ccontr)
      assume "t \<noteq> []"
      then have "last t \<in> set v" "is_digit (last t)" using t last_itoa [of k] last_in_set [of t] by auto
      with assms(2) show False by (auto simp: list_ex_iff)
    qed
    with t show ?thesis by (auto simp: has_suffix_iff)
  qed (auto simp: has_suffix_iff)
qed

lemma zdiv_le_iff: "0 < (q::int) \<Longrightarrow> n \<le> m div q \<longleftrightarrow> n * q \<le> m"
proof -
  assume q: "0 < q"
  show "n \<le> m div q \<longleftrightarrow> n * q \<le> m"
  proof
    assume "n \<le> m div q"
    then have "n * q \<le> m div q * q" using q by simp
    also have "\<dots> \<le> m" using div_mult_mod_eq [of m q] pos_mod_sign [OF q, of m] by linarith
    finally show "n * q \<le> m" .
  next
    assume "n * q \<le> m"
    then have "n * q div q \<le> m div q" using q by (rule zdiv_mono1)
    then show "n \<le> m div q" using q by simp
  qed
qed

lemma scaled_iff:
  assumes "0 < unit" "has_suffix s u"
  shows "scaled s u unit = Some n \<longleftrightarrow>
    (\<exists>k. s = itoa k @ u \<and> 0 < k \<and> n = int k * unit \<and> n \<le> int64_max)"
proof -
  from assms(2) obtain d where s: "s = d @ u" by (auto simp: has_suffix_iff)
  have le: "int k > int64_max div unit \<longleftrightarrow> \<not> int k * unit \<le> int64_max" for k
    using zdiv_le_iff [OF assms(1), of "int k" int64_max] by linarith
  have big: "int k * unit \<le> int64_max \<Longrightarrow> k < 2 ^ 64" for k
  proof -
    assume "int k * unit \<le> int64_max"
    moreover have "int k * 1 \<le> int k * unit" using assms(1) by (intro mult_left_mono) auto
    ultimately show "k < 2 ^ 64" by (simp add: int64_max_def)
  qed
  show ?thesis
  proof (cases "canonical_number 64 d")
    case None
    then have "\<not> (d = itoa k \<and> 0 < k \<and> k < 2 ^ 64)" for k
      using canonical_number_iff [of 64 d k] by simp
    with None show ?thesis using big by (auto simp: scaled_def s)
  next
    case (Some k)
    then have "d = itoa k" "0 < k" by (simp_all add: canonical_number_iff)
    with Some le [of k] show ?thesis by (auto simp: scaled_def s)
  qed
qed

text \<open>Units without digits, none of which is a suffix of a later one.\<close>

fun units_apart :: "(string \<times> int) list \<Rightarrow> bool" where
  "units_apart [] = True"
| "units_apart ((u, f) # units) \<longleftrightarrow>
     0 < f \<and> \<not> list_ex is_digit u \<and> list_all (\<lambda>(v, g). \<not> has_suffix v u) units \<and> units_apart units"

lemma first_unit_iff:
  assumes "units_apart units"
  shows "first_unit units s = Some n \<longleftrightarrow>
    (\<exists>(u, f) \<in> set units. \<exists>k. s = itoa k @ u \<and> 0 < k \<and> n = int k * f \<and> n \<le> int64_max)"
  using assms
proof (induction units)
  case (Cons x units)
  obtain u f where x: "x = (u, f)" by (cases x)
  have later: "\<not> has_suffix (itoa k @ v) u" if "(v, g) \<in> set units" for k v g
    using Cons.prems that has_suffix_numeral [of k v u] by (auto simp: x list_all_iff)
  show ?case
  proof (cases "has_suffix s u")
    case True
    have "scaled s u f = Some n \<longleftrightarrow> (\<exists>k. s = itoa k @ u \<and> 0 < k \<and> n = int k * f \<and> n \<le> int64_max)"
      using Cons.prems True by (intro scaled_iff) (simp_all add: x)
    then show ?thesis using True later by (auto simp: x)
  next
    case False
    then have "s \<noteq> itoa k @ u" for k by (auto simp: has_suffix_iff)
    with False show ?thesis using Cons by (auto simp: x)
  qed
qed simp

lemma byte_units_apart: "units_apart byte_units" by code_simp

lemma duration_units_apart: "units_apart duration_units" by code_simp

text \<open>
  The size and the duration of an option are read exactly: a text is accepted with the value \<open>n\<close> when it
  is the decimal numeral of a positive number without leading zeros followed by one of the units, \<open>n\<close> is the
  product, and the product fits a signed 64-bit integer; besides, a single \<open>0\<close> is a duration. No text has
  two readings and no product wraps around.
\<close>

theorem config_values_exact:
  "(parseBytes s = Some n \<longleftrightarrow>
      (\<exists>(u, f) \<in> set byte_units. \<exists>k. s = itoa k @ u \<and> 0 < k \<and> n = int k * f \<and> n \<le> int64_max)) \<and>
   (parseDuration s = Some n \<longleftrightarrow>
      s = ''0'' \<and> n = 0 \<or>
      (\<exists>(u, f) \<in> set duration_units. \<exists>k. s = itoa k @ u \<and> 0 < k \<and> n = int k * f \<and> n \<le> int64_max))"
proof -
  have "first_unit duration_units ''0'' = None" by code_simp
  then have "\<not> (\<exists>(u, f) \<in> set duration_units. \<exists>k. ''0'' = itoa k @ u \<and> 0 < k \<and> m = int k * f \<and> m \<le> int64_max)" for m
    using first_unit_iff [OF duration_units_apart, of "''0''" m] by simp
  then show ?thesis
    unfolding parseBytes_def parseDuration_def first_unit_iff [OF byte_units_apart]
    using first_unit_iff [OF duration_units_apart, of s n] by auto
qed

section \<open>The environment behind the command line\<close>

text \<open>Every variable that is read, with the property it gives.\<close>

definition environment_names :: "(string \<times> string) list" where
  "environment_names =
     managed_environment @ ingestion_environment @ final_wait_environment @ log_environment @
     exposition_environment @ shutdown_environment @
     [(''METRICSHELL_MODE'', ''mode''), (''METRICSHELL_METRICS_INCLUDE'', ''metrics_include''),
      (''METRICSHELL_METRICS_EXCLUDE'', ''metrics_exclude'')]"

definition agree_behind :: "(string \<times> string) list \<Rightarrow> environment \<Rightarrow> environment \<Rightarrow> bool" where
  "agree_behind pairs lookup lookup' \<longleftrightarrow>
     list_all (\<lambda>(name, property). property \<in> fst ` set pairs \<or> lookup name = lookup' name) environment_names"

lemma setting_cong:
  assumes "agree_behind pairs lookup lookup'" "set names \<subseteq> set environment_names"
  shows "setting names lookup pairs = setting names lookup' pairs"
proof
  fix property
  show "setting names lookup pairs property = setting names lookup' pairs property"
  proof (cases "map_of (rev pairs) property")
    case None
    then have p: "property \<notin> fst ` set pairs" by (simp add: map_of_eq_None_iff)
    show ?thesis
    proof (cases "map_of (map prod.swap names) property")
      case (Some name)
      then have "(name, property) \<in> set environment_names" using assms(2) by (auto dest!: map_of_SomeD)
      then have "lookup name = lookup' name" using assms(1) p by (auto simp: agree_behind_def list_all_iff)
      then show ?thesis by (simp add: setting_def None Some)
    qed (simp add: setting_def None)
  qed (simp add: setting_def)
qed

lemma environment_tables:
  "set managed_environment \<subseteq> set environment_names" "set ingestion_environment \<subseteq> set environment_names"
  "set final_wait_environment \<subseteq> set environment_names" "set log_environment \<subseteq> set environment_names"
  "set exposition_environment \<subseteq> set environment_names" "set shutdown_environment \<subseteq> set environment_names"
  by (auto simp: environment_names_def)

lemma parseMode_cong:
  assumes "agree_behind pairs lookup lookup'"
  shows "parseMode lookup pairs = parseMode lookup' pairs"
proof -
  have "''mode'' \<in> fst ` set pairs \<or> lookup ''METRICSHELL_MODE'' = lookup' ''METRICSHELL_MODE''"
    using assms by (simp add: agree_behind_def environment_names_def)
  then have "map_of (rev pairs) ''mode'' = None \<Longrightarrow> lookup ''METRICSHELL_MODE'' = lookup' ''METRICSHELL_MODE''"
    by (simp add: map_of_eq_None_iff)
  then show ?thesis by (cases "map_of (rev pairs) ''mode''") (simp_all add: parseMode_def)
qed

lemma selectors_cong:
  assumes "agree_behind pairs lookup lookup'" "(name, property) \<in> set environment_names"
  shows "selectors lookup pairs property name = selectors lookup' pairs property name"
proof -
  have "property \<in> fst ` set pairs \<or> lookup name = lookup' name"
    using assms by (auto simp: agree_behind_def list_all_iff)
  then show ?thesis
  proof
    assume "property \<in> fst ` set pairs"
    then have "filter (\<lambda>(p, v). p = property) pairs \<noteq> []" by (auto simp: filter_empty_conv)
    then show ?thesis by (simp add: selectors_def fun_eq_iff Let_def)
  qed (simp add: selectors_def fun_eq_iff)
qed

lemma managed_given_cong:
  assumes "agree_behind pairs lookup lookup'"
  shows "managed_options_given lookup pairs = managed_options_given lookup' pairs"
proof (cases "list_ex (\<lambda>(property, v). has_prefix property ''managed_'') pairs")
  case False
  have "list_all (\<lambda>(name, property). has_prefix property ''managed_'') managed_environment" by code_simp
  then have "\<And>name property. (name, property) \<in> set managed_environment \<Longrightarrow> lookup name = lookup' name"
    using assms False environment_tables(1) by (fastforce simp: agree_behind_def list_all_iff list_ex_iff)
  then have "list_ex (\<lambda>(name, property). lookup name \<noteq> None) managed_environment =
      list_ex (\<lambda>(name, property). lookup' name \<noteq> None) managed_environment"
    by (force simp: list_ex_iff)
  then show ?thesis by (simp add: managed_options_given_def)
qed (simp add: managed_options_given_def)

lemma sections_cong:
  assumes "agree_behind pairs lookup lookup'"
  shows "parseManaged lookup pairs = parseManaged lookup' pairs"
    "parseShutdown timestamp now lookup pairs = parseShutdown timestamp now lookup' pairs"
    "parseExposition lookup pairs = parseExposition lookup' pairs"
    "parseFinalWait lookup pairs = parseFinalWait lookup' pairs"
    "parseLog lookup pairs = parseLog lookup' pairs"
    "parseIngestion lookup pairs = parseIngestion lookup' pairs"
proof -
  note table = setting_cong [OF assms]
  have selector: "(''METRICSHELL_METRICS_INCLUDE'', ''metrics_include'') \<in> set environment_names"
    "(''METRICSHELL_METRICS_EXCLUDE'', ''metrics_exclude'') \<in> set environment_names"
    by (simp_all add: environment_names_def)
  show "parseManaged lookup pairs = parseManaged lookup' pairs"
    unfolding parseManaged_def fun_eq_iff managed_given_cong [OF assms] table [OF environment_tables(1)] by (intro allI refl)
  show "parseShutdown timestamp now lookup pairs = parseShutdown timestamp now lookup' pairs"
    unfolding parseShutdown_def table [OF environment_tables(6)] by (rule refl)
  show "parseExposition lookup pairs = parseExposition lookup' pairs"
    unfolding parseExposition_def table [OF environment_tables(5)] selectors_cong [OF assms selector(1)]
      selectors_cong [OF assms selector(2)] by (rule refl)
  show "parseFinalWait lookup pairs = parseFinalWait lookup' pairs"
    unfolding parseFinalWait_def table [OF environment_tables(3)] by (rule refl)
  show "parseLog lookup pairs = parseLog lookup' pairs"
    unfolding parseLog_def table [OF environment_tables(4)] by (rule refl)
  show "parseIngestion lookup pairs = parseIngestion lookup' pairs"
    unfolding parseIngestion_def table [OF environment_tables(2)] parseMode_cong [OF assms] by (rule refl)
qed

text \<open>
  C34: An option of the command line hides its variable of the environment. When two environments agree on
  which forbidden variables they set and, of the variables of the configuration, on every one whose property
  is not an option of the command line, the result is the same with both, errors included.
\<close>

theorem config_command_line_wins:
  assumes "scan_options (takeWhile (\<lambda>a. a \<noteq> ''--'') args) = Inr pairs"
    and "agree_behind pairs lookup lookup'" "unsupported_environment lookup = unsupported_environment lookup'"
  shows "config_Parse timestamp args now lookup = config_Parse timestamp args now lookup'"
  unfolding config_Parse_def Let_def assms(1) and_then.simps sections_cong [OF assms(2)] parseMode_cong [OF assms(2)]
    assms(3) by (rule refl)

theorem config_command_line_wins_witness:
  "config_Parse (\<lambda>_. None) [''--mode=snapshot'', ''--'', ''sh''] 0 (\<lambda>_. None) =
   config_Parse (\<lambda>_. None) [''--mode=snapshot'', ''--'', ''sh''] 0 [''METRICSHELL_MODE'' \<mapsto> ''managed-registry'']"
proof (rule config_command_line_wins)
  show "scan_options (takeWhile (\<lambda>a. a \<noteq> ''--'') [''--mode=snapshot'', ''--'', ''sh'']) = Inr [(''mode'', ''snapshot'')]"
    by code_simp
  show "agree_behind [(''mode'', ''snapshot'')] (\<lambda>_. None) [''METRICSHELL_MODE'' \<mapsto> ''managed-registry'']"
    by code_simp
  show "unsupported_environment (\<lambda>_. None) = unsupported_environment [''METRICSHELL_MODE'' \<mapsto> ''managed-registry'']"
    by code_simp
qed

section \<open>Accepted configurations\<close>

lemma config_sections:
  assumes "config_Parse timestamp args now lookup = Inr c"
  obtains pairs where "parseMode lookup pairs = Inr (cg_mode c)"
    "parseManaged lookup pairs (cg_mode c) = Inr (cg_managed c)"
    "parseShutdown timestamp now lookup pairs = Inr (cg_shutdown c)"
    "parseExposition lookup pairs = Inr (cg_exposition c)" "parseFinalWait lookup pairs = Inr (cg_final_wait c)"
    "parseLog lookup pairs = Inr (cg_log c)" "parseIngestion lookup pairs = Inr (cg_ingestion c)" "cg_workload c \<noteq> []"
  using assms by (auto simp: config_Parse_def Let_def and_then_Inr_iff split: if_splits)

lemma check_managed_same: "check_managed m = Inr m' \<Longrightarrow> m' = m"
  by (auto simp: check_managed_def split: if_splits)

lemma managed_checked:
  assumes "parseManaged lookup pairs mode = Inr m"
  shows "check_managed m = Inr m"
  using assms unfolding parseManaged_def Let_def
  by (auto simp: and_then_Inr_iff dest: check_managed_same split: if_splits)

lemma shutdown_checked: "parseShutdown timestamp now lookup pairs = Inr b \<Longrightarrow> budget_validate b now = None"
  by (auto simp: parseShutdown_def Let_def and_then_Inr_iff split: option.splits)

lemma exposition_checked: "parseExposition lookup pairs = Inr e \<Longrightarrow> exposition_validate e = None"
  unfolding parseExposition_def Let_def
  by (auto simp: and_then_Inr_iff split: if_splits option.splits)

lemma wait_checked: "parseFinalWait lookup pairs = Inr w \<Longrightarrow> wait_validate w"
  by (auto simp: parseFinalWait_def Let_def and_then_Inr_iff split: if_splits)

lemma ingestion_checked:
  assumes "parseIngestion lookup pairs = Inr i"
  shows "ingestion_in_range i \<and> (\<exists>j. i = share_limits j)"
  using assms unfolding parseIngestion_def Let_def
  by (auto simp: and_then_Inr_iff split: if_splits option.splits)

end
