(* ===== verification/Workload.thy ===== *)
theory Workload
  imports Shutdown_Budget
begin

text \<open>
  The supervision of the workload (\<^verbatim>\<open>internal/workload/run.go\<close>): starting it, forwarding signals,
  escalating a termination to SIGKILL, reaping every child and resolving the exit code.

  The operating system is an argument. A signal arrives with the time it is handled and with what
  \<^verbatim>\<open>kill\<close> would answer to forwarding it and to a SIGKILL of the group; a reaped child arrives with its
  wait status. The loop takes the events in the order its \<^verbatim>\<open>select\<close> receives them. The observers are
  operations on a state of their own that may report an error; a missing observer is one that does nothing.
  The signals sent to the group are kept in a log, which the source does not have.
\<close>

section \<open>Signals\<close>

datatype os_signal = SIGTERM | SIGINT | SIGHUP | SIGQUIT | OtherSignal int | ForeignSignal

fun signalName :: "os_signal \<Rightarrow> string \<times> bool" where
  "signalName SIGTERM = (''TERM'', True)"
| "signalName SIGINT = (''INT'', True)"
| "signalName SIGHUP = (''HUP'', True)"
| "signalName SIGQUIT = (''QUIT'', True)"
| "signalName _ = (''UNSUPPORTED'', False)"

fun signal_number :: "os_signal \<Rightarrow> int" where
  "signal_number SIGTERM = 15"
| "signal_number SIGINT = 2"
| "signal_number SIGHUP = 1"
| "signal_number SIGQUIT = 3"
| "signal_number (OtherSignal n) = n"
| "signal_number ForeignSignal = 0"

definition is_termination :: "os_signal \<Rightarrow> bool" where
  "is_termination s \<longleftrightarrow> s = SIGTERM \<or> s = SIGINT"

datatype kill_result = Kill_Ok | Kill_NoSuchProcess | Kill_Error

datatype SignalOutcome = SignalForwarded | SignalIgnored | SignalFailed

record SignalEvent =
  se_name :: string
  se_group :: int
  se_outcome :: SignalOutcome
  se_reason :: string

definition ignoredSignal :: "string \<Rightarrow> int \<Rightarrow> string \<Rightarrow> SignalEvent" where
  "ignoredSignal name pgid reason = \<lparr>se_name = name, se_group = pgid, se_outcome = SignalIgnored, se_reason = reason\<rparr>"

definition forwardSignal :: "int \<Rightarrow> os_signal \<Rightarrow> kill_result \<Rightarrow> SignalEvent" where
  "forwardSignal pgid s kill =
     (case signalName s of
        (name, False) \<Rightarrow> ignoredSignal name pgid ''unsupported_signal''
      | (name, True) \<Rightarrow>
          (case kill of
             Kill_Ok \<Rightarrow> \<lparr>se_name = name, se_group = pgid, se_outcome = SignalForwarded, se_reason = []\<rparr>
           | Kill_NoSuchProcess \<Rightarrow> ignoredSignal name pgid ''target_exited''
           | Kill_Error \<Rightarrow> \<lparr>se_name = name, se_group = pgid, se_outcome = SignalFailed, se_reason = ''signal_forward''\<rparr>))"

section \<open>Results\<close>

definition ExitInternalFailure :: int where "ExitInternalFailure = 70"
definition ExitWorkloadStartFailed :: int where "ExitWorkloadStartFailed = 73"

record workload_result =
  wl_exit_code :: int
  wl_started :: bool
  wl_start_failed :: bool
  wl_forced :: bool

datatype wait_status = Status_Exited int | Status_Signaled int

definition resolveWaitStatus :: "wait_status \<Rightarrow> workload_result" where
  "resolveWaitStatus status =
     (case status of
        Status_Signaled n \<Rightarrow> \<lparr>wl_exit_code = 128 + n, wl_started = True, wl_start_failed = False, wl_forced = False\<rparr>
      | Status_Exited n \<Rightarrow> \<lparr>wl_exit_code = n, wl_started = True, wl_start_failed = False, wl_forced = False\<rparr>)"

definition internal_result :: workload_result where
  "internal_result = \<lparr>wl_exit_code = ExitInternalFailure, wl_started = True, wl_start_failed = False, wl_forced = False\<rparr>"

section \<open>State\<close>

type_synonym 'w notification = "'w \<Rightarrow> 'w \<times> bool"

record 'w Observers =
  ob_started :: "int \<Rightarrow> int \<Rightarrow> 'w notification"
  ob_signal :: "SignalEvent \<Rightarrow> 'w notification"
  ob_shutdown :: "string \<Rightarrow> Plan \<Rightarrow> 'w notification"
  ob_forced :: "string \<Rightarrow> int \<Rightarrow> 'w notification"
  ob_primary_exited :: "int \<Rightarrow> bool \<Rightarrow> 'w notification"
  ob_child_reaped :: "string \<Rightarrow> 'w notification"
  ob_failed :: "'w notification"

datatype sent_signal = Forwarded os_signal kill_result | Killed kill_result | Cleanup_Kill | Primary_Kill

text \<open>The locals of \<^verbatim>\<open>run\<close> and its \<^verbatim>\<open>escalation\<close>; the timer is the budget it was armed with.\<close>

record 'w supervision =
  su_pid :: int
  su_group :: int
  su_plan :: "Plan option"
  su_timer :: "int option"
  su_forced :: bool
  su_force_attempted :: bool
  su_signal :: string
  su_primary :: "workload_result option"
  su_sent :: "sent_signal list"
  su_world :: 'w

text \<open>A notification on the supervision, and the early return on its error.\<close>

definition observing :: "'w notification \<Rightarrow> 'w supervision \<Rightarrow> 'w supervision \<times> bool" where
  "observing f s = (case f (su_world s) of (w, ok) \<Rightarrow> (s\<lparr>su_world := w\<rparr>, ok))"

definition if_ok :: "'s \<times> bool \<Rightarrow> ('s \<Rightarrow> 's \<times> bool) \<Rightarrow> 's \<times> bool" where
  "if_ok r f = (case r of (s, ok) \<Rightarrow> if ok then f s else (s, False))"

section \<open>Escalation\<close>

definition newEscalation :: "int \<Rightarrow> 'w \<Rightarrow> 'w supervision" where
  "newEscalation pid w =
     \<lparr>su_pid = pid, su_group = pid, su_plan = None, su_timer = None, su_forced = False, su_force_attempted = False,
      su_signal = [], su_primary = None, su_sent = [], su_world = w\<rparr>"

definition escalation_force :: "'w Observers \<Rightarrow> kill_result \<Rightarrow> 'w supervision \<Rightarrow> 'w supervision \<times> bool" where
  "escalation_force ob kill s =
     (if su_force_attempted s then (s, True)
      else
        let s = s\<lparr>su_force_attempted := True, su_timer := None, su_sent := su_sent s @ [Killed kill]\<rparr> in
        case kill of
          Kill_NoSuchProcess \<Rightarrow> (s, True)
        | Kill_Error \<Rightarrow> (s, False)
        | Kill_Ok \<Rightarrow> observing (ob_forced ob (su_signal s) (su_group s)) (s\<lparr>su_forced := True\<rparr>))"

text \<open>\<^verbatim>\<open>handle\<close>: the first termination resolves the plan; the signal is forwarded; a termination arms the
  timer, or forces at once when it is repeated or has no budget. There always is a plan then.\<close>

definition begin_shutdown ::
  "'w Observers \<Rightarrow> budget_config \<Rightarrow> int \<Rightarrow> os_signal \<Rightarrow> 'w supervision \<Rightarrow> 'w supervision \<times> bool" where
  "begin_shutdown ob cfg now s st =
     (if is_termination s \<and> su_plan st = None then
        let plan = Resolve cfg now in
        observing (ob_shutdown ob (fst (signalName s)) plan) (st\<lparr>su_plan := Some plan, su_signal := fst (signalName s)\<rparr>)
      else (st, True))"

definition forward ::
  "'w Observers \<Rightarrow> os_signal \<Rightarrow> kill_result \<Rightarrow> 'w supervision \<Rightarrow> 'w supervision \<times> bool" where
  "forward ob s kill st =
     (let event = forwardSignal (su_group st) s kill;
          st = (if snd (signalName s) then st\<lparr>su_sent := su_sent st @ [Forwarded s kill]\<rparr> else st) in
      if_ok (observing (ob_signal ob event) st) (\<lambda>st. (st, se_outcome event \<noteq> SignalFailed)))"

definition escalation_handle ::
  "'w Observers \<Rightarrow> budget_config \<Rightarrow> int \<Rightarrow> kill_result \<Rightarrow> kill_result \<Rightarrow> os_signal \<Rightarrow> 'w supervision \<Rightarrow> 'w supervision \<times> bool" where
  "escalation_handle ob cfg now kill_forward kill_force s st =
     (let repeated = (is_termination s \<and> su_plan st \<noteq> None) in
      if_ok (begin_shutdown ob cfg now s st) (\<lambda>st.
      if_ok (forward ob s kill_forward st) (\<lambda>st.
        if \<not> is_termination s \<or> su_force_attempted st then (st, True)
        else case su_plan st of
               None \<Rightarrow> (st, True)
             | Some plan \<Rightarrow>
                 if repeated \<or> bp_workload_budget plan = 0 then escalation_force ob kill_force st
                 else (st\<lparr>su_timer := Some (bp_workload_budget plan)\<rparr>, True))))"

section \<open>The loop\<close>

text \<open>The signals with the time and the two answers of \<^verbatim>\<open>kill\<close>.\<close>

type_synonym received_signal = "os_signal \<times> int \<times> kill_result \<times> kill_result"

datatype loop_event =
    Signal_Received received_signal | Timer_Fired kill_result | Child_Reaped int wait_status | Reap_Failed
  | Reap_Done "os_signal list"

datatype loop_result = Loop_On | Loop_Cleanup | Loop_Return workload_result

definition notify_failure :: "'w Observers \<Rightarrow> 'w supervision \<Rightarrow> 'w supervision" where
  "notify_failure ob s = fst (observing (ob_failed ob) s)"

definition processReapEvent :: "'w Observers \<Rightarrow> int \<Rightarrow> wait_status \<Rightarrow> 'w supervision \<Rightarrow> 'w supervision \<times> bool" where
  "processReapEvent ob pid status s =
     (if pid = su_pid s \<and> su_primary s = None then
        let resolved = (resolveWaitStatus status)\<lparr>wl_forced := su_forced s\<rparr> in
        if_ok (observing (ob_primary_exited ob (wl_exit_code resolved) (wl_forced resolved)) (s\<lparr>su_primary := Some resolved\<rparr>))
          (observing (ob_child_reaped ob ''direct''))
      else observing (ob_child_reaped ob ''adopted'') s)"

fun notifyQueuedSignals :: "'w Observers \<Rightarrow> os_signal list \<Rightarrow> 'w supervision \<Rightarrow> 'w supervision \<times> bool" where
  "notifyQueuedSignals ob [] s = (s, True)"
| "notifyQueuedSignals ob (q # queued) s =
     if_ok (observing (ob_signal ob (ignoredSignal (fst (signalName q)) (su_group s) ''target_exited'')) s)
       (notifyQueuedSignals ob queued)"

definition unless_error :: "'w supervision \<times> bool \<Rightarrow> 'w supervision \<times> loop_result" where
  "unless_error r = (fst r, if snd r then Loop_On else Loop_Cleanup)"

fun loop_step :: "'w Observers \<Rightarrow> budget_config \<Rightarrow> loop_event \<Rightarrow> 'w supervision \<Rightarrow> 'w supervision \<times> loop_result" where
  "loop_step ob cfg (Signal_Received (q, now, kill_forward, kill_force)) s =
     unless_error (escalation_handle ob cfg now kill_forward kill_force q s)"
| "loop_step ob cfg (Timer_Fired kill) s =
     (if su_timer s = None then (s, Loop_On)
      else case escalation_force ob kill s of
             (s, True) \<Rightarrow> (s, Loop_On)
           | (s, False) \<Rightarrow> (notify_failure ob s, Loop_Cleanup))"
| "loop_step ob cfg (Child_Reaped pid status) s = unless_error (processReapEvent ob pid status s)"
| "loop_step ob cfg Reap_Failed s = (notify_failure ob s, Loop_Cleanup)"
| "loop_step ob cfg (Reap_Done queued) s =
     (case notifyQueuedSignals ob queued s of
        (s, False) \<Rightarrow> (s, Loop_Return internal_result)
      | (s, True) \<Rightarrow>
          (case su_primary s of
             None \<Rightarrow> (notify_failure ob s, Loop_Return internal_result)
           | Some r \<Rightarrow> (s, Loop_Return r)))"

text \<open>
  \<^verbatim>\<open>cleanupAndReap\<close>: the group is killed, the primary too when it is not reaped before the fallback
  timer fires, and the loop ends with the last child. The result is whether the primary was killed.
\<close>

datatype cleanup_event = Clean_Reaped int | Clean_Failed | Clean_Done | Clean_Fallback

fun cleanup_loop :: "int \<Rightarrow> bool \<Rightarrow> bool \<Rightarrow> bool \<Rightarrow> cleanup_event list \<Rightarrow> bool option" where
  "cleanup_loop pid reaped pending killed [] = None"
| "cleanup_loop pid reaped pending killed (Clean_Done # es) = Some killed"
| "cleanup_loop pid reaped pending killed (Clean_Failed # es) = cleanup_loop pid reaped pending killed es"
| "cleanup_loop pid reaped pending killed (Clean_Reaped p # es) = cleanup_loop pid (reaped \<or> p = pid) pending killed es"
| "cleanup_loop pid reaped pending killed (Clean_Fallback # es) =
     cleanup_loop pid reaped False (killed \<or> pending \<and> \<not> reaped) es"

definition cleanupAndReap :: "cleanup_event list \<Rightarrow> 'w supervision \<Rightarrow> 'w supervision \<times> workload_result option" where
  "cleanupAndReap clean s =
     (let killed = cleanup_loop (su_pid s) False True False clean in
      (s\<lparr>su_sent := su_sent s @ Cleanup_Kill # (if killed = Some True then [Primary_Kill] else [])\<rparr>,
       map_option (\<lambda>_. internal_result) killed))"

fun supervise ::
  "'w Observers \<Rightarrow> budget_config \<Rightarrow> cleanup_event list \<Rightarrow> loop_event list \<Rightarrow> 'w supervision \<Rightarrow> 'w supervision \<times> workload_result option" where
  "supervise ob cfg clean [] s = (s, None)"
| "supervise ob cfg clean (e # es) s =
     (case loop_step ob cfg e s of
        (s, Loop_On) \<Rightarrow> supervise ob cfg clean es s
      | (s, Loop_Return r) \<Rightarrow> (s, Some r)
      | (s, Loop_Cleanup) \<Rightarrow> cleanupAndReap clean s)"

section \<open>Run\<close>

fun drainPreStartSignals :: "received_signal list \<Rightarrow> received_signal list + os_signal" where
  "drainPreStartSignals [] = Inl []"
| "drainPreStartSignals (q # qs) =
     (if is_termination (fst q) then Inr (fst q)
      else case drainPreStartSignals qs of Inl pending \<Rightarrow> Inl (q # pending) | Inr t \<Rightarrow> Inr t)"

fun handle_pending ::
  "'w Observers \<Rightarrow> budget_config \<Rightarrow> received_signal list \<Rightarrow> 'w supervision \<Rightarrow> 'w supervision \<times> bool" where
  "handle_pending ob cfg [] s = (s, True)"
| "handle_pending ob cfg ((q, now, kill_forward, kill_force) # qs) s =
     if_ok (escalation_handle ob cfg now kill_forward kill_force q s) (handle_pending ob cfg qs)"

text \<open>
  \<^verbatim>\<open>run\<close>, given whether the subreaper could be enabled, the signals waiting before the start, the process
  the start gives, the events of the loop and those of a cleanup. The result is \<open>None\<close> while the loop runs.
\<close>

definition workload_run ::
  "'w Observers \<Rightarrow> budget_config \<Rightarrow> bool \<Rightarrow> received_signal list \<Rightarrow> int option \<Rightarrow> loop_event list \<Rightarrow> cleanup_event list \<Rightarrow> 'w \<Rightarrow>
     'w \<times> workload_result option" where
  "workload_run ob cfg subreaper waiting start events clean w =
     (if \<not> subreaper then
        (fst (ob_failed ob w), Some \<lparr>wl_exit_code = ExitInternalFailure, wl_started = False, wl_start_failed = False, wl_forced = False\<rparr>)
      else
        case drainPreStartSignals waiting of
          Inr t \<Rightarrow> (w, Some \<lparr>wl_exit_code = 128 + signal_number t, wl_started = False, wl_start_failed = False, wl_forced = False\<rparr>)
        | Inl pending \<Rightarrow>
            (case start of
               None \<Rightarrow> (w, Some \<lparr>wl_exit_code = ExitWorkloadStartFailed, wl_started = False, wl_start_failed = True, wl_forced = False\<rparr>)
             | Some pid \<Rightarrow>
                 (let (s, res) =
                    (case if_ok (observing (ob_started ob pid pid) (newEscalation pid w)) (handle_pending ob cfg pending) of
                       (s, True) \<Rightarrow> supervise ob cfg clean events s
                     | (s, False) \<Rightarrow> cleanupAndReap clean s)
                  in (su_world s, res))))"

end
