(* ===== verification/Workload_Facts.thy ===== *)
theory Workload_Facts
  imports Workload
begin

text \<open>
  What the supervision guarantees: the bookkeeping of signals and of the escalation in every reachable state,
  the exit code, and the order in which an observer is told (the locale \<open>supervised\<close>).
\<close>

section \<open>Runs of the loop\<close>

fun loop_run :: "'w Observers \<Rightarrow> budget_config \<Rightarrow> loop_event list \<Rightarrow> 'w supervision \<Rightarrow> 'w supervision option" where
  "loop_run ob cfg [] s = Some s"
| "loop_run ob cfg (e # es) s =
     (case loop_step ob cfg e s of (s, Loop_On) \<Rightarrow> loop_run ob cfg es s | _ \<Rightarrow> None)"

lemma loop_run_append:
  "loop_run ob cfg (es @ fs) s = (case loop_run ob cfg es s of None \<Rightarrow> None | Some s \<Rightarrow> loop_run ob cfg fs s)"
  by (induction es arbitrary: s) (auto split: prod.splits loop_result.splits)

lemma supervise_append:
  "loop_run ob cfg es s = Some s' \<Longrightarrow> supervise ob cfg clean (es @ fs) s = supervise ob cfg clean fs s'"
  by (induction es arbitrary: s) (auto split: prod.splits loop_result.splits)

section \<open>Frames\<close>

lemma observing_frame:
  "fst (observing f s) = s\<lparr>su_world := fst (f (su_world s))\<rparr>" "snd (observing f s) = snd (f (su_world s))"
  by (simp_all add: observing_def split: prod.split)

lemma if_ok_cases:
  assumes "if_ok r f = (s, ok)"
  obtains (ok) "snd r" "f (fst r) = (s, ok)" | (error) "\<not> snd r" "s = fst r" "\<not> ok"
  using assms by (auto simp: if_ok_def split: prod.splits if_splits)

lemma if_ok_True: "if_ok r f = (s, True) \<longleftrightarrow> (\<exists>a. r = (a, True) \<and> f a = (s, True))"
  by (auto simp: if_ok_def split: prod.splits)

lemma observing_True:
  "observing f s = (s', True) \<longleftrightarrow> (\<exists>w. f (su_world s) = (w, True) \<and> s' = s\<lparr>su_world := w\<rparr>)"
  by (auto simp: observing_def split: prod.splits)

section \<open>Escalation\<close>

definition kills :: "'w supervision \<Rightarrow> kill_result list" where
  "kills s = List.map_filter (\<lambda>x. case x of Killed k \<Rightarrow> Some k | _ \<Rightarrow> None) (su_sent s)"

definition forwarded :: "'w supervision \<Rightarrow> os_signal list" where
  "forwarded s = List.map_filter (\<lambda>x. case x of Forwarded q k \<Rightarrow> Some q | _ \<Rightarrow> None) (su_sent s)"

definition supported :: "os_signal list \<Rightarrow> os_signal list" where
  "supported qs = filter (\<lambda>q. snd (signalName q)) qs"

fun signals_of :: "loop_event list \<Rightarrow> os_signal list" where
  "signals_of [] = []"
| "signals_of (Signal_Received (q, _) # es) = q # signals_of es"
| "signals_of (_ # es) = signals_of es"

lemma signals_of_append: "signals_of (es @ fs) = signals_of es @ signals_of fs"
  by (induction es rule: signals_of.induct) auto

text \<open>
  At most one SIGKILL, none without a plan; with a plan, the SIGKILL or a timer armed with the budget of
  the plan, which is not zero.
\<close>

definition escalation_inv :: "'w supervision \<Rightarrow> bool" where
  "escalation_inv s \<longleftrightarrow>
     (su_force_attempted s \<longleftrightarrow> kills s \<noteq> []) \<and> length (kills s) \<le> 1 \<and> (su_forced s \<longleftrightarrow> kills s = [Kill_Ok]) \<and>
     (case su_plan s of
        None \<Rightarrow> kills s = [] \<and> su_timer s = None
      | Some plan \<Rightarrow>
          if kills s = [] then su_timer s = Some (bp_workload_budget plan) \<and> bp_workload_budget plan \<noteq> 0
          else su_timer s = None)"

lemma kills_update [simp]:
  "kills (s\<lparr>su_world := w\<rparr>) = kills s" "kills (s\<lparr>su_plan := p\<rparr>) = kills s" "kills (s\<lparr>su_signal := n\<rparr>) = kills s"
  "kills (s\<lparr>su_timer := t\<rparr>) = kills s" "kills (s\<lparr>su_forced := b\<rparr>) = kills s" "kills (s\<lparr>su_primary := r\<rparr>) = kills s"
  "kills (s\<lparr>su_force_attempted := b\<rparr>) = kills s"
  "kills (s\<lparr>su_sent := su_sent s @ [Forwarded q k]\<rparr>) = kills s" "kills (s\<lparr>su_sent := su_sent s @ [Killed k]\<rparr>) = kills s @ [k]"
  by (simp_all add: kills_def map_filter_simps List.map_filter_def)

lemma forwarded_update [simp]:
  "forwarded (s\<lparr>su_world := w\<rparr>) = forwarded s" "forwarded (s\<lparr>su_plan := p\<rparr>) = forwarded s"
  "forwarded (s\<lparr>su_signal := n\<rparr>) = forwarded s" "forwarded (s\<lparr>su_timer := t\<rparr>) = forwarded s"
  "forwarded (s\<lparr>su_forced := b\<rparr>) = forwarded s" "forwarded (s\<lparr>su_primary := r\<rparr>) = forwarded s"
  "forwarded (s\<lparr>su_force_attempted := b\<rparr>) = forwarded s"
  "forwarded (s\<lparr>su_sent := su_sent s @ [Forwarded q k]\<rparr>) = forwarded s @ [q]"
  "forwarded (s\<lparr>su_sent := su_sent s @ [Killed k]\<rparr>) = forwarded s"
  by (simp_all add: forwarded_def List.map_filter_def)

lemma escalation_inv_frame [simp]:
  "escalation_inv (s\<lparr>su_world := w\<rparr>) = escalation_inv s" "escalation_inv (s\<lparr>su_primary := r\<rparr>) = escalation_inv s"
  unfolding escalation_inv_def kills_update by (simp_all cong: option.case_cong)

text \<open>What the parts of \<^verbatim>\<open>handle\<close> change when they report no error.\<close>

lemma force_True:
  assumes "escalation_force ob kill s = (s', True)" "\<not> su_force_attempted s"
  obtains w where "s' = s\<lparr>su_force_attempted := True, su_timer := None, su_sent := su_sent s @ [Killed kill],
      su_forced := (kill = Kill_Ok \<or> su_forced s), su_world := w\<rparr>" "kill \<noteq> Kill_Error"
proof (cases kill)
  case Kill_NoSuchProcess
  with assms show thesis by (intro that [of "su_world s"]) (auto simp: escalation_force_def Let_def)
qed (use assms that in \<open>auto simp: escalation_force_def Let_def observing_True\<close>)

lemma begin_shutdown_True:
  assumes "begin_shutdown ob cfg now q s = (s', True)"
  obtains w where "s' = (if is_termination q \<and> su_plan s = None
      then s\<lparr>su_plan := Some (Resolve cfg now), su_signal := fst (signalName q), su_world := w\<rparr> else s)"
  using assms by (auto simp: begin_shutdown_def Let_def observing_True split: if_splits)

lemma forward_True:
  assumes "forward ob q kill s = (s', True)"
  obtains w where "s' = (if snd (signalName q) then s\<lparr>su_sent := su_sent s @ [Forwarded q kill]\<rparr> else s)\<lparr>su_world := w\<rparr>"
  using assms by (auto simp: forward_def Let_def if_ok_True observing_True)

lemma handle_keeps:
  assumes "escalation_handle ob cfg now kf kk q s = (s', True)" "escalation_inv s"
  shows "escalation_inv s' \<and> forwarded s' = forwarded s @ supported [q] \<and>
    (su_plan s' \<noteq> None \<longleftrightarrow> su_plan s \<noteq> None \<or> is_termination q) \<and> su_primary s' = su_primary s \<and> su_pid s' = su_pid s \<and>
    (su_plan s \<noteq> None \<and> is_termination q \<longrightarrow> su_force_attempted s')"
proof -
  from assms(1) obtain a b where a: "begin_shutdown ob cfg now q s = (a, True)" and b: "forward ob q kf a = (b, True)"
    and c: "(if \<not> is_termination q \<or> su_force_attempted b then (b, True)
        else case su_plan b of
               None \<Rightarrow> (b, True)
             | Some plan \<Rightarrow>
                 if (is_termination q \<and> su_plan s \<noteq> None) \<or> bp_workload_budget plan = 0 then escalation_force ob kk b
                 else (b\<lparr>su_timer := Some (bp_workload_budget plan)\<rparr>, True)) = (s', True)"
    unfolding escalation_handle_def Let_def if_ok_True by blast
  obtain w where a': "a = (if is_termination q \<and> su_plan s = None
      then s\<lparr>su_plan := Some (Resolve cfg now), su_signal := fst (signalName q), su_world := w\<rparr> else s)"
    by (rule begin_shutdown_True [OF a])
  obtain w' where b': "b = (if snd (signalName q) then a\<lparr>su_sent := su_sent a @ [Forwarded q kf]\<rparr> else a)\<lparr>su_world := w'\<rparr>"
    by (rule forward_True [OF b])
  have sup: "is_termination q \<Longrightarrow> snd (signalName q)" by (auto simp: is_termination_def)
  have kb: "kills b = kills s" "su_force_attempted b = su_force_attempted s" "su_forced b = su_forced s" "su_primary b = su_primary s"
    "su_pid b = su_pid s" "su_timer b = su_timer s" "forwarded b = forwarded s @ supported [q]"
    "su_plan b = (if is_termination q \<and> su_plan s = None then Some (Resolve cfg now) else su_plan s)"
    unfolding b' a' by (simp_all add: supported_def)
  show ?thesis
  proof (cases "\<not> is_termination q \<or> su_force_attempted b")
    case True
    with c have "s' = b" by simp
    with True kb assms(2) show ?thesis by (auto simp: escalation_inv_def split: option.splits if_splits)
  next
    case False
    then obtain plan where plan: "su_plan b = Some plan" using kb(8) by (cases "su_plan s") auto
    have none: "kills s = []" using False kb assms(2) by (simp add: escalation_inv_def)
    show ?thesis
    proof (cases "su_plan s \<noteq> None \<or> bp_workload_budget plan = 0")
      case True
      with c False plan have "escalation_force ob kk b = (s', True)" by auto
      then obtain w where s': "s' = b\<lparr>su_force_attempted := True, su_timer := None, su_sent := su_sent b @ [Killed kk],
          su_forced := (kk = Kill_Ok \<or> su_forced b), su_world := w\<rparr>" using False by (auto elim: force_True)
      have "kills s' = [kk]" unfolding s' using none kb by (simp add: kills_def List.map_filter_def)
      moreover have "forwarded s' = forwarded b" unfolding s' by (simp add: forwarded_def List.map_filter_def)
      moreover have "\<not> su_forced b" using none kb assms(2) by (simp add: escalation_inv_def)
      ultimately show ?thesis using s' plan kb False by (auto simp: escalation_inv_def)
    next
      case t: False
      with c False plan have "s' = b\<lparr>su_timer := Some (bp_workload_budget plan)\<rparr>" by auto
      with t plan kb none False assms(2) show ?thesis by (auto simp: escalation_inv_def)
    qed
  qed
qed

section \<open>The loop\<close>

lemma processReap_True:
  assumes "processReapEvent ob pid status s = (s', True)"
  obtains w where "s' = (if pid = su_pid s \<and> su_primary s = None
      then s\<lparr>su_primary := Some ((resolveWaitStatus status)\<lparr>wl_forced := su_forced s\<rparr>), su_world := w\<rparr> else s\<lparr>su_world := w\<rparr>)"
  using assms by (auto simp: processReapEvent_def Let_def if_ok_True observing_True split: if_splits)

definition primary_after :: "int \<Rightarrow> wait_status \<Rightarrow> 'w supervision \<Rightarrow> workload_result option" where
  "primary_after pid status s =
     (if pid = su_pid s \<and> su_primary s = None then Some ((resolveWaitStatus status)\<lparr>wl_forced := su_forced s\<rparr>) else su_primary s)"

lemma step_keeps:
  assumes "loop_step ob cfg e s = (s', Loop_On)" "escalation_inv s"
  shows "escalation_inv s' \<and> forwarded s' = forwarded s @ supported (signals_of [e]) \<and>
    (su_plan s' \<noteq> None \<longleftrightarrow> su_plan s \<noteq> None \<or> list_ex is_termination (signals_of [e])) \<and> su_pid s' = su_pid s \<and>
    su_primary s' = (case e of Child_Reaped pid status \<Rightarrow> primary_after pid status s | _ \<Rightarrow> su_primary s) \<and>
    (su_plan s \<noteq> None \<and> (list_ex is_termination (signals_of [e]) \<or> (\<exists>k. e = Timer_Fired k)) \<longrightarrow> su_force_attempted s')"
proof (cases e)
  case (Signal_Received x)
  then obtain q now kf kk where x: "e = Signal_Received (q, now, kf, kk)" by (cases x) auto
  with assms(1) have "escalation_handle ob cfg now kf kk q s = (s', True)"
    by (auto simp: unless_error_def prod_eq_iff split: if_splits)
  from handle_keeps [OF this assms(2)] show ?thesis by (auto simp: x)
next
  case (Timer_Fired k)
  show ?thesis
  proof (cases "su_timer s")
    case None
    with assms Timer_Fired show ?thesis by (auto simp: escalation_inv_def supported_def split: option.splits if_splits)
  next
    case (Some b)
    then have none: "kills s = []" "su_plan s \<noteq> None" "\<not> su_force_attempted s" "\<not> su_forced s"
      using assms(2) by (auto simp: escalation_inv_def split: option.splits if_splits)
    from assms(1) Timer_Fired Some have "escalation_force ob k s = (s', True)" by (auto split: prod.splits bool.splits)
    then obtain w where s': "s' = s\<lparr>su_force_attempted := True, su_timer := None, su_sent := su_sent s @ [Killed k],
        su_forced := (k = Kill_Ok \<or> su_forced s), su_world := w\<rparr>" using none(3) by (auto elim: force_True)
    have "kills s' = [k]" "forwarded s' = forwarded s"
      unfolding s' using none by (simp_all add: kills_def forwarded_def List.map_filter_def)
    with s' none Timer_Fired show ?thesis by (auto simp: escalation_inv_def supported_def)
  qed
next
  case (Child_Reaped pid status)
  with assms(1) have "processReapEvent ob pid status s = (s', True)"
    by (auto simp: unless_error_def prod_eq_iff split: if_splits)
  then obtain w where "s' = (if pid = su_pid s \<and> su_primary s = None
      then s\<lparr>su_primary := Some ((resolveWaitStatus status)\<lparr>wl_forced := su_forced s\<rparr>), su_world := w\<rparr> else s\<lparr>su_world := w\<rparr>)"
    by (rule processReap_True)
  with assms(2) Child_Reaped show ?thesis by (auto simp: supported_def primary_after_def)
qed (use assms in \<open>auto split: prod.splits bool.splits option.splits\<close>)

lemma supported_append: "supported (qs @ rs) = supported qs @ supported rs"
  by (simp add: supported_def)

text \<open>The state after a run of the loop.\<close>

lemma run_keeps:
  assumes "loop_run ob cfg es s = Some s'" "escalation_inv s"
  shows "escalation_inv s' \<and> forwarded s' = forwarded s @ supported (signals_of es) \<and>
    (su_plan s' \<noteq> None \<longleftrightarrow> su_plan s \<noteq> None \<or> list_ex is_termination (signals_of es)) \<and> su_pid s' = su_pid s"
  using assms
proof (induction es arbitrary: s)
  case (Cons e es)
  from Cons.prems(1) obtain t where t: "loop_step ob cfg e s = (t, Loop_On)" "loop_run ob cfg es t = Some s'"
    by (auto split: prod.splits loop_result.splits)
  note one = step_keeps [OF t(1) Cons.prems(2)]
  note rest = Cons.IH [OF t(2)]
  have "signals_of (e # es) = signals_of [e] @ signals_of es" using signals_of_append [of "[e]" es] by simp
  with one rest show ?case by (simp add: supported_append)
qed (simp add: supported_def)

lemma newEscalation_inv: "escalation_inv (newEscalation pid w)" "forwarded (newEscalation pid w) = []" "kills (newEscalation pid w) = []"
  by (simp_all add: escalation_inv_def newEscalation_def kills_def forwarded_def List.map_filter_def)

text \<open>
  C36: However signals, the timer and exiting children interleave, and whatever the observers do, while the
  supervision goes on: every supported signal received has been forwarded to the workload's group once, in
  order, and no other; at most one SIGKILL has been sent, and none before a termination signal; after the
  first termination signal either the SIGKILL has been sent or the timer is armed with exactly the budget of
  the plan; and then a second termination signal, or the timer, sends it.
\<close>

theorem workload_escalation:
  assumes "loop_run ob cfg es (newEscalation pid w) = Some s"
  shows "forwarded s = supported (signals_of es) \<and>
    length (kills s) \<le> 1 \<and> (kills s \<noteq> [] \<longrightarrow> list_ex is_termination (signals_of es)) \<and>
    (list_ex is_termination (signals_of es) \<longrightarrow>
      (\<exists>plan. su_plan s = Some plan \<and> (kills s \<noteq> [] \<or> su_timer s = Some (bp_workload_budget plan))) \<and>
      (\<forall>e s'. loop_step ob cfg e s = (s', Loop_On) \<longrightarrow>
         list_ex is_termination (signals_of [e]) \<or> (\<exists>k. e = Timer_Fired k) \<longrightarrow> length (kills s') = 1))"
proof -
  note r = run_keeps [OF assms newEscalation_inv(1)]
  have p: "su_plan s \<noteq> None \<longleftrightarrow> list_ex is_termination (signals_of es)" using r by (simp add: newEscalation_def)
  have kill: "length (kills s') = 1"
    if t: "list_ex is_termination (signals_of es)" and st: "loop_step ob cfg e s = (s', Loop_On)"
      and e: "list_ex is_termination (signals_of [e]) \<or> (\<exists>k. e = Timer_Fired k)" for e s'
  proof -
    have "escalation_inv s'" "su_force_attempted s'" using step_keeps [OF st] r p t e by blast+
    then show ?thesis by (cases "kills s'") (auto simp: escalation_inv_def)
  qed
  have "forwarded s = supported (signals_of es)" using r newEscalation_inv by simp
  moreover have "length (kills s) \<le> 1" "kills s \<noteq> [] \<longrightarrow> su_plan s \<noteq> None"
    "\<forall>plan. su_plan s = Some plan \<longrightarrow> kills s \<noteq> [] \<or> su_timer s = Some (bp_workload_budget plan)"
    using r by (auto simp: escalation_inv_def split: option.splits if_splits)
  ultimately show ?thesis using p kill by auto
qed

section \<open>The exit code\<close>

definition exit_code :: "wait_status \<Rightarrow> int" where
  "exit_code status = (case status of Status_Exited n \<Rightarrow> n | Status_Signaled n \<Rightarrow> 128 + n)"

lemma resolve_exit_code:
  "(resolveWaitStatus status)\<lparr>wl_forced := b\<rparr> = \<lparr>wl_exit_code = exit_code status, wl_started = True, wl_start_failed = False, wl_forced = b\<rparr>"
  by (simp add: resolveWaitStatus_def exit_code_def split: wait_status.split)

definition reaps :: "int \<Rightarrow> loop_event \<Rightarrow> bool" where
  "reaps pid e = (case e of Child_Reaped p status \<Rightarrow> p = pid | _ \<Rightarrow> False)"

text \<open>The result the first exit of the primary gives, with whether a SIGKILL was delivered before.\<close>

definition exit_result :: "'w Observers \<Rightarrow> budget_config \<Rightarrow> int \<Rightarrow> 'w \<Rightarrow> loop_event list \<Rightarrow> workload_result \<Rightarrow> bool" where
  "exit_result ob cfg pid w es r \<longleftrightarrow>
     (\<exists>pre status post s. es = pre @ Child_Reaped pid status # post \<and> \<not> list_ex (reaps pid) pre \<and>
        loop_run ob cfg pre (newEscalation pid w) = Some s \<and>
        r = \<lparr>wl_exit_code = exit_code status, wl_started = True, wl_start_failed = False, wl_forced = (kills s = [Kill_Ok])\<rparr>)"

lemma run_primary_None:
  assumes "loop_run ob cfg es s = Some s'" "escalation_inv s" "\<not> list_ex (reaps (su_pid s)) es"
  shows "su_primary s' = su_primary s"
  using assms
proof (induction es arbitrary: s)
  case (Cons e es)
  from Cons.prems(1) obtain t where t: "loop_step ob cfg e s = (t, Loop_On)" "loop_run ob cfg es t = Some s'"
    by (auto split: prod.splits loop_result.splits)
  note one = step_keeps [OF t(1) Cons.prems(2)]
  then have "su_primary t = su_primary s" using Cons.prems(3) by (auto simp: primary_after_def reaps_def split: loop_event.splits)
  with Cons.IH [OF t(2)] one Cons.prems(3) show ?case by simp
qed simp

lemma run_primary_kept:
  assumes "loop_run ob cfg es s = Some s'" "escalation_inv s" "su_primary s = Some r"
  shows "su_primary s' = Some r"
  using assms
proof (induction es arbitrary: s)
  case (Cons e es)
  from Cons.prems(1) obtain t where t: "loop_step ob cfg e s = (t, Loop_On)" "loop_run ob cfg es t = Some s'"
    by (auto split: prod.splits loop_result.splits)
  note one = step_keeps [OF t(1) Cons.prems(2)]
  then have "su_primary t = Some r" using Cons.prems(3) by (auto simp: primary_after_def split: loop_event.splits)
  with Cons.IH [OF t(2)] one show ?case by simp
qed simp

lemma run_primary_exit:
  assumes "loop_run ob cfg es (newEscalation pid w) = Some s" "su_primary s = Some r"
  shows "exit_result ob cfg pid w es r"
proof -
  let ?s0 = "newEscalation pid w"
  have pid: "su_pid ?s0 = pid" and none: "su_primary ?s0 = None" by (simp_all add: newEscalation_def)
  have "list_ex (reaps pid) es"
    using run_primary_None [OF assms(1) newEscalation_inv(1)] assms(2) none pid by (auto simp del: list_ex_iff)
  then obtain pre e post where es: "es = pre @ e # post" "reaps pid e" "\<not> list_ex (reaps pid) pre"
    using split_list_first_prop [of es "reaps pid"] by (auto simp: list_ex_iff)
  then obtain status where e: "e = Child_Reaped pid status" by (auto simp: reaps_def split: loop_event.splits)
  from assms(1) obtain a b where a: "loop_run ob cfg pre ?s0 = Some a" and b: "loop_step ob cfg e a = (b, Loop_On)"
    and c: "loop_run ob cfg post b = Some s"
    unfolding es(1) loop_run_append by (auto split: option.splits prod.splits loop_result.splits)
  note ra = run_keeps [OF a newEscalation_inv(1)]
  have "su_primary a = None" using run_primary_None [OF a newEscalation_inv(1)] none es(3) pid by simp
  with step_keeps [OF b] ra pid have "su_primary b = Some ((resolveWaitStatus status)\<lparr>wl_forced := su_forced a\<rparr>)" "escalation_inv b"
    by (auto simp: e primary_after_def)
  with run_primary_kept [OF c] assms(2) have "r = (resolveWaitStatus status)\<lparr>wl_forced := su_forced a\<rparr>" by simp
  then have "r = \<lparr>wl_exit_code = exit_code status, wl_started = True, wl_start_failed = False, wl_forced = (kills a = [Kill_Ok])\<rparr>"
    using ra by (simp add: resolve_exit_code escalation_inv_def)
  then show ?thesis unfolding exit_result_def using es a e by blast
qed

text \<open>A result comes from the last child, or is an internal failure.\<close>

lemma notifyQueued_primary: "notifyQueuedSignals ob qs s = (s', ok) \<Longrightarrow> su_primary s' = su_primary s"
proof (induction qs arbitrary: s)
  case (Cons q qs)
  then show ?case by (auto elim!: if_ok_cases simp: observing_frame)
qed simp

lemma supervise_result:
  assumes "supervise ob cfg clean es s = (s', Some r)"
  shows "r = internal_result \<or>
    (\<exists>pre queued post a. es = pre @ Reap_Done queued # post \<and> loop_run ob cfg pre s = Some a \<and> su_primary a = Some r \<and>
       notifyQueuedSignals ob queued a = (s', True))"
  using assms
proof (induction es arbitrary: s)
  case (Cons e es)
  obtain t res where t: "loop_step ob cfg e s = (t, res)" by fastforce
  show ?case
  proof (cases res)
    case Loop_On
    with Cons.prems t have "supervise ob cfg clean es t = (s', Some r)" by simp
    from Cons.IH [OF this] show ?thesis
    proof
      assume "\<exists>pre queued post a. es = pre @ Reap_Done queued # post \<and> loop_run ob cfg pre t = Some a \<and> su_primary a = Some r \<and>
          notifyQueuedSignals ob queued a = (s', True)"
      then obtain pre queued post a where "es = pre @ Reap_Done queued # post" "loop_run ob cfg pre t = Some a" "su_primary a = Some r"
        "notifyQueuedSignals ob queued a = (s', True)" by blast
      with t Loop_On show ?thesis by (intro disjI2 exI [of _ "e # pre"] exI [of _ queued] exI [of _ post] exI [of _ a]) simp
    qed simp
  next
    case (Loop_Return r')
    with Cons.prems t have r': "r' = r" "s' = t" by simp_all
    from t Loop_Return obtain queued where e: "e = Reap_Done queued"
      by (cases e) (auto simp: unless_error_def split: prod.splits bool.splits if_splits)
    obtain u ok where u: "notifyQueuedSignals ob queued s = (u, ok)" by fastforce
    show ?thesis
    proof (cases "ok \<and> su_primary u \<noteq> None")
      case True
      with t Loop_Return e r' u have "t = u" "su_primary u = Some r" by auto
      with e r' u True notifyQueued_primary [OF u] show ?thesis
        by (intro disjI2 exI [of _ "[]"] exI [of _ queued] exI [of _ es] exI [of _ s]) simp
    next
      case False
      with t Loop_Return e r' u show ?thesis by (cases ok) auto
    qed
  next
    case Loop_Cleanup
    with Cons.prems t show ?thesis by (auto simp: cleanupAndReap_def Let_def)
  qed
qed simp

section \<open>What observers are told\<close>

text \<open>
  Observers with a condition that no notification takes away and that the notification of the exit establishes
  when it succeeds: whenever the supervision returns the exit of the workload, the condition holds.
\<close>

locale supervised =
  fixes ob :: "'w Observers" and ended :: "'w \<Rightarrow> bool"
  assumes exit_ends: "ob_primary_exited ob code forced w = (w', True) \<Longrightarrow> ended w'"
    and exit_keeps: "ended w \<Longrightarrow> ended (fst (ob_primary_exited ob code forced w))"
    and signal_keeps: "ended w \<Longrightarrow> ended (fst (ob_signal ob e w))"
    and shutdown_keeps: "ended w \<Longrightarrow> ended (fst (ob_shutdown ob name plan w))"
    and forced_keeps: "ended w \<Longrightarrow> ended (fst (ob_forced ob name pgid w))"
    and child_keeps: "ended w \<Longrightarrow> ended (fst (ob_child_reaped ob kind w))"
begin

definition told :: "int \<Rightarrow> wait_status set \<Rightarrow> 'w supervision \<Rightarrow> bool" where
  "told pid reaped s \<longleftrightarrow> su_pid s = pid \<and>
     (\<forall>r. su_primary s = Some r \<longrightarrow> ended (su_world s) \<and> (\<exists>status\<in>reaped. \<exists>forced. r = (resolveWaitStatus status)\<lparr>wl_forced := forced\<rparr>))"

lemma told_observing:
  "told pid A s \<Longrightarrow> (\<And>w. ended w \<Longrightarrow> ended (fst (f w))) \<Longrightarrow> told pid A (fst (observing f s))"
  by (auto simp: told_def observing_frame)

lemma told_frame [simp]:
  "told pid A (s\<lparr>su_plan := p\<rparr>) = told pid A s" "told pid A (s\<lparr>su_timer := t\<rparr>) = told pid A s" "told pid A (s\<lparr>su_forced := b\<rparr>) = told pid A s"
  "told pid A (s\<lparr>su_force_attempted := b\<rparr>) = told pid A s" "told pid A (s\<lparr>su_signal := n\<rparr>) = told pid A s" "told pid A (s\<lparr>su_sent := l\<rparr>) = told pid A s"
  by (simp_all add: told_def)

lemma told_if_ok: "told pid A (fst r) \<Longrightarrow> (\<And>s. told pid A s \<Longrightarrow> told pid A (fst (f s))) \<Longrightarrow> told pid A (fst (if_ok r f))"
  by (cases r) (auto simp: if_ok_def)

lemma told_force: "told pid A s \<Longrightarrow> told pid A (fst (escalation_force ob kill s))"
  unfolding escalation_force_def Let_def by (cases kill) (auto intro!: told_observing forced_keeps)

lemma told_handle: "told pid A s \<Longrightarrow> told pid A (fst (escalation_handle ob cfg now kf kk q s))"
  unfolding escalation_handle_def begin_shutdown_def forward_def Let_def
  by (auto intro!: told_if_ok told_observing told_force shutdown_keeps signal_keeps split: option.split)

lemma told_step:
  assumes "told pid A s" "loop_step ob cfg e s = (s', Loop_On)" "\<And>status. e = Child_Reaped pid status \<Longrightarrow> status \<in> A"
  shows "told pid A s'"
proof (cases e)
  case (Signal_Received x)
  with assms told_handle show ?thesis by (cases x) (auto simp: unless_error_def)
next
  case (Timer_Fired kill)
  with assms told_force [OF assms(1), of kill] show ?thesis by (auto split: if_splits prod.splits bool.splits)
next
  case (Child_Reaped child status)
  with assms(2) have r: "processReapEvent ob child status s = (s', True)" by (auto simp: unless_error_def prod_eq_iff split: if_splits)
  show ?thesis
  proof (cases "child = su_pid s \<and> su_primary s = None")
    case True
    let ?r = "(resolveWaitStatus status)\<lparr>wl_forced := su_forced s\<rparr>"
    from True r obtain v v' where v: "ob_primary_exited ob (wl_exit_code ?r) (su_forced s) (su_world s) = (v, True)"
      "ob_child_reaped ob ''direct'' v = (v', True)" "s' = s\<lparr>su_primary := Some ?r, su_world := v'\<rparr>"
      by (auto simp: processReapEvent_def Let_def if_ok_True observing_True)
    have "ended v'" using child_keeps [OF exit_ends [OF v(1)], of "''direct''"] v(2) by simp
    moreover have "status \<in> A" using assms(1,3) True Child_Reaped by (auto simp: told_def)
    ultimately show ?thesis using v(3) assms(1) by (auto simp: told_def)
  next
    case False
    with r assms(1) told_observing [of pid A s "ob_child_reaped ob ''adopted''"] child_keeps show ?thesis
      by (auto simp: processReapEvent_def prod_eq_iff)
  qed
qed (use assms in \<open>auto split: prod.splits bool.splits option.splits\<close>)

lemma told_run: "loop_run ob cfg es s = Some s' \<Longrightarrow> told pid A s \<Longrightarrow> {status. Child_Reaped pid status \<in> set es} \<subseteq> A \<Longrightarrow> told pid A s'"
proof (induction es arbitrary: s)
  case (Cons e es)
  then obtain t where t: "loop_step ob cfg e s = (t, Loop_On)" "loop_run ob cfg es t = Some s'"
    by (auto split: prod.splits loop_result.splits)
  from Cons.IH [OF t(2) told_step [OF Cons.prems(2) t(1)]] Cons.prems(3) show ?case by auto
qed simp

lemma told_queued: "told pid A s \<Longrightarrow> told pid A (fst (notifyQueuedSignals ob qs s))"
  by (induction qs arbitrary: s) (auto intro!: told_if_ok told_observing signal_keeps)

lemma told_pending: "told pid A s \<Longrightarrow> told pid A (fst (handle_pending ob cfg qs s))"
  by (induction qs arbitrary: s) (auto intro!: told_if_ok told_handle)

lemma returned_ended:
  assumes "supervise ob cfg clean es s = (s', Some r)" "told pid {} s" "r \<noteq> internal_result"
  shows "ended (su_world s') \<and> (\<exists>status forced. Child_Reaped pid status \<in> set es \<and> r = (resolveWaitStatus status)\<lparr>wl_forced := forced\<rparr>)"
proof -
  let ?A = "{status. Child_Reaped pid status \<in> set es}"
  from supervise_result [OF assms(1)] assms(3) obtain pre queued post a where a: "loop_run ob cfg pre s = Some a" "su_primary a = Some r"
    "notifyQueuedSignals ob queued a = (s', True)" "es = pre @ Reap_Done queued # post" by blast
  have "told pid ?A s" using assms(2) by (auto simp: told_def)
  from told_run [OF a(1) this] a(4) have "told pid ?A a" by auto
  from told_queued [OF this, of queued] a notifyQueued_primary [OF a(3)] show ?thesis by (auto simp: told_def)
qed

text \<open>What \<^verbatim>\<open>run\<close> returns, in all.\<close>

lemma run_outcomes:
  assumes "workload_run ob cfg subreaper waiting start events clean w = (w', Some r)"
  obtains (failed) "\<not> subreaper" "w' = fst (ob_failed ob w)" "r = internal_result\<lparr>wl_started := False\<rparr>"
  | (before) t where "drainPreStartSignals waiting = Inr t" "w' = w"
      "r = \<lparr>wl_exit_code = 128 + signal_number t, wl_started = False, wl_start_failed = False, wl_forced = False\<rparr>"
  | (start_failed) "start = None" "w' = w"
      "r = \<lparr>wl_exit_code = ExitWorkloadStartFailed, wl_started = False, wl_start_failed = True, wl_forced = False\<rparr>"
  | (internal) "r = internal_result"
  | (exited) pid status forced where "start = Some pid" "Child_Reaped pid status \<in> set events" "ended w'"
      "r = (resolveWaitStatus status)\<lparr>wl_forced := forced\<rparr>"
proof (cases "subreaper \<and> (\<exists>pending. drainPreStartSignals waiting = Inl pending) \<and> start \<noteq> None \<and> r \<noteq> internal_result")
  case False
  with assms failed before start_failed internal show thesis
    by (auto simp: workload_run_def internal_result_def split: if_splits sum.splits option.splits)
next
  case True
  then obtain pid pending where p: "subreaper" "drainPreStartSignals waiting = Inl pending" "start = Some pid" by auto
  obtain s ok where s: "if_ok (observing (ob_started ob pid pid) (newEscalation pid w)) (handle_pending ob cfg pending) = (s, ok)"
    by fastforce
  have "told pid {} (fst (if_ok (observing (ob_started ob pid pid) (newEscalation pid w)) (handle_pending ob cfg pending)))"
    by (intro told_if_ok told_pending) (simp add: told_def observing_frame newEscalation_def)
  with s have t: "told pid {} s" by simp
  from assms p s True obtain s' where "supervise ob cfg clean events s = (s', Some r)" "w' = su_world s'"
    by (auto simp: workload_run_def cleanupAndReap_def Let_def split: prod.splits bool.splits)
  with returned_ended [OF _ t] True p(3) exited show thesis by blast
qed

end

definition quiet :: "'w Observers \<Rightarrow> bool" where
  "quiet ob \<longleftrightarrow> (\<forall>e w. snd (ob_signal ob e w)) \<and> (\<forall>n p w. snd (ob_shutdown ob n p w)) \<and> (\<forall>n g w. snd (ob_forced ob n g w)) \<and>
     (\<forall>c b w. snd (ob_primary_exited ob c b w)) \<and> (\<forall>k w. snd (ob_child_reaped ob k w))"

fun calm_event :: "loop_event \<Rightarrow> bool" where
  "calm_event (Signal_Received (q, now, kf, kk)) \<longleftrightarrow> kf \<noteq> Kill_Error \<and> kk \<noteq> Kill_Error"
| "calm_event (Timer_Fired k) \<longleftrightarrow> k \<noteq> Kill_Error"
| "calm_event (Child_Reaped _ _) = True"
| "calm_event _ = False"

lemma if_ok_calm: "snd r \<Longrightarrow> snd (f (fst r)) \<Longrightarrow> snd (if_ok r f)"
  by (cases r) (simp add: if_ok_def)

lemma force_calm: "quiet ob \<Longrightarrow> k \<noteq> Kill_Error \<Longrightarrow> snd (escalation_force ob k s)"
  by (cases k) (auto simp: escalation_force_def Let_def observing_frame quiet_def)

lemma forward_calm: "quiet ob \<Longrightarrow> k \<noteq> Kill_Error \<Longrightarrow> snd (forward ob q k s)"
  by (cases k; cases q)
     (auto simp: forward_def Let_def observing_frame quiet_def forwardSignal_def ignoredSignal_def intro!: if_ok_calm)

lemma handle_calm: "quiet ob \<Longrightarrow> kf \<noteq> Kill_Error \<Longrightarrow> kk \<noteq> Kill_Error \<Longrightarrow> snd (escalation_handle ob cfg now kf kk q s)"
  unfolding escalation_handle_def Let_def
  by (intro if_ok_calm forward_calm)
     (auto simp: begin_shutdown_def Let_def observing_frame quiet_def intro!: force_calm split: option.splits)

lemma step_calm: "quiet ob \<Longrightarrow> calm_event e \<Longrightarrow> snd (loop_step ob cfg e s) = Loop_On"
proof (cases e)
  case (Signal_Received x)
  assume "quiet ob" "calm_event e"
  with Signal_Received handle_calm show ?thesis by (cases x) (auto simp: unless_error_def)
next
  case (Timer_Fired k)
  assume "quiet ob" "calm_event e"
  with Timer_Fired force_calm [of ob k s] show ?thesis by (auto split: prod.splits bool.splits)
next
  case (Child_Reaped p st)
  assume "quiet ob" "calm_event e"
  then have "snd (processReapEvent ob p st s)"
    by (auto simp: processReapEvent_def Let_def observing_frame quiet_def intro!: if_ok_calm)
  with Child_Reaped show ?thesis by (simp add: unless_error_def)
qed auto

lemma run_calm: "quiet ob \<Longrightarrow> list_all calm_event es \<Longrightarrow> \<exists>s'. loop_run ob cfg es s = Some s'"
proof (induction es arbitrary: s)
  case (Cons e es)
  then have "snd (loop_step ob cfg e s) = Loop_On" by (intro step_calm) auto
  then obtain t where "loop_step ob cfg e s = (t, Loop_On)" by (cases "loop_step ob cfg e s") auto
  with Cons show ?case by simp
qed simp

lemma notifyQueued_calm: "quiet ob \<Longrightarrow> snd (notifyQueuedSignals ob qs s)"
  by (induction qs arbitrary: s) (auto simp: observing_frame quiet_def intro!: if_ok_calm)

lemma exit_result_append: "exit_result ob cfg pid w es r \<Longrightarrow> exit_result ob cfg pid w (es @ fs) r"
  unfolding exit_result_def by fastforce

text \<open>
  C35: The exit code is the workload's. Whatever happens, a result is an internal failure, or it is the one of
  the primary's first reaped wait status: the status itself, or 128 and the signal that ended it, marked as
  forced exactly when a SIGKILL had been delivered before. And when no observer and no system call fails,
  the supervision does end with the last child, with that result.
\<close>

theorem workload_exit_exact:
  "(supervise ob cfg clean es (newEscalation pid w) = (s, Some r) \<longrightarrow> r = internal_result \<or> exit_result ob cfg pid w es r) \<and>
   (quiet ob \<and> list_all calm_event es \<and> list_ex (reaps pid) es \<longrightarrow>
      (\<exists>s r. supervise ob cfg clean (es @ [Reap_Done queued]) (newEscalation pid w) = (s, Some r) \<and> exit_result ob cfg pid w es r))"
proof (intro conjI impI)
  assume "supervise ob cfg clean es (newEscalation pid w) = (s, Some r)"
  then show "r = internal_result \<or> exit_result ob cfg pid w es r"
    using supervise_result [of ob cfg clean es "newEscalation pid w" s r] run_primary_exit by (fastforce intro: exit_result_append)
next
  assume a: "quiet ob \<and> list_all calm_event es \<and> list_ex (reaps pid) es"
  let ?s0 = "newEscalation pid w"
  obtain t where t: "loop_run ob cfg es ?s0 = Some t" using a run_calm by blast
  have "su_primary t \<noteq> None"
  proof -
    from a obtain pre e post where es: "es = pre @ e # post" "reaps pid e" by (auto simp: list_ex_iff in_set_conv_decomp)
    then obtain status where e: "e = Child_Reaped pid status" by (auto simp: reaps_def split: loop_event.splits)
    from t obtain b c where b: "loop_run ob cfg pre ?s0 = Some b" and c: "loop_step ob cfg e b = (c, Loop_On)" "loop_run ob cfg post c = Some t"
      unfolding es(1) loop_run_append by (auto split: option.splits prod.splits loop_result.splits)
    note rb = run_keeps [OF b newEscalation_inv(1)]
    have "su_primary c \<noteq> None" "escalation_inv c"
      using step_keeps [OF c(1)] rb by (auto simp: e primary_after_def newEscalation_def)
    then show ?thesis using run_primary_kept [OF c(2)] by auto
  qed
  then obtain r where r: "su_primary t = Some r" by auto
  obtain u where u: "notifyQueuedSignals ob queued t = (u, True)"
    using notifyQueued_calm [of ob queued t] a by (cases "notifyQueuedSignals ob queued t") auto
  have "supervise ob cfg clean (es @ [Reap_Done queued]) ?s0 = (u, Some r)"
    using supervise_append [OF t] u r notifyQueued_primary [OF u] by simp
  with run_primary_exit [OF t r] show "\<exists>s r. supervise ob cfg clean (es @ [Reap_Done queued]) ?s0 = (s, Some r) \<and> exit_result ob cfg pid w es r"
    by blast
qed

section \<open>A concrete run\<close>

definition silent :: "unit Observers" where
  "silent = \<lparr>ob_started = (\<lambda>_ _ w. (w, True)), ob_signal = (\<lambda>_ w. (w, True)), ob_shutdown = (\<lambda>_ _ w. (w, True)),
     ob_forced = (\<lambda>_ _ w. (w, True)), ob_primary_exited = (\<lambda>_ _ w. (w, True)), ob_child_reaped = (\<lambda>_ w. (w, True)),
     ob_failed = (\<lambda>w. (w, True))\<rparr>"

definition stubborn_workload :: "loop_event list" where
  "stubborn_workload = [Signal_Received (SIGHUP, 0, Kill_Ok, Kill_Ok), Signal_Received (SIGTERM, 1, Kill_Ok, Kill_Ok), Timer_Fired Kill_Ok,
     Child_Reaped 9 (Status_Exited 0), Child_Reaped 7 (Status_Signaled 9)]"

lemma silent_quiet: "quiet silent" by (simp add: quiet_def silent_def)

theorem workload_escalation_witness:
  "\<exists>s. loop_run silent budget_defaults stubborn_workload (newEscalation 7 ()) = Some s \<and>
     forwarded s = [SIGHUP, SIGTERM] \<and> length (kills s) = 1"
proof -
  have "list_all calm_event stubborn_workload" by code_simp
  then obtain s where s: "loop_run silent budget_defaults stubborn_workload (newEscalation 7 ()) = Some s"
    using run_calm silent_quiet by blast
  have "supported (signals_of stubborn_workload) = [SIGHUP, SIGTERM]" by code_simp
  moreover have "map_option kills (loop_run silent budget_defaults stubborn_workload (newEscalation 7 ())) = Some [Kill_Ok]" by code_simp
  ultimately show ?thesis using workload_escalation [OF s] s by auto
qed

theorem workload_exit_exact_witness:
  "\<exists>s r. supervise silent budget_defaults [] (stubborn_workload @ [Reap_Done [SIGINT]]) (newEscalation 7 ()) = (s, Some r) \<and>
     wl_exit_code r = 137 \<and> wl_forced r"
proof -
  have calm: "list_all calm_event stubborn_workload" "list_ex (reaps 7) stubborn_workload" by code_simp+
  from workload_exit_exact [of silent budget_defaults "[]" stubborn_workload 7 "()" undefined undefined "[SIGINT]"] calm silent_quiet
  obtain s r where sr: "supervise silent budget_defaults [] (stubborn_workload @ [Reap_Done [SIGINT]]) (newEscalation 7 ()) = (s, Some r)" by blast
  have "map_option (\<lambda>r. (wl_exit_code r, wl_forced r))
      (snd (supervise silent budget_defaults [] (stubborn_workload @ [Reap_Done [SIGINT]]) (newEscalation 7 ()))) = Some (137, True)"
    by code_simp
  with sr show ?thesis by auto
qed

end
