(* ===== verification/Diagnostic.thy ===== *)
theory Diagnostic
  imports Exposition_Handler
begin

text \<open>
  The diagnostic log (\<^verbatim>\<open>internal/diagnostic/configuration.go\<close>): every kind of record, with the fields it
  carries, and the logger that numbers and writes them.

  A record is its fixed fields and the list of the optional ones that are not omitted, in the order of the
  struct. The time stamp, the runtime identifier and the schema version are the same for all and are left
  out, and so is the JSON text of a record. Whether the destination takes the n-th record is an argument of
  the logger; instants and durations are nanosecond counts.
\<close>

section \<open>Records\<close>

datatype diagnostic_value = D_Text string | D_Int int | D_Number float64 | D_Bool bool | D_Time int

record diagnostic_record =
  dr_sequence :: uint64
  dr_level :: string
  dr_event :: string
  dr_component :: string
  dr_state :: string
  dr_message :: string
  dr_fields :: "(string \<times> diagnostic_value) list"

record Logger =
  dl_sequence :: uint64
  dl_records :: "diagnostic_record list"
  dl_takes :: "nat \<Rightarrow> bool"

definition NewLogger :: "(nat \<Rightarrow> bool) \<Rightarrow> Logger" where
  "NewLogger takes = \<lparr>dl_sequence = 0, dl_records = [], dl_takes = takes\<rparr>"

definition logger_write :: "diagnostic_record \<Rightarrow> Logger \<Rightarrow> Logger \<times> bool" where
  "logger_write r l =
     (l\<lparr>dl_sequence := dl_sequence l + 1, dl_records := dl_records l @ [r\<lparr>dr_sequence := dl_sequence l + 1\<rparr>]\<rparr>,
      dl_takes l (length (dl_records l)))"

text \<open>The fields a record omits when they are empty.\<close>

definition entry :: "string \<Rightarrow> string \<Rightarrow> string \<Rightarrow> string \<Rightarrow> string \<Rightarrow> (string \<times> diagnostic_value) list \<Rightarrow> diagnostic_record" where
  "entry level event component state message extra =
     \<lparr>dr_sequence = 0, dr_level = level, dr_event = event, dr_component = component, dr_state = state, dr_message = message,
      dr_fields = filter (\<lambda>(k, v). v \<noteq> D_Text [] \<and> v \<noteq> D_Int 0 \<or> k \<in> {''remaining_ms'', ''exit_code'', ''snapshot_generation'', ''snapshot_bytes'', ''series'', ''http_status'', ''window_ms''}) extra\<rparr>"

text \<open>\<^verbatim>\<open>float64(duration) / float64(time.Millisecond)\<close>\<close>

fun f64_over :: "float64 \<Rightarrow> nat \<Rightarrow> float64" where
  "f64_over (Fin neg m e) d = f64_round neg (m * 2 ^ nat e) (d * 2 ^ nat (- e))"
| "f64_over x d = x"

definition milliseconds_of :: "int \<Rightarrow> float64" where
  "milliseconds_of duration = f64_over (f64_of_int duration) 1000000"

text \<open>\<^verbatim>\<open>Duration.Milliseconds\<close> truncates towards zero.\<close>

definition whole_milliseconds :: "int \<Rightarrow> int" where
  "whole_milliseconds d = sgn d * (\<bar>d\<bar> div 1000000)"

section \<open>Writing\<close>

definition WriteEndpointBound :: "string \<Rightarrow> string \<Rightarrow> Logger \<Rightarrow> Logger \<times> bool" where
  "WriteEndpointBound component state = logger_write (entry ''info'' ''endpoint.bound'' component state ''required endpoint bound'' [])"

definition WriteManagedOperation :: "string \<Rightarrow> string \<Rightarrow> uint64 \<Rightarrow> string \<Rightarrow> Logger \<Rightarrow> Logger \<times> bool" where
  "WriteManagedOperation outcome cls generation state =
     logger_write (entry ''debug'' ''managed.operation'' ''managed'' state ''managed operation completed''
       [(''reason'', D_Text (if outcome \<noteq> ''committed'' \<and> cls \<noteq> ''semantic'' then cls else [])), (''outcome'', D_Text outcome),
        (''snapshot_generation'', D_Int (uint generation))])"

definition WriteManagedProtocolRejected :: "string \<Rightarrow> string \<Rightarrow> Logger \<Rightarrow> Logger \<times> bool" where
  "WriteManagedProtocolRejected code state =
     logger_write (entry ''warn'' ''managed.protocol_rejected'' ''managed'' state ''managed protocol frame rejected'' [(''reason'', D_Text code)])"

definition WriteManagedMaterialized :: "string \<Rightarrow> string \<Rightarrow> Logger \<Rightarrow> Logger \<times> bool" where
  "WriteManagedMaterialized outcome state =
     logger_write (entry ''debug'' ''managed.materialized'' ''managed'' state ''managed generation materialization completed'' [(''outcome'', D_Text outcome)])"

definition WriteManagedFrozen :: "string \<Rightarrow> uint64 \<Rightarrow> string \<Rightarrow> Logger \<Rightarrow> Logger \<times> bool" where
  "WriteManagedFrozen outcome generation state =
     logger_write (entry ''info'' ''managed.frozen'' ''managed'' state ''managed registry frozen''
       [(''outcome'', D_Text outcome), (''snapshot_generation'', D_Int (uint generation))])"

definition WriteManagedFinalInstalled :: "string \<Rightarrow> uint64 \<Rightarrow> string \<Rightarrow> Logger \<Rightarrow> Logger \<times> bool" where
  "WriteManagedFinalInstalled outcome generation state =
     logger_write (entry ''info'' ''managed.final_installed'' ''managed'' state ''managed final candidate completed''
       [(''outcome'', D_Text outcome), (''snapshot_generation'', D_Int (uint generation))])"

definition WriteEndpointBindFailed :: "string \<Rightarrow> string \<Rightarrow> Logger \<Rightarrow> Logger \<times> bool" where
  "WriteEndpointBindFailed component state =
     logger_write (entry ''error'' ''endpoint.bind_failed'' component state ''required endpoint could not be bound''
       [(''reason'', D_Text ''bind''), (''error_code'', D_Text ''BIND_FAILED'')])"

definition WriteResourceUnavailable :: "string \<Rightarrow> string \<Rightarrow> Logger \<Rightarrow> Logger \<times> bool" where
  "WriteResourceUnavailable resource state =
     logger_write (entry ''error'' ''runtime.failed'' ''runtime'' state ''required runtime resource is unavailable''
       [(''reason'', D_Text ''resource''), (''error_code'', D_Text ''RESOURCE_UNAVAILABLE''), (''kind'', D_Text resource)])"

definition WriteExpositionFailed :: "string \<Rightarrow> string \<Rightarrow> int \<Rightarrow> Logger \<Rightarrow> Logger \<times> bool" where
  "WriteExpositionFailed state outcome status =
     logger_write (entry ''warn'' ''exposition.failed'' ''exposition'' state ''metric exposition failed''
       [(''outcome'', D_Text outcome), (''http_status'', D_Int status)])"

definition WriteFinalWaitStarted :: "string \<Rightarrow> string \<Rightarrow> int option \<Rightarrow> Logger \<Rightarrow> Logger \<times> bool" where
  "WriteFinalWaitStarted mode state deadline =
     logger_write (entry ''info'' ''final_wait.started'' ''final_wait'' state ''final wait started''
       ((case deadline of None \<Rightarrow> [] | Some d \<Rightarrow> [(''deadline'', D_Time d)]) @ [(''mode'', D_Text mode)]))"

definition WriteFinalScrapeCounted :: "uint64 \<Rightarrow> uint64 \<Rightarrow> Logger \<Rightarrow> Logger \<times> bool" where
  "WriteFinalScrapeCounted request generation =
     logger_write (entry ''debug'' ''final_scrape.counted'' ''final_wait'' ''final_wait'' ''eligible final scrape counted''
       [(''snapshot_generation'', D_Int (uint generation)), (''request_id'', D_Int (uint request))])"

definition WriteFinalScrapeNotCounted :: "uint64 \<Rightarrow> string \<Rightarrow> Logger \<Rightarrow> Logger \<times> bool" where
  "WriteFinalScrapeNotCounted request outcome =
     logger_write (entry ''debug'' ''final_scrape.not_counted'' ''final_wait'' ''final_wait'' ''final scrape did not count''
       [(''outcome'', D_Text outcome), (''request_id'', D_Int (uint request))])"

definition WriteFinalWaitCompleted :: "string \<Rightarrow> string \<Rightarrow> int \<Rightarrow> Logger \<Rightarrow> Logger \<times> bool" where
  "WriteFinalWaitCompleted reason state duration =
     logger_write (entry ''info'' ''final_wait.completed'' ''final_wait'' state ''final wait completed''
       [(''reason'', D_Text reason), (''duration_ms'', D_Number (milliseconds_of duration))])"

definition WriteSuppressionSummary :: "string \<Rightarrow> string \<Rightarrow> uint64 \<Rightarrow> int \<Rightarrow> Logger \<Rightarrow> Logger \<times> bool" where
  "WriteSuppressionSummary suppressed reason n window =
     logger_write (entry ''warn'' ''logging.suppression_summary'' ''runtime'' ''running'' ''diagnostic records suppressed''
       [(''reason'', D_Text reason), (''suppressed_event'', D_Text suppressed), (''suppressed_count'', D_Int (uint n)),
        (''window_ms'', D_Int (whole_milliseconds window))])"

definition WriteRuntimeInitializing :: "int \<Rightarrow> Logger \<Rightarrow> Logger \<times> bool" where
  "WriteRuntimeInitializing pid =
     logger_write (entry ''info'' ''runtime.initializing'' ''runtime'' ''initializing'' ''runtime initializing'' [(''pid'', D_Int pid)])"

definition WriteStateChanged :: "string \<Rightarrow> string \<Rightarrow> Logger \<Rightarrow> Logger \<times> bool" where
  "WriteStateChanged previous current =
     logger_write (entry ''info'' ''runtime.state_changed'' ''runtime'' current ''runtime state changed'' [(''previous_state'', D_Text previous)])"

definition WriteConfigurationRejected :: "string \<Rightarrow> Logger \<Rightarrow> Logger \<times> bool" where
  "WriteConfigurationRejected message =
     logger_write (entry ''error'' ''configuration.rejected'' ''runtime'' ''initializing'' ''startup configuration rejected''
       [(''reason'', D_Text ''configuration''), (''error_code'', D_Text ''CONFIG_INVALID''), (''error_message'', D_Text message)])"

definition WriteWorkloadStartFailed :: "Logger \<Rightarrow> Logger \<times> bool" where
  "WriteWorkloadStartFailed =
     logger_write (entry ''error'' ''workload.start_failed'' ''workload'' ''failed'' ''workload could not be started''
       [(''reason'', D_Text ''workload_start''), (''error_code'', D_Text ''WORKLOAD_START_FAILED'')])"

definition WriteWorkloadStarted :: "int \<Rightarrow> int \<Rightarrow> Logger \<Rightarrow> Logger \<times> bool" where
  "WriteWorkloadStarted pid pgid =
     logger_write (entry ''info'' ''workload.started'' ''workload'' ''running'' ''workload started''
       [(''workload_pid'', D_Int pid), (''workload_pgid'', D_Int pgid)])"

definition WriteSignalForwarded :: "string \<Rightarrow> string \<Rightarrow> int \<Rightarrow> Logger \<Rightarrow> Logger \<times> bool" where
  "WriteSignalForwarded signal state pgid =
     logger_write (entry ''info'' ''workload.signal_forwarded'' ''workload'' state ''signal forwarded to workload group''
       [(''signal'', D_Text signal), (''workload_pgid'', D_Int pgid)])"

definition WriteSignalIgnored :: "string \<Rightarrow> string \<Rightarrow> int \<Rightarrow> Logger \<Rightarrow> Logger \<times> bool" where
  "WriteSignalIgnored signal reason pgid =
     logger_write (entry ''info'' ''workload.signal_ignored'' ''workload'' ''finalizing'' ''late signal ignored''
       [(''reason'', D_Text reason), (''signal'', D_Text signal), (''workload_pgid'', D_Int pgid)])"

definition WriteSignalFailed :: "string \<Rightarrow> int \<Rightarrow> Logger \<Rightarrow> Logger \<times> bool" where
  "WriteSignalFailed signal pgid =
     logger_write (entry ''error'' ''runtime.failed'' ''runtime'' ''failed'' ''signal could not be forwarded''
       [(''reason'', D_Text ''internal''), (''error_code'', D_Text ''INTERNAL_FAILURE''), (''signal'', D_Text signal), (''workload_pgid'', D_Int pgid)])"

definition WriteWorkloadExited :: "int \<Rightarrow> bool \<Rightarrow> Logger \<Rightarrow> Logger \<times> bool" where
  "WriteWorkloadExited code forced =
     logger_write (entry ''info'' ''workload.exited'' ''workload'' ''finalizing'' ''primary workload exited''
       [(''exit_code'', D_Int code), (''forced'', D_Bool forced)])"

definition WriteShutdownStarted :: "string \<Rightarrow> int \<Rightarrow> int \<Rightarrow> Logger \<Rightarrow> Logger \<times> bool" where
  "WriteShutdownStarted signal deadline remaining =
     logger_write (entry ''info'' ''shutdown.started'' ''shutdown'' ''stopping'' ''external termination started''
       [(''deadline'', D_Time deadline), (''remaining_ms'', D_Int (whole_milliseconds remaining)), (''signal'', D_Text signal)])"

definition WriteShutdownForced :: "string \<Rightarrow> int \<Rightarrow> Logger \<Rightarrow> Logger \<times> bool" where
  "WriteShutdownForced signal pgid =
     logger_write (entry ''warn'' ''shutdown.forced'' ''shutdown'' ''stopping'' ''workload grace expired''
       [(''signal'', D_Text signal), (''workload_pgid'', D_Int pgid)])"

definition WriteShutdownCompleted :: "int \<Rightarrow> int \<Rightarrow> Logger \<Rightarrow> Logger \<times> bool" where
  "WriteShutdownCompleted code duration =
     logger_write (entry ''info'' ''shutdown.completed'' ''shutdown'' ''finalizing'' ''shutdown phases completed''
       [(''duration_ms'', D_Number (milliseconds_of duration)), (''exit_code'', D_Int code)])"

definition WriteChildReaped :: "string \<Rightarrow> string \<Rightarrow> Logger \<Rightarrow> Logger \<times> bool" where
  "WriteChildReaped kind state =
     logger_write (entry ''debug'' ''child.reaped'' ''workload'' state ''managed child reaped'' [(''kind'', D_Text kind)])"

definition WriteSnapshotAccepted :: "string \<Rightarrow> string \<Rightarrow> uint64 \<Rightarrow> int \<Rightarrow> int \<Rightarrow> int \<Rightarrow> Logger \<Rightarrow> Logger \<times> bool" where
  "WriteSnapshotAccepted state transport generation snapshot_bytes series duration =
     logger_write (entry ''debug'' ''snapshot.accepted'' ''ingestion'' state ''candidate snapshot accepted''
       [(''duration_ms'', D_Number (milliseconds_of duration)), (''transport'', D_Text transport), (''snapshot_generation'', D_Int (uint generation)),
        (''snapshot_bytes'', D_Int snapshot_bytes), (''series'', D_Int series)])"

definition WriteSnapshotRejected :: "string \<Rightarrow> string \<Rightarrow> string \<Rightarrow> int \<Rightarrow> Logger \<Rightarrow> Logger \<times> bool" where
  "WriteSnapshotRejected state transport reason duration =
     logger_write (entry ''warn'' ''snapshot.rejected'' ''ingestion'' state ''candidate snapshot rejected''
       [(''reason'', D_Text reason), (''duration_ms'', D_Number (milliseconds_of duration)), (''transport'', D_Text transport)])"

definition WriteIngestionOverloaded :: "string \<Rightarrow> string \<Rightarrow> Logger \<Rightarrow> Logger \<times> bool" where
  "WriteIngestionOverloaded state transport =
     logger_write (entry ''warn'' ''ingestion.overloaded'' ''ingestion'' state ''ingestion capacity exhausted''
       [(''transport'', D_Text transport), (''outcome'', D_Text ''busy'')])"

definition WriteRuntimeFailed :: "Logger \<Rightarrow> Logger \<times> bool" where
  "WriteRuntimeFailed =
     logger_write (entry ''error'' ''runtime.failed'' ''runtime'' ''failed'' ''process supervision failed''
       [(''reason'', D_Text ''internal''), (''error_code'', D_Text ''INTERNAL_FAILURE'')])"

section \<open>Numbering\<close>

text \<open>The records of a logger carry the numbers 1, 2, 3, and so on, also those the destination did not take.\<close>

definition numbered :: "Logger \<Rightarrow> bool" where
  "numbered l \<longleftrightarrow> dl_sequence l = of_nat (length (dl_records l)) \<and>
     map dr_sequence (dl_records l) = map of_nat [1..<Suc (length (dl_records l))]"

lemma logger_write_numbered: "numbered l \<Longrightarrow> numbered (fst (logger_write r l))"
  by (simp add: numbered_def logger_write_def)

lemma NewLogger_numbered: "numbered (NewLogger takes)"
  by (simp add: numbered_def NewLogger_def)

end
