(* ===== verification/Runtime_Observers.thy ===== *)
theory Runtime_Observers
  imports Diagnostic Ingestion_Facts Managed_Server Managed_Materialize
begin

text \<open>
  The observers that project what the components do into the runtime metrics and the log: those of the
  ingestion core (\<^verbatim>\<open>MetricsObserver\<close> and \<^verbatim>\<open>DiagnosticObserver\<close> of
  \<^verbatim>\<open>internal/ingestion/core.go\<close>) and that of the managed registry
  (\<^verbatim>\<open>internal/managedobserve/observer.go\<close>). Errors of the metrics and of the log are ignored by all of them.
\<close>

section \<open>The core\<close>

record MetricsObserver =
  mo_registry :: self_registry
  mo_inflight :: "Transport \<Rightarrow> int"

definition NewMetricsObserver :: "self_registry \<Rightarrow> MetricsObserver" where
  "NewMetricsObserver r = \<lparr>mo_registry = r, mo_inflight = (\<lambda>_. 0)\<rparr>"

text \<open>\<^verbatim>\<open>float64(now.UnixNano()) / float64(time.Second)\<close>\<close>

definition unix_seconds :: "int \<Rightarrow> float64" where
  "unix_seconds now = f64_over (f64_of_int now) 1000000000"

definition metrics_started :: "Transport \<Rightarrow> MetricsObserver \<Rightarrow> MetricsObserver" where
  "metrics_started t m =
     (let n = mo_inflight m t + 1 in
      m\<lparr>mo_inflight := (mo_inflight m)(t := n),
        mo_registry := try_gauge IngestionInflight [(''transport'', t)] (f64_of_int n) (mo_registry m)\<rparr>)"

definition count_publication :: "Result \<Rightarrow> self_registry \<Rightarrow> self_registry" where
  "count_publication r reg =
     (let reg = try_counter SnapshotPublicationsTotal [(''transport'', r_transport r), (''outcome'', outcome_string (r_outcome r))] 1 reg in
      if r_outcome r = Rejected then
        try_counter SnapshotRejectionsTotal
          [(''transport'', r_transport r), (''reason'', case r_reason r of None \<Rightarrow> [] | Some reason \<Rightarrow> reason_string reason)] 1 reg
      else reg)"

text \<open>The update of the snapshot numbers panics on an error, which it never meets.\<close>

definition metrics_completed :: "int \<Rightarrow> Result \<Rightarrow> ActiveSnapshot \<Rightarrow> MetricsObserver \<Rightarrow> MetricsObserver" where
  "metrics_completed now r active m =
     (let n = mo_inflight m (r_transport r) - 1;
          labels = [(''transport'', r_transport r)];
          reg = count_publication r (try_gauge IngestionInflight labels (f64_of_int n) (mo_registry m)) in
      m\<lparr>mo_inflight := (mo_inflight m)(r_transport r := n),
        mo_registry :=
          (if r_outcome r = Accepted then
             try_gauge IngestionLastSuccess labels (unix_seconds now)
               (case SetActiveSnapshot active reg of Inl _ \<Rightarrow> reg | Inr reg \<Rightarrow> reg)
           else reg)\<rparr>)"

definition metrics_declined :: "Result \<Rightarrow> MetricsObserver \<Rightarrow> MetricsObserver" where
  "metrics_declined r m = m\<lparr>mo_registry := count_publication r (mo_registry m)\<rparr>"

fun metrics_observe :: "int \<Rightarrow> observation \<Rightarrow> MetricsObserver \<Rightarrow> MetricsObserver" where
  "metrics_observe now (Obs_Started t) m = metrics_started t m"
| "metrics_observe now (Obs_Completed r active) m = metrics_completed now r active m"
| "metrics_observe now (Obs_Declined r) m = metrics_declined r m"

definition reason_text :: "Reason option \<Rightarrow> string" where
  "reason_text reason = (case reason of None \<Rightarrow> [] | Some x \<Rightarrow> reason_string x)"

definition diagnostic_completed :: "string \<Rightarrow> int \<Rightarrow> Result \<Rightarrow> ActiveSnapshot \<Rightarrow> Logger \<Rightarrow> Logger" where
  "diagnostic_completed state duration r active l =
     (case r_outcome r of
        Accepted \<Rightarrow>
          fst (WriteSnapshotAccepted state (r_transport r) (a_generation active) (go_len (v_canonical (a_validated active)))
            (v_series (a_validated active)) duration l)
      | Rejected \<Rightarrow> fst (WriteSnapshotRejected state (r_transport r) (reason_text (r_reason r)) duration l)
      | _ \<Rightarrow> l)"

definition diagnostic_declined :: "string \<Rightarrow> Result \<Rightarrow> Logger \<Rightarrow> Logger" where
  "diagnostic_declined state r l =
     (case r_outcome r of
        Busy \<Rightarrow> fst (WriteIngestionOverloaded state (r_transport r) l)
      | Rejected \<Rightarrow> fst (WriteSnapshotRejected state (r_transport r) (reason_text (r_reason r)) 0 l)
      | _ \<Rightarrow> l)"

section \<open>The managed registry\<close>

record managed_observer =
  mv_metrics :: self_registry
  mv_logger :: Logger
  mv_connections :: int

definition rejectionClass :: "managed_reason option \<Rightarrow> string" where
  "rejectionClass reason =
     (if reason \<in> {Some FamilyLimit, Some TooManySeries, Some LabelLimit, Some BucketLimit, Some BatchLimit, Some NameLimit, Some ValueLimit, Some HelpLimit}
      then ''resource''
      else if reason = Some Late then ''late''
      else ''semantic'')"

definition project :: "RegistryState \<Rightarrow> self_registry \<Rightarrow> self_registry" where
  "project st m =
     try_gauge ManagedSeries [] (f64_of_int (rs_series st))
       (try_gauge ManagedFamilies [] (f64_of_int (rs_families st))
         (try_gauge ManagedGeneration [] (f64_of_nat (unat (rs_generation st))) m))"

definition observer_Initialize :: "Owner \<Rightarrow> managed_observer \<Rightarrow> managed_observer" where
  "observer_Initialize ow ob =
     ob\<lparr>mv_metrics := project (Registry_State (ow_registry ow))
         (try_gauge ManagedQueueCapacity [] (f64_of_int (os_capacity (Owner_State ow))) (mv_metrics ob))\<rparr>"

text \<open>The part of \<^verbatim>\<open>Submit\<close> before the owner, and the part after its answer.\<close>

definition observer_before :: "Owner \<Rightarrow> managed_observer \<Rightarrow> managed_observer" where
  "observer_before ow ob =
     ob\<lparr>mv_metrics := try_gauge ManagedQueueDepth [] (f64_of_int (os_depth (Owner_State ow))) (mv_metrics ob)\<rparr>"

definition rejection_label :: "owner_result \<Rightarrow> string option" where
  "rejection_label r =
     (case or_outcome r of
        OutcomeRejected \<Rightarrow> Some (rejectionClass (or_reason r))
      | OutcomeOverloaded \<Rightarrow> Some ''overload''
      | OutcomeClosed \<Rightarrow> Some ''late''
      | _ \<Rightarrow> None)"

definition count_result :: "owner_result \<Rightarrow> self_registry \<Rightarrow> self_registry" where
  "count_result r m =
     (let m = try_counter ManagedOperationsTotal [(''outcome'', owner_outcome_string (or_outcome r))] 1 m in
      case rejection_label r of None \<Rightarrow> m | Some cls \<Rightarrow> try_counter ManagedRejectionsTotal [(''class'', cls)] 1 m)"

definition observer_after :: "string \<Rightarrow> Owner \<Rightarrow> owner_result \<Rightarrow> managed_observer \<Rightarrow> managed_observer" where
  "observer_after state ow r ob =
     ob\<lparr>mv_metrics := project (Registry_State (ow_registry ow))
          (try_gauge ManagedQueueDepth [] (f64_of_int (os_depth (Owner_State ow))) (count_result r (mv_metrics ob))),
        mv_logger := fst (WriteManagedOperation (owner_outcome_string (or_outcome r)) (rejectionClass (or_reason r)) (or_generation r) state (mv_logger ob))\<rparr>"

definition ProtocolRejected :: "string \<Rightarrow> Code \<Rightarrow> managed_observer \<Rightarrow> managed_observer" where
  "ProtocolRejected state code ob =
     ob\<lparr>mv_metrics := try_counter ManagedRejectionsTotal [(''class'', ''protocol'')] 1
          (try_counter ManagedProtocolTotal [(''code'', code_string code)] 1 (mv_metrics ob)),
        mv_logger := fst (WriteManagedProtocolRejected (code_string code) state (mv_logger ob))\<rparr>"

definition Connection :: "int \<Rightarrow> managed_observer \<Rightarrow> managed_observer" where
  "Connection delta ob =
     (let active = mv_connections ob + delta in
      ob\<lparr>mv_connections := active,
         mv_metrics := try_gauge IngestionConnections [(''transport'', ''managed'')] (f64_of_int active) (mv_metrics ob)\<rparr>)"

definition Materialized :: "string \<Rightarrow> bool \<Rightarrow> bool \<Rightarrow> managed_observer \<Rightarrow> managed_observer" where
  "Materialized state cache_hit failed ob =
     (let outcome = (if failed then ''error'' else if cache_hit then ''cache_hit'' else ''built'') in
      ob\<lparr>mv_metrics := try_counter ManagedMaterializations [(''outcome'', outcome)] 1 (mv_metrics ob),
         mv_logger := fst (WriteManagedMaterialized outcome state (mv_logger ob))\<rparr>)"

definition observer_Frozen :: "string \<Rightarrow> bool \<Rightarrow> uint64 \<Rightarrow> managed_observer \<Rightarrow> managed_observer" where
  "observer_Frozen state winner generation ob =
     (let outcome = (if winner then ''winner'' else ''duplicate'') in
      ob\<lparr>mv_metrics := try_counter ManagedFreezes [(''outcome'', outcome)] 1 (mv_metrics ob),
         mv_logger := fst (WriteManagedFrozen outcome generation state (mv_logger ob))\<rparr>)"

definition FinalInstalled :: "string \<Rightarrow> string \<Rightarrow> uint64 \<Rightarrow> managed_observer \<Rightarrow> managed_observer" where
  "FinalInstalled state outcome generation ob =
     ob\<lparr>mv_metrics := try_counter ManagedFinalInstalls [(''outcome'', outcome)] 1 (mv_metrics ob),
        mv_logger := fst (WriteManagedFinalInstalled outcome generation state (mv_logger ob))\<rparr>"

section \<open>The count of executing calls\<close>

text \<open>The calls of a transport that execute.\<close>

fun call_transport :: "call \<Rightarrow> Transport" where
  "call_transport (Waiting t _) = t"
| "call_transport (Executing t _ _) = t"
| "call_transport (Parsed t _ _ _) = t"
| "call_transport (Finished r _) = r_transport r"
| "call_transport (Leaving r) = r_transport r"

definition executing :: "Transport \<Rightarrow> (nat \<rightharpoonup> call) \<Rightarrow> nat set" where
  "executing t calls = {p. \<exists>k. calls p = Some k \<and> holds_slot k \<and> call_transport k = t}"

definition observed :: "int \<Rightarrow> MetricsObserver \<Rightarrow> Core \<Rightarrow> MetricsObserver" where
  "observed now m core = fold (metrics_observe now) (c_log core) m"

lemma observe_inflight:
  "mo_inflight (metrics_observe now ob m) t = mo_inflight m t +
     (case ob of Obs_Started t' \<Rightarrow> if t' = t then 1 else 0
      | Obs_Completed r a \<Rightarrow> if r_transport r = t then -1 else 0
      | Obs_Declined r \<Rightarrow> 0)"
  by (cases ob) (auto simp: metrics_started_def metrics_completed_def metrics_declined_def Let_def)

declare metrics_observe.simps [simp del]

lemma observed_log: "c_log k' = c_log k @ obs \<Longrightarrow> observed now m k' = fold (metrics_observe now) obs (observed now m k)"
  by (simp add: observed_def)

definition inflight_inv :: "int \<Rightarrow> MetricsObserver \<Rightarrow> system \<Rightarrow> bool" where
  "inflight_inv now m s \<longleftrightarrow> finite (dom (sys_calls s)) \<and>
     (\<forall>t. mo_inflight (observed now m (sys_core s)) t = int (card (executing t (sys_calls s))))"

lemma executing_upd:
  "executing t (calls(p \<mapsto> k)) = (if holds_slot k \<and> call_transport k = t then insert p (executing t calls) else executing t calls - {p})"
  by (auto simp: executing_def)

lemma executing_in: "calls p = Some k \<Longrightarrow> p \<in> executing t calls \<longleftrightarrow> holds_slot k \<and> call_transport k = t"
  by (simp add: executing_def)

lemma executing_finite: "finite (dom calls) \<Longrightarrow> finite (executing t calls)"
  by (rule finite_subset [of _ "dom calls"]) (auto simp: executing_def)

text \<open>A call that changes keeps the count when it holds a slot for the same transport before and after.\<close>

lemma executing_same:
  assumes "calls p = Some k" "holds_slot k' = holds_slot k" "holds_slot k \<Longrightarrow> call_transport k' = call_transport k"
  shows "executing t (calls(p \<mapsto> k')) = executing t calls"
  using assms by (auto simp: executing_def)

lemma executing_absent: "calls p = None \<Longrightarrow> \<not> holds_slot k \<Longrightarrow> executing t (calls(p \<mapsto> k)) = executing t calls"
  by (auto simp: executing_def)

lemma publish_parse_transport: "call_transport (publish_parse e t c a core) = t"
  by (auto simp: publish_parse_def publish_error_def mk_result_def split: sum.splits parse_error.splits)

lemma core_freeze_log [simp]: "c_log (core_freeze k) = c_log k"
  by (simp add: core_freeze_def split: option.splits prod.splits)

lemma inflight_step: "core_step s s' \<Longrightarrow> inflight_inv now m s \<Longrightarrow> inflight_inv now m s'"
proof (induction rule: core_step.induct)
  case (decline s p e t c core r)
  from decline.hyps(2) have "core = sys_core s \<or> (\<exists>q. core = observe (Obs_Declined q) (sys_core s))"
    by (auto simp: publish_enter_def Let_def split: if_splits)
  then have "mo_inflight (observed now m core) t = mo_inflight (observed now m (sys_core s)) t" for t
    by (auto simp: observe_def observed_def observe_inflight)
  with decline.prems show ?case by (simp add: inflight_inv_def)
next
  case (admit s p e t c core k)
  from admit.hyps(2) have "c_log core = c_log (sys_core s)" "\<not> holds_slot k"
    by (auto simp: publish_enter_def Let_def split: if_splits)
  with admit.prems admit.hyps(1) show ?case by (simp add: inflight_inv_def observed_def executing_absent)
next
  case (start s p t c)
  have "p \<notin> executing u (sys_calls s)" for u using start.hyps(1) by (simp add: executing_in)
  with start.prems executing_finite show ?case
    by (auto simp: inflight_inv_def move_def publish_start_def observe_def observed_def observe_inflight executing_upd)
next
  case (give_up s p t c)
  have "executing u ((sys_calls s)(p \<mapsto> Leaving (mk_result t Timeout 0 None))) = executing u (sys_calls s)" for u
    using give_up.hyps(1) by (intro executing_same) auto
  with give_up.prems show ?case
    by (simp add: inflight_inv_def move_def publish_give_up_def Let_def observe_def observed_def observe_inflight)
next
  case (parse s p t c a)
  have "executing u ((sys_calls s)(p \<mapsto> publish_parse (p \<in> sys_expired s) t c a (sys_core s))) = executing u (sys_calls s)" for u
    using parse.hyps(1) by (intro executing_same) (auto simp: publish_parse_slot publish_parse_transport)
  with parse.prems show ?case by (simp add: inflight_inv_def move_def)
next
  case (install s p t c v a core r b)
  from install.hyps(2) have "r_transport r = t" "c_log core = c_log (sys_core s)"
    by (auto simp: publish_install_def mk_result_def split: prod.splits option.splits)
  moreover from this(1) have "executing u ((sys_calls s)(p \<mapsto> Finished r b)) = executing u (sys_calls s)" for u
    using install.hyps(1) by (intro executing_same) auto
  ultimately show ?case using install.prems by (simp add: inflight_inv_def move_def observed_def)
next
  case (complete s p r a)
  have p: "p \<in> executing u (sys_calls s) \<longleftrightarrow> r_transport r = u" for u using complete.hyps(1) by (simp add: executing_in)
  have "int (card (executing u (sys_calls s) - {p})) = int (card (executing u (sys_calls s))) - (if r_transport r = u then 1 else 0)" for u
  proof (cases "r_transport r = u")
    case True
    then have "card (executing u (sys_calls s)) = Suc (card (executing u (sys_calls s) - {p}))"
      using p complete.prems executing_finite by (intro card.remove) (auto simp: inflight_inv_def)
    with True show ?thesis by simp
  qed (use p in simp)
  with complete.prems show ?case
    by (simp add: inflight_inv_def move_def publish_complete_def observe_def observed_def observe_inflight executing_upd)
next
  case (leave s p r)
  have "executing u ((sys_calls s)(p := None)) = executing u (sys_calls s)" for u
    using leave.hyps by (auto simp: executing_def)
  with leave.prems show ?case by (simp add: inflight_inv_def publish_leave_def observed_def)
qed (simp_all add: inflight_inv_def observed_def core_close_def)

text \<open>
  The number behind the in-flight metric is exact: in every interleaving of the core, the metrics
  observer's count for a transport is the number of that transport's calls that execute, so it is never
  negative and goes back to zero when they have all completed.
\<close>

theorem observer_inflight_exact:
  assumes "NewWithParser holder limits concurrent waiting parser = Some core" "core_step\<^sup>*\<^sup>* (sys_init core) s"
  shows "mo_inflight (observed now (NewMetricsObserver reg) (sys_core s)) t = int (card (executing t (sys_calls s)))"
proof -
  have "c_log core = []" using assms(1) by (auto simp: NewWithParser_def split: if_splits)
  then have init: "inflight_inv now (NewMetricsObserver reg) (sys_init core)"
    by (simp add: inflight_inv_def observed_def sys_init_def NewMetricsObserver_def executing_def)
  from assms(2) have "inflight_inv now (NewMetricsObserver reg) s"
    by (induction rule: rtranclp_induct) (use init inflight_step in blast)+
  then show ?thesis by (simp add: inflight_inv_def)
qed

lemma publish_enter_free:
  "validTransport t \<Longrightarrow> \<not> c_closed core \<Longrightarrow> c_admissions core < c_capacity core \<Longrightarrow>
     publish_enter False t c core = (core\<lparr>c_admissions := c_admissions core + 1, c_admitted := c_admitted core + 1\<rparr>, Inr (Waiting t c))"
  by (simp add: publish_enter_def)

definition pair_core :: Core where
  "pair_core = the (NewWithParser NewInitialHolder DefaultLimits 2 0 accept_zero)"

lemma pair_core_new: "NewWithParser NewInitialHolder DefaultLimits 2 0 accept_zero = Some pair_core"
  by (simp add: pair_core_def NewWithParser_def)

theorem observer_inflight_exact_witness:
  "\<exists>s. core_step\<^sup>*\<^sup>* (sys_init pair_core) s \<and> executing HTTP (sys_calls s) = {3} \<and>
     mo_inflight (observed 0 (NewMetricsObserver demo_self) (sys_core s)) HTTP = 1"
proof -
  have v: "validTransport HTTP" by (simp add: validTransport_def Transports_def)
  let ?k = "pair_core\<lparr>c_admissions := 1, c_admitted := 1\<rparr>"
  let ?a = "move 3 (?k, Waiting HTTP []) (submit_call 3 [] (sys_init pair_core))"
  let ?b = "move 3 (publish_start HTTP [] (sys_core ?a)) ?a"
  have "core_step (sys_init pair_core) ?a"
    using core_step.admit [of "sys_init pair_core" 3 False HTTP "[]" ?k "Waiting HTTP []"] v
    by (simp add: publish_enter_def pair_core_def NewWithParser_def)
  moreover have "core_step ?a ?b"
    using core_step.start [of ?a 3 HTTP "[]"] by (simp add: pair_core_def NewWithParser_def)
  ultimately have st: "core_step\<^sup>*\<^sup>* (sys_init pair_core) ?b" by auto
  have e: "executing HTTP (sys_calls ?b) = {3}" by (auto simp: executing_def publish_start_def)
  from observer_inflight_exact [OF pair_core_new st, of 0 demo_self HTTP] e have
    "mo_inflight (observed 0 (NewMetricsObserver demo_self) (sys_core ?b)) HTTP = 1" by simp
  with st e show ?thesis by blast
qed

section \<open>The snapshot numbers\<close>

definition gauge_of :: "self_registry \<Rightarrow> string \<Rightarrow> float64 option" where
  "gauge_of r n = map_option sv_gauge (value_at r n [])"

definition snapshot_gauges :: "self_registry \<Rightarrow> float64 option list" where
  "snapshot_gauges r = map (gauge_of r) [SnapshotGeneration, SnapshotSeries, self_SnapshotBytes]"

definition active_gauges :: "ActiveSnapshot \<Rightarrow> float64 option list" where
  "active_gauges a = [Some (f64_of_nat (unat (a_generation a))), Some (f64_of_nat (nat (v_series (a_validated a)))),
     Some (f64_of_nat (length (v_canonical (a_validated a))))]"

fun last_completed :: "ActiveSnapshot \<Rightarrow> observation list \<Rightarrow> ActiveSnapshot" where
  "last_completed a [] = a"
| "last_completed a (Obs_Completed r b # obs) = last_completed (if r_outcome r = Accepted then b else a) obs"
| "last_completed a (_ # obs) = last_completed a obs"

lemma try_gauge_keeps:
  "shape (try_gauge n ls v r) = shape r" "m \<noteq> n \<Longrightarrow> gauge_of (try_gauge n ls v r) m = gauge_of r m"
proof -
  have "shape r' = shape r \<and> (m \<noteq> n \<longrightarrow> gauge_of r' m = gauge_of r m)" if "SetGauge n ls v r = Inr r'" for r'
  proof -
    from that obtain f key sv where f: "resolve n ls SelfGauge r = Inr (f, key, sv)" "r' = put_value n f key (sv\<lparr>sv_gauge := v\<rparr>) r"
      by (auto simp: SetGauge_def and_then_Inr_iff split: if_splits)
    with put_value_shape [OF f(1), of "sv\<lparr>sv_gauge := v\<rparr>"] resolve_Inr [OF f(1)] show ?thesis
      by (simp add: gauge_of_def put_value_at)
  qed
  then show "shape (try_gauge n ls v r) = shape r" "m \<noteq> n \<Longrightarrow> gauge_of (try_gauge n ls v r) m = gauge_of r m"
    by (auto simp: try_gauge_def split: sum.splits)
qed

lemma try_counter_keeps:
  "shape (try_counter n ls d r) = shape r" "m \<noteq> n \<Longrightarrow> gauge_of (try_counter n ls d r) m = gauge_of r m"
proof -
  have "shape r' = shape r \<and> (m \<noteq> n \<longrightarrow> gauge_of r' m = gauge_of r m)" if "AddCounter n ls d r = Inr r'" for r'
  proof -
    from that obtain f key sv where f: "resolve n ls SelfCounter r = Inr (f, key, sv)"
      "r' = put_value n f key (sv\<lparr>sv_counter := sv_counter sv + d\<rparr>) r"
      by (auto simp: AddCounter_def and_then_Inr_iff split: if_splits)
    with put_value_shape [OF f(1), of "sv\<lparr>sv_counter := sv_counter sv + d\<rparr>"] resolve_Inr [OF f(1)] show ?thesis
      by (simp add: gauge_of_def put_value_at)
  qed
  then show "shape (try_counter n ls d r) = shape r" "m \<noteq> n \<Longrightarrow> gauge_of (try_counter n ls d r) m = gauge_of r m"
    by (auto simp: try_counter_def split: sum.splits)
qed

lemma snapshot_names:
  "SnapshotGeneration \<noteq> IngestionInflight" "SnapshotSeries \<noteq> IngestionInflight" "self_SnapshotBytes \<noteq> IngestionInflight"
  "SnapshotGeneration \<noteq> IngestionLastSuccess" "SnapshotSeries \<noteq> IngestionLastSuccess" "self_SnapshotBytes \<noteq> IngestionLastSuccess"
  "SnapshotGeneration \<noteq> SnapshotPublicationsTotal" "SnapshotSeries \<noteq> SnapshotPublicationsTotal" "self_SnapshotBytes \<noteq> SnapshotPublicationsTotal"
  "SnapshotGeneration \<noteq> SnapshotRejectionsTotal" "SnapshotSeries \<noteq> SnapshotRejectionsTotal" "self_SnapshotBytes \<noteq> SnapshotRejectionsTotal"
  "SnapshotGeneration \<noteq> SnapshotSeries" "SnapshotGeneration \<noteq> self_SnapshotBytes" "SnapshotSeries \<noteq> self_SnapshotBytes"
  by (simp_all add: self_names)

lemmas snapshot_frame = try_gauge_keeps try_counter_keeps snapshot_gauges_def snapshot_names

lemma count_publication_keeps:
  "shape (count_publication r reg) = shape reg" "snapshot_gauges (count_publication r reg) = snapshot_gauges reg"
  by (simp_all add: count_publication_def Let_def snapshot_frame)

lemma mustSet_gauge:
  assumes "mustSetManagedGauge n [] v r = Inr r'" "plain r n"
  shows "gauge_of r' m = (if m = n then Some v else gauge_of r m)"
proof -
  from assms(1) obtain f key s where f: "resolve n [] SelfGauge r = Inr (f, key, s)" "r' = put_value n f key (s\<lparr>sv_gauge := v\<rparr>) r"
    by (auto simp: mustSetManagedGauge_def and_then_Inr_iff)
  have "key = []" using f(1) assms(2) by (auto simp: plain_alt resolve_def labelsKey_def split: option.splits if_splits)
  with f resolve_Inr [OF f(1)] show ?thesis by (simp add: gauge_of_def put_value_at)
qed

lemma mustSet_shape: "mustSetManagedGauge n ls v r = Inr r' \<Longrightarrow> shape r' = shape r"
  by (auto simp: mustSetManagedGauge_def and_then_Inr_iff intro!: put_value_shape)

lemma SetActiveSnapshot_gauges:
  assumes "SetActiveSnapshot a r = Inr r'" "\<forall>n\<in>set plain_names. plain r n"
  shows "shape r' = shape r \<and> snapshot_gauges r' = active_gauges a"
proof -
  from assms(1) obtain r1 r2 where
    a: "mustSetManagedGauge SnapshotGeneration [] (f64_of_nat (unat (a_generation a))) r = Inr r1" and
    b: "mustSetManagedGauge SnapshotSeries [] (f64_of_nat (nat (v_series (a_validated a)))) r1 = Inr r2" and
    c: "mustSetManagedGauge self_SnapshotBytes [] (f64_of_nat (length (v_canonical (a_validated a)))) r2 = Inr r'"
    by (auto simp: SetActiveSnapshot_def and_then_Inr_iff)
  have sh: "shape r1 = shape r" "shape r2 = shape r" "shape r' = shape r"
    using mustSet_shape [OF a] mustSet_shape [OF b] mustSet_shape [OF c] by simp_all
  have p: "plain r SnapshotGeneration" "plain r1 SnapshotSeries" "plain r2 self_SnapshotBytes"
    using assms(2) plain_cong [OF sh(1)] plain_cong [OF sh(2)] by (auto simp: plain_names_def)
  show ?thesis
    using sh mustSet_gauge [OF a p(1)] mustSet_gauge [OF b p(2)] mustSet_gauge [OF c p(3)]
    by (simp add: snapshot_gauges_def active_gauges_def snapshot_names snapshot_names [symmetric])
qed

lemma observe_snapshot:
  assumes "\<forall>n\<in>set plain_names. plain (mo_registry m) n" "snapshot_gauges (mo_registry m) = active_gauges a"
  shows "(\<forall>n\<in>set plain_names. plain (mo_registry (metrics_observe now ob m)) n) \<and>
    snapshot_gauges (mo_registry (metrics_observe now ob m)) = active_gauges (last_completed a [ob])"
proof (cases ob)
  case (Obs_Started t)
  then show ?thesis using assms
    by (simp add: metrics_observe.simps metrics_started_def Let_def plain_cong [OF try_gauge_keeps(1)]) (simp add: snapshot_frame)
next
  case (Obs_Declined r)
  then show ?thesis using assms
    by (simp add: metrics_observe.simps metrics_declined_def plain_cong [OF count_publication_keeps(1)] count_publication_keeps)
next
  case (Obs_Completed r b)
  let ?reg = "count_publication r (try_gauge IngestionInflight [(''transport'', r_transport r)] (f64_of_int (mo_inflight m (r_transport r) - 1)) (mo_registry m))"
  have sh: "shape ?reg = shape (mo_registry m)" by (simp add: count_publication_keeps try_gauge_keeps)
  have g: "snapshot_gauges ?reg = snapshot_gauges (mo_registry m)"
    unfolding count_publication_keeps(2) by (simp add: snapshot_frame)
  have p: "\<forall>n\<in>set plain_names. plain ?reg n" using assms(1) unfolding plain_cong [OF sh] .
  show ?thesis
  proof (cases "r_outcome r = Accepted")
    case True
    obtain reg' where reg': "SetActiveSnapshot b ?reg = Inr reg'" using SetActiveSnapshot_total [OF p] by blast
    note gs = SetActiveSnapshot_gauges [OF reg' p]
    have "shape reg' = shape (mo_registry m)" using gs sh by simp
    from Obs_Completed True reg' gs plain_cong [OF this] assms(1) show ?thesis
      by (simp add: metrics_observe.simps metrics_completed_def Let_def plain_cong [OF try_gauge_keeps(1)]) (simp add: snapshot_frame)
  next
    case False
    with Obs_Completed p g assms(2) show ?thesis by (simp add: metrics_observe.simps metrics_completed_def Let_def)
  qed
qed

lemma last_completed_step: "last_completed a (ob # obs) = last_completed (last_completed a [ob]) obs"
  by (cases ob) auto

text \<open>
  C40: The snapshot metrics of the runtime (generation, series, bytes) are at every moment those of the
  accepted publication that \<^emph>\<open>completed\<close> last, and of the empty snapshot before the first. Completion is a
  later step than installation, so with concurrent publications this need not be the active snapshot.
\<close>

theorem snapshot_metrics_last_completed:
  assumes "NewSelfRegistry version revision mode started = Inr reg"
  shows "snapshot_gauges (mo_registry (fold (metrics_observe now) obs (NewMetricsObserver reg))) =
    active_gauges (last_completed (NewActive Zero 0) obs)"
proof -
  have "mode \<in> set FinalWaitModes" using assms by (auto simp: NewSelfRegistry_def split: if_splits)
  then have p: "\<forall>n\<in>set plain_names. plain reg n"
    using NewSelfRegistry_total [of mode version revision started] assms by auto
  from assms obtain q where q: "SetActiveSnapshot (NewActive Zero 0) q = Inr reg"
    by (auto simp: NewSelfRegistry_def and_then_Inr_iff Let_def split: if_splits)
  have "shape reg = shape q" using some_writes_keep [OF self_step_writes [OF active_snapshot [OF q]]] by simp
  with p plain_cong have "\<forall>n\<in>set plain_names. plain q n" by metis
  from SetActiveSnapshot_gauges [OF q this] have g: "snapshot_gauges reg = active_gauges (NewActive Zero 0)" by simp
  have "snapshot_gauges (mo_registry (fold (metrics_observe now) obs m)) = active_gauges (last_completed a obs)"
    if "\<forall>n\<in>set plain_names. plain (mo_registry m) n" "snapshot_gauges (mo_registry m) = active_gauges a" for m a
    using that
  proof (induction obs arbitrary: m a)
    case (Cons ob obs)
    from observe_snapshot [OF Cons.prems, of now ob] Cons.IH [of "metrics_observe now ob m" "last_completed a [ob]"]
    show ?case by (simp add: last_completed_step [of a ob obs])
  qed simp
  from this [of "NewMetricsObserver reg"] p g show ?thesis by (simp add: NewMetricsObserver_def)
qed

text \<open>Two publications that overlap: the first to be installed completes last.\<close>

definition overlap_core :: "nat \<Rightarrow> nat \<Rightarrow> uint64 \<Rightarrow> observation list \<Rightarrow> Core" where
  "overlap_core n ex g obs = pair_core\<lparr>c_admissions := n, c_admitted := n, c_executing := ex, c_log := obs,
     c_holder := NewInitialHolder\<lparr>h_active := NewActive Zero g\<rparr>\<rparr>"

lemma overlap_core_simps [simp]:
  "c_admissions (overlap_core n ex g obs) = n" "c_admitted (overlap_core n ex g obs) = n" "c_executing (overlap_core n ex g obs) = ex"
  "c_concurrent (overlap_core n ex g obs) = 2" "c_capacity (overlap_core n ex g obs) = 2" "\<not> c_closed (overlap_core n ex g obs)"
  "c_log (overlap_core n ex g obs) = obs" "h_active (c_holder (overlap_core n ex g obs)) = NewActive Zero g"
  "c_parser (overlap_core n ex g obs) = accept_zero"
  by (simp_all add: overlap_core_def pair_core_def NewWithParser_def)

lemma overlap_admit: "publish_enter False HTTP c (overlap_core n ex g obs) =
    (if n < 2 then (overlap_core (n + 1) ex g obs, Inr (Waiting HTTP c)) else publish_enter False HTTP c (overlap_core n ex g obs))"
  by (simp add: publish_enter_def validTransport_def Transports_def) (simp add: overlap_core_def)

lemma overlap_start: "publish_start HTTP c (overlap_core n ex g obs) =
    (overlap_core n (ex + 1) g (obs @ [Obs_Started HTTP]), Executing HTTP c (NewActive Zero g))"
  by (simp add: publish_start_def observe_def) (simp add: overlap_core_def)

lemma overlap_parse: "publish_parse False HTTP c a (overlap_core n ex g obs) = Parsed HTTP c Zero a"
  by (simp add: publish_parse_def accept_zero_def)

lemma overlap_install: "g \<noteq> max_uint64 \<Longrightarrow> publish_install HTTP Zero (overlap_core n ex g obs) =
    (overlap_core n ex (g + 1) obs, Finished (mk_result HTTP Accepted (g + 1) None) (NewActive Zero (g + 1)))"
proof -
  have z: "v_families Zero = []" by code_simp
  assume "g \<noteq> max_uint64"
  then show ?thesis
    by (simp add: publish_install_def Install_def overlap_core_def NewInitialHolder_def NewHolder_def z NewActive_def bind_families_def Let_def)
qed

lemma overlap_complete: "publish_complete r a (overlap_core n ex g obs) = (overlap_core n (ex - 1) g (obs @ [Obs_Completed r a]), Leaving r)"
  by (simp add: publish_complete_def observe_def) (simp add: overlap_core_def)

lemmas overlap = overlap_start overlap_parse overlap_install overlap_complete

lemma overlapping_run:
  "\<exists>s. core_step\<^sup>*\<^sup>* (sys_init pair_core) s \<and> a_generation (Active (c_holder (sys_core s))) = 2 \<and>
     last_completed (NewActive Zero 0) (c_log (sys_core s)) = NewActive Zero 1"
proof -
  define s0 where "s0 = sys_init (overlap_core 0 0 0 [])"
  define s1 where "s1 = move 1 (overlap_core 1 0 0 [], Waiting HTTP []) (submit_call 1 [] s0)"
  define s2 where "s2 = move 2 (overlap_core 2 0 0 [], Waiting HTTP []) (submit_call 2 [] s1)"
  define s3 where "s3 = move 1 (publish_start HTTP [] (sys_core s2)) s2"
  define s4 where "s4 = move 2 (publish_start HTTP [] (sys_core s3)) s3"
  define s5 where "s5 = move 1 (sys_core s4, publish_parse (1 \<in> sys_expired s4) HTTP [] (NewActive Zero 0) (sys_core s4)) s4"
  define s6 where "s6 = move 2 (sys_core s5, publish_parse (2 \<in> sys_expired s5) HTTP [] (NewActive Zero 0) (sys_core s5)) s5"
  let ?obs = "[Obs_Started HTTP, Obs_Started HTTP]"
  let ?r1 = "mk_result HTTP Accepted 1 None" and ?r2 = "mk_result HTTP Accepted 2 None"
  define s7 where "s7 = (move 1 (overlap_core 2 2 1 ?obs, Finished ?r1 (NewActive Zero 1)) s6)\<lparr>sys_installed := [(1, [], NewActive Zero 1)]\<rparr>"
  define s8 where "s8 = (move 2 (overlap_core 2 2 2 ?obs, Finished ?r2 (NewActive Zero 2)) s7)
      \<lparr>sys_installed := [(1, [], NewActive Zero 1), (2, [], NewActive Zero 2)]\<rparr>"
  define s9 where "s9 = move 2 (publish_complete ?r2 (NewActive Zero 2) (sys_core s8)) s8"
  define s10 where "s10 = move 1 (publish_complete ?r1 (NewActive Zero 1) (sys_core s9)) s9"
  note defs = s0_def s1_def s2_def s3_def s4_def s5_def s6_def s7_def s8_def s9_def s10_def overlap max_uint64_def numeral_2_eq_2
  have acc: "r_outcome ?r1 = Accepted" "r_outcome ?r2 = Accepted" by (simp_all add: mk_result_def)
  have "sys_init pair_core = s0"
    by (simp add: sys_init_def s0_def overlap_core_def pair_core_def NewWithParser_def NewInitialHolder_def NewHolder_def)
  moreover have "core_step s0 s1"
    unfolding s1_def by (rule core_step.admit [where e = False and t = HTTP and c = "[]"]) (simp_all add: defs overlap_admit)
  moreover have "core_step s1 s2"
    unfolding s2_def by (rule core_step.admit [where e = False and t = HTTP and c = "[]"]) (simp_all add: defs overlap_admit)
  moreover have "core_step s2 s3" unfolding s3_def by (rule core_step.start) (simp_all add: defs)
  moreover have "core_step s3 s4" unfolding s4_def by (rule core_step.start) (simp_all add: defs)
  moreover have "core_step s4 s5" unfolding s5_def by (rule core_step.parse) (simp add: defs)
  moreover have "core_step s5 s6" unfolding s6_def by (rule core_step.parse) (simp add: defs)
  moreover have "core_step s6 s7"
    using core_step.install [of s6 1 HTTP "[]" Zero "NewActive Zero 0" "overlap_core 2 2 1 ?obs" ?r1 "NewActive Zero 1"] acc
    by (simp add: defs)
  moreover have "core_step s7 s8"
    using core_step.install [of s7 2 HTTP "[]" Zero "NewActive Zero 0" "overlap_core 2 2 2 ?obs" ?r2 "NewActive Zero 2"] acc
    by (simp add: defs)
  moreover have "core_step s8 s9" unfolding s9_def by (rule core_step.complete) (simp add: defs)
  moreover have "core_step s9 s10" unfolding s10_def by (rule core_step.complete) (simp add: defs)
  ultimately have run: "core_step\<^sup>*\<^sup>* (sys_init pair_core) s10" by (meson converse_rtranclp_into_rtranclp rtranclp.rtrancl_refl)
  have "sys_core s10 = overlap_core 2 0 2 (?obs @ [Obs_Completed ?r2 (NewActive Zero 2), Obs_Completed ?r1 (NewActive Zero 1)])"
    by (simp add: defs)
  with run acc show ?thesis by (intro exI [of _ s10]) (simp add: NewActive_def)
qed

theorem snapshot_metrics_last_completed_witness:
  "\<exists>reg s. NewSelfRegistry ''1.0'' ''abc'' ''scrapes'' 0 = Inr reg \<and> core_step\<^sup>*\<^sup>* (sys_init pair_core) s \<and>
     a_generation (Active (c_holder (sys_core s))) = 2 \<and>
     snapshot_gauges (mo_registry (fold (metrics_observe 0) (c_log (sys_core s)) (NewMetricsObserver reg))) = active_gauges (NewActive Zero 1)"
proof -
  have "''scrapes'' \<in> set FinalWaitModes" by (simp add: FinalWaitModes_def)
  then obtain reg where reg: "NewSelfRegistry ''1.0'' ''abc'' ''scrapes'' 0 = Inr reg" using NewSelfRegistry_total by blast
  obtain s where "core_step\<^sup>*\<^sup>* (sys_init pair_core) s" "a_generation (Active (c_holder (sys_core s))) = 2"
    "last_completed (NewActive Zero 0) (c_log (sys_core s)) = NewActive Zero 1" using overlapping_run by blast
  with reg snapshot_metrics_last_completed [OF reg, of 0 "c_log (sys_core s)"] show ?thesis by (intro exI conjI) auto
qed

end
