(* ===== verification/Listeners.thy ===== *)
theory Listeners
  imports Msp_Server Managed_Bridge
begin

text \<open>
  The goroutines around the protocols: the accept loop of the snapshot socket
  (\<^verbatim>\<open>internal/socketingest/server.go\<close>) and the publication ticker of the managed registry
  (\<^verbatim>\<open>internal/managedpublish/publisher.go\<close>), each as a step relation.

  The operating system's part of listening (removing an old socket, binding, the file mode) is whether it
  succeeds. What a connection says while it is served is \<open>serve_stream\<close>; here it is one phase. The mutex of
  \<^verbatim>\<open>changed\<close> covers the count and not the call of the observer, so counting and reporting are two steps.
\<close>

section \<open>The accept loop\<close>

record socket_server =
  sk_config :: msp_config
  sk_open :: bool
  sk_slots :: nat
  sk_active :: int
  sk_reported :: "int list"

definition socket_Listen :: "bool \<Rightarrow> string \<Rightarrow> msp_config \<Rightarrow> socket_server option" where
  "socket_Listen binds path cfg =
     (if has_prefix path ''/'' \<and> config_valid cfg \<and> binds
      then Some \<lparr>sk_config = cfg, sk_open = True, sk_slots = 0, sk_active = 0, sk_reported = []\<rparr> else None)"

text \<open>The select of the loop: a slot of the semaphore, or the connection is closed at once.\<close>

definition take_slot :: "socket_server \<Rightarrow> socket_server option" where
  "take_slot sv = (if int (sk_slots sv) < cfg_Connections (sk_config sv) then Some (sv\<lparr>sk_slots := sk_slots sv + 1\<rparr>) else None)"

definition free_slot :: "socket_server \<Rightarrow> socket_server" where
  "free_slot sv = sv\<lparr>sk_slots := sk_slots sv - 1\<rparr>"

definition changed_count :: "int \<Rightarrow> socket_server \<Rightarrow> socket_server \<times> int" where
  "changed_count delta sv = (let active = sk_active sv + delta in (sv\<lparr>sk_active := active\<rparr>, active))"

definition changed_report :: "int \<Rightarrow> socket_server \<Rightarrow> socket_server" where
  "changed_report active sv = sv\<lparr>sk_reported := sk_reported sv @ [active]\<rparr>"

definition socket_Close :: "socket_server \<Rightarrow> socket_server" where
  "socket_Close sv = sv\<lparr>sk_open := False\<rparr>"

text \<open>
  Where a connection stands: the loop has its slot, has counted it, its goroutine serves it, has closed it, has
  given back the slot, has counted it off.
\<close>

datatype socket_phase = Sk_Taken | Sk_Counted int | Sk_Serving | Sk_Closed | Sk_Freed | Sk_Uncounted int

record socket_system =
  so_server :: socket_server
  so_phases :: "nat \<rightharpoonup> socket_phase"
  so_refused :: "nat set"

definition socket_init :: "socket_server \<Rightarrow> socket_system" where
  "socket_init sv = \<lparr>so_server = sv, so_phases = Map.empty, so_refused = {}\<rparr>"

definition loop_busy :: "socket_system \<Rightarrow> bool" where
  "loop_busy s \<longleftrightarrow> (\<exists>c. so_phases s c = Some Sk_Taken \<or> (\<exists>n. so_phases s c = Some (Sk_Counted n)))"

inductive socket_step :: "socket_system \<Rightarrow> socket_system \<Rightarrow> bool" where
  accept: "\<not> loop_busy s \<Longrightarrow> sk_open (so_server s) \<Longrightarrow> so_phases s c = None \<Longrightarrow> take_slot (so_server s) = Some sv \<Longrightarrow>
    socket_step s (s\<lparr>so_server := sv, so_phases := (so_phases s)(c \<mapsto> Sk_Taken)\<rparr>)"
| refuse: "\<not> loop_busy s \<Longrightarrow> sk_open (so_server s) \<Longrightarrow> so_phases s c = None \<Longrightarrow> take_slot (so_server s) = None \<Longrightarrow>
    socket_step s (s\<lparr>so_refused := insert c (so_refused s)\<rparr>)"
| count_on: "so_phases s c = Some Sk_Taken \<Longrightarrow> changed_count 1 (so_server s) = (sv, n) \<Longrightarrow>
    socket_step s (s\<lparr>so_server := sv, so_phases := (so_phases s)(c \<mapsto> Sk_Counted n)\<rparr>)"
| report_on: "so_phases s c = Some (Sk_Counted n) \<Longrightarrow>
    socket_step s (s\<lparr>so_server := changed_report n (so_server s), so_phases := (so_phases s)(c \<mapsto> Sk_Serving)\<rparr>)"
| finish: "so_phases s c = Some Sk_Serving \<Longrightarrow> socket_step s (s\<lparr>so_phases := (so_phases s)(c \<mapsto> Sk_Closed)\<rparr>)"
| free: "so_phases s c = Some Sk_Closed \<Longrightarrow>
    socket_step s (s\<lparr>so_server := free_slot (so_server s), so_phases := (so_phases s)(c \<mapsto> Sk_Freed)\<rparr>)"
| count_off: "so_phases s c = Some Sk_Freed \<Longrightarrow> changed_count (-1) (so_server s) = (sv, n) \<Longrightarrow>
    socket_step s (s\<lparr>so_server := sv, so_phases := (so_phases s)(c \<mapsto> Sk_Uncounted n)\<rparr>)"
| report_off: "so_phases s c = Some (Sk_Uncounted n) \<Longrightarrow>
    socket_step s (s\<lparr>so_server := changed_report n (so_server s), so_phases := (so_phases s)(c := None)\<rparr>)"
| close: "socket_step s (s\<lparr>so_server := socket_Close (so_server s)\<rparr>)"

section \<open>The publication ticker\<close>

text \<open>The context of the goroutine is done when its own or the parent's cancel was called.\<close>

datatype ticker_pc = Tk_None | Tk_Select | Tk_Ended

record ticker =
  tk_interval :: int
  tk_pc :: ticker_pc
  tk_cancelled :: bool
  tk_parent_done :: bool
  tk_started :: bool
  tk_stopped :: bool

definition NewTicker :: "int \<Rightarrow> ticker option" where
  "NewTicker interval =
     (if interval \<le> 0 then None
      else Some \<lparr>tk_interval = interval, tk_pc = Tk_None, tk_cancelled = False, tk_parent_done = False, tk_started = False,
             tk_stopped = False\<rparr>)"

definition ticker_Start :: "ticker \<Rightarrow> ticker" where
  "ticker_Start t = (if tk_started t then t else t\<lparr>tk_started := True, tk_pc := Tk_Select\<rparr>)"

text \<open>The once of \<^verbatim>\<open>Stop\<close>; without a start there is nothing to cancel.\<close>

definition ticker_Stop :: "ticker \<Rightarrow> ticker" where
  "ticker_Stop t = (if tk_stopped t then t else t\<lparr>tk_stopped := True, tk_cancelled := (tk_cancelled t \<or> tk_started t)\<rparr>)"

text \<open>What \<^verbatim>\<open>Stop\<close> returns, when it can return, given whether its context is done.\<close>

definition stop_returns :: "bool \<Rightarrow> ticker \<Rightarrow> bool set" where
  "stop_returns expired t = {r. r \<and> tk_pc t = Tk_Ended \<or> \<not> r \<and> expired}"

record 'p ticking =
  tg_ticker :: ticker
  tg_pipeline :: "'p pipeline"
  tg_ticks :: nat

inductive ticking_step :: "('x, 'p) publish_fun \<Rightarrow> 'p ticking \<Rightarrow> 'p ticking \<Rightarrow> bool" for publish where
  start: "ticking_step publish s (s\<lparr>tg_ticker := ticker_Start (tg_ticker s)\<rparr>)"
| stop: "ticking_step publish s (s\<lparr>tg_ticker := ticker_Stop (tg_ticker s)\<rparr>)"
| parent_done: "ticking_step publish s (s\<lparr>tg_ticker := (tg_ticker s)\<lparr>tk_parent_done := True\<rparr>\<rparr>)"
| tick: "tk_pc (tg_ticker s) = Tk_Select \<Longrightarrow>
    ticking_step publish s (s\<lparr>tg_pipeline := publisher_tick publish ctx (tg_pipeline s), tg_ticks := tg_ticks s + 1\<rparr>)"
| ended: "tk_pc (tg_ticker s) = Tk_Select \<Longrightarrow> tk_cancelled (tg_ticker s) \<or> tk_parent_done (tg_ticker s) \<Longrightarrow>
    ticking_step publish s (s\<lparr>tg_ticker := (tg_ticker s)\<lparr>tk_pc := Tk_Ended\<rparr>\<rparr>)"
| use: "registry_step (pl_registry (tg_pipeline s)) registry \<Longrightarrow>
    ticking_step publish s (s\<lparr>tg_pipeline := (tg_pipeline s)\<lparr>pl_registry := registry\<rparr>\<rparr>)"
| finalize: "ticking_step publish s (s\<lparr>tg_pipeline := fst (FreezeAndInstall publish ctx (tg_pipeline s))\<rparr>)"

section \<open>Connections\<close>

fun holds_connection :: "socket_phase \<Rightarrow> bool" where
  "holds_connection Sk_Freed = False"
| "holds_connection (Sk_Uncounted _) = False"
| "holds_connection _ = True"

fun is_counted :: "socket_phase \<Rightarrow> bool" where
  "is_counted Sk_Taken = False"
| "is_counted (Sk_Uncounted _) = False"
| "is_counted _ = True"

definition with_phase :: "(socket_phase \<Rightarrow> bool) \<Rightarrow> socket_system \<Rightarrow> nat set" where
  "with_phase P s = {c. \<exists>p. so_phases s c = Some p \<and> P p}"

definition socket_inv :: "socket_system \<Rightarrow> bool" where
  "socket_inv s \<longleftrightarrow> finite (dom (so_phases s)) \<and> sk_slots (so_server s) = card (with_phase holds_connection s) \<and>
     int (sk_slots (so_server s)) \<le> cfg_Connections (sk_config (so_server s)) \<and>
     sk_active (so_server s) = int (card (with_phase is_counted s))"

lemma with_phase_move:
  "so_phases s' = (so_phases s)(c \<mapsto> p) \<Longrightarrow> with_phase P s' = (if P p then insert c (with_phase P s) else with_phase P s - {c})"
  "so_phases s' = (so_phases s)(c := None) \<Longrightarrow> with_phase P s' = with_phase P s - {c}"
  by (auto simp: with_phase_def)

lemma with_phase_in: "so_phases s c = Some p \<Longrightarrow> c \<in> with_phase P s \<longleftrightarrow> P p"
  "so_phases s c = None \<Longrightarrow> c \<notin> with_phase P s"
  by (auto simp: with_phase_def)

lemma with_phase_finite: "finite (dom (so_phases s)) \<Longrightarrow> finite (with_phase P s)"
  by (rule finite_subset [of _ "dom (so_phases s)"]) (auto simp: with_phase_def)

lemma socket_step_inv:
  assumes "socket_step s s'" "socket_inv s"
  shows "socket_inv s'"
proof -
  have fin: "finite (with_phase P s)" for P using assms(2) by (auto simp: socket_inv_def intro: with_phase_finite)
  have pos: "c \<in> with_phase P s \<Longrightarrow> card (with_phase P s) > 0" for c P using fin card_gt_0_iff by blast
  from assms show ?thesis
  proof cases
    case (accept c sv)
    with assms(2) fin with_phase_in(2) [OF accept(4)] show ?thesis
      by (auto simp: socket_inv_def take_slot_def with_phase_move(1) [of _ s c] split: if_splits)
  next
    case (refuse c)
    with assms(2) show ?thesis by (simp add: socket_inv_def with_phase_def)
  next
    case (count_on c sv n)
    with assms(2) fin with_phase_in(1) [OF count_on(2)] show ?thesis
      by (auto simp: socket_inv_def changed_count_def Let_def with_phase_move(1) [of _ s c] insert_absorb)
  next
    case (report_on c n)
    with assms(2) with_phase_in(1) [OF report_on(2)] show ?thesis
      by (auto simp: socket_inv_def changed_report_def with_phase_move(1) [of _ s c] insert_absorb)
  next
    case (finish c)
    with assms(2) with_phase_in(1) [OF finish(2)] show ?thesis
      by (auto simp: socket_inv_def with_phase_move(1) [of _ s c] insert_absorb)
  next
    case (free c)
    with assms(2) fin with_phase_in(1) [OF free(2)] show ?thesis
      by (auto simp: socket_inv_def free_slot_def with_phase_move(1) [of _ s c] insert_absorb card_Diff_singleton)
  next
    case (count_off c sv n)
    with assms(2) fin with_phase_in(1) [OF count_off(2)] pos [of c is_counted] show ?thesis
      by (auto simp: socket_inv_def changed_count_def Let_def with_phase_move(1) [of _ s c] insert_absorb card_Diff_singleton)
  next
    case (report_off c n)
    with assms(2) with_phase_in(1) [OF report_off(2)] show ?thesis
      by (auto simp: socket_inv_def changed_report_def with_phase_move(2) [of _ s c])
  next
    case close
    with assms(2) show ?thesis by (simp add: socket_inv_def socket_Close_def with_phase_def)
  qed
qed

lemma socket_step_closed:
  "socket_step s s' \<Longrightarrow> sk_config (so_server s') = sk_config (so_server s) \<and>
     (\<not> sk_open (so_server s) \<longrightarrow> \<not> sk_open (so_server s') \<and> dom (so_phases s') \<subseteq> dom (so_phases s))"
  by (induction rule: socket_step.induct)
    (auto simp: take_slot_def free_slot_def changed_count_def changed_report_def socket_Close_def Let_def split: if_splits)

lemma socket_steps:
  assumes "socket_step\<^sup>*\<^sup>* s s'" "socket_inv s"
  shows "socket_inv s' \<and> sk_config (so_server s') = sk_config (so_server s) \<and>
    (\<not> sk_open (so_server s) \<longrightarrow> \<not> sk_open (so_server s') \<and> dom (so_phases s') \<subseteq> dom (so_phases s))"
  using assms
proof (induction rule: rtranclp_induct)
  case (step t u)
  with socket_step_inv [OF step.hyps(2)] socket_step_closed [OF step.hyps(2)] show ?case by (metis order_trans)
qed simp

text \<open>
  The listener is bounded and exact. In every interleaving of accepting, serving and ending connections: those
  that hold a slot are counted by the semaphore and never more than configured; the number of active
  connections is that of the connections counted and not yet counted off, so it can exceed the bound only by
  those that have given back their slot already; without connections both are zero. Once the listener is
  closed, no connection is added.
\<close>

theorem socket_listener_bounded:
  assumes "socket_Listen binds path cfg = Some sv" "socket_step\<^sup>*\<^sup>* (socket_init sv) s"
  shows "sk_slots (so_server s) = card (with_phase holds_connection s)"
    and "int (sk_slots (so_server s)) \<le> cfg_Connections cfg"
    and "sk_active (so_server s) = int (card (with_phase is_counted s))"
    and "sk_active (so_server s) \<le> cfg_Connections cfg + int (card (with_phase (\<lambda>p. p = Sk_Freed) s))"
    and "so_phases s = Map.empty \<Longrightarrow> sk_slots (so_server s) = 0 \<and> sk_active (so_server s) = 0"
    and "\<not> sk_open (so_server s) \<Longrightarrow> socket_step\<^sup>*\<^sup>* s s' \<Longrightarrow> dom (so_phases s') \<subseteq> dom (so_phases s)"
proof -
  have init: "socket_inv (socket_init sv)" "sk_config sv = cfg"
    using assms(1) by (auto simp: socket_Listen_def socket_inv_def socket_init_def with_phase_def config_valid_def split: if_splits)
  note r = socket_steps [OF assms(2) init(1)]
  then have inv: "socket_inv s" and cfg: "sk_config (so_server s) = cfg" using init(2) by (auto simp: socket_init_def)
  then show 1: "sk_slots (so_server s) = card (with_phase holds_connection s)" "int (sk_slots (so_server s)) \<le> cfg_Connections cfg"
    and 2: "sk_active (so_server s) = int (card (with_phase is_counted s))"
    by (auto simp: socket_inv_def)
  have fin: "finite (with_phase P s)" for P using inv by (auto simp: socket_inv_def intro: with_phase_finite)
  have "with_phase is_counted s \<subseteq> with_phase holds_connection s \<union> with_phase (\<lambda>p. p = Sk_Freed) s"
  proof
    fix c assume "c \<in> with_phase is_counted s"
    then obtain p where "so_phases s c = Some p" "is_counted p" by (auto simp: with_phase_def)
    then show "c \<in> with_phase holds_connection s \<union> with_phase (\<lambda>p. p = Sk_Freed) s" by (cases p) (auto simp: with_phase_def)
  qed
  then have "card (with_phase is_counted s) \<le> card (with_phase holds_connection s) + card (with_phase (\<lambda>p. p = Sk_Freed) s)"
    using card_mono [OF finite_UnI [OF fin fin]] card_Un_le order_trans by blast
  with 1 2 show "sk_active (so_server s) \<le> cfg_Connections cfg + int (card (with_phase (\<lambda>p. p = Sk_Freed) s))" by linarith
  show "so_phases s = Map.empty \<Longrightarrow> sk_slots (so_server s) = 0 \<and> sk_active (so_server s) = 0"
    using 1(1) 2 by (simp add: with_phase_def)
  show "\<not> sk_open (so_server s) \<Longrightarrow> socket_step\<^sup>*\<^sup>* s s' \<Longrightarrow> dom (so_phases s') \<subseteq> dom (so_phases s)"
    using socket_steps [OF _ inv] by blast
qed

section \<open>Stopping the ticker\<close>

definition ticker_inv :: "ticker \<Rightarrow> bool" where
  "ticker_inv t \<longleftrightarrow> (tk_started t \<longleftrightarrow> tk_pc t \<noteq> Tk_None) \<and> (tk_cancelled t \<longrightarrow> tk_started t) \<and>
     (tk_pc t = Tk_Ended \<longrightarrow> tk_cancelled t \<or> tk_parent_done t)"

lemma ticking_step_inv: "ticking_step publish s s' \<Longrightarrow> ticker_inv (tg_ticker s) \<Longrightarrow> ticker_inv (tg_ticker s')"
  by (induction rule: ticking_step.induct) (auto simp: ticker_inv_def ticker_Start_def ticker_Stop_def)

text \<open>After the end of the goroutine nothing ticks: every further step is one of the registry or of the finalizer.\<close>

definition registry_or_final :: "('x, 'p) publish_fun \<Rightarrow> 'p pipeline \<Rightarrow> 'p pipeline \<Rightarrow> bool" where
  "registry_or_final publish p p' \<longleftrightarrow>
     (\<exists>registry. registry_step (pl_registry p) registry \<and> p' = p\<lparr>pl_registry := registry\<rparr>) \<or>
     (\<exists>ctx. p' = fst (FreezeAndInstall publish ctx p))"

lemma ended_step:
  assumes "ticking_step publish s s'" "tk_pc (tg_ticker s) = Tk_Ended" "ticker_inv (tg_ticker s)"
  shows "tk_pc (tg_ticker s') = Tk_Ended" "tg_ticks s' = tg_ticks s"
    "tg_pipeline s' = tg_pipeline s \<or> registry_or_final publish (tg_pipeline s) (tg_pipeline s')"
  using assms by (cases, auto simp: ticker_Start_def ticker_Stop_def ticker_inv_def registry_or_final_def)+

lemma ended_steps:
  assumes "(ticking_step publish)\<^sup>*\<^sup>* s s'" "tk_pc (tg_ticker s) = Tk_Ended" "ticker_inv (tg_ticker s)"
  shows "tk_pc (tg_ticker s') = Tk_Ended \<and> ticker_inv (tg_ticker s') \<and> tg_ticks s' = tg_ticks s \<and>
    (registry_or_final publish)\<^sup>*\<^sup>* (tg_pipeline s) (tg_pipeline s')"
  using assms
proof (induction rule: rtranclp_induct)
  case (step t u)
  then have t: "tk_pc (tg_ticker t) = Tk_Ended" "ticker_inv (tg_ticker t)" "tg_ticks t = tg_ticks s"
    "(registry_or_final publish)\<^sup>*\<^sup>* (tg_pipeline s) (tg_pipeline t)" by simp_all
  with ended_step [OF step.hyps(2) t(1,2)] ticking_step_inv [OF step.hyps(2)] show ?case
    by (auto intro: rtranclp.rtrancl_into_rtrancl)
qed simp

text \<open>Steps of the ticker are steps of the pipeline, or leave it alone.\<close>

lemma ticking_pipeline:
  "ticking_step publish s s' \<Longrightarrow> tg_pipeline s' = tg_pipeline s \<or> pipeline_step publish (tg_pipeline s) (tg_pipeline s')"
  by (induction rule: ticking_step.induct) (auto intro: pipeline_step.intros)

lemma ticking_pipelines:
  "(ticking_step publish)\<^sup>*\<^sup>* s s' \<Longrightarrow> (pipeline_step publish)\<^sup>*\<^sup>* (tg_pipeline s) (tg_pipeline s')"
proof (induction rule: rtranclp_induct)
  case (step t u)
  with ticking_pipeline [OF step.hyps(2)] show ?case by (auto intro: rtranclp.rtrancl_into_rtrancl)
qed simp

text \<open>A cancelled loop stays cancelled, and can end by a step of its own that leaves everything else alone.\<close>

lemma cancelled_steps:
  "(ticking_step publish)\<^sup>*\<^sup>* s s' \<Longrightarrow> tk_cancelled (tg_ticker s) \<Longrightarrow> tk_cancelled (tg_ticker s')"
proof (induction rule: rtranclp_induct)
  case (step t u)
  from step.hyps(2) step.IH [OF step.prems] show ?case
    by cases (auto simp: ticker_Start_def ticker_Stop_def)
qed simp

lemma cancelled_ends:
  assumes "tk_cancelled (tg_ticker s)" "ticker_inv (tg_ticker s)"
  shows "\<exists>s'. (ticking_step publish)\<^sup>*\<^sup>* s s' \<and> s' = s\<lparr>tg_ticker := (tg_ticker s)\<lparr>tk_pc := Tk_Ended\<rparr>\<rparr>"
proof (cases "tk_pc (tg_ticker s)")
  case Tk_None
  with assms show ?thesis by (auto simp: ticker_inv_def)
next
  case Tk_Select
  with assms(1) ticking_step.ended [of s publish] show ?thesis by auto
next
  case Tk_Ended
  then show ?thesis by (intro exI [of _ s]) simp
qed

text \<open>A stop that came before the start has used up the once: nothing cancels the loop any more.\<close>

lemma lost_stop_steps:
  "(ticking_step publish)\<^sup>*\<^sup>* s s' \<Longrightarrow> tk_stopped (tg_ticker s) \<and> \<not> tk_cancelled (tg_ticker s) \<Longrightarrow>
     tk_stopped (tg_ticker s') \<and> \<not> tk_cancelled (tg_ticker s')"
proof (induction rule: rtranclp_induct)
  case (step t u)
  from step.hyps(2) step.IH [OF step.prems] show ?case
    by cases (auto simp: ticker_Start_def ticker_Stop_def)
qed simp

lemma ticking_steps_inv: "(ticking_step publish)\<^sup>*\<^sup>* s s' \<Longrightarrow> ticker_inv (tg_ticker s) \<Longrightarrow> ticker_inv (tg_ticker s')"
  by (induction rule: rtranclp_induct) (auto intro: ticking_step_inv)

lemma NewTicker_inv: "NewTicker interval = Some t \<Longrightarrow> ticker_inv t"
  by (auto simp: NewTicker_def ticker_inv_def split: if_splits)

abbreviation call_Stop :: "'p ticking \<Rightarrow> 'p ticking" where
  "call_Stop s \<equiv> s\<lparr>tg_ticker := ticker_Stop (tg_ticker s)\<rparr>"

text \<open>
  C39: The loop of the publication ticker only takes steps of the managed pipeline, and what stopping it does is exact.
  Once \<^verbatim>\<open>Stop\<close> has returned true, the loop never installs again: from then on the pipeline only changes by the
  registry and by the finalizer, whatever is called in whatever order. When the first \<^verbatim>\<open>Stop\<close> comes after
  \<^verbatim>\<open>Start\<close>, then whatever happens next, the loop can end by its own steps, without an end of the parent context and
  without another tick, and \<^verbatim>\<open>Stop\<close> can then return true. When the first \<^verbatim>\<open>Stop\<close> comes before \<^verbatim>\<open>Start\<close>, it
  is lost: it has used up the once without cancelling anything, so a loop that is started afterwards is cancelled by no
  later \<^verbatim>\<open>Stop\<close>, and none returns true until the parent context is done. The program itself only stops a publisher
  that it has started.
\<close>

theorem ticker_stop_final:
  assumes "NewTicker interval = Some t" "(ticking_step publish)\<^sup>*\<^sup>* \<lparr>tg_ticker = t, tg_pipeline = p, tg_ticks = 0\<rparr> s"
  shows "(pipeline_step publish)\<^sup>*\<^sup>* p (tg_pipeline s) \<and>
    (True \<in> stop_returns expired (tg_ticker s) \<longrightarrow>
      (\<forall>s'. (ticking_step publish)\<^sup>*\<^sup>* s s' \<longrightarrow> tg_ticks s' = tg_ticks s \<and> True \<in> stop_returns expired (tg_ticker s') \<and>
         (registry_or_final publish)\<^sup>*\<^sup>* (tg_pipeline s) (tg_pipeline s'))) \<and>
    (tk_started (tg_ticker s) \<and> \<not> tk_stopped (tg_ticker s) \<longrightarrow>
      (\<forall>s'. (ticking_step publish)\<^sup>*\<^sup>* (call_Stop s) s' \<longrightarrow>
         (\<exists>s''. (ticking_step publish)\<^sup>*\<^sup>* s' s'' \<and> True \<in> stop_returns expired (tg_ticker s'') \<and>
            tg_pipeline s'' = tg_pipeline s' \<and> tg_ticks s'' = tg_ticks s' \<and>
            tk_parent_done (tg_ticker s'') = tk_parent_done (tg_ticker s')))) \<and>
    (\<not> tk_started (tg_ticker s) \<and> \<not> tk_stopped (tg_ticker s) \<longrightarrow>
      (\<forall>s'. (ticking_step publish)\<^sup>*\<^sup>* (call_Stop s) s' \<and> \<not> tk_parent_done (tg_ticker s') \<longrightarrow>
         \<not> tk_cancelled (tg_ticker s') \<and> True \<notin> stop_returns expired (tg_ticker s')))"
proof (intro conjI impI allI)
  have inv: "ticker_inv (tg_ticker s)" using ticking_steps_inv [OF assms(2)] NewTicker_inv [OF assms(1)] by simp
  have stop: "ticker_inv (tg_ticker (call_Stop s))" using ticking_step_inv [OF ticking_step.stop inv] .
  show "(pipeline_step publish)\<^sup>*\<^sup>* p (tg_pipeline s)" using ticking_pipelines [OF assms(2)] by simp
  fix s'
  {
    assume a: "True \<in> stop_returns expired (tg_ticker s)" and st: "(ticking_step publish)\<^sup>*\<^sup>* s s'"
    then have "tk_pc (tg_ticker s) = Tk_Ended" by (simp add: stop_returns_def)
    from ended_steps [OF st this inv]
    show "tg_ticks s' = tg_ticks s" "True \<in> stop_returns expired (tg_ticker s')"
      "(registry_or_final publish)\<^sup>*\<^sup>* (tg_pipeline s) (tg_pipeline s')" by (simp_all add: stop_returns_def)
  next
    assume a: "tk_started (tg_ticker s) \<and> \<not> tk_stopped (tg_ticker s)" and st: "(ticking_step publish)\<^sup>*\<^sup>* (call_Stop s) s'"
    then have "tk_cancelled (tg_ticker s')" by (intro cancelled_steps [OF st]) (simp add: ticker_Stop_def)
    from cancelled_ends [OF this ticking_steps_inv [OF st stop], of publish]
    show "\<exists>s''. (ticking_step publish)\<^sup>*\<^sup>* s' s'' \<and> True \<in> stop_returns expired (tg_ticker s'') \<and>
        tg_pipeline s'' = tg_pipeline s' \<and> tg_ticks s'' = tg_ticks s' \<and>
        tk_parent_done (tg_ticker s'') = tk_parent_done (tg_ticker s')" by (auto simp: stop_returns_def)
  next
    assume a: "\<not> tk_started (tg_ticker s) \<and> \<not> tk_stopped (tg_ticker s)"
      and b: "(ticking_step publish)\<^sup>*\<^sup>* (call_Stop s) s' \<and> \<not> tk_parent_done (tg_ticker s')"
    from a inv have "tk_stopped (tg_ticker (call_Stop s)) \<and> \<not> tk_cancelled (tg_ticker (call_Stop s))"
      by (simp add: ticker_Stop_def ticker_inv_def)
    with lost_stop_steps b show c: "\<not> tk_cancelled (tg_ticker s')" by blast
    with b ticking_steps_inv [OF _ stop] show "True \<notin> stop_returns expired (tg_ticker s')"
      by (auto simp: stop_returns_def ticker_inv_def)
  }
qed

definition demo_ticker :: ticker where
  "demo_ticker = the (NewTicker 1000000000)"

definition demo_ticking :: "ticker \<Rightarrow> Core ticking" where
  "demo_ticking t = \<lparr>tg_ticker = t, tg_pipeline = demo_pipeline, tg_ticks = 0\<rparr>"

lemma demo_ticking_Stop: "call_Stop (demo_ticking t) = demo_ticking (ticker_Stop t)"
  by (simp add: demo_ticking_def)

lemma demo_ticking_steps:
  "ticking_step Publish (demo_ticking t) (demo_ticking (ticker_Start t))"
  "ticking_step Publish (demo_ticking t) (demo_ticking (ticker_Stop t))"
  using ticking_step.start [of Publish "demo_ticking t"] ticking_step.stop [of Publish "demo_ticking t"]
  by (simp_all add: demo_ticking_def)

lemma demo_ticker_new: "NewTicker 1000000000 = Some demo_ticker"
  by (simp add: demo_ticker_def NewTicker_def)

theorem ticker_stop_final_witness:
  "(\<exists>s. (ticking_step Publish)\<^sup>*\<^sup>* (demo_ticking (ticker_Stop (ticker_Start demo_ticker))) s \<and> True \<in> stop_returns False (tg_ticker s) \<and>
      (\<forall>s'. (ticking_step Publish)\<^sup>*\<^sup>* s s' \<longrightarrow> tg_ticks s' = tg_ticks s)) \<and>
   tk_pc (ticker_Stop (ticker_Start (ticker_Stop demo_ticker))) = Tk_Select \<and>
   True \<notin> stop_returns False (ticker_Stop (ticker_Start (ticker_Stop demo_ticker)))"
proof
  have init: "\<lparr>tg_ticker = demo_ticker, tg_pipeline = demo_pipeline, tg_ticks = 0\<rparr> = demo_ticking demo_ticker"
    by (simp add: demo_ticking_def)
  note run = rtranclp.rtrancl_into_rtrancl [where r = "ticking_step Publish"]
  note final = ticker_stop_final [OF demo_ticker_new, where publish = Publish and p = demo_pipeline and expired = False, unfolded init]
  let ?on = "demo_ticking (ticker_Start demo_ticker)"
  have on: "(ticking_step Publish)\<^sup>*\<^sup>* (demo_ticking demo_ticker) ?on" using demo_ticking_steps(1) by (rule r_into_rtranclp)
  have "tk_started (tg_ticker ?on) \<and> \<not> tk_stopped (tg_ticker ?on)"
    by (simp add: demo_ticking_def demo_ticker_def NewTicker_def ticker_Start_def)
  with final [OF on] obtain s where s: "(ticking_step Publish)\<^sup>*\<^sup>* (call_Stop ?on) s" "True \<in> stop_returns False (tg_ticker s)"
    by blast
  then have st: "(ticking_step Publish)\<^sup>*\<^sup>* (demo_ticking (ticker_Stop (ticker_Start demo_ticker))) s" by (simp add: demo_ticking_Stop)
  from rtranclp_trans [OF run [OF on demo_ticking_steps(2)] st] have "(ticking_step Publish)\<^sup>*\<^sup>* (demo_ticking demo_ticker) s" .
  with final s(2) st show "\<exists>s. (ticking_step Publish)\<^sup>*\<^sup>* (demo_ticking (ticker_Stop (ticker_Start demo_ticker))) s \<and>
      True \<in> stop_returns False (tg_ticker s) \<and> (\<forall>s'. (ticking_step Publish)\<^sup>*\<^sup>* s s' \<longrightarrow> tg_ticks s' = tg_ticks s)" by blast
  let ?lost = "ticker_Stop (ticker_Start (ticker_Stop demo_ticker))"
  have "(ticking_step Publish)\<^sup>*\<^sup>* (call_Stop (demo_ticking demo_ticker)) (demo_ticking ?lost)"
    unfolding demo_ticking_Stop by (rule run [OF run [OF rtranclp.rtrancl_refl demo_ticking_steps(1)] demo_ticking_steps(2)])
  moreover have "\<not> tk_started (tg_ticker (demo_ticking demo_ticker)) \<and> \<not> tk_stopped (tg_ticker (demo_ticking demo_ticker))"
    "\<not> tk_parent_done (tg_ticker (demo_ticking ?lost))"
    by (simp_all add: demo_ticking_def demo_ticker_def NewTicker_def ticker_Start_def ticker_Stop_def)
  ultimately have "True \<notin> stop_returns False (tg_ticker (demo_ticking ?lost))"
    using final [OF rtranclp.rtrancl_refl] by blast
  then show "tk_pc ?lost = Tk_Select \<and> True \<notin> stop_returns False ?lost"
    by (simp add: demo_ticking_def demo_ticker_def NewTicker_def ticker_Start_def ticker_Stop_def)
qed

end
