(* ===== verification/Runtime.thy ===== *)
theory Runtime
  imports Snapshot_Parser Config_Properties Workload_Facts Runtime_Observers Listeners Managed_Client
begin

text \<open>
  The runtime as a whole (\<^verbatim>\<open>Run\<close> of \<^verbatim>\<open>internal/cli/run.go\<close>): from the command line to the exit
  code, through configuration, the construction of the components, the workload and the finalization.

  The state is the lifecycle machine with the runtime metrics and the log as the state of its observer, the
  shutdown plan, and whether admission of ingestion was closed. What the operating system, the clock and
  the other goroutines contribute is the environment: whether descriptors, addresses and sockets are
  available, the events of the workload, the components as they stand when the workload has ended, how the
  final wait ended, and what was done meanwhile to metrics and log. The debug view, the listeners and the
  deferred closing of servers have no effect on these and are left out.
\<close>

section \<open>State\<close>

type_synonym runtime_world = "self_registry \<times> Logger"

record runtime =
  rt_machine :: "(runtime_world, unit) machine"
  rt_world :: runtime_world
  rt_plan :: "Plan option"
  rt_admission_closed :: bool
  rt_publisher_started :: bool

text \<open>
  What the operating system answers before the workload starts, the text of the error a configuration is
  rejected with, and the order in which the parser ranges over labels.
\<close>

record boot_env =
  be_nofile :: "nat option"
  be_binds :: bool
  be_ingests :: bool
  be_resolve :: "string \<Rightarrow> bool list option"
  be_error_text :: string
  be_order :: "InputLabel list \<Rightarrow> InputLabel list"

abbreviation runtime_state :: "runtime \<Rightarrow> state" where
  "runtime_state rt \<equiv> machine_state (rt_machine rt)"

definition ExitSuccess :: int where "ExitSuccess = 0"
definition ExitConfigurationInvalid :: int where "ExitConfigurationInvalid = 64"
definition ExitConfigurationRejected :: int where "ExitConfigurationRejected = 70"
definition ExitResourceUnavailable :: int where "ExitResourceUnavailable = 71"
definition ExitEndpointBindFailed :: int where "ExitEndpointBindFailed = 72"

text \<open>The observer of the machine: the state metric, then the log.\<close>

definition state_observer :: "(runtime_world, unit) observer" where
  "state_observer ch w =
     (case SetRuntimeState (state_string (Current ch)) (fst w) of
        Inl _ \<Rightarrow> (w, Some ())
      | Inr m \<Rightarrow>
          (case WriteStateChanged (case Previous ch of None \<Rightarrow> [] | Some s \<Rightarrow> state_string s) (state_string (Current ch)) (snd w) of
             (l, ok) \<Rightarrow> ((m, l), if ok then None else Some ())))"

text \<open>A transition, an update of the metrics and a record of the log, each with whether it succeeded.\<close>

definition transit :: "event \<Rightarrow> runtime \<Rightarrow> runtime \<times> bool" where
  "transit ev rt =
     (case TransitionEvent (rt_machine rt) ev (rt_world rt) of
        (m, w, err) \<Rightarrow> (rt\<lparr>rt_machine := m, rt_world := w\<rparr>, err = None))"

definition metering :: "(self_registry \<Rightarrow> self_error + self_registry) \<Rightarrow> runtime \<Rightarrow> runtime \<times> bool" where
  "metering f rt =
     (case f (fst (rt_world rt)) of
        Inl _ \<Rightarrow> (rt, False)
      | Inr m \<Rightarrow> (rt\<lparr>rt_world := (m, snd (rt_world rt))\<rparr>, True))"

definition report :: "(Logger \<Rightarrow> Logger \<times> bool) \<Rightarrow> runtime \<Rightarrow> runtime \<times> bool" where
  "report f rt = (case f (snd (rt_world rt)) of (l, ok) \<Rightarrow> (rt\<lparr>rt_world := (fst (rt_world rt), l)\<rparr>, ok))"

definition ignoring :: "(runtime \<Rightarrow> runtime \<times> bool) \<Rightarrow> runtime \<Rightarrow> runtime" where
  "ignoring f rt = fst (f rt)"

definition state_text :: "runtime \<Rightarrow> string" where
  "state_text rt = state_string (runtime_state rt)"

definition count_failure :: "string \<Rightarrow> runtime \<Rightarrow> runtime \<times> bool" where
  "count_failure reason = metering (AddCounter RuntimeFailuresTotal [(''reason'', reason)] 1)"

section \<open>Ending\<close>

definition rejectConfiguration :: "string \<Rightarrow> runtime \<Rightarrow> runtime \<times> int" where
  "rejectConfiguration message rt =
     (let rt = ignoring (report (WriteConfigurationRejected message)) (ignoring (count_failure ''configuration'') rt);
          rt = (if runtime_state rt = Initializing
                then ignoring (transit CleanupCompleted) (ignoring (transit InitializationFailed) rt) else rt)
      in (rt, ExitConfigurationInvalid))"

definition failLifecycle :: "runtime \<Rightarrow> runtime \<times> int" where
  "failLifecycle rt =
     (let rt = (if runtime_state rt \<noteq> Failed then ignoring (transit RuntimeFailed) rt else rt);
          rt = ignoring (transit CleanupCompleted) (ignoring (report WriteRuntimeFailed) rt)
      in (rt, ExitInternalFailure))"

text \<open>Where a function of the source goes on or returns an exit code.\<close>

datatype 'a going = Goes 'a | Exits runtime int

fun and_go :: "'a going \<Rightarrow> ('a \<Rightarrow> 'b going) \<Rightarrow> 'b going" where
  "and_go (Goes a) f = f a"
| "and_go (Exits rt code) f = Exits rt code"

definition or_fail :: "runtime \<times> bool \<Rightarrow> runtime going" where
  "or_fail r = (case r of (rt, ok) \<Rightarrow> if ok then Goes rt else (case failLifecycle rt of (rt, code) \<Rightarrow> Exits rt code))"

definition or_reject :: "boot_env \<Rightarrow> runtime \<Rightarrow> 'a option \<Rightarrow> 'a going" where
  "or_reject env rt x =
     (case x of Some a \<Rightarrow> Goes a | None \<Rightarrow> (case rejectConfiguration (be_error_text env) rt of (rt, code) \<Rightarrow> Exits rt code))"

section \<open>Components\<close>

record components =
  cp_owner :: "Owner option"
  cp_core :: Core
  cp_handler :: Handler

definition result_option :: "'e + 'a \<Rightarrow> 'a option" where
  "result_option r = (case r of Inl _ \<Rightarrow> None | Inr a \<Rightarrow> Some a)"

definition bootstrapManagedRegistry :: "config_mode \<Rightarrow> managed_limits \<Rightarrow> managed_reason + Registry option" where
  "bootstrapManagedRegistry mode limits =
     (if mode \<noteq> ModeManagedRegistry then Inr None else and_then (NewRegistryWithLimits limits) (\<lambda>r. Inr (Some r)))"

text \<open>\<^verbatim>\<open>managedpublish.New\<close>; the other constructors of the managed pipeline only refuse missing dependencies.\<close>

definition publisher_accepts :: "int \<Rightarrow> bool" where
  "publisher_accepts interval \<longleftrightarrow> NewTicker interval \<noteq> None"

fun wait_mode_text :: "wait_mode \<Rightarrow> string" where
  "wait_mode_text Immediate = ''immediate''"
| "wait_mode_text Duration = ''duration''"
| "wait_mode_text Scrapes = ''scrapes''"
| "wait_mode_text OtherMode = []"

text \<open>The parser of \<^verbatim>\<open>ingestion.New\<close>: every error of \<^verbatim>\<open>snapshot.Parse\<close> carries a reason.\<close>

definition snapshot_parser :: "(InputLabel list \<Rightarrow> InputLabel list) \<Rightarrow> Parser" where
  "snapshot_parser order content lm = (case Parse order content lm of Inl r \<Rightarrow> Inl (Rejection r) | Inr v \<Rightarrow> Inr v)"

definition build_owner :: "boot_env \<Rightarrow> Config \<Rightarrow> runtime \<Rightarrow> (Owner option \<times> runtime) going" where
  "build_owner env c rt =
     and_go (or_reject env rt (result_option (bootstrapManagedRegistry (cg_mode c) (mg_limits (cg_managed c))))) (\<lambda>registry.
     case registry of
       None \<Rightarrow> Goes (None, rt)
     | Some registry \<Rightarrow>
         and_go (or_reject env rt (result_option (NewOwner registry (mg_queue_capacity (cg_managed c))))) (\<lambda>owner.
           let ob = observer_Initialize owner \<lparr>mv_metrics = fst (rt_world rt), mv_logger = snd (rt_world rt), mv_connections = 0\<rparr>
           in Goes (Some owner, rt\<lparr>rt_world := (mv_metrics ob, mv_logger ob)\<rparr>)))"

definition build_handler :: "boot_env \<Rightarrow> Config \<Rightarrow> Owner option \<Rightarrow> Core \<Rightarrow> runtime \<Rightarrow> (components \<times> runtime) going" where
  "build_handler env c owner core rt =
     and_go (or_reject env rt (result_option (NewHandler (cg_exposition c) (fst (rt_world rt))))) (\<lambda>handler.
       Goes (\<lparr>cp_owner = owner, cp_core = core, cp_handler = handler\<rparr>,
         rt\<lparr>rt_world := (ha_metrics handler, snd (rt_world rt))\<rparr>))"

definition build_core :: "boot_env \<Rightarrow> Config \<Rightarrow> Owner option \<Rightarrow> runtime \<Rightarrow> (components \<times> runtime) going" where
  "build_core env c owner rt =
     and_go (or_reject env rt
         (NewWithParser (NewHolder Zero) (ig_limits (cg_ingestion c)) (ig_concurrent (cg_ingestion c)) (ig_pending (cg_ingestion c))
            (snapshot_parser (be_order env)))) (\<lambda>core.
     and_go (or_reject env rt
         (if owner \<noteq> None \<and> \<not> publisher_accepts (mg_publish_interval (cg_managed c)) then None else Some ())) (\<lambda>_.
       build_handler env c owner core rt))"

definition build :: "boot_env \<Rightarrow> Config \<Rightarrow> runtime \<Rightarrow> (components \<times> runtime) going" where
  "build env c rt =
     and_go (build_owner env c rt) (\<lambda>(owner, rt).
     and_go (or_fail (metering (SetFinalWaitMode (wait_mode_text (wc_mode (cg_final_wait c)))) rt)) (\<lambda>rt.
     and_go (or_fail (metering (SetGauge FinalWaitRequiredScrapes [] (f64_of_int (wc_required_scrapes (cg_final_wait c)))) rt))
       (build_core env c owner)))"

section \<open>Start\<close>

definition managed_server_config :: "Config \<Rightarrow> server_config" where
  "managed_server_config c =
     \<lparr>sc_path = mg_socket_path (cg_managed c), sc_mode = mg_socket_mode (cg_managed c), sc_connections = mg_connections (cg_managed c),
      sc_frame_bytes = mg_frame_bytes (cg_managed c), sc_read_timeout = mg_read_timeout (cg_managed c),
      sc_write_timeout = mg_write_timeout (cg_managed c)\<rparr>"

definition hasNoFile :: "nat option \<Rightarrow> int \<Rightarrow> bool" where
  "hasNoFile soft required = (case soft of None \<Rightarrow> False | Some n \<Rightarrow> int n \<ge> required)"

definition ensurePrivateParent :: "string \<Rightarrow> bool" where
  "ensurePrivateParent path \<longleftrightarrow> has_prefix path ''/''"

text \<open>\<^verbatim>\<open>startIngestion\<close> and \<^verbatim>\<open>startConfiguredIngestion\<close>: what they check before the operating system.\<close>

definition startIngestion :: "(string \<Rightarrow> bool list option) \<Rightarrow> IngestionConfig \<Rightarrow> bool" where
  "startIngestion addresses i =
     (if ig_transport i = ''file'' then ensurePrivateParent (fc_path (ig_file i)) \<and> New_Reconciler (ig_file i) \<noteq> None
      else if ig_transport i = ''unix'' then ensurePrivateParent (ig_unix_socket_path i) \<and> socket_Listen True (ig_unix_socket_path i) (ig_socket i) \<noteq> None
      else if ig_transport i = ''http'' then ingest_validate (ig_http i) \<and> ingest_server_ok addresses (ig_http_listen i) (ig_http i)
      else False)"

definition startConfiguredIngestion :: "(string \<Rightarrow> bool list option) \<Rightarrow> Config \<Rightarrow> bool" where
  "startConfiguredIngestion addresses c =
     (if cg_mode c = ModeManagedRegistry then managed_listen (managed_server_config c) \<noteq> None
      else startIngestion addresses (cg_ingestion c))"

definition resource_failure :: "string \<Rightarrow> (string \<Rightarrow> Logger \<Rightarrow> Logger \<times> bool) \<Rightarrow> int \<Rightarrow> runtime \<Rightarrow> 'a going" where
  "resource_failure reason record code rt =
     (let rt = ignoring (count_failure reason) rt;
          rt = ignoring (report (record (state_text rt))) rt;
          rt = ignoring (transit CleanupCompleted) (ignoring (transit RuntimeFailed) rt)
      in Exits rt code)"

definition start :: "boot_env \<Rightarrow> Config \<Rightarrow> runtime \<Rightarrow> runtime going" where
  "start env c rt =
     (if \<not> hasNoFile (be_nofile env) (RequiredNoFile c) then
        resource_failure ''resource'' (WriteResourceUnavailable ''nofile'') ExitResourceUnavailable rt
      else if \<not> be_binds env then
        resource_failure ''bind'' (WriteEndpointBindFailed ''exposition'') ExitEndpointBindFailed rt
      else if \<not> (startConfiguredIngestion (be_resolve env) c \<and> be_ingests env) then
        resource_failure ''bind'' (WriteEndpointBindFailed ''ingestion'') ExitEndpointBindFailed rt
      else
        and_go (or_fail (report (WriteEndpointBound ''exposition'' (state_text rt)) rt)) (\<lambda>rt.
        and_go (or_fail (report (WriteEndpointBound ''ingestion'' (state_text rt)) rt)) (\<lambda>rt.
          or_fail (transit ConfigurationValidated rt))))"

section \<open>The observers of the workload\<close>

definition close_admission :: "runtime \<Rightarrow> runtime" where
  "close_admission rt = rt\<lparr>rt_admission_closed := True\<rparr>"

definition on_started :: "bool \<Rightarrow> int \<Rightarrow> int \<Rightarrow> runtime notification" where
  "on_started managed pid pgid rt =
     if_ok (transit WorkloadStarted rt) (\<lambda>rt.
     if_ok (metering (SetWorkload pid True) (if managed then rt\<lparr>rt_publisher_started := True\<rparr> else rt)) (\<lambda>rt.
     if_ok (metering (AddCounter WorkloadStartsTotal [(''outcome'', ''started'')] 1) rt)
       (report (WriteWorkloadStarted pid pgid))))"

definition on_primary_exited :: "int \<Rightarrow> bool \<Rightarrow> runtime notification" where
  "on_primary_exited code forced rt =
     if_ok (transit WorkloadExited rt) (\<lambda>rt.
     if_ok (metering (SetWorkload 0 False) (close_admission rt)) (\<lambda>rt.
     if_ok (metering (SetWorkloadExitCode code) rt)
       (report (WriteWorkloadExited code forced))))"

definition on_child_reaped :: "string \<Rightarrow> runtime notification" where
  "on_child_reaped kind rt =
     if_ok (metering (AddCounter ChildrenReapedTotal [(''kind'', kind)] 1) rt) (\<lambda>rt. report (WriteChildReaped kind (state_text rt)) rt)"

definition on_failed :: "runtime notification" where
  "on_failed rt =
     if_ok (if runtime_state rt \<noteq> Failed then transit RuntimeFailed rt else (rt, True)) (\<lambda>rt.
     if_ok (count_failure ''internal'' rt) (report WriteRuntimeFailed))"

definition on_shutdown :: "string \<Rightarrow> Plan \<Rightarrow> runtime notification" where
  "on_shutdown signal plan rt =
     if_ok (transit TerminationAfterSpawn (rt\<lparr>rt_plan := Some plan\<rparr>)) (\<lambda>rt.
     if_ok (metering (SetGauge ShutdownActive [] f64_one) (close_admission rt)) (\<lambda>rt.
     if_ok (metering (SetGauge ShutdownDeadline [] (unix_seconds (bp_deadline plan))) rt)
       (report (WriteShutdownStarted signal (bp_deadline plan) (Remaining plan (bp_started_at plan))))))"

definition on_forced :: "string \<Rightarrow> int \<Rightarrow> runtime notification" where
  "on_forced signal pgid rt =
     if_ok (metering (AddCounter WorkloadForcedTotal [] 1) rt) (report (WriteShutdownForced signal pgid))"

definition on_signal :: "SignalEvent \<Rightarrow> runtime notification" where
  "on_signal event rt =
     (case se_outcome event of
        SignalForwarded \<Rightarrow>
          if_ok (metering (AddCounter WorkloadSignalsTotal [(''signal'', se_name event), (''target'', ''process_group'')] 1) rt)
            (\<lambda>rt. report (WriteSignalForwarded (se_name event) (state_text rt) (se_group event)) rt)
      | SignalIgnored \<Rightarrow> report (WriteSignalIgnored (se_name event) (se_reason event) (se_group event)) rt
      | SignalFailed \<Rightarrow> report (WriteSignalFailed (se_name event) (se_group event)) rt)"

definition runtime_observers :: "bool \<Rightarrow> runtime Observers" where
  "runtime_observers managed =
     \<lparr>ob_started = on_started managed, ob_signal = on_signal, ob_shutdown = on_shutdown, ob_forced = on_forced,
      ob_primary_exited = on_primary_exited, ob_child_reaped = on_child_reaped, ob_failed = on_failed\<rparr>"

section \<open>After the workload\<close>

text \<open>
  What the rest of the program contributes from the end of the workload on: the time, the metrics and the log as
  the other goroutines left them, the managed pipeline or the core, whether the publication loop stops, how the
  contexts of a given deadline end, the responses of the final wait and the reason it ended with.
\<close>

record finish_env =
  fe_meanwhile :: "runtime_world \<Rightarrow> runtime_world"
  fe_now :: int
  fe_publisher_stops :: "int \<Rightarrow> bool"
  fe_context :: "int \<Rightarrow> publish_ctx"
  fe_managed :: "Core pipeline option"
  fe_core :: Core
  fe_wait_started :: int
  fe_responses :: "FinalResponse list"
  fe_waiter :: "Waiter \<Rightarrow> Waiter"
  fe_reason :: wait_reason
  fe_terminated :: bool
  fe_wait_ended :: int

definition finalWaitDeadline :: "wait_config \<Rightarrow> int \<Rightarrow> int option" where
  "finalWaitDeadline cfg started =
     (case wc_mode cfg of
        Duration \<Rightarrow> Some (started + wc_duration cfg)
      | Scrapes \<Rightarrow> Some (started + wc_timeout cfg)
      | _ \<Rightarrow> None)"

definition startFinalWaitObservability :: "wait_config \<Rightarrow> state \<Rightarrow> int \<Rightarrow> runtime notification" where
  "startFinalWaitObservability cfg st started rt =
     if_ok (if wc_mode cfg \<noteq> Immediate then metering (SetGauge FinalWaitActive [] f64_one) rt else (rt, True)) (\<lambda>rt.
     if_ok (metering (SetGauge FinalWaitCompletedScrapes [] f64_zero) rt) (\<lambda>rt.
     if_ok (case finalWaitDeadline cfg started of
              None \<Rightarrow> (rt, True)
            | Some d \<Rightarrow> metering (SetGauge FinalWaitDeadline [] (unix_seconds d)) rt)
       (report (WriteFinalWaitStarted (wait_mode_text (wc_mode cfg)) (state_string st) (finalWaitDeadline cfg started)))))"

fun final_outcome_string :: "FinalOutcome \<Rightarrow> string" where
  "final_outcome_string FinalCompleted = ''completed''"
| "final_outcome_string FinalIneligible = ''ineligible''"
| "final_outcome_string FinalWriteError = ''write_error''"
| "final_outcome_string FinalCancelled = ''cancelled''"

definition observeFinalResponse :: "FinalResponse \<Rightarrow> runtime \<Rightarrow> runtime" where
  "observeFinalResponse response rt =
     (let rt = ignoring (metering (AddCounter FinalScrapeAttemptsTotal [(''outcome'', final_outcome_string (FinalResponse.fr_outcome response))] 1)) rt in
      if FinalResponse.fr_counted response then
        ignoring (report (WriteFinalScrapeCounted (FinalResponse.fr_request response) (FinalResponse.fr_generation response)))
          (ignoring (metering (SetGauge FinalWaitCompletedScrapes [] (f64_of_int (FinalResponse.fr_completed response)))) rt)
      else ignoring (report (WriteFinalScrapeNotCounted (FinalResponse.fr_request response) (final_outcome_string (FinalResponse.fr_outcome response)))) rt)"

definition completeFinalWaitObservability :: "wait_result \<Rightarrow> state \<Rightarrow> int \<Rightarrow> runtime notification" where
  "completeFinalWaitObservability result st duration rt =
     if_ok (metering (SetGauge FinalWaitActive [] f64_zero) rt) (\<lambda>rt.
     if_ok (metering (SetGauge FinalWaitDeadline [] f64_zero) rt) (\<lambda>rt.
     if_ok (metering (SetGauge FinalWaitCompletedScrapes [] (f64_of_int (wr_completed result))) rt) (\<lambda>rt.
     if_ok (metering (AddCounter FinalWaitCompletionsTotal [(''reason'', wait_reason_string (wr_reason result))] 1) rt)
       (report (WriteFinalWaitCompleted (wait_reason_string (wr_reason result)) (state_string st) duration)))))"

definition finalizationContext :: "Config \<Rightarrow> Plan option \<Rightarrow> int \<Rightarrow> int" where
  "finalizationContext c plan now =
     (let fallback = now + wc_timeout (cg_final_wait c) in
      case plan of
        None \<Rightarrow> fallback
      | Some plan \<Rightarrow>
          (case PhaseDeadline plan (phase_string Finalization) (bp_reserve plan) now of Inl _ \<Rightarrow> fallback | Inr deadline \<Rightarrow> deadline))"

text \<open>The frozen final generation; no result when the publication loop does not stop or the final publication is not accepted.\<close>

definition final_snapshot :: "finish_env \<Rightarrow> Config \<Rightarrow> Plan option \<Rightarrow> ActiveSnapshot option" where
  "final_snapshot fin c plan =
     (let deadline = finalizationContext c plan (fe_now fin);
          frozen = (\<lambda>core. case snd (CloseAndFreeze core) of None \<Rightarrow> NewActive Zero 0 | Some a \<Rightarrow> a) in
      case fe_managed fin of
        None \<Rightarrow> Some (frozen (fe_core fin))
      | Some pipeline \<Rightarrow>
          if \<not> fe_publisher_stops fin deadline then None
          else
            (case FreezeAndInstall Publish (fe_context fin deadline) pipeline of
               (pipeline, result, _) \<Rightarrow>
                 (case fr_install result of
                    Inl _ \<Rightarrow> None
                  | Inr install \<Rightarrow>
                      if r_outcome (bres_core install) = Accepted then Some (frozen (pl_core pipeline)) else None)))"

text \<open>The two ways of waiting; both give whether the wait ended without an error.\<close>

definition failed_wait :: "uint64 \<Rightarrow> wait_result" where
  "failed_wait generation = \<lparr>wr_reason = ReasonRuntimeFailure, wr_generation = generation, wr_completed = 0, wr_deadline = None\<rparr>"

definition immediate_wait :: "finish_env \<Rightarrow> wait_config \<Rightarrow> Waiter \<Rightarrow> runtime notification" where
  "immediate_wait fin cfg waiter rt =
     if_ok (startFinalWaitObservability cfg Finalizing (fe_wait_started fin) rt) (\<lambda>rt.
     case wait_start False (fe_wait_started fin) waiter of
       Inl _ \<Rightarrow>
         (ignoring (completeFinalWaitObservability (failed_wait (wt_generation waiter)) Finalizing
            (time_sub (fe_wait_ended fin) (fe_wait_started fin))) rt, False)
     | Inr waiter \<Rightarrow>
         if_ok (completeFinalWaitObservability
             (snd (wait_finish (if fe_terminated fin then ReasonExternalTermination else ReasonImmediate) waiter)) Finalizing
             (time_sub (fe_wait_ended fin) (fe_wait_started fin)) rt)
           (transit FinalizationImmediate))"

definition served_wait :: "finish_env \<Rightarrow> wait_config \<Rightarrow> Waiter \<Rightarrow> runtime notification" where
  "served_wait fin cfg waiter rt =
     (case if_ok (transit FinalizationWait rt) (startFinalWaitObservability cfg FinalWait (fe_wait_started fin)) of
        (rt, ok) \<Rightarrow>
          (case wait_start (\<not> ok) (fe_wait_started fin) waiter of
             Inl _ \<Rightarrow>
               (ignoring (completeFinalWaitObservability (failed_wait (wt_generation waiter)) (runtime_state rt)
                  (time_sub (fe_wait_ended fin) (fe_wait_started fin))) rt, False)
           | Inr waiter \<Rightarrow>
               if_ok (completeFinalWaitObservability (snd (wait_finish (fe_reason fin) (fe_waiter fin waiter))) FinalWait
                   (time_sub (fe_wait_ended fin) (fe_wait_started fin)) (fold observeFinalResponse (fe_responses fin) rt))
                 (transit FinalWaitCompleted)))"

definition final_wait :: "finish_env \<Rightarrow> wait_config \<Rightarrow> uint64 \<Rightarrow> runtime notification" where
  "final_wait fin cfg generation rt =
     (case newWaiter cfg generation of
        None \<Rightarrow> (rt, False)
      | Some waiter \<Rightarrow> if wc_mode cfg = Immediate then immediate_wait fin cfg waiter rt else served_wait fin cfg waiter rt)"

definition finalization :: "finish_env \<Rightarrow> Config \<Rightarrow> runtime \<Rightarrow> runtime going" where
  "finalization fin c rt =
     (case final_snapshot fin c (rt_plan rt) of
        None \<Rightarrow> or_fail (close_admission rt, False)
      | Some final \<Rightarrow>
          (let rt = ignoring (metering (SetActiveSnapshot final)) (close_admission rt) in
           or_fail (if rt_plan rt \<noteq> None then transit FinalizationImmediate rt
                    else final_wait fin (cg_final_wait c) (a_generation final) rt)))"

text \<open>\<^verbatim>\<open>Duration.Seconds\<close>\<close>

definition duration_seconds :: "int \<Rightarrow> float64" where
  "duration_seconds d =
     (if d \<ge> 0 then seconds d else case seconds (- d) of Fin _ m e \<Rightarrow> Fin True m e | x \<Rightarrow> x)"

definition report_shutdown :: "finish_env \<Rightarrow> workload_result \<Rightarrow> runtime \<Rightarrow> runtime going" where
  "report_shutdown fin result rt =
     (case rt_plan rt of
        Some plan \<Rightarrow>
          if wl_started result \<and> runtime_state rt = Finalizing then
            (let duration = time_sub (fe_now fin) (bp_started_at plan) in
             and_go (or_fail (metering (Observe ShutdownPhaseDuration [(''phase'', ''total'')] (duration_seconds duration)) rt)) (\<lambda>rt.
               or_fail (report (WriteShutdownCompleted (wl_exit_code result) duration) rt)))
          else Goes rt
      | None \<Rightarrow> Goes rt)"

definition report_start_failed :: "workload_result \<Rightarrow> runtime \<Rightarrow> runtime going" where
  "report_start_failed result rt =
     (if \<not> wl_start_failed result then Goes rt
      else
        and_go (or_fail (metering (AddCounter WorkloadStartsTotal [(''outcome'', ''start_failed'')] 1) rt)) (\<lambda>rt.
        and_go (or_fail (count_failure ''workload_start'' rt)) (\<lambda>rt.
        and_go (or_fail (transit WorkloadStartFailed rt)) (\<lambda>rt.
          case report WriteWorkloadStartFailed rt of
            (rt, True) \<Rightarrow> Goes rt
          | (rt, False) \<Rightarrow> Exits rt ExitInternalFailure))))"

definition finish :: "finish_env \<Rightarrow> Config \<Rightarrow> workload_result \<Rightarrow> runtime \<Rightarrow> runtime going" where
  "finish fin c result rt =
     and_go (report_shutdown fin result (rt\<lparr>rt_world := fe_meanwhile fin (rt_world rt)\<rparr>)) (\<lambda>rt.
     and_go (report_start_failed result rt) (\<lambda>rt.
     and_go (if wl_started result \<and> runtime_state rt = Finalizing then finalization fin c rt
             else if \<not> wl_started result \<and> \<not> wl_start_failed result \<and> runtime_state rt = StartingWorkload
               then or_fail (transit TerminationBeforeSpawn rt)
             else Goes rt) (\<lambda>rt.
       Exits (if runtime_state rt = Failed then ignoring (transit CleanupCompleted) rt else rt) (wl_exit_code result))))"

section \<open>Run\<close>

record workload_env =
  we_subreaper :: bool
  we_waiting :: "received_signal list"
  we_start :: "int option"
  we_events :: "loop_event list"
  we_clean :: "cleanup_event list"

text \<open>What happens from a state that has the configuration; \<open>None\<close> while the workload runs.\<close>

fun settled :: "runtime going \<Rightarrow> (runtime \<times> int) option" where
  "settled (Goes rt) = None"
| "settled (Exits rt code) = Some (rt, code)"

definition supervised_run :: "workload_env \<Rightarrow> finish_env \<Rightarrow> Config \<Rightarrow> runtime \<Rightarrow> (runtime \<times> int) option" where
  "supervised_run wl fin c rt =
     (case workload_run (runtime_observers (cg_mode c = ModeManagedRegistry)) (cg_shutdown c) (we_subreaper wl) (we_waiting wl) (we_start wl)
        (we_events wl) (we_clean wl) rt of
        (rt, None) \<Rightarrow> None
      | (rt, Some result) \<Rightarrow> settled (finish fin c result rt))"

definition run_configured :: "boot_env \<Rightarrow> workload_env \<Rightarrow> finish_env \<Rightarrow> Config \<Rightarrow> runtime \<Rightarrow> (runtime \<times> int) option" where
  "run_configured env wl fin c rt =
     (case and_go (build env c rt) (\<lambda>(_, rt). start env c rt) of
        Exits rt code \<Rightarrow> Some (rt, code)
      | Goes rt \<Rightarrow> supervised_run wl fin c rt)"

text \<open>The branch of a configuration that was not accepted.\<close>

definition run_rejected :: "string \<Rightarrow> runtime \<Rightarrow> runtime \<times> int" where
  "run_rejected message rt =
     (case report (WriteConfigurationRejected message) (ignoring (count_failure ''configuration'') rt) of
        (rt, False) \<Rightarrow> (rt, ExitConfigurationRejected)
      | (rt, True) \<Rightarrow>
          (case transit InitializationFailed rt of
             (rt, True) \<Rightarrow> (ignoring (transit CleanupCompleted) rt, ExitConfigurationInvalid)
           | (rt, False) \<Rightarrow> (rt, ExitConfigurationInvalid)))"

text \<open>
  The runtime is up once the log, the metrics and the machine exist; before that a failure ends the program with no
  machine.
\<close>

definition boot :: "string \<Rightarrow> string \<Rightarrow> int \<Rightarrow> int \<Rightarrow> Logger \<Rightarrow> runtime option" where
  "boot version revision pid now logger =
     (case WriteRuntimeInitializing pid logger of
        (logger, False) \<Rightarrow> None
      | (logger, True) \<Rightarrow>
          (case NewSelfRegistry version revision ''immediate'' now of
             Inl _ \<Rightarrow> None
           | Inr metrics \<Rightarrow>
               (case New (Some state_observer) (metrics, logger) of
                  (_, Inl _) \<Rightarrow> None
                | (w, Inr machine) \<Rightarrow>
                    Some \<lparr>rt_machine = machine, rt_world = w, rt_plan = None, rt_admission_closed = False, rt_publisher_started = False\<rparr>)))"

definition run_runtime ::
  "boot_env \<Rightarrow> workload_env \<Rightarrow> finish_env \<Rightarrow> (string \<Rightarrow> int option option) \<Rightarrow> environment \<Rightarrow> int \<Rightarrow> string list \<Rightarrow>
     runtime \<Rightarrow> (runtime \<times> int) option" where
  "run_runtime env wl fin timestamp lookup now args rt =
     (case config_Parse timestamp args now lookup of
        Inr c \<Rightarrow> run_configured env wl fin c rt
      | Inl _ \<Rightarrow> Some (run_rejected (be_error_text env) rt))"

text \<open>
  The whole command: the managed client, the two informative flags, and the runtime. The result is the exit code,
  \<open>None\<close> while the client or the workload has not ended.
\<close>

definition Run ::
  "(client_config \<Rightarrow> bytes \<Rightarrow> network) \<Rightarrow> bool \<Rightarrow> string \<Rightarrow> string \<Rightarrow> int \<Rightarrow> Logger \<Rightarrow> boot_env \<Rightarrow> workload_env \<Rightarrow> finish_env \<Rightarrow>
     (string \<Rightarrow> int option option) \<Rightarrow> environment \<Rightarrow> int \<Rightarrow> string list \<Rightarrow> int option" where
  "Run net stdout_takes version revision pid logger env wl fin timestamp lookup now args =
     (if args \<noteq> [] \<and> hd args = ''managed'' then map_option fst (RunCLI net lookup (tl args))
      else if args = [''--version''] \<or> args = [''--help''] \<or> args = [''-h''] then
        Some (if stdout_takes then ExitSuccess else ExitInternalFailure)
      else
        (case boot version revision pid now logger of
           None \<Rightarrow> Some ExitInternalFailure
         | Some rt \<Rightarrow> map_option snd (run_runtime env wl fin timestamp lookup now args rt)))"

end
