(* ===== verification/Runtime_Facts.thy ===== *)
theory Runtime_Facts
  imports Runtime
begin

text \<open>
  The runtime as a whole: every way out of \<^verbatim>\<open>Run\<close> with its exit code and the state of the machine, and that
  a configuration the parser accepted is not rejected by a component built from it.
\<close>

section \<open>The machine\<close>

named_theorems same_state

lemma transit_state:
  "runtime_state (fst (transit ev rt)) =
     (case targets (runtime_state rt) ev of [] \<Rightarrow> runtime_state rt | t # _ \<Rightarrow> t)"
  by (cases rule: TransitionEvent_cases [of "rt_machine rt" ev "rt_world rt"]) (simp_all add: transit_def)

lemma transit_ok: "snd (transit ev rt) \<Longrightarrow> targets (runtime_state rt) ev \<noteq> []"
  by (cases rule: TransitionEvent_cases [of "rt_machine rt" ev "rt_world rt"]) (auto simp: transit_def)

lemma metering_state [same_state]: "runtime_state (fst (metering f rt)) = runtime_state rt"
  by (simp add: metering_def split: sum.split)

lemma report_state [same_state]: "runtime_state (fst (report f rt)) = runtime_state rt"
  by (simp add: report_def split: prod.split)

lemma count_failure_state [same_state]: "runtime_state (fst (count_failure reason rt)) = runtime_state rt"
  by (simp add: count_failure_def same_state)

lemma close_admission_state [same_state]: "runtime_state (close_admission rt) = runtime_state rt"
  by (simp add: close_admission_def)

lemma if_ok_state:
  "(\<And>s. runtime_state (fst (f s)) = runtime_state s) \<Longrightarrow> runtime_state (fst (if_ok r f)) = runtime_state (fst r)"
  by (cases r) (simp add: if_ok_def)

lemma reject_ends: "runtime_state rt = Initializing \<Longrightarrow> runtime_state (fst (rejectConfiguration message rt)) = Terminated"
  by (simp add: rejectConfiguration_def Let_def ignoring_def transit_state same_state targets_eval)

lemma reject_code: "snd (rejectConfiguration message rt) = ExitConfigurationInvalid"
  by (simp add: rejectConfiguration_def Let_def)

lemma fail_ends: "runtime_state (fst (failLifecycle rt)) = Terminated" "snd (failLifecycle rt) = ExitInternalFailure"
  by (cases "runtime_state rt"; simp add: failLifecycle_def Let_def ignoring_def transit_state same_state targets_eval)+

section \<open>Ways out\<close>

text \<open>What a part of the run leaves behind: the state it goes on in, or the code and the state it exits with.\<close>

definition ways :: "('a \<Rightarrow> bool) \<Rightarrow> int set \<Rightarrow> 'a going \<Rightarrow> bool" where
  "ways P codes g = (case g of Goes a \<Rightarrow> P a | Exits rt code \<Rightarrow> code \<in> codes \<and> (runtime_state rt = Terminated \<or> code = ExitInternalFailure))"

lemma ways_or_fail: "(snd r \<Longrightarrow> P (fst r)) \<Longrightarrow> ExitInternalFailure \<in> codes \<Longrightarrow> ways P codes (or_fail r)"
  by (cases r) (auto simp: ways_def or_fail_def fail_ends split: prod.split dest: arg_cong [where f = snd])

lemma ways_and_go: "ways Q codes g \<Longrightarrow> (\<And>rt. Q rt \<Longrightarrow> ways P codes (f rt)) \<Longrightarrow> ways P codes (and_go g f)"
  by (cases g) (auto simp: ways_def)

lemma ways_Goes [simp]: "ways P codes (Goes rt) = P rt"
  by (simp add: ways_def)

section \<open>Accepted configurations\<close>

lemma capacity_same: "effectiveSocketDecodedCapacity F P = EffectiveDecodedCapacity F P"
  by (simp add: effectiveSocketDecodedCapacity_def EffectiveDecodedCapacity_def payload_characters_def Let_def)

lemma accepted_managed:
  assumes "config_Parse timestamp args now lookup = Inr c"
  shows "limits_validate (mg_limits (cg_managed c)) = None" "1 \<le> mg_queue_capacity (cg_managed c)"
    "mg_queue_capacity (cg_managed c) \<le> 1024" "publisher_accepts (mg_publish_interval (cg_managed c))"
    "server_validate (managed_server_config c)"
proof -
  from config_sections [OF assms] obtain pairs where "parseManaged lookup pairs (cg_mode c) = Inr (cg_managed c)" by metis
  from managed_checked [OF this]
  show "limits_validate (mg_limits (cg_managed c)) = None" "1 \<le> mg_queue_capacity (cg_managed c)"
    "mg_queue_capacity (cg_managed c) \<le> 1024" "publisher_accepts (mg_publish_interval (cg_managed c))"
    "server_validate (managed_server_config c)"
    by (auto simp: check_managed_def publisher_accepts_def NewTicker_def server_validate_def managed_server_config_def millisecond_def split: if_splits)
qed

lemma accepted_rest:
  assumes "config_Parse timestamp args now lookup = Inr c"
  shows "wait_validate (cg_final_wait c)" "exposition_validate (cg_exposition c) = None" "ingestion_in_range (cg_ingestion c)"
    "\<exists>i. cg_ingestion c = share_limits i"
  using config_sections [OF assms] wait_checked exposition_checked ingestion_checked by metis+

lemma accepted_ingestion:
  assumes "config_Parse timestamp args now lookup = Inr c"
  shows "config_valid (ig_socket (cg_ingestion c))" "ingest_validate (ig_http (cg_ingestion c))"
proof -
  from accepted_rest(4) [OF assms] obtain i where i: "cg_ingestion c = share_limits i" by blast
  with accepted_rest(3) [OF assms]
  show "config_valid (ig_socket (cg_ingestion c))" "ingest_validate (ig_http (cg_ingestion c))"
    by (auto simp: ingestion_in_range_def config_valid_def ingest_validate_def share_limits_def capacity_same millisecond_def second_def)
qed

lemma accepted_handler:
  assumes "config_Parse timestamp args now lookup = Inr c"
  shows "\<exists>h. NewHandler (cg_exposition c) metrics = Inr h"
  using accepted_rest(2) [OF assms]
  by (auto simp: NewHandler_def exposition_validate_def NewLimiter_def Let_def split: sum.splits if_splits prod.splits)

lemma ways_or_reject: "x = Some a \<Longrightarrow> P a \<Longrightarrow> ways P codes (or_reject env rt x)"
  by (simp add: or_reject_def)

lemma ways_build_owner:
  assumes "config_Parse timestamp args now lookup = Inr c" "runtime_state rt = Initializing"
  shows "ways (\<lambda>(_, rt). runtime_state rt = Initializing) {70} (build_owner env c rt)"
proof -
  note m = accepted_managed [OF assms(1)]
  show ?thesis
    unfolding build_owner_def
  proof (rule ways_and_go [where Q = "\<lambda>_. True"])
    show "ways (\<lambda>_. True) {70} (or_reject env rt (result_option (bootstrapManagedRegistry (cg_mode c) (mg_limits (cg_managed c)))))"
      using m(1) by (auto simp: or_reject_def result_option_def bootstrapManagedRegistry_def NewRegistryWithLimits_def)
    fix registry :: "Registry option"
    show "ways (\<lambda>(_, rt). runtime_state rt = Initializing) {70}
       (case registry of None \<Rightarrow> Goes (None, rt) | Some registry \<Rightarrow>
          and_go (or_reject env rt (result_option (NewOwner registry (mg_queue_capacity (cg_managed c))))) (\<lambda>owner.
            let ob = observer_Initialize owner \<lparr>mv_metrics = fst (rt_world rt), mv_logger = snd (rt_world rt), mv_connections = 0\<rparr>
            in Goes (Some owner, rt\<lparr>rt_world := (mv_metrics ob, mv_logger ob)\<rparr>)))"
      using m(2,3) assms(2) by (auto simp: or_reject_def result_option_def NewOwner_def Let_def split: option.split)
  qed
qed

lemma ways_build_core:
  assumes "config_Parse timestamp args now lookup = Inr c" "runtime_state rt = Initializing"
  shows "ways (\<lambda>(_, rt). runtime_state rt = Initializing) {70} (build_core env c owner rt)"
  using accepted_rest(3) [OF assms(1)] accepted_managed(4) [OF assms(1)] accepted_handler [OF assms(1), of "fst (rt_world rt)"] assms(2)
  by (auto simp: build_core_def build_handler_def or_reject_def result_option_def NewWithParser_def ingestion_in_range_def)

lemma ways_build:
  assumes "config_Parse timestamp args now lookup = Inr c" "runtime_state rt = Initializing"
  shows "ways (\<lambda>(_, rt). runtime_state rt = Initializing) {70} (build env c rt)"
proof -
  let ?at = "\<lambda>rt. runtime_state rt = Initializing"
  have metered: "ways ?at {70} (or_fail (metering f rt))" if "?at rt" for f rt
    using that by (intro ways_or_fail) (simp_all add: same_state ExitInternalFailure_def)
  show ?thesis
    unfolding build_def
    by (rule ways_and_go [OF ways_build_owner [OF assms]], clarify)
      (rule ways_and_go [OF metered ways_and_go [OF metered ways_build_core [OF assms(1)]]])
qed

section \<open>The workload and the end\<close>

definition past_workload :: "runtime \<Rightarrow> bool" where
  "past_workload rt \<longleftrightarrow> runtime_state rt \<in> {Finalizing, Failed, Terminated}"

lemma past_transit: "past_workload rt \<Longrightarrow> ev \<in> {WorkloadStarted, WorkloadExited, RuntimeFailed, TerminationAfterSpawn} \<Longrightarrow> past_workload (fst (transit ev rt))"
  by (auto simp: past_workload_def transit_state targets_eval)

lemma past_if_ok: "past_workload (fst r) \<Longrightarrow> (\<And>s. past_workload s \<Longrightarrow> past_workload (fst (f s))) \<Longrightarrow> past_workload (fst (if_ok r f))"
  by (cases r) (auto simp: if_ok_def)

lemma past_same: "runtime_state rt' = runtime_state rt \<Longrightarrow> past_workload rt' = past_workload rt"
  by (simp add: past_workload_def)

lemmas past_metering = past_same [OF metering_state] past_same [OF report_state] past_same [OF count_failure_state]
  past_same [OF close_admission_state]

lemma exited_past:
  assumes "on_primary_exited code forced rt = (rt', True)"
  shows "past_workload rt'"
proof -
  from assms have ok: "snd (transit WorkloadExited rt)" by (auto simp: on_primary_exited_def if_ok_True)
  then have "targets (runtime_state rt) WorkloadExited \<noteq> []" by (rule transit_ok)
  then have "past_workload (fst (transit WorkloadExited rt))"
    by (auto simp: past_workload_def transit_state targets_eval split: if_splits)
  then have "past_workload (fst (on_primary_exited code forced rt))"
    unfolding on_primary_exited_def by (auto intro!: past_if_ok simp: past_metering)
  with assms show ?thesis by simp
qed

interpretation runtime_workload: supervised "runtime_observers managed" past_workload for managed
proof
  show "ob_primary_exited (runtime_observers managed) code forced w = (w', True) \<Longrightarrow> past_workload w'" for code forced w w'
    using exited_past by (simp add: runtime_observers_def)
  show "past_workload w \<Longrightarrow> past_workload (fst (ob_primary_exited (runtime_observers managed) code forced w))" for w code forced
    by (auto simp: runtime_observers_def on_primary_exited_def past_metering intro!: past_if_ok past_transit)
  show "past_workload w \<Longrightarrow> past_workload (fst (ob_signal (runtime_observers managed) e w))" for w e
    by (auto simp: runtime_observers_def on_signal_def past_metering intro!: past_if_ok split: SignalOutcome.split)
  show "past_workload w \<Longrightarrow> past_workload (fst (ob_shutdown (runtime_observers managed) name plan w))" for w name plan
    unfolding runtime_observers_def on_shutdown_def
    by (auto simp: past_metering past_same [of "w\<lparr>rt_plan := Some plan\<rparr>" w] intro!: past_if_ok past_transit)
  show "past_workload w \<Longrightarrow> past_workload (fst (ob_forced (runtime_observers managed) name pgid w))" for w name pgid
    by (auto simp: runtime_observers_def on_forced_def past_metering intro!: past_if_ok)
  show "past_workload w \<Longrightarrow> past_workload (fst (ob_child_reaped (runtime_observers managed) kind w))" for w kind
    by (auto simp: runtime_observers_def on_child_reaped_def past_metering intro!: past_if_ok)
qed

text \<open>The final wait, when it ends without an error, ends in the terminated state.\<close>

lemma observability_state [same_state]:
  "runtime_state (fst (startFinalWaitObservability cfg st started rt)) = runtime_state rt"
  "runtime_state (fst (completeFinalWaitObservability result st duration rt)) = runtime_state rt"
  unfolding startFinalWaitObservability_def completeFinalWaitObservability_def
  by (subst if_ok_state | simp add: same_state split: option.split)+

lemma responses_state [same_state]: "runtime_state (fold observeFinalResponse responses rt) = runtime_state rt"
  by (induction responses arbitrary: rt) (simp_all add: observeFinalResponse_def Let_def ignoring_def same_state)

lemma if_ok_result: "snd (if_ok r f) \<Longrightarrow> (snd (f (fst r)) \<Longrightarrow> P (fst (f (fst r)))) \<Longrightarrow> P (fst (if_ok r f))"
  by (cases r) (auto simp: if_ok_def split: if_splits)

lemma immediate_wait_ends:
  assumes "runtime_state rt = Finalizing" "snd (immediate_wait fin cfg waiter rt)"
  shows "runtime_state (fst (immediate_wait fin cfg waiter rt)) = Terminated"
  using assms(2) unfolding immediate_wait_def
proof (rule if_ok_result [where P = "\<lambda>rt. runtime_state rt = Terminated"], goal_cases)
  case 1
  show ?case
  proof (cases "wait_start False (fe_wait_started fin) waiter")
    case (Inr w)
    from 1 show ?thesis
      unfolding Inr sum.case by (rule if_ok_result) (simp add: transit_state same_state assms(1) targets_eval)
  qed (use 1 in simp)
qed

lemma served_wait_ends:
  assumes "runtime_state rt = Finalizing" "snd (served_wait fin cfg waiter rt)"
  shows "runtime_state (fst (served_wait fin cfg waiter rt)) = Terminated"
proof -
  let ?f = "startFinalWaitObservability cfg FinalWait (fe_wait_started fin)"
  obtain rt1 ok where r: "if_ok (transit FinalizationWait rt) ?f = (rt1, ok)" by fastforce
  have ok: ok using assms(2) r by (auto simp: served_wait_def wait_start_def split: if_splits)
  have "runtime_state (fst (if_ok (transit FinalizationWait rt) ?f)) = FinalWait"
  proof (rule if_ok_result)
    show "snd (if_ok (transit FinalizationWait rt) ?f)" using r ok by simp
    show "runtime_state (fst (?f (fst (transit FinalizationWait rt)))) = FinalWait"
      by (simp add: same_state transit_state targets_eval assms(1))
  qed
  with r have at: "runtime_state rt1 = FinalWait" by simp
  show ?thesis
  proof (cases "wait_start False (fe_wait_started fin) waiter")
    case (Inl e)
    with assms(2) r ok show ?thesis by (simp add: served_wait_def)
  next
    case (Inr w)
    let ?g = "if_ok (completeFinalWaitObservability (snd (wait_finish (fe_reason fin) (fe_waiter fin w))) FinalWait
        (time_sub (fe_wait_ended fin) (fe_wait_started fin)) (fold observeFinalResponse (fe_responses fin) rt1)) (transit FinalWaitCompleted)"
    have g: "served_wait fin cfg waiter rt = ?g" using r ok Inr by (simp add: served_wait_def)
    show ?thesis using assms(2) unfolding g by (rule if_ok_result) (simp add: transit_state same_state at targets_eval)
  qed
qed

lemma final_wait_terminates:
  "runtime_state rt = Finalizing \<Longrightarrow> snd (final_wait fin cfg generation rt) \<Longrightarrow>
     runtime_state (fst (final_wait fin cfg generation rt)) = Terminated"
  by (auto simp: final_wait_def immediate_wait_ends served_wait_ends split: option.splits if_splits)

lemma ways_finalization:
  assumes "runtime_state rt = Finalizing" "70 \<in> codes"
  shows "ways (\<lambda>rt. runtime_state rt = Terminated) codes (finalization fin c rt)"
proof (cases "final_snapshot fin c (rt_plan rt)")
  case None
  with assms show ?thesis by (auto simp: finalization_def ExitInternalFailure_def intro!: ways_or_fail)
next
  case (Some final)
  let ?rt = "ignoring (metering (SetActiveSnapshot final)) (close_admission rt)"
  have "runtime_state ?rt = Finalizing" using assms by (simp add: ignoring_def same_state)
  with Some assms show ?thesis
    by (auto simp: finalization_def Let_def ExitInternalFailure_def transit_state targets_eval intro!: ways_or_fail final_wait_terminates)
qed

section \<open>The whole run\<close>

lemma ways_report_shutdown:
  "runtime_state rt = st \<Longrightarrow> 70 \<in> codes \<Longrightarrow> ways (\<lambda>rt. runtime_state rt = st) codes (report_shutdown fin r rt)"
  unfolding report_shutdown_def Let_def
  by (auto simp: same_state ExitInternalFailure_def split: option.split
      intro!: ways_and_go [where Q = "\<lambda>rt. runtime_state rt = st"] ways_or_fail)

lemma ways_report_start_failed:
  assumes "runtime_state rt = st" "wl_start_failed r \<longrightarrow> st = StartingWorkload" "70 \<in> codes"
  shows "ways (\<lambda>rt. runtime_state rt = (if wl_start_failed r then Failed else st)) codes (report_start_failed r rt)"
proof (cases "wl_start_failed r")
  case True
  let ?at = "\<lambda>st rt. runtime_state rt = st"
  have written: "ways (?at Failed) codes (case report WriteWorkloadStartFailed rt of (rt, True) \<Rightarrow> Goes rt | (rt, False) \<Rightarrow> Exits rt ExitInternalFailure)"
    if "?at Failed rt" for rt
    using that assms(3) report_state [of WriteWorkloadStartFailed rt] by (auto simp: ways_def ExitInternalFailure_def split: prod.split bool.split)
  have c: "ExitInternalFailure \<in> codes" using assms(3) by (simp add: ExitInternalFailure_def)
  have kept: "ways (?at st) codes (or_fail (metering f rt))" "ways (?at st) codes (or_fail (count_failure x rt))" if "?at st rt" for rt f x
    using that by (auto intro!: ways_or_fail c simp: same_state)
  have failed: "ways (?at Failed) codes (or_fail (transit WorkloadStartFailed rt))" if "?at st rt" for rt
    using that assms(2) True by (auto intro!: ways_or_fail c simp: transit_state targets_eval)
  have "ways (?at Failed) codes (report_start_failed r rt)"
    using True unfolding report_start_failed_def
    by (simp only: not_True_eq_False if_False)
      (rule ways_and_go [OF kept(1) ways_and_go [OF kept(2) ways_and_go [OF failed written]]], rule assms(1))
  with True show ?thesis by simp
qed (use assms in \<open>simp add: report_start_failed_def\<close>)

lemma ways_finish:
  assumes "wl_start_failed r \<longrightarrow> runtime_state rt = StartingWorkload"
    and "wl_started r \<longrightarrow> wl_exit_code r = 70 \<or> past_workload rt"
    and "\<not> wl_started r \<longrightarrow> wl_exit_code r = 70 \<or> runtime_state rt = StartingWorkload"
  shows "ways (\<lambda>_. False) {70, wl_exit_code r} (finish fin c r rt)"
proof -
  let ?codes = "{70, wl_exit_code r}" and ?st = "runtime_state rt"
  let ?st1 = "if wl_start_failed r then Failed else ?st"
  have last: "ways (\<lambda>_. False) ?codes (Exits (if runtime_state rt = Failed then ignoring (transit CleanupCompleted) rt else rt) (wl_exit_code r))"
    if "wl_exit_code r = 70 \<or> runtime_state rt \<in> {Failed, Terminated}" for rt
    using that by (auto simp: ways_def ExitInternalFailure_def ignoring_def transit_state targets_eval)
  have third: "ways (\<lambda>rt. wl_exit_code r = 70 \<or> runtime_state rt \<in> {Failed, Terminated}) ?codes
     (if wl_started r \<and> runtime_state rt = Finalizing then finalization fin c rt
      else if \<not> wl_started r \<and> \<not> wl_start_failed r \<and> runtime_state rt = StartingWorkload then or_fail (transit TerminationBeforeSpawn rt)
      else Goes rt)" if st: "runtime_state rt = ?st1" for rt
  proof -
    consider (final) "wl_started r \<and> runtime_state rt = Finalizing"
      | (before) "\<not> (wl_started r \<and> runtime_state rt = Finalizing)" "\<not> wl_started r \<and> \<not> wl_start_failed r \<and> runtime_state rt = StartingWorkload"
      | (over) "\<not> (wl_started r \<and> runtime_state rt = Finalizing)" "\<not> (\<not> wl_started r \<and> \<not> wl_start_failed r \<and> runtime_state rt = StartingWorkload)"
      by blast
    then show ?thesis
    proof cases
      case final
      with ways_finalization [of rt ?codes fin c] show ?thesis by (auto simp: ways_def split: going.splits)
    next
      case before
      then show ?thesis by (auto simp: ExitInternalFailure_def transit_state targets_eval intro!: ways_or_fail)
    next
      case over
      with st assms show ?thesis by (auto simp: past_workload_def split: if_splits)
    qed
  qed
  show ?thesis
    unfolding finish_def
    by (rule ways_and_go [OF ways_report_shutdown [of _ ?st] ways_and_go [OF ways_report_start_failed [of _ ?st]
          ways_and_go [OF third last]]]) (use assms(1) in auto)
qed

lemma boot_state:
  assumes "boot version revision pid now logger = Some rt"
  shows "runtime_state rt = Initializing" "machine_observer (rt_machine rt) = Some state_observer" "dl_takes (snd (rt_world rt)) = dl_takes logger"
  using assms
  by (auto simp: boot_def New_def notify_def state_observer_def WriteRuntimeInitializing_def WriteStateChanged_def logger_write_def
      split: prod.splits bool.splits sum.splits option.splits if_splits)

text \<open>While the log takes every record, no transition of the table fails.\<close>

lemma transit_logged:
  assumes "machine_observer (rt_machine rt) = Some state_observer" "\<And>n. dl_takes (snd (rt_world rt)) n"
    "targets (runtime_state rt) ev \<noteq> []"
  shows "snd (transit ev rt)"
proof (cases rule: TransitionEvent_cases [of "rt_machine rt" ev "rt_world rt"])
  case (accepted t w err)
  have "state_string t \<in> set (map state_string States)" by (cases t) (simp_all add: States_def)
  with accepted assms(1,2) show ?thesis
    by (auto simp: transit_def notify_def state_observer_def SetRuntimeState_def WriteStateChanged_def logger_write_def)
qed (use assms in simp)

lemma rejected_exits:
  assumes "boot version revision pid now logger = Some rt" "run_rejected message rt = (rt', code)"
  shows "code \<in> {64, 70}" "(\<And>n. dl_takes logger n) \<Longrightarrow> code = 64 \<and> runtime_state rt' = Terminated"
proof -
  show "code \<in> {64, 70}"
    using assms(2) by (auto simp: run_rejected_def ExitConfigurationRejected_def ExitConfigurationInvalid_def split: prod.splits bool.splits)
  assume takes: "\<And>n. dl_takes logger n"
  let ?r = "report (WriteConfigurationRejected message) (ignoring (count_failure ''configuration'') rt)"
  obtain rt1 ok where r: "?r = (rt1, ok)" by fastforce
  have 1: ok "runtime_state rt1 = Initializing" "machine_observer (rt_machine rt1) = Some state_observer" "\<And>n. dl_takes (snd (rt_world rt1)) n"
    using r boot_state [OF assms(1)] takes
    by (auto simp: report_def WriteConfigurationRejected_def logger_write_def ignoring_def count_failure_def metering_def split: sum.splits)
  obtain rt2 ok2 where t: "transit InitializationFailed rt1 = (rt2, ok2)" by fastforce
  have "ok2" "runtime_state rt2 = Failed"
    using transit_logged [of rt1 InitializationFailed] transit_state [of InitializationFailed rt1] 1(2-4) t by (auto simp: targets_eval)
  with assms(2) r 1(1) t show "code = 64 \<and> runtime_state rt' = Terminated"
    by (auto simp: run_rejected_def ignoring_def transit_state targets_eval ExitConfigurationInvalid_def)
qed

lemma workload_ways:
  assumes "workload_run (runtime_observers managed) cfg subreaper waiting proc events clean rt = (rt', Some r)"
    "runtime_state rt = StartingWorkload"
  shows "ways (\<lambda>_. False) {70, wl_exit_code r} (finish fin c r rt') \<and>
    (wl_exit_code r = 70 \<or> (\<exists>t. drainPreStartSignals waiting = Inr t \<and> wl_exit_code r = 128 + signal_number t) \<or>
      proc = None \<and> wl_exit_code r = 73 \<or>
      (\<exists>pid status. proc = Some pid \<and> Child_Reaped pid status \<in> set events \<and> wl_exit_code r = exit_code status))"
  using assms(1)
proof (cases rule: runtime_workload.run_outcomes)
  case failed
  then have "wl_exit_code r = 70" "\<not> wl_start_failed r" by (simp_all add: internal_result_def ExitInternalFailure_def)
  then show ?thesis using ways_finish [of r rt' fin c] by simp
next
  case (before t)
  then have "\<not> wl_start_failed r" "\<not> wl_started r" "wl_exit_code r = 128 + signal_number t" by simp_all
  then show ?thesis using ways_finish [of r rt' fin c] before(1,2) assms(2) by simp
next
  case start_failed
  then have "\<not> wl_started r" "wl_exit_code r = 73" by (simp_all add: ExitWorkloadStartFailed_def)
  then show ?thesis using ways_finish [of r rt' fin c] start_failed(1,2) assms(2) by simp
next
  case internal
  then have "wl_exit_code r = 70" "\<not> wl_start_failed r" by (simp_all add: internal_result_def ExitInternalFailure_def)
  then show ?thesis using ways_finish [of r rt' fin c] by simp
next
  case (exited pid status forced)
  then have "wl_started r" "\<not> wl_start_failed r" "wl_exit_code r = exit_code status"
    by (simp_all add: resolve_exit_code resolveWaitStatus_def exit_code_def split: wait_status.splits)
  then show ?thesis using ways_finish [of r rt' fin c] exited(1-3) by auto
qed

text \<open>A booted runtime is always built from an accepted configuration: its metrics take the updates.\<close>

lemma try_gauge_shape: "shape (try_gauge name labels v r) = shape r"
  using some_writes_keep [OF self_step_writes [OF set_gauge]] by (auto simp: try_gauge_def split: sum.splits)

lemma project_shape: "shape (project st m) = shape m"
  by (simp add: project_def try_gauge_shape)

lemma state_observer_shape: "shape (fst (fst (state_observer ch w))) = shape (fst w)"
  by (simp add: state_observer_def SetRuntimeState_def setOneHot_shape split: prod.split)

lemma New_shape: "shape (fst (fst (New (Some state_observer) w))) = shape (fst w)"
  by (simp add: New_def notify_def Let_def state_observer_shape split: prod.split option.split)
     (metis fst_conv state_observer_shape)

lemma boot_metrics:
  assumes "boot version revision pid now logger = Some rt"
  obtains m where "NewSelfRegistry version revision ''immediate'' now = Inr m" "shape (fst (rt_world rt)) = shape m"
proof -
  obtain l ok where l: "WriteRuntimeInitializing pid logger = (l, ok)" by fastforce
  obtain m where m: "NewSelfRegistry version revision ''immediate'' now = Inr m"
    using assms l by (cases "NewSelfRegistry version revision ''immediate'' now") (auto simp: boot_def split: bool.splits)
  obtain w n where n: "New (Some state_observer) (m, l) = (w, n)" by fastforce
  have "rt_world rt = w" using assms l m n by (auto simp: boot_def split: bool.splits sum.splits)
  with New_shape [of "(m, l)"] n m show thesis by (intro that) simp_all
qed

lemma f64_of_small:
  assumes "2 ^ k \<le> n" "n < 2 ^ Suc k" "k \<le> 52"
  shows "f64_of_int (int n) = Fin False (n * 2 ^ (52 - k)) (int k - 52)"
proof -
  have p: "(2::nat) ^ k * 2 ^ (52 - k) = 2 ^ 52" "(2::nat) ^ Suc k * 2 ^ (52 - k) = 2 ^ 53"
    using assms(3) by (simp_all flip: power_add)
  have m: "2 ^ 52 \<le> n * 2 ^ (52 - k)" using mult_le_mono1 [OF assms(1), of "2 ^ (52 - k)"] unfolding p .
  have m': "n * 2 ^ (52 - k) < 2 ^ 53"
    using mult_strict_right_mono [OF assms(2), of "2 ^ (52 - k)"] unfolding p by simp
  have "f64_round False n 1 = Fin False (n * 2 ^ (52 - k)) (int k - 52)"
    by (rule f64_round_Fin) (use m m' assms(3) less_le_trans [OF _ assms(1), of 0] in \<open>auto simp: f64_wf_def nat_diff_distrib\<close>)
  then show ?thesis by (simp add: f64_of_int_def)
qed

lemma small_gauge:
  assumes "1 \<le> n" "n \<le> 16"
  shows "\<not> bad_value (f64_of_int n) \<and> is_integral (f64_of_int n)"
proof -
  obtain k where k: "2 ^ k \<le> nat n" "nat n < 2 ^ Suc k" "k \<le> 52"
  proof -
    consider "nat n < 2" | "2 \<le> nat n" "nat n < 4" | "4 \<le> nat n" "nat n < 8" | "8 \<le> nat n" "nat n < 16" | "nat n = 16"
      using assms by linarith
    then show thesis
      using assms that [of 0] that [of 1] that [of 2] that [of 3] that [of 4] by cases simp_all
  qed
  have "f64_of_int n = Fin False (nat n * 2 ^ (52 - k)) (int k - 52)" using f64_of_small [OF k] assms(1) by simp
  with k(3) show ?thesis
    by (simp add: bad_value_def f64_less_def is_nan_def is_inf_def is_inf_pos_def is_inf_neg_def f64_zero_def is_integral_def fin_int_def nat_diff_distrib)
qed

lemma build_owner_goes:
  assumes "config_Parse timestamp args now lookup = Inr c"
  obtains owner m where "build_owner env c rt = Goes (owner, rt\<lparr>rt_world := (m, snd (rt_world rt))\<rparr>)" "shape m = shape (fst (rt_world rt))"
proof (cases "cg_mode c = ModeManagedRegistry")
  case True
  obtain registry where r: "NewRegistryWithLimits (mg_limits (cg_managed c)) = Inr registry"
    using accepted_managed(1) [OF assms] by (auto simp: NewRegistryWithLimits_def)
  obtain owner where o: "NewOwner registry (mg_queue_capacity (cg_managed c)) = Inr owner"
    using accepted_managed(2,3) [OF assms] by (auto simp: NewOwner_def)
  from True r o show thesis
    by (intro that [of "Some owner" "mv_metrics (observer_Initialize owner \<lparr>mv_metrics = fst (rt_world rt), mv_logger = snd (rt_world rt), mv_connections = 0\<rparr>)"])
       (auto simp: build_owner_def bootstrapManagedRegistry_def result_option_def or_reject_def observer_Initialize_def
          try_gauge_shape project_shape)
next
  case False
  then show thesis
    by (intro that [of None "fst (rt_world rt)"])
       (simp_all add: build_owner_def bootstrapManagedRegistry_def result_option_def or_reject_def)
qed

lemma build_core_goes:
  assumes "config_Parse timestamp args now lookup = Inr c"
  obtains cp m where "build_core env c owner rt = Goes (cp, rt\<lparr>rt_world := (m, snd (rt_world rt))\<rparr>)"
  using accepted_rest(3) [OF assms] accepted_managed(4) [OF assms] accepted_handler [OF assms, of "fst (rt_world rt)"]
  by (auto simp: build_core_def build_handler_def or_reject_def result_option_def NewWithParser_def ingestion_in_range_def)

lemma build_goes:
  assumes "config_Parse timestamp args now0 lookup = Inr c" "boot version revision pid now logger = Some rt"
  obtains cp m where "build env c rt = Goes (cp, rt\<lparr>rt_world := (m, snd (rt_world rt))\<rparr>)"
proof -
  obtain m0 where m0: "NewSelfRegistry version revision ''immediate'' now = Inr m0" "shape (fst (rt_world rt)) = shape m0"
    using boot_metrics [OF assms(2)] .
  obtain owner m1 where b: "build_owner env c rt = Goes (owner, rt\<lparr>rt_world := (m1, snd (rt_world rt))\<rparr>)" "shape m1 = shape (fst (rt_world rt))"
    using build_owner_goes [OF assms(1)] .
  have v: "wait_validate (cg_final_wait c)" using accepted_rest(1) [OF assms(1)] .
  then have mode: "wait_mode_text (wc_mode (cg_final_wait c)) \<in> set FinalWaitModes"
    by (auto simp: wait_validate_def FinalWaitModes_def)
  let ?m2 = "setOneHot FinalWaitModeInfo ''mode'' (wait_mode_text (wc_mode (cg_final_wait c))) m1"
  have "free_gauge ?m2 FinalWaitRequiredScrapes"
    using b(2) m0(2) by (intro required_scrapes_free [OF m0(1)]) (simp add: setOneHot_shape)
  moreover have "\<not> isBinaryGauge FinalWaitRequiredScrapes" by code_simp
  moreover have "1 \<le> wc_required_scrapes (cg_final_wait c)" "wc_required_scrapes (cg_final_wait c) \<le> 16"
    using v by (auto simp: wait_validate_def)
  ultimately obtain m3 where m3: "SetGauge FinalWaitRequiredScrapes [] (f64_of_int (wc_required_scrapes (cg_final_wait c))) ?m2 = Inr m3"
    using free_gauge_set small_gauge by meson
  obtain cp m4 where "build_core env c owner (rt\<lparr>rt_world := (m3, snd (rt_world rt))\<rparr>) = Goes (cp, rt\<lparr>rt_world := (m4, snd (rt_world rt))\<rparr>)"
    using build_core_goes [OF assms(1), of env owner "rt\<lparr>rt_world := (m3, snd (rt_world rt))\<rparr>"] by auto
  with b(1) mode m3 show thesis
    by (intro that) (simp add: build_def metering_def SetFinalWaitMode_def or_fail_def)
qed

text \<open>Starting: the resources and endpoints decide first, in this order; then only the log can fail.\<close>

lemma start_unavailable:
  assumes "runtime_state rt = Initializing"
  shows "\<not> hasNoFile (be_nofile env) (RequiredNoFile c) \<Longrightarrow> \<exists>rt'. start env c rt = Exits rt' 71 \<and> runtime_state rt' = Terminated"
    and "hasNoFile (be_nofile env) (RequiredNoFile c) \<Longrightarrow> \<not> (be_binds env \<and> startConfiguredIngestion (be_resolve env) c \<and> be_ingests env) \<Longrightarrow>
      \<exists>rt'. start env c rt = Exits rt' 72 \<and> runtime_state rt' = Terminated"
  using assms
  by (auto simp: start_def resource_failure_def Let_def ignoring_def transit_state same_state targets_eval
      ExitResourceUnavailable_def ExitEndpointBindFailed_def)

lemma start_available:
  assumes "runtime_state rt = Initializing" "hasNoFile (be_nofile env) (RequiredNoFile c)"
    "be_binds env \<and> startConfiguredIngestion (be_resolve env) c \<and> be_ingests env"
  shows "ways (\<lambda>rt. runtime_state rt = StartingWorkload) {70} (start env c rt)"
  using assms(2,3) unfolding start_def
  by (auto simp: ExitInternalFailure_def assms(1) same_state targets_eval
      intro!: ways_and_go [where Q = "\<lambda>rt. runtime_state rt = Initializing"] ways_or_fail simp: transit_state)

lemma start_logged:
  assumes "runtime_state rt = Initializing" "hasNoFile (be_nofile env) (RequiredNoFile c)"
    "be_binds env \<and> startConfiguredIngestion (be_resolve env) c \<and> be_ingests env"
    and "machine_observer (rt_machine rt) = Some state_observer" "\<And>n. dl_takes (snd (rt_world rt)) n"
  shows "\<exists>rt'. start env c rt = Goes rt'"
proof -
  let ?a = "fst (report (WriteEndpointBound ''exposition'' (state_text rt)) rt)"
  let ?b = "fst (report (WriteEndpointBound ''ingestion'' (state_text ?a)) ?a)"
  have bound: "snd (report (WriteEndpointBound e (state_text q)) q) \<and>
      rt_machine (fst (report (WriteEndpointBound e (state_text q)) q)) = rt_machine q \<and>
      (\<forall>n. dl_takes (snd (rt_world (fst (report (WriteEndpointBound e (state_text q)) q)))) n)"
    if "\<And>n. dl_takes (snd (rt_world q)) n" for e q
    using that by (simp add: report_def WriteEndpointBound_def logger_write_def)
  note a = bound [of rt "''exposition''", OF assms(5)]
  note b = bound [of ?a "''ingestion''"]
  have "snd (transit ConfigurationValidated ?b)"
    using a b assms(1,4) by (intro transit_logged) (auto simp: targets_eval)
  with a b assms(2,3) show ?thesis by (auto simp: start_def or_fail_def split: prod.split)
qed


text \<open>
  C38: What the parser of the configuration accepts, the components accept: none of them is refused its settings
  when the runtime is built, the final wait and the shutdown budget take theirs, and the ingestion can only be
  refused an address, a relative path or a host that is not a loopback one.
\<close>

theorem accepted_configuration_builds:
  assumes "config_Parse timestamp args now lookup = Inr c" "runtime_state rt = Initializing"
  shows "(\<forall>rt' code. build env c rt = Exits rt' code \<longrightarrow> code = ExitInternalFailure) \<and>
    newWaiter (cg_final_wait c) generation \<noteq> None \<and> budget_validate (cg_shutdown c) now = None \<and>
    startConfiguredIngestion addresses c =
      (if cg_mode c = ModeManagedRegistry then True
       else if ig_transport (cg_ingestion c) = ''file'' then has_prefix (fc_path (ig_file (cg_ingestion c))) ''/''
       else if ig_transport (cg_ingestion c) = ''unix'' then has_prefix (ig_unix_socket_path (cg_ingestion c)) ''/''
       else ValidateListenAddress addresses (ig_http_listen (cg_ingestion c)))"
proof (intro conjI)
  show "\<forall>rt' code. build env c rt = Exits rt' code \<longrightarrow> code = ExitInternalFailure"
    using ways_build [OF assms, of env] by (auto simp: ways_def ExitInternalFailure_def)
  show "newWaiter (cg_final_wait c) generation \<noteq> None" using accepted_rest(1) [OF assms(1)] by (simp add: newWaiter_def)
  show "budget_validate (cg_shutdown c) now = None" using config_sections [OF assms(1)] shutdown_checked by metis
  obtain i where i: "cg_ingestion c = share_limits i" using accepted_rest(4) [OF assms(1)] by blast
  show "startConfiguredIngestion addresses c =
      (if cg_mode c = ModeManagedRegistry then True
       else if ig_transport (cg_ingestion c) = ''file'' then has_prefix (fc_path (ig_file (cg_ingestion c))) ''/''
       else if ig_transport (cg_ingestion c) = ''unix'' then has_prefix (ig_unix_socket_path (cg_ingestion c)) ''/''
       else ValidateListenAddress addresses (ig_http_listen (cg_ingestion c)))"
    using accepted_managed(5) [OF assms(1)] accepted_ingestion [OF assms(1)] accepted_rest(3) [OF assms(1)] i
    by (auto simp: startConfiguredIngestion_def startIngestion_def managed_listen_def socket_Listen_def ensurePrivateParent_def New_Reconciler_def
        ingest_server_ok_def ingestion_in_range_def validIngestionTransport_def share_limits_def)
qed

section \<open>Concrete runs\<close>

lemma boot_total:
  assumes "\<And>n. dl_takes logger n"
  shows "\<exists>rt. boot version revision pid now logger = Some rt"
proof -
  obtain m where m: "NewSelfRegistry version revision ''immediate'' now = Inr m"
    using NewSelfRegistry_total [of "''immediate''" version revision now] by (auto simp: FinalWaitModes_def)
  with assms show ?thesis
    by (auto simp: boot_def New_def notify_def state_observer_def SetRuntimeState_def States_def WriteRuntimeInitializing_def
        WriteStateChanged_def logger_write_def)
qed

text \<open>Without options and environment every section of the configuration is its default.\<close>

lemma sum_list_at_least: "(\<And>x. x \<in> set xs \<Longrightarrow> (k::int) \<le> f x) \<Longrightarrow> int (length xs) * k \<le> sum_list (map f xs)"
proof (induction xs)
  case (Cons x xs)
  then have "int (length xs) * k \<le> sum_list (map f xs)" "k \<le> f x" by auto
  then show ?case by (simp add: algebra_simps)
qed simp

lemma default_capacity: "SnapshotBytes DefaultLimits \<le> effectiveSocketDecodedCapacity (8 * 2 ^ 10) 256"
proof -
  let ?f = "\<lambda>index. let n = 8 * 2 ^ 10 - go_len ''MSP/1 SNAPSHOT_PART '' - 64 - 1 - go_len (itoa index) - 1 - 1 in if n > 0 then n * 3 div 4 else (0::int)"
  have "6000 \<le> ?f i" if "i \<in> set [0..<nat 256]" for i
  proof -
    have "i \<le> 999" using that by simp
    moreover have "length (itoa 999) = 3" by (simp add: itoa.simps)
    ultimately have "length (itoa i) \<le> 3" using length_itoa_mono [of i 999] by simp
    then show ?thesis by (simp add: Let_def)
  qed
  from sum_list_at_least [of "[0..<nat 256]" 6000 ?f, OF this]
  show ?thesis unfolding effectiveSocketDecodedCapacity_def by (simp add: DefaultLimits_def)
qed

lemma default_in_range: "ingestion_in_range (share_limits ingestion_defaults)"
  using default_capacity
  by (simp add: ingestion_in_range_def share_limits_def ingestion_defaults_def validIngestionTransport_def DefaultLimits_def
      second_def millisecond_def minute_def)

lemma none_setting: "setting names (\<lambda>_. None) [] property = None"
  by (simp add: setting_def split: option.split)

lemma parseMode_default: "parseMode (\<lambda>_. None) [] = Inr ModeSnapshot" by code_simp

lemma options_default:
  "parse_socket_options (\<lambda>_. None) c = Inr c" "parse_http_options (\<lambda>_. None) c = Inr c"
  "parse_limit_options (\<lambda>_. None) c = Inr c" "parse_core_options (\<lambda>_. None) c = Inr c"
  by (simp_all add: parse_socket_options_def parse_http_options_def parse_limit_options_def parse_core_options_def
      ingestion_count_def ingestion_time_def parsed_or_def)

lemma parseIngestion_default: "parseIngestion (\<lambda>_. None) [] = Inr (share_limits ingestion_defaults)"
proof -
  have find: "find (\<lambda>property. False) xs = None" for xs :: "string list" by (induction xs) auto
  show ?thesis
    using default_in_range unfolding parseIngestion_def none_setting if_cancel Let_def
    by (simp add: parseMode_default options_default parseIngestionCounts_def ingestion_time_def parsed_or_def rejectInactiveTransportOptions_def find
      split: option.split)
qed
lemma not_isl: "\<not> isl r \<Longrightarrow> \<exists>a. r = Inr a"
  by (cases r) auto

lemma default_sections:
  "\<exists>m. parseManaged (\<lambda>_. None) [] ModeSnapshot = Inr m" "\<exists>b. parseShutdown (\<lambda>_. None) 0 (\<lambda>_. None) [] = Inr b"
  "\<exists>e. parseExposition (\<lambda>_. None) [] = Inr e" "\<exists>w. parseFinalWait (\<lambda>_. None) [] = Inr w" "\<exists>l. parseLog (\<lambda>_. None) [] = Inr l"
proof -
  have "\<not> isl (parseManaged (\<lambda>_. None) [] ModeSnapshot)" by code_simp
  then show "\<exists>m. parseManaged (\<lambda>_. None) [] ModeSnapshot = Inr m" by (rule not_isl)
  have "\<not> isl (parseShutdown (\<lambda>_. None) 0 (\<lambda>_. None) [])" by code_simp
  then show "\<exists>b. parseShutdown (\<lambda>_. None) 0 (\<lambda>_. None) [] = Inr b" by (rule not_isl)
  have "\<not> isl (parseExposition (\<lambda>_. None) [])" by code_simp
  then show "\<exists>e. parseExposition (\<lambda>_. None) [] = Inr e" by (rule not_isl)
  have "\<not> isl (parseFinalWait (\<lambda>_. None) [])" by code_simp
  then show "\<exists>w. parseFinalWait (\<lambda>_. None) [] = Inr w" by (rule not_isl)
  have "\<not> isl (parseLog (\<lambda>_. None) [])" by code_simp
  then show "\<exists>l. parseLog (\<lambda>_. None) [] = Inr l" by (rule not_isl)
qed

lemma plain_command:
  "\<exists>c. config_Parse (\<lambda>_. None) [''--'', ''sh''] 0 (\<lambda>_. None) = Inr c \<and> cg_mode c = ModeSnapshot \<and>
     cg_ingestion c = share_limits ingestion_defaults"
proof -
  have "\<not> unsupported_environment (\<lambda>_. None)" by code_simp
  then show ?thesis using default_sections by (auto simp: config_Parse_def parseMode_default parseIngestion_default)
qed

definition no_descriptors :: boot_env where
  "no_descriptors =
     \<lparr>be_nofile = None, be_binds = True, be_ingests = True, be_resolve = (\<lambda>_. None), be_error_text = ''separator'', be_order = id\<rparr>"

definition idle_workload :: workload_env where
  "idle_workload = \<lparr>we_subreaper = True, we_waiting = [], we_start = Some 7, we_events = [], we_clean = []\<rparr>"

definition idle_finish :: finish_env where
  "idle_finish =
     \<lparr>fe_meanwhile = id, fe_now = 0, fe_publisher_stops = (\<lambda>_. True), fe_context = (\<lambda>_. in_time), fe_managed = None, fe_core = demo_core,
      fe_wait_started = 0, fe_responses = [], fe_waiter = id, fe_reason = ReasonTimeout, fe_terminated = False, fe_wait_ended = 0\<rparr>"

abbreviation idle_run :: "string list \<Rightarrow> runtime \<Rightarrow> (runtime \<times> int) option" where
  "idle_run \<equiv> run_runtime no_descriptors idle_workload idle_finish (\<lambda>_. None) (\<lambda>_. None) 0"


theorem accepted_configuration_builds_witness:
  "\<exists>c rt. config_Parse (\<lambda>_. None) [''--'', ''sh''] 0 (\<lambda>_. None) = Inr c \<and> runtime_state rt = Initializing \<and>
     newWaiter (cg_final_wait c) 5 \<noteq> None \<and> startConfiguredIngestion (\<lambda>_. None) c \<and>
     (\<forall>rt' code. build no_descriptors c rt = Exits rt' code \<longrightarrow> code = ExitInternalFailure)"
proof -
  have "dl_takes (NewLogger (\<lambda>_. True)) n" for n by (simp add: NewLogger_def)
  then obtain rt where rt: "boot ''1.0'' ''abc'' 1 0 (NewLogger (\<lambda>_. True)) = Some rt" using boot_total by blast
  obtain c where c: "config_Parse (\<lambda>_. None) [''--'', ''sh''] 0 (\<lambda>_. None) = Inr c" "cg_mode c = ModeSnapshot"
    "cg_ingestion c = share_limits ingestion_defaults" using plain_command by blast
  note b = accepted_configuration_builds [OF c(1) boot_state(1) [OF rt], of no_descriptors 5 "\<lambda>_. None"]
  have "startConfiguredIngestion (\<lambda>_. None) c"
    using b c(2,3) by (simp add: share_limits_def ingestion_defaults_def has_prefix_def)
  with b c(1) boot_state(1) [OF rt] show ?thesis by blast
qed

end
