(* ===== verification/Spec2Isabelle.thy ===== *)
theory Spec2Isabelle
  imports Lifecycle Snapshot_Parser Ingestion_Facts Msp_Server_Facts Msp_Roundtrip Managed_Owner Managed_Bridge
    Exposition_Properties Exposition_Drain Managed_Wire Runtime_Facts
begin

text \<open>
  \<^bold>\<open>MetricShell.\<close> MetricShell starts a workload, takes metric snapshots from it, serves them together with its own
  metrics to a scraper, and after the end of the workload keeps the final snapshot available for a while. This is
  a shallow embedding of the Go program under \<^verbatim>\<open>src/implementation\<close> with the theorems that make it correct.
  File names below are relative to that directory.

  \<^bold>\<open>The parts and how they interact.\<close> \<^verbatim>\<open>internal/cli/run.go\<close> reads the configuration, builds the components and
  drives the lifecycle machine. Snapshots arrive through one of four transports (a watched file, the socket
  protocol MSP/1, HTTP, or the managed registry with its own protocol, owner, cache and bridge); all of them
  call \<^verbatim>\<open>Publish\<close> of the ingestion core, which bounds, parses and validates the candidate and installs it in the
  holder. The exposition handler renders the active snapshot, filtered, with the runtime metrics. The
  supervision of the workload forwards signals, escalates a termination and reports the exit; then the runtime
  freezes the core, waits for the final scrapes and exits with the code of the workload. Observers project all
  of this into the runtime metrics and the diagnostic log.

  \<^bold>\<open>Conventions.\<close> A Go string is a list of bytes, a struct a record, an error a value of a sum or option type.
  Counters of 64 bits are words that wrap as in the source; durations are 64-bit nanosecond counts with the
  wrap-around and saturation of package \<^verbatim>\<open>time\<close>; a Go \<^verbatim>\<open>int\<close> that holds a size is an integer. What runs under a
  mutex is one function on the state; where goroutines interleave, a step relation has one step for each
  atomic section and the theorems hold in every reachable state. Map iteration in random order is a list in an
  order that is an argument, or is shown not to matter.

  \<^bold>\<open>Theories and what they show.\<close>
  \<^item> \<open>Prelude\<close>, \<open>Go_Strings\<close>, \<open>Go_Duration\<close>, \<open>Float64\<close>, \<open>Float64_Facts\<close>, \<open>Json_Text\<close>, \<open>Json_Parse\<close>,
    \<open>Json_Parse_Facts\<close>, \<open>Json_Line\<close>, \<open>Base64\<close>, \<open>Sha256\<close>: what the program uses of the language and its
    library (numerals, UTF-8, floating point with parsing and shortest formatting, JSON, base64, SHA-256,
    durations), with round trips and the absence of fuel exhaustion.
  \<^item> \<open>Lifecycle\<close> (\<^verbatim>\<open>internal/lifecycle\<close>, \<^verbatim>\<open>internal/probe\<close>): the machine accepts exactly the transitions of its
    specification, every run climbs one order of states, and the probes follow the state.
  \<^item> \<open>Snapshot_Model\<close>, \<open>Snapshot_Facts\<close>, \<open>Snapshot_Properties\<close>, \<open>Snapshot_Parser\<close>, \<open>Snapshot_Holder\<close>
    (\<^verbatim>\<open>internal/snapshot\<close>): validation accepts exactly the well-formed candidates and gives their normal form (with the
    series in the order of the code), the canonical text parses back, generations are consecutive and types stable.
  \<^item> \<open>Ingestion\<close>, \<open>Ingestion_Facts\<close>, \<open>Publisher\<close> (\<^verbatim>\<open>internal/ingestion/core.go\<close>): admission is bounded, a caller
    that is told accepted had the candidate it submitted installed, the final snapshot is fixed, closing drains without
    the end of any context, and the sequential handler refines the interleaved one. The contexts of the calls and of
    \<^verbatim>\<open>CloseAndFreeze\<close> are part of the interleaved state, so giving up and freezing early need a context that is
    done. The locale \<open>publisher\<close> is the contract the transports rely on.
  \<^item> \<open>Msp_Server\<close>, \<open>Msp_Server_Facts\<close>, \<open>Msp_Client\<close>, \<open>Msp_Roundtrip\<close> (\<^verbatim>\<open>internal/socketingest/protocol.go\<close>,
    \<^verbatim>\<open>client/writer.go\<close>): the bounds of a connection, the return of its slots, and client, server and core end to end.
  \<^item> \<open>File_Ingest\<close>, \<open>Http_Ingest\<close> (\<^verbatim>\<open>internal/fileingest\<close>, \<^verbatim>\<open>internal/httpingest\<close>): what a reconciliation and an
    acknowledgement promise.
  \<^item> \<open>Managed_Model\<close>, \<open>Managed_Facts\<close>, \<open>Managed_Registry\<close>, \<open>Managed_Owner\<close>, \<open>Managed_Materialize\<close>,
    \<open>Managed_Bridge\<close> (\<^verbatim>\<open>internal/managed\<close> and the packages around it): the registry's invariant and history,
    batches, the owner as a refinement of one sequential client, publication once per generation and the final
    snapshot. The locales \<open>versioned\<close> and \<open>snapshot_source\<close> are the interfaces in between.
  \<^item> \<open>Managed_Protocol\<close>, \<open>Managed_Server\<close>, \<open>Managed_Client\<close>, \<open>Managed_Wire\<close> (\<^verbatim>\<open>internal/managedprotocol\<close>,
    \<^verbatim>\<open>internal/managedserver\<close>, \<^verbatim>\<open>internal/managedclient\<close>): a command of the client becomes exactly its mutation, and
    the server bounds and drains its connections.
  \<^item> \<open>Listeners\<close> (\<^verbatim>\<open>internal/socketingest/server.go\<close>, \<^verbatim>\<open>internal/managedpublish\<close>): the accept loop bounds and counts its
    connections, a publication ticker that reports its end never publishes again, a stop after the start lets the loop
    end by itself, and a stop before the start is lost.
  \<^item> \<open>Shutdown_Budget\<close>, \<open>Final_Wait\<close> (\<^verbatim>\<open>internal/shutdown\<close>, \<^verbatim>\<open>internal/finalwait\<close>): the plan never overspends, the
    phases end in time, and the reason and the count of a wait are true of the events around it.
  \<^item> \<open>Self_Metrics\<close>, \<open>Self_Metrics_Facts\<close>, \<open>Exposition_Filter\<close>, \<open>Exposition_Text\<close>, \<open>Exposition_Reading\<close>,
    \<open>Exposition_Lines\<close>, \<open>Exposition_Properties\<close>, \<open>Exposition_Handler\<close>, \<open>Exposition_Drain\<close>
    (\<^verbatim>\<open>internal/selfmetric\<close>, \<^verbatim>\<open>internal/exposition\<close>): the runtime metrics keep their series and the one-hot state,
    the text reads back as exactly the samples meant, none twice, and the drain is exact.
  \<^item> \<open>Config_Options\<close>, \<open>Config_Parse\<close>, \<open>Config_Properties\<close> (\<^verbatim>\<open>internal/config/bootstrap.go\<close>): every option and
    variable, the value grammars, the precedence of the command line, and what an accepted configuration satisfies.
  \<^item> \<open>Workload\<close>, \<open>Workload_Facts\<close> (\<^verbatim>\<open>internal/workload/run.go\<close>): forwarding, escalation and the exit code under every
    order of events. The locale \<open>supervised\<close> is what an observer can conclude from a result.
  \<^item> \<open>Diagnostic\<close>, \<open>Runtime_Observers\<close> (\<^verbatim>\<open>internal/diagnostic\<close>, the observers of \<^verbatim>\<open>internal/ingestion/core.go\<close> and
    \<^verbatim>\<open>internal/managedobserve\<close>): the records of the log, the exact in-flight count, and which snapshot the metrics show.
  \<^item> \<open>Runtime\<close>, \<open>Runtime_Facts\<close> (\<^verbatim>\<open>internal/cli/run.go\<close>): every way out of the program with its exit code and the
    state of the machine and what decides it, and that no component refuses an accepted configuration.

  \<^bold>\<open>Where code and documents differ.\<close> The theorems are about the code. \<open>Snapshot_Properties\<close> has the series of a family
  ordered by their identity, as \<^verbatim>\<open>model.go\<close> does, where \<^verbatim>\<open>application-snapshot-protocol.md\<close> says by label pairs
  (\<open>series_order_of_code\<close> shows the difference); \<open>Lifecycle\<close> has no row for a failure in the failed state, which
  \<^verbatim>\<open>runtime-state-machine.md\<close> lists; \<open>Runtime_Observers\<close> shows the snapshot metrics of the publication that completed
  last, where \<^verbatim>\<open>self-metrics.md\<close> says those of the active snapshot; and \<open>Listeners\<close> shows that a publisher of the
  managed registry that is stopped before it is started can not be stopped any more, which the program never does.

  \<^bold>\<open>Simplifications.\<close> A few sections that release several things one after the other are one step: the deferred end of a
  publication, the freeze of the core, and the end of a connection of the managed server. The slot of a committed
  socket transaction is returned before the publication in the model and after it in the code.

  \<^bold>\<open>Bounds and fuel.\<close> The JSON scan runs on fuel of twice the length of the text and one more, which
  \<open>Json_Parse_Facts\<close> shows to be enough for every text; the search for the shortest digits of a number runs on 2100
  steps, enough for every binary64 value by \<open>Float64_Facts\<close>. All other loops are structural or have a termination
  proof. The loop of the supervision runs on the list of its events, and its result is \<open>None\<close> while it has not ended.

  \<^bold>\<open>Not modelled.\<close> Arguments stand for what the program gets from elsewhere: gzip, media types
  (\<^verbatim>\<open>mime.ParseMediaType\<close>), RFC 3339 time stamps, the name resolver, the file system, sockets and their deadlines,
  signals, \<^verbatim>\<open>kill\<close> and \<^verbatim>\<open>wait4\<close>, the clock, and whether a write to the log succeeds. Left out are the
  deadlines of the sockets and the \<^verbatim>\<open>net/http\<close> servers, the JSON text of log records and of the debug view, the subreaper's system call, and the
  watcher's stub for other systems. The tools of the release process, the test fixtures and the research
  prototypes are not part of the program.
\<close>

end
